(* ===== verification/Prelude.thy ===== *)
theory Prelude
  imports Main "HOL-Library.Word"
begin

text \<open>
  What every other theory of the library uses: the machine integers of the code, the type
  of programs (state passing with a C++ style outcome), the rules that compose facts about
  programs, and the collections of facts the component proofs hand to the simplifier.

  The server is C++ whose functions return \<open>0\<close> or \<open>-1\<close>, call \<^verbatim>\<open>abort()\<close>, or never come
  back. A program is a function from a state to a result and the state it leaves:
  \<open>Return x\<close> is the normal return (\<open>0\<close>, with the out-parameters in \<open>x\<close>), \<open>Error\<close> is
  \<open>return -1\<close>, and \<open>Stop\<close> is the end of the process.
\<close>

section \<open>Fact collections\<close>

named_theorems prog_simps \<open>equations that run a program\<close>
named_theorems moves_intros \<open>rules that show a program moves the state along a preorder\<close>

section \<open>Machine integers\<close>

text \<open>
  \<^verbatim>\<open>long\<close> and \<^verbatim>\<open>int\<close> of the x86-64 target are kept as \<^typ>\<open>int\<close>; every arithmetic result and
  every conversion goes through the function of its width.
\<close>

definition s64 :: "int \<Rightarrow> int" where
  "s64 x = signed_take_bit 63 x"

definition u64 :: "int \<Rightarrow> int" where
  "u64 x = take_bit 64 x"

definition s32 :: "int \<Rightarrow> int" where
  "s32 x = signed_take_bit 31 x"

definition u32 :: "int \<Rightarrow> int" where
  "u32 x = take_bit 32 x"

definition long_range :: "int \<Rightarrow> bool" where
  "long_range x \<longleftrightarrow> - (2 ^ 63) \<le> x \<and> x < 2 ^ 63"

lemma s64_id [simp]: "long_range x \<Longrightarrow> s64 x = x"
  by (simp add: s64_def long_range_def signed_take_bit_int_eq_self)

lemma s64_in_range [simp]: "long_range (s64 x)"
  using signed_take_bit_int_greater_eq_minus_exp [of 63 x] signed_take_bit_int_less_exp [of 63 x]
  by (simp add: s64_def long_range_def)

lemma u64_id [simp]: "0 \<le> x \<Longrightarrow> x < 2 ^ 64 \<Longrightarrow> u64 x = x"
  by (simp add: u64_def take_bit_int_eq_self)

lemma u64_bounds: "0 \<le> u64 x" "u64 x < 2 ^ 64"
  using take_bit_int_less_exp [of 64 x] by (simp_all add: u64_def)

lemma s64_u64 [simp]: "s64 (u64 x) = s64 x"
  by (simp add: s64_def u64_def signed_take_bit_take_bit)

lemma u64_s64 [simp]: "u64 (s64 x) = u64 x"
  by (simp add: s64_def u64_def take_bit_signed_take_bit)

lemma s32_id: "- (2 ^ 31) \<le> x \<Longrightarrow> x < 2 ^ 31 \<Longrightarrow> s32 x = x"
  by (simp add: s32_def signed_take_bit_int_eq_self)

section \<open>Programs\<close>

datatype stop =
    Aborted    \<comment> \<open>\<^verbatim>\<open>abort()\<close>\<close>
  | Killed     \<comment> \<open>the process dies between or inside system calls\<close>
  | Undefined  \<comment> \<open>undefined behaviour: a null pointer or a read out of bounds\<close>
  | Diverged   \<comment> \<open>a loop that does not end\<close>

datatype 'a result = Return 'a | Error | Stop stop

type_synonym ('s, 'a) prog = "'s \<Rightarrow> 'a result \<times> 's"

definition ret :: "'a \<Rightarrow> ('s, 'a) prog" where
  "ret x s = (Return x, s)"

definition err :: "('s, 'a) prog" where
  "err s = (Error, s)"

definition halt :: "stop \<Rightarrow> ('s, 'a) prog" where
  "halt k s = (Stop k, s)"

text \<open>\<open>seq\<close> is \<^verbatim>\<open>if (f() != 0) return -1;\<close> followed by the rest of the body.\<close>

definition seq :: "('s, 'a) prog \<Rightarrow> ('a \<Rightarrow> ('s, 'b) prog) \<Rightarrow> ('s, 'b) prog" where
  "seq m f s = (case m s of
      (Return x, t) \<Rightarrow> f x t
    | (Error, t) \<Rightarrow> (Error, t)
    | (Stop k, t) \<Rightarrow> (Stop k, t))"

text \<open>\<open>attempt\<close> is a call whose return code the caller looks at, or ignores.\<close>

definition attempt :: "('s, 'a) prog \<Rightarrow> ('s, 'a option) prog" where
  "attempt m s = (case m s of
      (Return x, t) \<Rightarrow> (Return (Some x), t)
    | (Error, t) \<Rightarrow> (Return None, t)
    | (Stop k, t) \<Rightarrow> (Stop k, t))"

definition gets :: "('s \<Rightarrow> 'a) \<Rightarrow> ('s, 'a) prog" where
  "gets f s = (Return (f s), s)"

definition modify :: "('s \<Rightarrow> 's) \<Rightarrow> ('s, unit) prog" where
  "modify f s = (Return (), f s)"

definition zoom :: "('s \<Rightarrow> 't) \<Rightarrow> ('t \<Rightarrow> 's \<Rightarrow> 's) \<Rightarrow> ('t, 'a) prog \<Rightarrow> ('s, 'a) prog" where
  "zoom g p m s = (case m (g s) of (r, t) \<Rightarrow> (r, p t s))"

text \<open>A program on the first part of a pair (the file system), and access to the second (the object).\<close>

definition on_fst :: "('s, 'a) prog \<Rightarrow> ('s \<times> 't, 'a) prog" where
  "on_fst m s = (case m (fst s) of (r, f) \<Rightarrow> (r, (f, snd s)))"

definition upd_snd :: "('t \<Rightarrow> 't) \<Rightarrow> ('s \<times> 't, unit) prog" where
  "upd_snd g s = (Return (), (fst s, g (snd s)))"

lemmas prog_defs = on_fst_def upd_snd_def ret_def err_def halt_def seq_def attempt_def gets_def modify_def zoom_def

lemma ret_run [prog_simps]: "ret x s = (Return x, s)" by (simp add: ret_def)
lemma err_run [prog_simps]: "err s = (Error, s)" by (simp add: err_def)
lemma halt_run [prog_simps]: "halt k s = (Stop k, s)" by (simp add: halt_def)
lemma gets_run [prog_simps]: "gets f s = (Return (f s), s)" by (simp add: gets_def)
lemma modify_run [prog_simps]: "modify f s = (Return (), f s)" by (simp add: modify_def)

lemma upd_snd_run [prog_simps]: "upd_snd g s = (Return (), (fst s, g (snd s)))"
  by (simp add: upd_snd_def)

lemma on_fst_run: "on_fst m s = (r, t) \<longleftrightarrow> m (fst s) = (r, fst t) \<and> snd t = snd s"
  by (cases t) (auto simp: on_fst_def split: prod.splits)

lemma seq_Return: "m s = (Return x, t) \<Longrightarrow> seq m f s = f x t"
  by (simp add: seq_def)

lemma seq_Error: "m s = (Error, t) \<Longrightarrow> seq m f s = (Error, t)"
  by (simp add: seq_def)

lemma seq_Stop: "m s = (Stop k, t) \<Longrightarrow> seq m f s = (Stop k, t)"
  by (simp add: seq_def)

lemma seq_ret [prog_simps]: "seq (ret x) f = f x"
  by (rule ext) (simp add: seq_def ret_def)

lemma seq_gets [prog_simps]: "seq (gets g) f s = f (g s) s"
  by (simp add: seq_def gets_def)

lemma seq_modify [prog_simps]: "seq (modify g) f s = f () (g s)"
  by (simp add: seq_def modify_def)

lemma seq_upd_snd [prog_simps]: "seq (upd_snd g) f s = f () (fst s, g (snd s))"
  by (simp add: seq_def upd_snd_def)

lemma seq_err [prog_simps]: "seq err f = err"
  by (rule ext) (simp add: seq_def err_def)

lemma seq_halt [prog_simps]: "seq (halt k) f = halt k"
  by (rule ext) (simp add: seq_def halt_def)

lemma seq_assoc: "seq (seq m f) g = seq m (\<lambda>x. seq (f x) g)"
  by (rule ext) (simp add: seq_def split: prod.splits result.splits)

lemma seq_ReturnE:
  assumes "seq m f s = (Return y, u)"
  obtains x t where "m s = (Return x, t)" "f x t = (Return y, u)"
  using assms by (auto simp: seq_def split: prod.splits result.splits)

lemma seq_casesE:
  assumes "seq m f s = (r, u)"
  obtains (Return) x t where "m s = (Return x, t)" "f x t = (r, u)"
    | (Error) "m s = (Error, u)" "r = Error"
    | (Stop) k where "m s = (Stop k, u)" "r = Stop k"
  using assms by (auto simp: seq_def split: prod.splits result.splits)

lemma attempt_ReturnE:
  assumes "attempt m s = (Return y, u)"
  obtains (Some) x where "m s = (Return x, u)" "y = Some x"
    | (None) "m s = (Error, u)" "y = None"
  using assms by (auto simp: attempt_def split: prod.splits result.splits)

lemma attempt_not_Error [simp]: "attempt m s \<noteq> (Error, t)"
  by (auto simp: attempt_def split: prod.splits result.splits)

text \<open>What a program returns, whatever the state.\<close>

definition yields :: "('a \<Rightarrow> bool) \<Rightarrow> ('s, 'a) prog \<Rightarrow> bool" where
  "yields Q m \<longleftrightarrow> (\<forall>s x t. m s = (Return x, t) \<longrightarrow> Q x)"

lemma yieldsD: "yields Q m \<Longrightarrow> m s = (Return x, t) \<Longrightarrow> Q x"
  by (auto simp: yields_def)

lemma yields_intros:
  "Q x \<Longrightarrow> yields Q (ret x)" "yields Q err" "yields Q (halt k)"
  "(\<And>x. yields Q (f x)) \<Longrightarrow> yields Q (seq m f)"
  "yields Q n \<Longrightarrow> yields Q n' \<Longrightarrow> yields Q (if b then n else n')"
  by (auto simp: yields_def prog_simps elim!: seq_ReturnE)

section \<open>What a program has established when it returns\<close>

definition triple :: "('s \<Rightarrow> bool) \<Rightarrow> ('s, 'a) prog \<Rightarrow> ('a \<Rightarrow> 's \<Rightarrow> bool) \<Rightarrow> bool" where
  "triple P m Q \<longleftrightarrow> (\<forall>s x t. P s \<longrightarrow> m s = (Return x, t) \<longrightarrow> Q x t)"

lemma tripleI: "(\<And>s x t. P s \<Longrightarrow> m s = (Return x, t) \<Longrightarrow> Q x t) \<Longrightarrow> triple P m Q"
  by (simp add: triple_def)

lemma tripleD: "triple P m Q \<Longrightarrow> P s \<Longrightarrow> m s = (Return x, t) \<Longrightarrow> Q x t"
  by (simp add: triple_def)

lemma triple_seq:
  "triple P m Q' \<Longrightarrow> (\<And>x. triple (Q' x) (f x) Q) \<Longrightarrow> triple P (seq m f) Q"
  unfolding triple_def by (blast elim: seq_ReturnE)

lemma triple_ret: "(\<And>s. P s \<Longrightarrow> Q x s) \<Longrightarrow> triple P (ret x) Q"
  by (simp add: triple_def prog_simps)

lemma triple_stop: "triple P err Q" "triple P (halt k) Q"
  by (simp_all add: triple_def prog_simps)

lemma triple_if:
  "(b \<Longrightarrow> triple P m Q) \<Longrightarrow> (\<not> b \<Longrightarrow> triple P n Q) \<Longrightarrow> triple P (if b then m else n) Q"
  by simp

lemma triple_gets: "triple P (gets f) (\<lambda>x s. P s \<and> x = f s)"
  by (simp add: triple_def prog_simps)

lemma triple_modify: "(\<And>s. P s \<Longrightarrow> Q () (g s)) \<Longrightarrow> triple P (modify g) Q"
  by (simp add: triple_def prog_simps)

lemma triple_pre: "triple P' m Q \<Longrightarrow> (\<And>s. P s \<Longrightarrow> P' s) \<Longrightarrow> triple P m Q"
  unfolding triple_def by blast

lemma triple_fact: "(b \<Longrightarrow> triple P m Q) \<Longrightarrow> triple (\<lambda>s. P s \<and> b) m Q"
  unfolding triple_def by blast

lemma triple_post: "triple P m Q' \<Longrightarrow> (\<And>x s. Q' x s \<Longrightarrow> Q x s) \<Longrightarrow> triple P m Q"
  unfolding triple_def by blast

section \<open>Moving along a preorder\<close>

text \<open>
  \<open>moves R m\<close>: whatever \<open>m\<close> returns, the state it leaves is \<open>R\<close>-after the state it
  started from. For a preorder \<open>R\<close> this composes over every program construct. An
  invariant is the preorder \<open>\<lambda>s t. I s \<longrightarrow> I t\<close>; a field that only grows and a file that
  is never lost are preorders too.
\<close>

definition moves :: "('s \<Rightarrow> 's \<Rightarrow> bool) \<Rightarrow> ('s, 'a) prog \<Rightarrow> bool" where
  "moves R m \<longleftrightarrow> (\<forall>s. R s (snd (m s)))"

lemma movesI: "(\<And>s r t. m s = (r, t) \<Longrightarrow> R s t) \<Longrightarrow> moves R m"
  by (simp add: moves_def prod_eq_iff)

lemma movesD: "moves R m \<Longrightarrow> m s = (r, t) \<Longrightarrow> R s t"
  by (metis moves_def snd_conv)

lemma triple_kept: "moves (\<lambda>s t. P s \<longrightarrow> P t) m \<Longrightarrow> triple P m (\<lambda>_. P)"
  unfolding triple_def by (blast dest: movesD)

lemma moves_mono: "moves R m \<Longrightarrow> (\<And>s t. R s t \<Longrightarrow> Q s t) \<Longrightarrow> moves Q m"
  by (simp add: moves_def)

locale step_order =
  fixes R :: "'s \<Rightarrow> 's \<Rightarrow> bool"
  assumes step_refl: "R s s"
    and step_trans: "R s t \<Longrightarrow> R t u \<Longrightarrow> R s u"
begin

lemma moves_ret: "moves R (ret x)"
  by (simp add: moves_def ret_def step_refl)

lemma moves_err: "moves R err"
  by (simp add: moves_def err_def step_refl)

lemma moves_halt: "moves R (halt k)"
  by (simp add: moves_def halt_def step_refl)

lemma moves_gets: "moves R (gets f)"
  by (simp add: moves_def gets_def step_refl)

lemma moves_modify: "(\<And>s. R s (f s)) \<Longrightarrow> moves R (modify f)"
  by (simp add: moves_def modify_def)

lemma moves_seq:
  assumes m: "moves R m" and f: "\<And>x. moves R (f x)"
  shows "moves R (seq m f)"
proof (rule movesI)
  fix s r u
  assume "seq m f s = (r, u)"
  then show "R s u"
    by (cases rule: seq_casesE) (blast intro: step_trans movesD [OF m] movesD [OF f])+
qed

lemma moves_attempt: "moves R m \<Longrightarrow> moves R (attempt m)"
  by (auto simp: moves_def attempt_def split: prod.splits result.splits) (metis snd_conv)+

lemma moves_if: "moves R m \<Longrightarrow> moves R n \<Longrightarrow> moves R (if b then m else n)"
  by simp

lemma moves_option: "moves R m \<Longrightarrow> (\<And>x. moves R (f x)) \<Longrightarrow> moves R (case v of None \<Rightarrow> m | Some x \<Rightarrow> f x)"
  by (cases v) simp_all

lemma moves_seq_yields:
  assumes m: "moves R m" "yields Q m" and f: "\<And>x. Q x \<Longrightarrow> moves R (f x)"
  shows "moves R (seq m f)"
proof (rule movesI)
  fix s r u
  assume "seq m f s = (r, u)"
  then show "R s u"
    by (cases rule: seq_casesE)
      (auto intro: step_trans movesD [OF m(1)] movesD [OF f] yieldsD [OF m(2)])
qed

lemmas moves_rules = moves_ret moves_err moves_halt moves_gets moves_seq moves_attempt
  moves_if moves_option

end

text \<open>The frame contract: a program that leaves an observation of the state alone.\<close>

definition keeps :: "('s \<Rightarrow> 'b) \<Rightarrow> ('s, 'a) prog \<Rightarrow> bool" where
  "keeps f m \<longleftrightarrow> moves (\<lambda>s t. f t = f s) m"

interpretation frame: step_order "\<lambda>s t. f t = f s" for f
  by unfold_locales simp_all

interpretation kept: step_order "\<lambda>s t. I s \<longrightarrow> I t" for I
  by unfold_locales simp_all

lemma keepsD: "keeps f m \<Longrightarrow> m s = (r, t) \<Longrightarrow> f t = f s"
  unfolding keeps_def by (rule movesD)

lemma keepsI: "(\<And>s r t. m s = (r, t) \<Longrightarrow> f t = f s) \<Longrightarrow> keeps f m"
  unfolding keeps_def by (rule movesI)

end
