(* ===== verification/Cstring.thy ===== *)
theory Cstring
  imports Prelude
begin

text \<open>
  The parts of the C and C++ standard libraries that the code prints and reads numbers and
  lines with: \<^verbatim>\<open>ostream << long\<close>, \<^verbatim>\<open>setfill('0') << setw(n)\<close>, \<^verbatim>\<open>strtol\<close>, \<^verbatim>\<open>atoi\<close>, \<^verbatim>\<open>strtoul\<close>,
  \<^verbatim>\<open>strlen\<close>, \<^verbatim>\<open>getline\<close> and \<^verbatim>\<open>strtok\<close>. A \<^verbatim>\<open>std::string\<close> and a \<^verbatim>\<open>char\<close> buffer are lists of
  8-bit characters.
\<close>

section \<open>Characters\<close>

definition code :: "char \<Rightarrow> nat" where
  "code c = of_char c"

definition is_digit :: "char \<Rightarrow> bool" where
  "is_digit c \<longleftrightarrow> 48 \<le> code c \<and> code c \<le> 57"

definition is_space :: "char \<Rightarrow> bool" where
  "is_space c \<longleftrightarrow> code c = 32 \<or> (9 \<le> code c \<and> code c \<le> 13)"

definition nul :: char where "nul = CHR 0x00"
definition newline :: char where "newline = CHR 0x0A"

definition digit_char :: "nat \<Rightarrow> char" where
  "digit_char d = char_of (48 + d)"

lemma code_digit_char [simp]: "d < 10 \<Longrightarrow> code (digit_char d) = 48 + d"
  by (simp add: code_def digit_char_def)

lemma code_digit_char_minus: "48 \<le> n \<Longrightarrow> n \<le> 57 \<Longrightarrow> code (digit_char (n - 48)) = n"
  by (simp add: code_def digit_char_def)

lemma is_digit_digit_char [simp]: "d < 10 \<Longrightarrow> is_digit (digit_char d)"
  by (simp add: is_digit_def)

lemma code_eqI: "code a = code b \<Longrightarrow> a = b"
  by (simp add: code_def)

lemma digit_char_code: "is_digit c \<Longrightarrow> digit_char (code c - 48) = c"
  by (rule code_eqI) (simp add: is_digit_def code_digit_char_minus)

lemma is_digit_not_space: "is_digit c \<Longrightarrow> \<not> is_space c"
  by (auto simp: is_digit_def is_space_def)

lemma is_digit_chars [simp]:
  "is_digit CHR ''0''" "\<not> is_digit CHR ''-''" "\<not> is_digit CHR ''+''" "\<not> is_digit CHR ''_''"
  "\<not> is_digit CHR ''/''" "\<not> is_digit newline" "\<not> is_digit nul" "\<not> is_digit CHR ''.''" 
  "\<not> is_digit CHR '':''"
  by (simp_all add: is_digit_def code_def newline_def nul_def)

lemma is_space_minus [simp]: "\<not> is_space CHR ''-''" "\<not> is_space CHR ''0''"
  by (simp_all add: is_space_def code_def)

section \<open>Printing\<close>

fun show_nat :: "nat \<Rightarrow> string" where
  "show_nat n = (if n < 10 then [digit_char n] else show_nat (n div 10) @ [digit_char (n mod 10)])"

declare show_nat.simps [simp del]

definition show_int :: "int \<Rightarrow> string" where
  "show_int i = (if i < 0 then CHR ''-'' # show_nat (nat (- i)) else show_nat (nat i))"

text \<open>\<^verbatim>\<open>setfill('0') << setw(w) << i\<close>: the fill goes to the left of everything, of a sign too.\<close>

definition setw0 :: "nat \<Rightarrow> string \<Rightarrow> string" where
  "setw0 w s = replicate (w - length s) CHR ''0'' @ s"

section \<open>Reading\<close>

definition digits_value :: "string \<Rightarrow> int" where
  "digits_value ds = foldl (\<lambda>a c. 10 * a + (int (code c) - 48)) 0 ds"

definition LONG_MAX :: int where "LONG_MAX = 2 ^ 63 - 1"
definition LONG_MIN :: int where "LONG_MIN = - (2 ^ 63)"
definition ULONG_MAX :: int where "ULONG_MAX = 2 ^ 64 - 1"

text \<open>The sign and the digits that follow the leading white space, and what is left.\<close>

definition read_sign :: "string \<Rightarrow> bool \<times> string" where
  "read_sign s = (case s of
      [] \<Rightarrow> (False, s)
    | c # t \<Rightarrow> if c = CHR ''-'' then (True, t) else if c = CHR ''+'' then (False, t) else (False, s))"

text \<open>\<^verbatim>\<open>strtol(s, &end, 10)\<close>: the value and the text at \<^verbatim>\<open>end\<close>; with no digits \<^verbatim>\<open>end\<close> is \<^verbatim>\<open>s\<close>.\<close>

definition strtol :: "string \<Rightarrow> int \<times> string" where
  "strtol s = (case read_sign (dropWhile is_space s) of (neg, t) \<Rightarrow>
      (let ds = takeWhile is_digit t; v = digits_value ds in
       if ds = [] then (0, s)
       else (if neg then max LONG_MIN (- v) else min LONG_MAX v, dropWhile is_digit t)))"

definition atoi :: "string \<Rightarrow> int" where
  "atoi s = s32 (fst (strtol s))"

definition strtoul :: "string \<Rightarrow> int" where
  "strtoul s = (case read_sign (dropWhile is_space s) of (neg, t) \<Rightarrow>
      (let v = digits_value (takeWhile is_digit t) in
       if ULONG_MAX < v then ULONG_MAX else if neg then u64 (- v) else v))"

text \<open>A \<^verbatim>\<open>char*\<close> ends at its first NUL.\<close>

definition c_str :: "string \<Rightarrow> string" where
  "c_str s = takeWhile (\<lambda>c. c \<noteq> nul) s"

definition strlen :: "string \<Rightarrow> nat" where
  "strlen s = length (c_str s)"

text \<open>\<^verbatim>\<open>getline(stream, string)\<close> on a stream with this content; \<open>None\<close> is a stream that fails.\<close>

definition getline_string :: "string \<Rightarrow> string option" where
  "getline_string c = (if c = [] then None else Some (takeWhile (\<lambda>x. x \<noteq> newline) c))"

text \<open>
  \<^verbatim>\<open>stream.getline(buf, n); stream.good()\<close>: the line, when a newline was found before the end
  of the content and before the buffer was full. Reaching the end of the file sets
  \<^verbatim>\<open>eofbit\<close>, and then \<^verbatim>\<open>good()\<close> is false.
\<close>

definition getline_good :: "nat \<Rightarrow> string \<Rightarrow> string option" where
  "getline_good n c = (let l = takeWhile (\<lambda>x. x \<noteq> newline) c in
     if length l < length c \<and> length l < n then Some l else None)"

text \<open>\<^verbatim>\<open>strtok(s, ":")\<close> called until it returns NULL: the non-empty pieces.\<close>

function strtok_all :: "char \<Rightarrow> string \<Rightarrow> string list" where
  "strtok_all d [] = []"
| "strtok_all d (c # cs) =
     (if c = d then strtok_all d cs
      else (c # takeWhile (\<lambda>x. x \<noteq> d) cs) # strtok_all d (dropWhile (\<lambda>x. x \<noteq> d) cs))"
  by pat_completeness auto
termination
  by (relation "measure (\<lambda>(d, s). length s)") (auto simp: less_Suc_eq_le length_dropWhile_le)

section \<open>Facts\<close>

lemma show_nat_nonempty [simp]: "show_nat n \<noteq> []"
  by (subst show_nat.simps) simp

lemma show_nat_digits: "\<forall>c \<in> set (show_nat n). is_digit c"
proof (induction n rule: show_nat.induct)
  case (1 n)
  then show ?case by (subst show_nat.simps) auto
qed

lemma list_all_show_nat [simp]: "list_all is_digit (show_nat n)"
  using show_nat_digits by (simp add: list_all_iff)

lemma digits_value_append:
  "digits_value (xs @ [c]) = 10 * digits_value xs + (int (code c) - 48)"
  by (simp add: digits_value_def)

lemma digits_value_show_nat [simp]: "digits_value (show_nat n) = int n"
proof (induction n rule: show_nat.induct)
  case (1 n)
  show ?case
  proof (cases "n < 10")
    case True
    then show ?thesis by (subst show_nat.simps) (simp add: digits_value_def)
  next
    case False
    with 1 show ?thesis
      by (subst show_nat.simps) (simp add: digits_value_append zdiv_int zmod_int)
  qed
qed

lemma digits_value_zeros: "digits_value (replicate k CHR ''0'' @ ds) = digits_value ds"
  by (induction k) (simp_all add: digits_value_def code_def)

lemma digits_value_setw0 [simp]: "digits_value (setw0 w (show_nat n)) = int n"
  by (simp add: setw0_def digits_value_zeros)

lemma setw0_digits: "list_all is_digit s \<Longrightarrow> list_all is_digit (setw0 w s)"
  by (auto simp: setw0_def list_all_iff)

lemma setw0_nonempty [simp]: "s \<noteq> [] \<Longrightarrow> setw0 w s \<noteq> []"
  by (simp add: setw0_def)

lemma setw0_length: "length s \<le> w \<Longrightarrow> length (setw0 w s) = w"
  by (simp add: setw0_def)

lemma show_nat_length: "n < 10 ^ k \<Longrightarrow> 0 < k \<Longrightarrow> length (show_nat n) \<le> k"
proof (induction n arbitrary: k rule: show_nat.induct)
  case (1 n)
  show ?case
  proof (cases "n < 10")
    case True
    with 1 show ?thesis by (subst show_nat.simps) simp
  next
    case False
    then obtain j where k: "k = Suc j" "0 < j"
      using "1.prems" by (cases k; cases "k - 1") auto
    with "1.prems" have "n div 10 < 10 ^ j" by auto
    from "1.IH" [OF False this k(2)] False k show ?thesis
      by (subst show_nat.simps) simp
  qed
qed

lemma takeWhile_all: "list_all P xs \<Longrightarrow> takeWhile P xs = xs"
  by (induction xs) auto

lemma dropWhile_all: "list_all P xs \<Longrightarrow> dropWhile P xs = []"
  by (induction xs) auto

lemma takeWhile_prefix: "list_all P xs \<Longrightarrow> ys = [] \<or> \<not> P (hd ys) \<Longrightarrow> takeWhile P (xs @ ys) = xs"
  by (induction xs) (cases ys; auto)+

lemma dropWhile_prefix: "list_all P xs \<Longrightarrow> ys = [] \<or> \<not> P (hd ys) \<Longrightarrow> dropWhile P (xs @ ys) = ys"
  by (induction xs) (cases ys; auto)+

lemma dropWhile_none: "xs = [] \<or> \<not> P (hd xs) \<Longrightarrow> dropWhile P xs = xs"
  by (cases xs) auto

lemma digits_no_sign:
  assumes "list_all is_digit ds" "ds \<noteq> []"
  shows "read_sign (dropWhile is_space (ds @ t)) = (False, ds @ t)"
proof -
  from assms obtain c cs where [simp]: "ds = c # cs" by (cases ds) auto
  with assms have c: "is_digit c" by simp
  then have "\<not> is_space c" "c \<noteq> CHR ''-''" "c \<noteq> CHR ''+''"
    using is_digit_not_space by auto
  then show ?thesis by (simp add: read_sign_def)
qed

lemma strtol_digits:
  assumes "list_all is_digit ds" "ds \<noteq> []" "t = [] \<or> \<not> is_digit (hd t)"
  shows "strtol (ds @ t) = (min LONG_MAX (digits_value ds), t)"
  using assms by (simp add: strtol_def digits_no_sign takeWhile_prefix dropWhile_prefix Let_def)

lemma strtol_minus_digits:
  assumes "list_all is_digit ds" "ds \<noteq> []" "t = [] \<or> \<not> is_digit (hd t)"
  shows "strtol (CHR ''-'' # ds @ t) = (max LONG_MIN (- digits_value ds), t)"
  using assms
  by (simp add: strtol_def read_sign_def takeWhile_prefix dropWhile_prefix Let_def)

lemma strtol_show_any:
  assumes "t = [] \<or> \<not> is_digit (hd t)"
  shows "strtol (show_int i @ t) = (max LONG_MIN (min LONG_MAX i), t)"
  using assms
  by (auto simp: show_int_def strtol_digits strtol_minus_digits LONG_MAX_def LONG_MIN_def)

lemma strtol_show_int:
  assumes "long_range i" "t = [] \<or> \<not> is_digit (hd t)"
  shows "strtol (show_int i @ t) = (i, t)"
  using assms
  by (auto simp: show_int_def strtol_digits strtol_minus_digits long_range_def LONG_MAX_def
      LONG_MIN_def)

lemma strtol_setw0:
  assumes "0 \<le> i" "long_range i"
  shows "strtol (setw0 w (show_int i)) = (i, [])"
proof -
  have "strtol (setw0 w (show_int i) @ []) = (min LONG_MAX (digits_value (setw0 w (show_nat (nat i)))), [])"
    using assms by (subst strtol_digits) (auto simp: show_int_def setw0_digits)
  with assms show ?thesis by (simp add: LONG_MAX_def long_range_def)
qed

lemma digits_value_nonneg: "list_all is_digit ds \<Longrightarrow> 0 \<le> digits_value ds"
proof (induction ds rule: rev_induct)
  case Nil
  then show ?case by (simp add: digits_value_def)
next
  case (snoc c ds)
  then show ?case by (simp add: digits_value_append is_digit_def)
qed

lemma list_all_takeWhile: "list_all P (takeWhile P xs)"
  by (induction xs) auto

lemma strtol_in_range: "long_range (fst (strtol s))"
proof -
  obtain neg t where t: "read_sign (dropWhile is_space s) = (neg, t)" by fastforce
  have "0 \<le> digits_value (takeWhile is_digit t)"
    by (simp add: digits_value_nonneg list_all_takeWhile)
  then show ?thesis
    by (simp add: strtol_def t Let_def long_range_def LONG_MAX_def LONG_MIN_def min_less_iff_disj)
qed

lemma show_int_setw0_inj:
  assumes eq: "setw0 w (show_int i) = setw0 w (show_int j)"
    and i: "0 \<le> i" "long_range i" and j: "0 \<le> j" "long_range j"
  shows "i = j"
proof -
  from strtol_setw0 [OF i, of w] strtol_setw0 [OF j, of w] have "(i, []) = (j, [] :: string)"
    by (simp only: eq)
  then show ?thesis by simp
qed

lemma show_int_inj: "show_int i = show_int j \<Longrightarrow> long_range i \<Longrightarrow> long_range j \<Longrightarrow> i = j"
  by (metis append_Nil2 fst_conv strtol_show_int)

end
