(* ===== verification/Names.thy ===== *)
theory Names
  imports Cstring
begin

text \<open>
  The constants of \<^verbatim>\<open>util/Constants.h\<close> and \<^verbatim>\<open>util/JournalNodeConfigKeys.h\<close>, the file names of
  \<^verbatim>\<open>util/JNServiceMiscUtils.cpp\<close> and \<^verbatim>\<open>HostPortPair\<close>. The facts say that the name of a segment
  determines its transaction ids and that names of different kinds never meet.
\<close>

section \<open>Constants\<close>

definition INVALID_TXID :: int where "INVALID_TXID = -12345"

definition OPCODE :: nat where "OPCODE = 30"

definition EDITS_INPROGRESS :: string where "EDITS_INPROGRESS = ''edits_inprogress''"
definition EDITS :: string where "EDITS = ''edits''"

datatype StorageState = NON_EXISTENT | NOT_FORMATTED | COMPLETE_UPGRADE | RECOVER_UPGRADE
  | COMPLETE_FINALIZE | COMPLETE_ROLLBACK | RECOVER_ROLLBACK | COMPLETE_CHECKPOINT
  | RECOVER_CHECKPOINT | NORMAL

definition DFS_JOURNALNODE_EDITS_DIR_KEY :: string where
  "DFS_JOURNALNODE_EDITS_DIR_KEY = ''dfs.journalnode.edits.dir''"
definition DFS_JOURNALNODE_EDITS_DIR_DEFAULT :: string where
  "DFS_JOURNALNODE_EDITS_DIR_DEFAULT = ''/tmp/hadoop/dfs/journalnode/''"
definition DFS_JOURNALNODE_RPC_ADDRESS_KEY :: string where
  "DFS_JOURNALNODE_RPC_ADDRESS_KEY = ''dfs.journalnode.rpc-address''"
definition DFS_JOURNALNODE_RPC_ADDRESS_DEFAULT :: string where
  "DFS_JOURNALNODE_RPC_ADDRESS_DEFAULT = ''0.0.0.0:'' @ ''8485''"
definition DFS_JOURNALNODE_HTTP_ADDRESS_KEY :: string where
  "DFS_JOURNALNODE_HTTP_ADDRESS_KEY = ''dfs.journalnode.http-address''"
definition DFS_JOURNALNODE_HTTP_ADDRESS_DEFAULT :: string where
  "DFS_JOURNALNODE_HTTP_ADDRESS_DEFAULT = ''0.0.0.0:'' @ ''8480''"

section \<open>File names\<close>

definition getNameNodeFileName :: "string \<Rightarrow> int \<Rightarrow> string" where
  "getNameNodeFileName filenamePrefix txid = filenamePrefix @ ''_'' @ setw0 19 (show_int txid)"

definition getInProgressEditsFileName :: "int \<Rightarrow> string" where
  "getInProgressEditsFileName startTxId = getNameNodeFileName EDITS_INPROGRESS startTxId"

definition getInProgressEditsFile :: "string \<Rightarrow> int \<Rightarrow> string" where
  "getInProgressEditsFile currentDir startTxId =
     currentDir @ ''/'' @ getInProgressEditsFileName startTxId"

definition getFinalizedEditsFileName :: "int \<Rightarrow> int \<Rightarrow> string" where
  "getFinalizedEditsFileName startTxId endTxId =
     EDITS @ ''_'' @ setw0 19 (show_int startTxId) @ ''-'' @ setw0 19 (show_int endTxId)"

definition getFinalizedEditsFile :: "string \<Rightarrow> int \<Rightarrow> int \<Rightarrow> string" where
  "getFinalizedEditsFile currentDir startTxId endTxId =
     currentDir @ ''/'' @ getFinalizedEditsFileName startTxId endTxId"

section \<open>Host and port\<close>

text \<open>
  \<^verbatim>\<open>find_first_of(":")\<close> is \<open>None\<close> for \<^verbatim>\<open>npos\<close>; then \<^verbatim>\<open>substr(0, npos)\<close> is the whole name and
  \<^verbatim>\<open>npos + 1\<close> wraps to \<open>0\<close>.
\<close>

record HostPortPair =
  hostname :: string
  port :: int

definition find_first_of :: "char \<Rightarrow> string \<Rightarrow> nat option" where
  "find_first_of c s = (let n = length (takeWhile (\<lambda>x. x \<noteq> c) s) in
     if n < length s then Some n else None)"

definition mk_HostPortPair :: "string \<Rightarrow> HostPortPair" where
  "mk_HostPortPair name = (case find_first_of CHR '':'' name of
      None \<Rightarrow> \<lparr>hostname = name, port = atoi (c_str name)\<rparr>
    | Some n \<Rightarrow> \<lparr>hostname = take n name, port = atoi (c_str (drop (Suc n) name))\<rparr>)"

definition HostPortPair_isValid :: "string \<Rightarrow> bool" where
  "HostPortPair_isValid name = (case find_first_of CHR '':'' name of
      None \<Rightarrow> False
    | Some n \<Rightarrow> n \<noteq> 0 \<and> n \<noteq> length name \<and> list_all is_digit (drop (Suc n) name))"

section \<open>Facts\<close>

lemmas name_defs = getNameNodeFileName_def getInProgressEditsFileName_def
  getInProgressEditsFile_def getFinalizedEditsFileName_def getFinalizedEditsFile_def

lemma inprogress_inj:
  "getInProgressEditsFile d i = getInProgressEditsFile d j \<Longrightarrow> 0 \<le> i \<Longrightarrow> 0 \<le> j \<Longrightarrow>
   long_range i \<Longrightarrow> long_range j \<Longrightarrow> i = j"
  by (auto simp: name_defs intro: show_int_setw0_inj)

lemma show_int_digits: "0 \<le> i \<Longrightarrow> list_all is_digit (show_int i)"
  by (simp add: show_int_def)

lemma show_int_nonempty [simp]: "show_int i \<noteq> []"
  by (simp add: show_int_def)

lemma setw0_show_int_hd: "hd (setw0 w (show_int i)) = CHR ''-'' \<or> is_digit (hd (setw0 w (show_int i)))"
proof -
  have "is_digit (hd (show_nat n))" for n
    using list_all_show_nat [of n] by (cases "show_nat n") auto
  then show ?thesis
    by (cases "w - length (show_int i)") (auto simp: setw0_def show_int_def)
qed

lemma setw0_show_int_not_i:
  "setw0 w (show_int k) @ t \<noteq> CHR ''i'' # u"
proof
  assume "setw0 w (show_int k) @ t = CHR ''i'' # u"
  then have "hd (setw0 w (show_int k)) = CHR ''i''"
    by (cases "setw0 w (show_int k)") auto
  with setw0_show_int_hd [of w k] show False by (auto simp: is_digit_def code_def)
qed

lemma finalized_not_inprogress: "getFinalizedEditsFile d i j \<noteq> d @ ''/'' @ ''edits_i'' @ t"
  using setw0_show_int_not_i [of 19 i] by (simp add: name_defs EDITS_def)

lemma mk_HostPortPair_host_port:
  assumes "CHR '':'' \<notin> set h" "0 \<le> p" "p < 2 ^ 31"
  shows "mk_HostPortPair (h @ '':'' @ show_int p) = \<lparr>hostname = h, port = p\<rparr>"
proof -
  have tw: "takeWhile (\<lambda>x. x \<noteq> CHR '':'') (h @ CHR '':'' # show_int p) = h"
    using assms(1) by (subst takeWhile_append2) auto
  have "nul \<notin> set (show_int p)"
    using show_int_digits [OF assms(2)] by (auto simp: list_all_iff)
  then have "c_str (show_int p) = show_int p"
    by (metis (mono_tags, lifting) c_str_def takeWhile_eq_all_conv)
  moreover have "strtol (show_int p @ []) = (p, [])"
    using assms by (intro strtol_show_int) (auto simp: long_range_def)
  ultimately show ?thesis
    using assms by (simp add: mk_HostPortPair_def find_first_of_def tw Let_def atoi_def s32_id)
qed

end
