(* ===== verification/Filesystem.thy ===== *)
theory Filesystem
  imports Cstring
begin

text \<open>
  The file system as the server sees it, the system calls the code makes (through
  \<^verbatim>\<open>boost::filesystem\<close>, \<^verbatim>\<open>std::fstream\<close>, \<^verbatim>\<open>open\<close> and \<^verbatim>\<open>fcntl\<close>), and the wrappers of
  \<^verbatim>\<open>util/JNServiceMiscUtils.cpp\<close> around them.

  A directory entry names an inode and an open stream holds the inode, so that a file
  can be renamed or removed under a stream that still writes to it. Every system call
  takes its outcome from a script of faults: it can succeed, fail after \<open>n\<close> units of its
  effect, or be the last thing the process does. The script is part of the state, so a
  theorem about all states is a theorem about all failures and all crash points.
\<close>

section \<open>State\<close>

datatype fault = Fine | Faulty nat | Fatal nat

record fs =
  dents :: "(string \<times> nat) list"   \<comment> \<open>regular files: path to inode, in directory order\<close>
  data :: "nat \<Rightarrow> string"           \<comment> \<open>inode to content\<close>
  next_ino :: nat
  dirs :: "string list"             \<comment> \<open>directories\<close>
  fds :: "nat list"                 \<comment> \<open>descriptors open in this process\<close>
  faults :: "fault list"            \<comment> \<open>outcomes of the next system calls; then all succeed\<close>

definition ino :: "fs \<Rightarrow> string \<Rightarrow> nat option" where
  "ino f p = map_of (dents f) p"

definition content :: "fs \<Rightarrow> string \<Rightarrow> string option" where
  "content f p = map_option (data f) (ino f p)"

definition is_file :: "fs \<Rightarrow> string \<Rightarrow> bool" where
  "is_file f p \<longleftrightarrow> ino f p \<noteq> None"

definition is_dir :: "fs \<Rightarrow> string \<Rightarrow> bool" where
  "is_dir f p \<longleftrightarrow> p \<in> set (dirs f)"

definition parent :: "string \<Rightarrow> string" where
  "parent p = rev (tl (dropWhile (\<lambda>c. c \<noteq> CHR ''/'') (rev p)))"

text \<open>A file can be created where its directory exists; the root and the working directory do.\<close>

definition can_create :: "fs \<Rightarrow> string \<Rightarrow> bool" where
  "can_create f p \<longleftrightarrow> \<not> is_dir f p \<and> (parent p = [] \<or> is_dir f (parent p))"

definition under :: "string \<Rightarrow> string \<Rightarrow> bool" where
  "under d p \<longleftrightarrow> take (Suc (length d)) p = d @ ''/''"

text \<open>The name of \<open>p\<close> in directory \<open>d\<close>, if it is directly in it.\<close>

definition leaf :: "string \<Rightarrow> string \<Rightarrow> string option" where
  "leaf d p = (let l = drop (Suc (length d)) p in
     if under d p \<and> CHR ''/'' \<notin> set l then Some l else None)"

section \<open>System calls\<close>

definition syscall :: "(fs \<Rightarrow> 'a result \<times> fs) \<Rightarrow> (nat \<Rightarrow> fs \<Rightarrow> fs) \<Rightarrow> (fs, 'a) prog" where
  "syscall good part f = (case faults f of
      [] \<Rightarrow> good f
    | Fine # k \<Rightarrow> good (f\<lparr>faults := k\<rparr>)
    | Faulty n # k \<Rightarrow> (Error, part n (f\<lparr>faults := k\<rparr>))
    | Fatal n # k \<Rightarrow> (Stop Killed, part n (f\<lparr>faults := k\<rparr>)))"

definition no_effect :: "nat \<Rightarrow> fs \<Rightarrow> fs" where
  "no_effect n f = f"

text \<open>Opening for writing truncates a file that exists and creates one that does not.\<close>

definition creat :: "string \<Rightarrow> fs \<Rightarrow> nat \<times> fs" where
  "creat p f = (case ino f p of
      Some i \<Rightarrow> (i, f\<lparr>data := (data f)(i := [])\<rparr>)
    | None \<Rightarrow> (next_ino f, f\<lparr>dents := dents f @ [(p, next_ino f)],
                            data := (data f)(next_ino f := []), next_ino := Suc (next_ino f)\<rparr>))"

definition sys_open_trunc :: "string \<Rightarrow> (fs, nat) prog" where
  "sys_open_trunc p = syscall
     (\<lambda>f. if can_create f p then (case creat p f of (i, g) \<Rightarrow> (Return i, g)) else (Error, f)) no_effect"

text \<open>Writing \<open>ys\<close> at position \<open>k\<close> of a file.\<close>

definition overwrite :: "string \<Rightarrow> nat \<Rightarrow> string \<Rightarrow> string" where
  "overwrite xs k ys = take k xs @ replicate (k - length xs) nul @ ys @ drop (k + length ys) xs"

definition store :: "nat \<Rightarrow> nat \<Rightarrow> string \<Rightarrow> fs \<Rightarrow> fs" where
  "store i k ys f = f\<lparr>data := (data f)(i := overwrite (data f i) k ys)\<rparr>"

definition sys_write :: "nat \<Rightarrow> nat \<Rightarrow> string \<Rightarrow> (fs, unit) prog" where
  "sys_write i k ys = syscall (\<lambda>f. (Return (), store i k ys f)) (\<lambda>n. store i k (take n ys))"

definition sys_read :: "string \<Rightarrow> (fs, string) prog" where
  "sys_read p = syscall
     (\<lambda>f. case content f p of Some c \<Rightarrow> (Return c, f) | None \<Rightarrow> (Error, f)) no_effect"

definition sys_is_regular :: "string \<Rightarrow> (fs, bool) prog" where
  "sys_is_regular p = syscall (\<lambda>f. (Return (is_file f p), f)) no_effect"

definition sys_is_directory :: "string \<Rightarrow> (fs, bool) prog" where
  "sys_is_directory p = syscall (\<lambda>f. (Return (is_dir f p), f)) no_effect"

definition sys_exists :: "string \<Rightarrow> (fs, bool) prog" where
  "sys_exists p = syscall (\<lambda>f. (Return (is_file f p \<or> is_dir f p), f)) no_effect"

definition move_dent :: "string \<Rightarrow> string \<Rightarrow> (string \<times> nat) list \<Rightarrow> (string \<times> nat) list" where
  "move_dent a b ds = (if a = b then ds
     else map (\<lambda>(p, i). (if p = a then b else p, i)) (filter (\<lambda>(p, i). p \<noteq> b) ds))"

definition sys_rename :: "string \<Rightarrow> string \<Rightarrow> (fs, unit) prog" where
  "sys_rename a b = syscall
     (\<lambda>f. if is_file f a \<and> can_create f b then (Return (), f\<lparr>dents := move_dent a b (dents f)\<rparr>)
          else (Error, f)) no_effect"

definition sys_remove :: "string \<Rightarrow> (fs, unit) prog" where
  "sys_remove p = syscall
     (\<lambda>f. (Return (), f\<lparr>dents := filter (\<lambda>(q, i). q \<noteq> p) (dents f)\<rparr>)) no_effect"

definition sys_list :: "string \<Rightarrow> (fs, string list) prog" where
  "sys_list d = syscall
     (\<lambda>f. if is_dir f d then (Return (List.map_filter (leaf d) (map fst (dents f))), f)
          else (Error, f)) no_effect"

text \<open>\<^verbatim>\<open>remove_all\<close>: everything at or under \<open>d\<close>; a failure leaves all but \<open>n\<close> of the files.\<close>

definition at_or_under :: "string \<Rightarrow> string \<Rightarrow> bool" where
  "at_or_under d p \<longleftrightarrow> p = d \<or> under d p"

fun drop_files :: "nat \<Rightarrow> (string \<Rightarrow> bool) \<Rightarrow> (string \<times> nat) list \<Rightarrow> (string \<times> nat) list" where
  "drop_files n P [] = []"
| "drop_files n P (e # es) =
     (if P (fst e) then (case n of 0 \<Rightarrow> e # es | Suc m \<Rightarrow> drop_files m P es) else e # drop_files n P es)"

definition sys_remove_all :: "string \<Rightarrow> (fs, unit) prog" where
  "sys_remove_all d = syscall
     (\<lambda>f. (Return (), f\<lparr>dents := filter (\<lambda>e. \<not> at_or_under d (fst e)) (dents f),
                      dirs := filter (\<lambda>p. \<not> at_or_under d p) (dirs f)\<rparr>))
     (\<lambda>n f. f\<lparr>dents := drop_files n (at_or_under d) (dents f)\<rparr>)"

text \<open>\<^verbatim>\<open>create_directories\<close>: the directory and those above it; whether it was made now.\<close>

definition ancestors :: "string \<Rightarrow> string list" where
  "ancestors p = filter (\<lambda>q. q \<noteq> []) (map (\<lambda>n. take n p) (filter (\<lambda>n. p ! n = CHR ''/'') [0..<length p]))"

definition sys_create_directories :: "string \<Rightarrow> (fs, bool) prog" where
  "sys_create_directories p = syscall
     (\<lambda>f. if is_file f p then (Error, f)
          else (Return (\<not> is_dir f p), f\<lparr>dirs := dirs f @ filter (\<lambda>q. \<not> is_dir f q) (ancestors p @ [p])\<rparr>))
     no_effect"

definition least_free :: "nat list \<Rightarrow> nat" where
  "least_free ns = hd (filter (\<lambda>n. n \<notin> set ns) [0..<Suc (length ns)])"

text \<open>\<^verbatim>\<open>open(p, O_APPEND|O_CREAT|O_RDWR, 0644)\<close>\<close>

definition sys_open_fd :: "string \<Rightarrow> (fs, nat) prog" where
  "sys_open_fd p = syscall
     (\<lambda>f. if is_file f p \<or> can_create f p
          then (let g = (if is_file f p then f else snd (creat p f)); n = least_free (fds f)
                in (Return n, g\<lparr>fds := n # fds f\<rparr>))
          else (Error, f)) no_effect"

text \<open>\<^verbatim>\<open>fcntl(fd, F_SETLK, &fl)\<close> fails where another process holds the lock: a fault of the script.\<close>

definition sys_setlk :: "nat \<Rightarrow> (fs, unit) prog" where
  "sys_setlk fd = syscall (\<lambda>f. (Return (), f)) no_effect"

definition sys_close :: "nat \<Rightarrow> (fs, unit) prog" where
  "sys_close fd = modify (\<lambda>f. f\<lparr>fds := removeAll fd (fds f)\<rparr>)"

lemma syscall_quiet [prog_simps]: "faults f = [] \<Longrightarrow> syscall good part f = good f"
  by (simp add: syscall_def)

lemmas syscall_defs = sys_open_trunc_def sys_write_def sys_read_def sys_is_regular_def
  sys_is_directory_def sys_exists_def sys_rename_def sys_remove_def sys_list_def
  sys_remove_all_def sys_create_directories_def sys_open_fd_def sys_setlk_def

section \<open>Output streams\<close>

text \<open>
  A \<^verbatim>\<open>std::ofstream\<close>. Every function of the code that writes to one flushes or closes it
  before it returns, so a write and its flush are one system call here. A stream whose
  open or write failed drops what is written to it later.
\<close>

record ofstream =
  os_ino :: "nat option"   \<comment> \<open>\<^verbatim>\<open>is_open()\<close>\<close>
  os_pos :: nat
  os_fail :: bool          \<comment> \<open>\<^verbatim>\<open>fail()\<close>\<close>

definition closed_stream :: ofstream where
  "closed_stream = \<lparr>os_ino = None, os_pos = 0, os_fail = False\<rparr>"

definition ofstream_open :: "string \<Rightarrow> (fs, ofstream) prog" where
  "ofstream_open p = seq (attempt (sys_open_trunc p)) (\<lambda>r. ret (case r of
      Some i \<Rightarrow> \<lparr>os_ino = Some i, os_pos = 0, os_fail = False\<rparr>
    | None \<Rightarrow> \<lparr>os_ino = None, os_pos = 0, os_fail = True\<rparr>))"

definition ofstream_write :: "ofstream \<Rightarrow> string \<Rightarrow> (fs, ofstream) prog" where
  "ofstream_write os ys = (case os_ino os of
      None \<Rightarrow> ret (os\<lparr>os_fail := True\<rparr>)
    | Some i \<Rightarrow> if os_fail os then ret os else
        seq (attempt (sys_write i (os_pos os) ys)) (\<lambda>r. ret (case r of
          Some _ \<Rightarrow> os\<lparr>os_pos := os_pos os + length ys\<rparr>
        | None \<Rightarrow> os\<lparr>os_fail := True\<rparr>)))"

definition ofstream_seekp :: "nat \<Rightarrow> ofstream \<Rightarrow> ofstream" where
  "ofstream_seekp k os = (if os_fail os then os else os\<lparr>os_pos := k\<rparr>)"

definition ofstream_close :: "ofstream \<Rightarrow> ofstream" where
  "ofstream_close os = (case os_ino os of
      None \<Rightarrow> os\<lparr>os_fail := True\<rparr> | Some _ \<Rightarrow> os\<lparr>os_ino := None\<rparr>)"

section \<open>The wrappers of JNServiceMiscUtils.cpp\<close>

definition file_exists :: "string \<Rightarrow> (fs, bool) prog" where
  "file_exists name = sys_is_regular name"

definition dir_exists :: "string \<Rightarrow> (fs, bool) prog" where
  "dir_exists name = sys_is_directory name"

definition file_rename :: "string \<Rightarrow> string \<Rightarrow> (fs, unit) prog" where
  "file_rename from to = sys_rename from to"

definition file_delete :: "string \<Rightarrow> (fs, unit) prog" where
  "file_delete name = sys_remove name"

text \<open>
  The retry loop of \<^verbatim>\<open>replaceFile\<close>: it ends when the target is not there, when the question
  failed (the flag stays false), or when the target is deleted; otherwise it sleeps and
  tries again, \<open>numRetries\<close> times.
\<close>

fun replace_loop :: "nat \<Rightarrow> string \<Rightarrow> (fs, unit) prog" where
  "replace_loop 0 target = ret ()"
| "replace_loop (Suc numRetries) target =
     seq (attempt (file_exists target)) (\<lambda>r.
       if r \<noteq> Some True then ret ()
       else seq (attempt (file_delete target)) (\<lambda>d.
         if d \<noteq> None then ret () else replace_loop numRetries target))"

definition replaceFile :: "string \<Rightarrow> string \<Rightarrow> (fs, unit) prog" where
  "replaceFile src target = seq (replace_loop 5 target) (\<lambda>_. file_rename src target)"

text \<open>
  The path has a root directory: it starts with a slash, and is not a bare network name
  (two slashes, a name, and nothing after it).
\<close>

definition is_absolute_path :: "string \<Rightarrow> bool" where
  "is_absolute_path path \<longleftrightarrow> take 1 path = ''/'' \<and>
     \<not> (take 2 path = ''//'' \<and> drop 2 path \<noteq> [] \<and> CHR ''/'' \<notin> set (drop 2 path))"

definition try_to_acquire_lockfile :: "string \<Rightarrow> (fs, nat) prog" where
  "try_to_acquire_lockfile lockfn = seq (sys_open_fd lockfn) (\<lambda>fd.
     seq (attempt (sys_setlk fd)) (\<lambda>r.
       if r = None then seq (sys_close fd) (\<lambda>_. err) else ret fd))"

section \<open>Well-formed file systems\<close>

text \<open>Paths and inodes are unique (there are no hard links), and fresh inodes are unused.\<close>

definition wf_fs :: "fs \<Rightarrow> bool" where
  "wf_fs f \<longleftrightarrow> distinct (map fst (dents f)) \<and> distinct (map snd (dents f)) \<and>
     (\<forall>(p, i) \<in> set (dents f). i < next_ino f)"

lemma ino_in_dents: "ino f p = Some i \<Longrightarrow> (p, i) \<in> set (dents f)"
  by (simp add: ino_def map_of_SomeD)

lemma ino_iff_dents: "wf_fs f \<Longrightarrow> ino f p = Some i \<longleftrightarrow> (p, i) \<in> set (dents f)"
  by (simp add: ino_def wf_fs_def)

lemma ino_unique:
  assumes wf: "wf_fs f" and p: "ino f p = Some i" and q: "ino f q = Some i"
  shows "p = q"
proof -
  from p q have "(p, i) \<in> set (dents f)" "(q, i) \<in> set (dents f)" by (simp_all add: ino_in_dents)
  with wf show ?thesis
    by (metis wf_fs_def distinct_map inj_onD prod.inject snd_conv)
qed

lemma ino_less: "wf_fs f \<Longrightarrow> ino f p = Some i \<Longrightarrow> i < next_ino f"
  by (auto simp: wf_fs_def dest!: ino_in_dents)

lemma filter_map_of: "map_of (filter (\<lambda>(p, i). P p) ds) q = (if P q then map_of ds q else None)"
  by (induction ds) auto

lemma filter_map_of_fst: "map_of (filter (\<lambda>e. P (fst e)) ds) q = (if P q then map_of ds q else None)"
  by (induction ds) auto

lemma map_of_rename_key:
  assumes "a \<noteq> b" "b \<notin> fst ` set es"
  shows "map_of (map (\<lambda>(p, i). (if p = a then b else p, i)) es) q =
    (if q = b then map_of es a else if q = a then None else map_of es q)"
  using assms(2)
proof (induction es)
  case Nil
  then show ?case by simp
next
  case (Cons e es)
  obtain p i where e: "e = (p, i)" by fastforce
  from Cons.prems e have "p \<noteq> b" by auto
  with Cons e assms(1) show ?case by (cases "p = a"; cases "q = b"; cases "q = a") simp_all
qed

lemma map_of_move_dent:
  assumes "map_of ds a = Some i" "a \<noteq> b"
  shows "map_of (move_dent a b ds) q = (if q = b then Some i else if q = a then None else map_of ds q)"
proof -
  have "b \<notin> fst ` set (filter (\<lambda>(p, i). p \<noteq> b) ds)" by auto
  then show ?thesis
    using assms by (simp add: move_dent_def map_of_rename_key filter_map_of)
qed

lemma move_dent_other:
  assumes "is_file f a" "a \<noteq> p" "b \<noteq> p"
  shows "map_of (move_dent a b (dents f)) p = map_of (dents f) p"
proof (cases "a = b")
  case True
  then show ?thesis by (simp add: move_dent_def)
next
  case False
  from assms(1) obtain k where "map_of (dents f) a = Some k" by (auto simp: is_file_def ino_def)
  with False show ?thesis using assms(2,3) by (simp add: map_of_move_dent)
qed

section \<open>Orders on file systems\<close>

text \<open>
  A preorder that does not look at the fault script: to show that a system call moves
  along it, show it for the call's effect and for its interrupted effect.
\<close>

locale fs_order = step_order R for R :: "fs \<Rightarrow> fs \<Rightarrow> bool" +
  assumes faults_move: "faults f = x # k \<Longrightarrow> R f (f\<lparr>faults := k\<rparr>)"
begin

lemma moves_syscall:
  assumes good: "\<And>f. R f (snd (good f))" and part: "\<And>n f. R f (part n f)"
  shows "moves R (syscall good part)"
  unfolding moves_def syscall_def
  by (auto split: list.splits fault.splits intro: good part step_trans [OF faults_move])

lemma moves_read_only:
  "moves R (sys_read p)" "moves R (sys_is_regular p)" "moves R (sys_is_directory p)"
  "moves R (sys_exists p)" "moves R (sys_list p)" "moves R (sys_setlk fd)"
  unfolding syscall_defs
  by (rule moves_syscall; simp add: no_effect_def step_refl split: option.splits)+

lemma moves_exists: "moves R (file_exists p)" "moves R (dir_exists p)"
  unfolding file_exists_def dir_exists_def by (rule moves_read_only)+

end


text \<open>Composite programs move along every order their system calls move along.\<close>

context fs_order begin

lemma moves_close: "(\<And>f k. R f (f\<lparr>fds := k\<rparr>)) \<Longrightarrow> moves R (sys_close fd)"
  unfolding sys_close_def by (rule moves_modify) simp

lemma moves_lockfile:
  assumes "moves R (sys_open_fd p)" "\<And>f k. R f (f\<lparr>fds := k\<rparr>)"
  shows "moves R (try_to_acquire_lockfile p)"
  unfolding try_to_acquire_lockfile_def
  by (intro moves_seq moves_attempt moves_if moves_err moves_ret moves_read_only moves_close assms)

lemma moves_replace_loop: "moves R (sys_remove q) \<Longrightarrow> moves R (replace_loop n q)"
  by (induction n)
    (simp_all add: file_delete_def moves_ret moves_seq moves_attempt moves_exists)

lemma moves_replaceFile:
  "moves R (sys_remove b) \<Longrightarrow> moves R (sys_rename a b) \<Longrightarrow> moves R (replaceFile a b)"
  unfolding replaceFile_def file_rename_def by (intro moves_seq moves_replace_loop)

lemma moves_ofstream_open: "moves R (sys_open_trunc p) \<Longrightarrow> moves R (ofstream_open p)"
  unfolding ofstream_open_def by (intro moves_seq moves_attempt moves_ret)

lemma moves_ofstream_write:
  "(\<And>i k. os_ino os = Some i \<Longrightarrow> moves R (sys_write i k ys)) \<Longrightarrow> moves R (ofstream_write os ys)"
  unfolding ofstream_write_def
  by (auto split: option.split intro!: moves_seq moves_attempt moves_ret)

end

section \<open>The directory structure stays well formed\<close>

interpretation wf: fs_order "\<lambda>f g. wf_fs f \<longrightarrow> wf_fs g"
  by unfold_locales (auto simp: wf_fs_def)

lemma wf_creat: "wf_fs f \<Longrightarrow> creat p f = (i, g) \<Longrightarrow> wf_fs g"
  by (force simp: creat_def wf_fs_def ino_def map_of_eq_None_iff split: option.splits)

lemma wf_move_dent:
  assumes "wf_fs f"
  shows "wf_fs (f\<lparr>dents := move_dent a b (dents f)\<rparr>)"
proof (cases "a = b")
  case True
  then show ?thesis using assms by (simp add: move_dent_def wf_fs_def)
next
  case False
  let ?es = "filter (\<lambda>(p, i). p \<noteq> b) (dents f)"
  let ?m = "\<lambda>(p, i). (if p = a then b else p, i)"
  have es: "distinct (map fst ?es)" "distinct (map snd ?es)" "\<forall>(p, i) \<in> set ?es. i < next_ino f"
    using assms by (auto simp: wf_fs_def distinct_map_filter)
  have b: "b \<notin> set (map fst ?es)" by auto
  have "map snd (map ?m ?es) = map snd ?es" by (auto simp: o_def split_def)
  moreover have "map fst (map ?m ?es) = map (\<lambda>p. if p = a then b else p) (map fst ?es)"
    by (auto simp: o_def split_def)
  moreover have "inj_on (\<lambda>p. if p = a then b else p) (set (map fst ?es))"
    using b by (auto simp: inj_on_def)
  ultimately have "distinct (map fst (map ?m ?es))" "distinct (map snd (map ?m ?es))"
    using es(1,2) by (simp_all only: distinct_map)
  with es(3) False show ?thesis by (auto simp: wf_fs_def move_dent_def)
qed

lemma set_drop_files: "set (drop_files n P es) \<subseteq> set es"
  by (induction n P es rule: drop_files.induct) (auto split: nat.splits)

lemma distinct_drop_files: "distinct (map g es) \<Longrightarrow> distinct (map g (drop_files n P es))"
proof (induction n P es rule: drop_files.induct)
  case (2 n P e es)
  moreover have "g ` set (drop_files k P es) \<subseteq> g ` set es" for k
    using set_drop_files by (rule image_mono)
  ultimately show ?case by (auto split: nat.splits)
qed simp

lemma wf_drop_files: "wf_fs f \<Longrightarrow> wf_fs (f\<lparr>dents := drop_files n P (dents f)\<rparr>)"
  using set_drop_files [of n P "dents f"] by (auto simp: wf_fs_def distinct_drop_files)

lemma wf_syscalls [moves_intros]:
  "moves (\<lambda>f g. wf_fs f \<longrightarrow> wf_fs g) (sys_open_trunc p)"
  "moves (\<lambda>f g. wf_fs f \<longrightarrow> wf_fs g) (sys_write i k ys)"
  "moves (\<lambda>f g. wf_fs f \<longrightarrow> wf_fs g) (sys_rename a b)"
  "moves (\<lambda>f g. wf_fs f \<longrightarrow> wf_fs g) (sys_remove p)"
  "moves (\<lambda>f g. wf_fs f \<longrightarrow> wf_fs g) (sys_remove_all p)"
  "moves (\<lambda>f g. wf_fs f \<longrightarrow> wf_fs g) (sys_create_directories p)"
  "moves (\<lambda>f g. wf_fs f \<longrightarrow> wf_fs g) (sys_open_fd p)"
proof -
  show "moves (\<lambda>f g. wf_fs f \<longrightarrow> wf_fs g) (sys_open_trunc p)"
    unfolding sys_open_trunc_def
    by (rule wf.moves_syscall) (auto simp: no_effect_def split: prod.splits intro: wf_creat)
  show "moves (\<lambda>f g. wf_fs f \<longrightarrow> wf_fs g) (sys_write i k ys)"
    unfolding sys_write_def
    by (rule wf.moves_syscall) (auto simp: store_def wf_fs_def)
  show "moves (\<lambda>f g. wf_fs f \<longrightarrow> wf_fs g) (sys_rename a b)"
    unfolding sys_rename_def
    by (rule wf.moves_syscall) (auto simp: no_effect_def wf_move_dent)
  show "moves (\<lambda>f g. wf_fs f \<longrightarrow> wf_fs g) (sys_remove p)"
    unfolding sys_remove_def
    by (rule wf.moves_syscall) (auto simp: no_effect_def wf_fs_def distinct_map_filter)
  show "moves (\<lambda>f g. wf_fs f \<longrightarrow> wf_fs g) (sys_remove_all p)"
    unfolding sys_remove_all_def
    by (rule wf.moves_syscall) (simp add: wf_fs_def distinct_map_filter, simp add: wf_drop_files)
  show "moves (\<lambda>f g. wf_fs f \<longrightarrow> wf_fs g) (sys_create_directories p)"
    unfolding sys_create_directories_def
    by (rule wf.moves_syscall) (auto simp: no_effect_def wf_fs_def)
  have fds: "wf_fs (f\<lparr>fds := k\<rparr>) = wf_fs f" for f k by (simp add: wf_fs_def)
  show "moves (\<lambda>f g. wf_fs f \<longrightarrow> wf_fs g) (sys_open_fd p)"
    unfolding sys_open_fd_def
    by (rule wf.moves_syscall) (auto simp: no_effect_def Let_def fds split: prod.splits
        dest: wf_creat [OF _ surjective_pairing])
qed

section \<open>No system call adds a fault\<close>

interpretation spent: fs_order "\<lambda>f g. set (faults g) \<subseteq> set (faults f)"
  by unfold_locales auto

lemma faults_creat: "faults (snd (creat p f)) = faults f"
  by (simp add: creat_def split: option.splits)

lemma spent_syscalls [moves_intros]:
  "moves (\<lambda>f g. set (faults g) \<subseteq> set (faults f)) (sys_open_trunc p)"
  "moves (\<lambda>f g. set (faults g) \<subseteq> set (faults f)) (sys_write i k ys)"
  "moves (\<lambda>f g. set (faults g) \<subseteq> set (faults f)) (sys_rename a b)"
  "moves (\<lambda>f g. set (faults g) \<subseteq> set (faults f)) (sys_remove p)"
  using faults_creat
  by (auto simp: sys_open_trunc_def sys_write_def sys_rename_def sys_remove_def store_def no_effect_def
      intro!: spent.moves_syscall split: prod.splits if_splits) (metis snd_conv)

section \<open>A name that other calls leave alone\<close>

definition same_name :: "string \<Rightarrow> fs \<Rightarrow> fs \<Rightarrow> bool" where
  "same_name p f g \<longleftrightarrow> ino g p = ino f p \<and> next_ino f \<le> next_ino g"

interpretation named: fs_order "same_name p" for p
  by unfold_locales (auto simp: same_name_def ino_def)

lemma creat_name:
  "q \<noteq> p \<Longrightarrow> same_name p f (snd (creat q f))"
  by (auto simp: same_name_def creat_def ino_def map_add_def split: option.splits)

lemma named_syscalls [moves_intros]:
  "q \<noteq> p \<Longrightarrow> moves (same_name p) (sys_open_trunc q)"
  "moves (same_name p) (sys_write j k ys)"
  "a \<noteq> p \<Longrightarrow> b \<noteq> p \<Longrightarrow> moves (same_name p) (sys_rename a b)"
  "q \<noteq> p \<Longrightarrow> moves (same_name p) (sys_remove q)"
  "q \<noteq> p \<Longrightarrow> moves (same_name p) (sys_open_fd q)"
proof -
  show "moves (same_name p) (sys_open_trunc q)" if "q \<noteq> p"
    unfolding sys_open_trunc_def
    by (rule named.moves_syscall)
      (use creat_name [OF that] in \<open>auto simp: no_effect_def named.step_refl split: prod.splits intro: snd_conv\<close>,
        metis snd_conv)
  show "moves (same_name p) (sys_write j k ys)"
    unfolding sys_write_def by (rule named.moves_syscall) (simp_all add: store_def same_name_def ino_def)
  show "moves (same_name p) (sys_rename a b)" if "a \<noteq> p" "b \<noteq> p"
    unfolding sys_rename_def
  proof (rule named.moves_syscall)
    fix f
    have "is_file f a \<Longrightarrow> map_of (move_dent a b (dents f)) p = map_of (dents f) p"
      using move_dent_other that by blast
    then show "same_name p f (snd (if is_file f a \<and> can_create f b
        then (Return (), f\<lparr>dents := move_dent a b (dents f)\<rparr>) else (Error, f)))"
      by (simp add: same_name_def ino_def)
  qed (simp add: no_effect_def named.step_refl)
  show "moves (same_name p) (sys_remove q)" if "q \<noteq> p"
    unfolding sys_remove_def
    by (rule named.moves_syscall)
      (use that in \<open>auto simp: no_effect_def same_name_def ino_def filter_map_of\<close>)
  show "moves (same_name p) (sys_open_fd q)" if "q \<noteq> p"
    unfolding sys_open_fd_def
    by (rule named.moves_syscall)
      (use creat_name [OF that] in \<open>auto simp: no_effect_def Let_def same_name_def ino_def\<close>)
qed

section \<open>A file that other calls leave alone\<close>

text \<open>Path \<open>p\<close> names inode \<open>i\<close>, whose content is \<open>c\<close>.\<close>

definition holds_file :: "string \<Rightarrow> nat \<Rightarrow> string \<Rightarrow> fs \<Rightarrow> bool" where
  "holds_file p i c f \<longleftrightarrow> wf_fs f \<and> ino f p = Some i \<and> data f i = c"

lemma holds_file_content: "holds_file p i c f \<Longrightarrow> content f p = Some c"
  by (simp add: holds_file_def content_def)

lemma contentE:
  assumes "content f p = Some c" "wf_fs f"
  obtains i where "holds_file p i c f"
  using assms by (auto simp: holds_file_def content_def)

interpretation held: fs_order "\<lambda>f g. holds_file p i c f \<longrightarrow> holds_file p i c g" for p i c
  by unfold_locales (auto simp: holds_file_def wf_fs_def ino_def)

lemma creat_other:
  assumes "holds_file p i c f" "creat q f = (j, g)" "q \<noteq> p"
  shows "holds_file p i c g \<and> j \<noteq> i \<and> ino g q = Some j \<and> data g j = []"
proof (cases "ino f q")
  case None
  with assms have g: "g = f\<lparr>dents := dents f @ [(q, next_ino f)],
      data := (data f)(next_ino f := []), next_ino := Suc (next_ino f)\<rparr>" "j = next_ino f"
    by (auto simp: creat_def)
  have "i < next_ino f" using assms ino_less by (auto simp: holds_file_def)
  moreover have "wf_fs g" using assms wf_creat by (auto simp: holds_file_def)
  ultimately show ?thesis
    using assms None g by (auto simp: holds_file_def ino_def map_add_def split: option.splits)
next
  case (Some k)
  then show ?thesis
    using assms ino_unique [of f p i q] wf_creat [of f q j g]
    by (auto simp: creat_def holds_file_def ino_def)
qed

lemma held_open_trunc:
  assumes h: "holds_file p i c f" and q: "q \<noteq> p" and run: "sys_open_trunc q f = (r, g)"
  shows "holds_file p i c g \<and> r \<noteq> Return i"
proof -
  have step: "holds_file p i c g' \<and> j \<noteq> i" if "creat q f' = (j, g')" "holds_file p i c f'" for f' j g'
    using creat_other [OF that(2,1) q] by simp
  have f: "holds_file p i c (f\<lparr>faults := k\<rparr>)" for k
    using h by (simp add: holds_file_def wf_fs_def ino_def)
  show ?thesis
    using run h
    by (auto simp: sys_open_trunc_def syscall_def no_effect_def
        split: list.splits fault.splits if_splits prod.splits dest!: step intro: f)
qed

lemma held_store: "j \<noteq> i \<Longrightarrow> holds_file p i c f \<Longrightarrow> holds_file p i c (store j k ys f)"
  by (simp add: holds_file_def store_def ino_def wf_fs_def)

lemma held_syscalls [moves_intros]:
  "q \<noteq> p \<Longrightarrow> moves (\<lambda>f g. holds_file p i c f \<longrightarrow> holds_file p i c g) (sys_open_trunc q)"
  "j \<noteq> i \<Longrightarrow> moves (\<lambda>f g. holds_file p i c f \<longrightarrow> holds_file p i c g) (sys_write j k ys)"
  "a \<noteq> p \<Longrightarrow> b \<noteq> p \<Longrightarrow> moves (\<lambda>f g. holds_file p i c f \<longrightarrow> holds_file p i c g) (sys_rename a b)"
  "q \<noteq> p \<Longrightarrow> moves (\<lambda>f g. holds_file p i c f \<longrightarrow> holds_file p i c g) (sys_remove q)"
  "moves (\<lambda>f g. holds_file p i c f \<longrightarrow> holds_file p i c g) (sys_create_directories d)"
  "moves (\<lambda>f g. holds_file p i c f \<longrightarrow> holds_file p i c g) (sys_open_fd q)"
proof -
  let ?R = "\<lambda>f g. holds_file p i c f \<longrightarrow> holds_file p i c g"
  show "moves ?R (sys_open_trunc q)" if "q \<noteq> p"
    by (rule movesI) (use held_open_trunc that in blast)
  show "moves ?R (sys_write j k ys)" if "j \<noteq> i"
    unfolding sys_write_def
    by (rule held.moves_syscall) (simp_all add: held_store that)
  show "moves ?R (sys_rename a b)" if "a \<noteq> p" "b \<noteq> p"
    unfolding sys_rename_def
  proof (rule held.moves_syscall)
    fix f
    have "is_file f a \<Longrightarrow> map_of (move_dent a b (dents f)) p = map_of (dents f) p"
      using move_dent_other that by blast
    then show "?R f (snd (if is_file f a \<and> can_create f b
        then (Return (), f\<lparr>dents := move_dent a b (dents f)\<rparr>) else (Error, f)))"
      by (auto simp: holds_file_def wf_move_dent ino_def)
  qed (simp add: no_effect_def)
  show "moves ?R (sys_remove q)" if "q \<noteq> p"
    unfolding sys_remove_def
    by (rule held.moves_syscall)
      (use that in \<open>auto simp: no_effect_def holds_file_def wf_fs_def distinct_map_filter ino_def filter_map_of\<close>)
  show "moves ?R (sys_create_directories d)"
    unfolding sys_create_directories_def
    by (rule held.moves_syscall) (auto simp: no_effect_def holds_file_def wf_fs_def ino_def)
  have fds: "holds_file p i c (f\<lparr>fds := k\<rparr>) = holds_file p i c f" for f k
    by (simp add: holds_file_def wf_fs_def ino_def)
  show "moves ?R (sys_open_fd q)"
    unfolding sys_open_fd_def
  proof (rule held.moves_syscall)
    fix f
    have "holds_file p i c (snd (creat q f))" if "holds_file p i c f" "\<not> is_file f q"
    proof -
      from that have "q \<noteq> p" by (auto simp: is_file_def holds_file_def)
      with creat_other [OF that(1) surjective_pairing] show ?thesis by blast
    qed
    then show "?R f (snd (if is_file f q \<or> can_create f q
          then (let g = (if is_file f q then f else snd (creat q f)); n = least_free (fds f)
                in (Return n, g\<lparr>fds := n # fds f\<rparr>))
          else (Error, f)))"
      by (auto simp: Let_def fds)
  qed (simp add: no_effect_def)
qed

text \<open>A stream that was just opened on another path writes to another inode.\<close>

lemma held_ofstream_open:
  assumes "ofstream_open q f = (r, g)" "holds_file p i c f" "q \<noteq> p"
  shows "holds_file p i c g \<and> (\<forall>os. r = Return os \<longrightarrow> os_ino os \<noteq> Some i)"
proof -
  from assms(1) consider
      (ok) j where "sys_open_trunc q f = (Return j, g)" "r = Return \<lparr>os_ino = Some j, os_pos = 0, os_fail = False\<rparr>"
    | (bad) "sys_open_trunc q f = (Error, g)" "r = Return \<lparr>os_ino = None, os_pos = 0, os_fail = True\<rparr>"
    | (stop) k where "sys_open_trunc q f = (Stop k, g)" "r = Stop k"
    unfolding ofstream_open_def
    by (auto simp: seq_def attempt_def ret_def split: prod.splits result.splits)
  then show ?thesis
    by cases (use held_open_trunc [OF assms(2,3)] in \<open>fastforce+\<close>)
qed

lemma held_ofstream_write:
  assumes "ofstream_write os ys f = (r, g)" "holds_file p i c f" "os_ino os \<noteq> Some i"
  shows "holds_file p i c g \<and> (\<forall>os'. r = Return os' \<longrightarrow> os_ino os' = os_ino os)"
proof -
  have "moves (\<lambda>f g. holds_file p i c f \<longrightarrow> holds_file p i c g) (ofstream_write os ys)"
    using assms(3) by (intro held.moves_ofstream_write held_syscalls(2)) auto
  from movesD [OF this assms(1)] assms(2) have "holds_file p i c g" by blast
  moreover have "os_ino os' = os_ino os" if "r = Return os'" for os'
    using assms(1) that unfolding ofstream_write_def
    by (auto simp: seq_def attempt_def ret_def split: prod.splits result.splits option.splits if_splits)
  ultimately show ?thesis by blast
qed

end
