(* ===== verification/Storage.thy ===== *)
theory Storage
  imports Names Filesystem
begin

text \<open>
  \<^verbatim>\<open>util/StorageInfo.h\<close>, \<^verbatim>\<open>util/NamespaceInfo.h\<close>, \<^verbatim>\<open>util/RequestInfo.h\<close>, the protocol messages
  the journal reads and writes, and \<^verbatim>\<open>JNStorage\<close>: the directory of one journal, its lock,
  its \<^verbatim>\<open>VERSION\<close> file and its state.
\<close>

section \<open>Messages and the code that is not in the repository\<close>

text \<open>The protocol buffers' \<^verbatim>\<open>uint64\<close> fields hold integers between \<open>0\<close> and \<open>2 ^ 64 - 1\<close>.\<close>

record SegmentState =
  ss_startTxId :: int
  ss_endTxId :: int
  ss_isInProgress :: bool

record PaxosData =
  pd_segmentState :: SegmentState
  pd_acceptedInEpoch :: int

text \<open>
  The generated protobuf code, the Ice property reader and the HTTP client are arguments of
  the model. A download ends with a response code, or with an exception after part of the
  body.
\<close>

datatype fetch = Response string int | Threw string

record env =
  pb_serialize :: "PaxosData \<Rightarrow> string option"
  pb_parse :: "string \<Rightarrow> PaxosData option"
  load_properties :: "string \<Rightarrow> string \<Rightarrow> string"
  http_get :: "string \<Rightarrow> fetch"

record RequestInfoProto =
  rp_journalId :: string
  rp_epoch :: int
  rp_ipcSerialNumber :: int
  rp_committedTxId :: "int option"

record NamespaceInfoProto =
  np_blockPoolID :: string
  np_layoutVersion :: int
  np_namespceID :: int
  np_clusterID :: string
  np_cTime :: int

section \<open>StorageInfo and NamespaceInfo\<close>

record storage_info =
  layoutVersion :: int
  clusterID :: string
  namespaceID :: int
  cTime :: int

definition empty_storage_info :: storage_info where
  "empty_storage_info = \<lparr>layoutVersion = 0, clusterID = [], namespaceID = 0, cTime = 0\<rparr>"

record namespace_info = storage_info +
  bpId :: string

definition mk_NamespaceInfo :: "NamespaceInfoProto \<Rightarrow> namespace_info" where
  "mk_NamespaceInfo info = \<lparr>layoutVersion = s32 (np_layoutVersion info),
     clusterID = np_clusterID info, namespaceID = s32 (np_namespceID info),
     cTime = np_cTime info, bpId = np_blockPoolID info\<rparr>"

definition setStorageInfo ::
    "'a storage_info_scheme \<Rightarrow> 'b storage_info_scheme \<Rightarrow> 'a storage_info_scheme" where
  "setStorageInfo this from = this\<lparr>layoutVersion := layoutVersion from,
     clusterID := clusterID from, namespaceID := namespaceID from, cTime := cTime from\<rparr>"

definition getCTime :: "'a storage_info_scheme \<Rightarrow> int" where
  "getCTime this = s64 (cTime this)"

text \<open>
  The values of a properties file as \<^verbatim>\<open>readProperties\<close> takes them; \<open>None\<close> is the
  \<^verbatim>\<open>Bad VERSION file\<close> case.
\<close>

definition parse_properties ::
    "(string \<Rightarrow> string) \<Rightarrow> 'a storage_info_scheme \<Rightarrow> 'a storage_info_scheme option" where
  "parse_properties get this =
     (let lv = get ''layoutVersion''; cid = get ''clusterID'';
          nsid = get ''namespaceID''; ct = get ''cTime'' in
      if lv = [] \<or> cid = [] \<or> nsid = [] \<or> ct = [] then None
      else Some (this\<lparr>layoutVersion := atoi (c_str lv), clusterID := cid,
                     namespaceID := atoi (c_str nsid), cTime := strtoul (c_str ct)\<rparr>))"

section \<open>RequestInfo\<close>

record request_info =
  ri_jid :: string
  ri_epoch :: int
  ri_ipcSerialNumber :: int
  ri_committedTxId :: int

definition mk_RequestInfo :: "RequestInfoProto \<Rightarrow> request_info" where
  "mk_RequestInfo reqInfo = \<lparr>ri_jid = rp_journalId reqInfo, ri_epoch = s64 (rp_epoch reqInfo),
     ri_ipcSerialNumber = s64 (rp_ipcSerialNumber reqInfo),
     ri_committedTxId = (case rp_committedTxId reqInfo of Some c \<Rightarrow> s64 c | None \<Rightarrow> INVALID_TXID)\<rparr>"

definition hasCommittedTxId :: "request_info \<Rightarrow> bool" where
  "hasCommittedTxId r \<longleftrightarrow> ri_committedTxId r \<noteq> INVALID_TXID"

section \<open>JNStorage\<close>

text \<open>\<open>st_state\<close> is \<open>None\<close> while the C++ member is still indeterminate.\<close>

record jnstorage = storage_info +
  st_logDir :: string
  st_currentDir :: string
  st_state :: "StorageState option"
  st_lockFileFD :: int
  st_initialized :: bool

definition getInProgressEditLog :: "jnstorage \<Rightarrow> int \<Rightarrow> string" where
  "getInProgressEditLog st startTxId = getInProgressEditsFile (st_currentDir st) startTxId"

definition getPaxosDir :: "jnstorage \<Rightarrow> string" where
  "getPaxosDir st = st_currentDir st @ ''/'' @ ''paxos''"

definition getPaxosFile :: "jnstorage \<Rightarrow> int \<Rightarrow> string" where
  "getPaxosFile st segmentTxId = getPaxosDir st @ ''/'' @ show_int segmentTxId"

definition getSyncLogTemporaryFile :: "jnstorage \<Rightarrow> int \<Rightarrow> int \<Rightarrow> string" where
  "getSyncLogTemporaryFile st segmentTxId epoch =
     getInProgressEditLog st segmentTxId @ ''.epoch='' @ show_int epoch"

definition getVersionFile :: "jnstorage \<Rightarrow> string" where
  "getVersionFile st = st_currentDir st @ ''/'' @ ''VERSION''"

definition getLockFile :: "jnstorage \<Rightarrow> string" where
  "getLockFile st = st_logDir st @ ''/'' @ ''in_use.lock''"

definition isFormatted :: "jnstorage \<Rightarrow> bool" where
  "isFormatted st \<longleftrightarrow> st_state st = Some NORMAL"

definition storage_unlock :: "(fs \<times> jnstorage, unit) prog" where
  "storage_unlock = seq (gets snd) (\<lambda>st.
     if 0 < st_lockFileFD st then on_fst (sys_close (nat (st_lockFileFD st))) else ret ())"

definition readProperties :: "env \<Rightarrow> string \<Rightarrow> (fs \<times> jnstorage, unit) prog" where
  "readProperties e from = seq (on_fst (sys_read from)) (\<lambda>c. seq (gets snd) (\<lambda>st.
     case parse_properties (load_properties e c) st of
       None \<Rightarrow> err
     | Some st' \<Rightarrow> upd_snd (\<lambda>_. st')))"

definition version_text :: "'a storage_info_scheme \<Rightarrow> string" where
  "version_text st =
     ''layoutVersion='' @ show_int (layoutVersion st) @ [newline] @
     ''storageType='' @ ''JOURNAL_NODE'' @ [newline] @
     ''namespaceID='' @ show_int (namespaceID st) @ [newline] @
     ''clusterID='' @ clusterID st @ [newline] @
     ''cTime='' @ show_int (getCTime st) @ [newline]"

definition writeProperties :: "string \<Rightarrow> (fs \<times> jnstorage, unit) prog" where
  "writeProperties to = seq (gets snd) (\<lambda>st. on_fst (
     seq (ofstream_open to) (\<lambda>versionStream.
       if os_ino versionStream = None then err
       else seq (ofstream_write versionStream (version_text st)) (\<lambda>_. ret ()))))"

definition clearLogDirectory :: "(fs \<times> jnstorage, unit) prog" where
  "clearLogDirectory = seq (gets snd) (\<lambda>st. on_fst (
     seq (sys_exists (st_currentDir st)) (\<lambda>dir_exists.
     seq (if dir_exists then sys_remove_all (st_currentDir st) else ret ()) (\<lambda>_.
     seq (sys_exists (st_logDir st)) (\<lambda>dir_exists.
     seq (if \<not> dir_exists then seq (sys_create_directories (st_logDir st)) (\<lambda>_. ret ()) else ret ()) (\<lambda>_.
     seq (sys_create_directories (st_currentDir st)) (\<lambda>_. ret ())))))))"

definition createPaxosDir :: "(fs \<times> jnstorage, unit) prog" where
  "createPaxosDir = seq (gets snd) (\<lambda>st.
     on_fst (seq (sys_create_directories (getPaxosDir st)) (\<lambda>_. ret ())))"

definition analyzeStorageDirectory :: "(fs \<times> jnstorage, unit) prog" where
  "analyzeStorageDirectory = seq (gets snd) (\<lambda>st.
     seq (on_fst (dir_exists (st_logDir st))) (\<lambda>storagedir_exists.
       if \<not> storagedir_exists then upd_snd (\<lambda>st. st\<lparr>st_state := Some NON_EXISTENT\<rparr>)
       else seq (on_fst (try_to_acquire_lockfile (getLockFile st))) (\<lambda>fd.
         seq (upd_snd (\<lambda>st. st\<lparr>st_lockFileFD := int fd\<rparr>)) (\<lambda>_.
         seq (on_fst (file_exists (getVersionFile st))) (\<lambda>hasCurrent.
           if hasCurrent then upd_snd (\<lambda>st. st\<lparr>st_state := Some NORMAL\<rparr>)
           else upd_snd (\<lambda>st. st\<lparr>st_state := Some NOT_FORMATTED\<rparr>))))))"

definition analyzeStorage :: "env \<Rightarrow> (fs \<times> jnstorage, unit) prog" where
  "analyzeStorage e = seq analyzeStorageDirectory (\<lambda>_. seq (gets snd) (\<lambda>st.
     if st_state st = Some NORMAL then readProperties e (getVersionFile st) else ret ()))"

definition storage_format :: "env \<Rightarrow> 'a storage_info_scheme \<Rightarrow> (fs \<times> jnstorage, unit) prog" where
  "storage_format e nsInfo =
     seq (upd_snd (\<lambda>st. setStorageInfo st nsInfo)) (\<lambda>_.
     seq storage_unlock (\<lambda>_.
     seq clearLogDirectory (\<lambda>_.
     seq (gets snd) (\<lambda>st.
     seq (attempt (writeProperties (getVersionFile st))) (\<lambda>_.
     seq createPaxosDir (\<lambda>_. analyzeStorage e))))))"

definition new_storage :: "string \<Rightarrow> jnstorage" where
  "new_storage logDir = \<lparr>layoutVersion = 0, clusterID = [], namespaceID = 0, cTime = 0,
     st_logDir = logDir, st_currentDir = logDir @ ''/'' @ ''current'', st_state = None,
     st_lockFileFD = -1, st_initialized = False\<rparr>"

text \<open>The constructor of \<^verbatim>\<open>JNStorage\<close>, on the object \<open>new_storage logDir\<close>.\<close>

definition mk_JNStorage :: "env \<Rightarrow> (fs \<times> jnstorage, unit) prog" where
  "mk_JNStorage e = seq (attempt (analyzeStorage e)) (\<lambda>r.
     if r \<noteq> None then upd_snd (\<lambda>st. st\<lparr>st_initialized := True\<rparr>) else ret ())"

definition checkConsistentNamespace :: "'a storage_info_scheme \<Rightarrow> jnstorage \<Rightarrow> bool" where
  "checkConsistentNamespace nsInfo st \<longleftrightarrow>
     \<not> (namespaceID nsInfo \<noteq> namespaceID st) \<and> \<not> (clusterID nsInfo \<noteq> clusterID st)"

end
