(* ===== verification/Long_Files.thy ===== *)
theory Long_Files
  imports Filesystem
begin

text \<open>
  The two classes that keep one \<^verbatim>\<open>long\<close> in a file: \<^verbatim>\<open>util/PersistentLongFile.h\<close> and
  \<^verbatim>\<open>util/BestEffortLongFile.h\<close>. Their methods are programs over the file system and the
  object. What the journal relies on is the interface \<open>long_cell\<close>; both classes provide it.
  What is on disk afterwards is a different matter, and is stated separately.
\<close>

section \<open>The interface\<close>

text \<open>\<open>val\<close> is the value the object holds in memory, once it has one.\<close>

locale long_cell =
  fixes get :: "('s, int) prog"
    and set :: "int \<Rightarrow> ('s, unit) prog"
    and val :: "'s \<Rightarrow> int option"
  assumes get_cached: "val s = Some v \<Longrightarrow> get s = (Return v, s)"
    and get_loads: "get s = (Return v, t) \<Longrightarrow> val t = Some v"
    and set_stores: "set v s = (Return u, t) \<Longrightarrow> val t = Some v"
    and set_fails: "set v s = (r, t) \<Longrightarrow> r \<noteq> Return () \<Longrightarrow> val s = Some w \<Longrightarrow> val t = Some w"

definition grows :: "('s \<Rightarrow> int option) \<Rightarrow> 's \<Rightarrow> 's \<Rightarrow> bool" where
  "grows val s t \<longleftrightarrow> (\<forall>x. val s = Some x \<longrightarrow> (\<exists>y. val t = Some y \<and> x \<le> y))"

interpretation grow: step_order "grows val" for val
  by unfold_locales (auto simp: grows_def intro: order_trans)

lemma grows_same: "val t = val s \<Longrightarrow> grows val s t"
  by (auto simp: grows_def)

context long_cell begin

lemma set_get: "set v s = (Return u, t) \<Longrightarrow> get t = (Return v, t)"
  using set_stores by (rule get_cached)

lemma get_again: "get s = (Return v, t) \<Longrightarrow> get t = (Return v, t)"
  using get_loads by (rule get_cached)

lemma get_value: "get s = (Return v, t) \<Longrightarrow> val s = Some w \<Longrightarrow> v = w \<and> t = s"
  using get_cached by auto

lemma set_up: "set v s = (r, t) \<Longrightarrow> (\<forall>x. val s = Some x \<longrightarrow> x \<le> v) \<Longrightarrow> grows val s t"
proof (cases "r = Return ()")
  case True
  assume "set v s = (r, t)" "\<forall>x. val s = Some x \<longrightarrow> x \<le> v"
  then show ?thesis using True set_stores by (auto simp: grows_def)
next
  case False
  assume "set v s = (r, t)"
  then show ?thesis using False set_fails by (auto simp: grows_def)
qed

text \<open>A client that reads the value and then goes on upwards from it only moves it upwards.\<close>

lemma moves_get:
  assumes "\<And>x t r u. val t = Some x \<Longrightarrow> f x t = (r, u) \<Longrightarrow> grows val t u"
  shows "moves (grows val) (seq get f)"
proof (rule movesI)
  fix s r u
  assume run: "seq get f s = (r, u)"
  show "grows val s u"
  proof (cases "val s")
    case None
    then show ?thesis by (simp add: grows_def)
  next
    case (Some w)
    then have "f w s = (r, u)" using run by (simp add: seq_def get_cached)
    with Some show ?thesis by (rule assms)
  qed
qed

lemma moves_raise: "moves (grows val) (seq get (\<lambda>x. if x < v then set v else m x))"
  if "\<And>x. moves (grows val) (m x)"
  by (rule moves_get) (auto split: if_splits intro: set_up movesD [OF that])

end

section \<open>PersistentLongFile\<close>

record plf =
  plf_file :: string
  plf_default :: int
  plf_value :: int
  plf_loaded :: bool

definition mk_plf :: "string \<Rightarrow> int \<Rightarrow> plf" where
  "mk_plf file defaultVal =
     \<lparr>plf_file = file, plf_default = defaultVal, plf_value = defaultVal, plf_loaded = False\<rparr>"

text \<open>\<^verbatim>\<open>fos << val << "\n"; fos.close();\<close> is one write; its failure is not looked at.\<close>

definition plf_writeFile :: "string \<Rightarrow> int \<Rightarrow> (fs, unit) prog" where
  "plf_writeFile file v = seq (ofstream_open file) (\<lambda>fos.
     if os_ino fos = None then err
     else seq (ofstream_write fos (show_int v @ [newline])) (\<lambda>_. ret ()))"

text \<open>\<^verbatim>\<open>end != cstring + line.length()\<close> compares how far \<^verbatim>\<open>strtol\<close> got with the whole line.\<close>

definition plf_parse :: "string \<Rightarrow> int option" where
  "plf_parse c = (case getline_string c of
      None \<Rightarrow> None
    | Some line \<Rightarrow> (case strtol (c_str line) of (v, rest) \<Rightarrow>
        if length (c_str line) - length rest \<noteq> length line then None else Some v))"

definition plf_readFile :: "string \<Rightarrow> int \<Rightarrow> (fs, int) prog" where
  "plf_readFile file defaultVal = seq (file_exists file) (\<lambda>file_exists_flag.
     if \<not> file_exists_flag then ret defaultVal
     else seq (sys_read file) (\<lambda>c. case plf_parse c of None \<Rightarrow> err | Some v \<Rightarrow> ret v))"

definition plf_get :: "(fs \<times> plf, int) prog" where
  "plf_get = seq (gets snd) (\<lambda>p.
     if plf_loaded p then ret (plf_value p)
     else seq (on_fst (plf_readFile (plf_file p) (plf_default p))) (\<lambda>temp.
       seq (upd_snd (\<lambda>p. p\<lparr>plf_value := temp, plf_loaded := True\<rparr>)) (\<lambda>_. ret temp)))"

definition plf_set :: "int \<Rightarrow> (fs \<times> plf, unit) prog" where
  "plf_set newVal = seq (gets snd) (\<lambda>p.
     seq (if plf_value p \<noteq> newVal \<or> \<not> plf_loaded p
          then on_fst (plf_writeFile (plf_file p) newVal) else ret ())
       (\<lambda>_. upd_snd (\<lambda>p. p\<lparr>plf_value := newVal, plf_loaded := True\<rparr>)))"

definition plf_val :: "plf \<Rightarrow> int option" where
  "plf_val p = (if plf_loaded p then Some (plf_value p) else None)"

interpretation plf: long_cell plf_get plf_set "\<lambda>s. plf_val (snd s)"
proof
  fix s :: "fs \<times> plf" and v w u r t
  show "plf_get s = (Return v, s)" if "plf_val (snd s) = Some v"
    using that by (auto simp: plf_get_def plf_val_def prog_simps split: if_splits)
  show "plf_val (snd t) = Some v" if "plf_get s = (Return v, t)"
    using that unfolding plf_get_def
    by (auto simp: plf_val_def prog_simps elim!: seq_ReturnE split: if_splits)
  show "plf_val (snd t) = Some v" if "plf_set v s = (Return u, t)"
    using that unfolding plf_set_def
    by (auto simp: plf_val_def prog_simps elim!: seq_ReturnE)
  show "plf_val (snd t) = Some w"
    if "plf_set v s = (r, t)" "r \<noteq> Return ()" "plf_val (snd s) = Some w"
    using that unfolding plf_set_def
    by (auto simp: prog_simps elim!: seq_casesE split: if_splits simp: on_fst_run)
qed

section \<open>BestEffortLongFile\<close>

record belf =
  belf_file :: string
  belf_default :: int
  belf_value :: int
  belf_opened :: bool
  belf_ostrm :: ofstream

definition mk_belf :: "string \<Rightarrow> int \<Rightarrow> belf" where
  "mk_belf file defaultVal = \<lparr>belf_file = file, belf_default = defaultVal, belf_value = -1,
     belf_opened = False, belf_ostrm = closed_stream\<rparr>"

text \<open>
  The value \<^verbatim>\<open>lazyOpen\<close> takes from the content of the file (\<open>None\<close>: there is no file):
  the outer \<open>None\<close> is its \<open>return -1\<close>.
\<close>

definition belf_parse :: "int \<Rightarrow> string option \<Rightarrow> int option" where
  "belf_parse defaultVal r = (case r of
      None \<Rightarrow> Some defaultVal
    | Some c \<Rightarrow> (case getline_good 128 c of
        None \<Rightarrow> Some defaultVal
      | Some line \<Rightarrow>
          if strlen line = 0 then Some defaultVal
          else if strlen line \<noteq> 19 then None
          else (case strtol (c_str line) of (readval, rest) \<Rightarrow>
            if strlen line - length rest \<noteq> 19 then None else Some readval)))"

definition belf_lazyOpen :: "(fs \<times> belf, unit) prog" where
  "belf_lazyOpen = seq (gets snd) (\<lambda>b.
     if belf_opened b then ret ()
     else seq (attempt (on_fst (sys_read (belf_file b)))) (\<lambda>r.
       case belf_parse (belf_default b) r of
         None \<Rightarrow> err
       | Some v \<Rightarrow> seq (upd_snd (\<lambda>b. b\<lparr>belf_value := v\<rparr>)) (\<lambda>_.
           seq (on_fst (ofstream_open (belf_file b))) (\<lambda>os.
             seq (upd_snd (\<lambda>b. b\<lparr>belf_ostrm := os\<rparr>)) (\<lambda>_.
               if os_ino os = None then err
               else upd_snd (\<lambda>b. b\<lparr>belf_opened := True\<rparr>))))))"

definition belf_get :: "(fs \<times> belf, int) prog" where
  "belf_get = seq belf_lazyOpen (\<lambda>_. gets (\<lambda>s. belf_value (snd s)))"

text \<open>\<^verbatim>\<open>set\<close> does not look at the state of the stream after the write.\<close>

definition belf_set :: "int \<Rightarrow> (fs \<times> belf, unit) prog" where
  "belf_set newVal = seq belf_lazyOpen (\<lambda>_. seq (gets snd) (\<lambda>b.
     seq (on_fst
            (ofstream_write (ofstream_seekp 0 (belf_ostrm b)) (setw0 19 (show_int newVal)))) (\<lambda>os.
       upd_snd (\<lambda>b. b\<lparr>belf_ostrm := os, belf_value := newVal\<rparr>))))"

text \<open>\<^verbatim>\<open>close()\<close>, and what the destructor does.\<close>

definition belf_close :: "(fs \<times> belf, unit) prog" where
  "belf_close = upd_snd (\<lambda>b. if os_ino (belf_ostrm b) = None then b
     else b\<lparr>belf_ostrm := ofstream_close (belf_ostrm b)\<rparr>)"

definition belf_val :: "belf \<Rightarrow> int option" where
  "belf_val b = (if belf_opened b then Some (belf_value b) else None)"

lemma belf_lazyOpen_opened: "belf_opened (snd s) \<Longrightarrow> belf_lazyOpen s = (Return (), s)"
  by (simp add: belf_lazyOpen_def prog_simps)

lemma seq_belf_lazyOpen: "belf_opened (snd s) \<Longrightarrow> seq belf_lazyOpen f s = f () s"
  by (simp add: seq_def belf_lazyOpen_opened)

lemma belf_lazyOpen_opens: "belf_lazyOpen s = (Return u, t) \<Longrightarrow> belf_opened (snd t)"
  unfolding belf_lazyOpen_def
  by (auto simp: prog_simps elim!: seq_ReturnE split: if_splits option.splits)

interpretation belf: long_cell belf_get belf_set "\<lambda>s. belf_val (snd s)"
proof
  fix s :: "fs \<times> belf" and v w u r t
  show "belf_get s = (Return v, s)" if "belf_val (snd s) = Some v"
    using that
    by (auto simp: belf_get_def belf_val_def prog_simps seq_belf_lazyOpen split: if_splits)
  show "belf_val (snd t) = Some v" if "belf_get s = (Return v, t)"
    using that unfolding belf_get_def
    by (auto simp: belf_val_def prog_simps elim!: seq_ReturnE dest: belf_lazyOpen_opens)
  show "belf_val (snd t) = Some v" if "belf_set v s = (Return u, t)"
    using that unfolding belf_set_def
    by (auto simp: belf_val_def prog_simps elim!: seq_ReturnE dest!: belf_lazyOpen_opens simp: on_fst_run)
  show "belf_val (snd t) = Some w"
    if "belf_set v s = (r, t)" "r \<noteq> Return ()" "belf_val (snd s) = Some w"
  proof -
    have o: "belf_opened (snd s)" using that(3) by (auto simp: belf_val_def split: if_splits)
    show ?thesis
      using that unfolding belf_set_def seq_belf_lazyOpen [OF o]
      by (auto simp: prog_simps elim!: seq_casesE simp: on_fst_run)
  qed
qed

section \<open>What is on disk\<close>

lemma overwrite_empty [simp]: "overwrite [] 0 ys = ys"
  by (simp add: overwrite_def)

lemma content_creat:
  assumes "creat p f = (i, g)"
  shows "content g p = Some [] \<and> ino g p = Some i \<and> faults g = faults f \<and> dirs g = dirs f"
proof (cases "ino f p")
  case None
  with assms show ?thesis
    by (auto simp: creat_def content_def ino_def map_add_def)
next
  case (Some j)
  with assms show ?thesis by (auto simp: creat_def content_def ino_def)
qed

lemma content_store: "ino f p = Some i \<Longrightarrow> content (store i k ys f) p = Some (overwrite (data f i) k ys)"
  by (simp add: content_def ino_def store_def)

text \<open>Without faults, opening a stream and writing to it leaves exactly what was written.\<close>

lemma open_write_quiet:
  assumes q: "faults f = []" and c: "can_create f p"
  obtains i g os where
    "ofstream_open p f = (Return \<lparr>os_ino = Some i, os_pos = 0, os_fail = False\<rparr>, g)"
    "faults g = []" "ino g p = Some i" "content g p = Some []" "dirs g = dirs f"
    "\<And>ys. ofstream_write \<lparr>os_ino = Some i, os_pos = 0, os_fail = False\<rparr> ys g
       = (Return \<lparr>os_ino = Some i, os_pos = length ys, os_fail = False\<rparr>, store i 0 ys g)"
    "\<And>ys. content (store i 0 ys g) p = Some ys"
proof -
  obtain i g where cr: "creat p f = (i, g)" by fastforce
  from content_creat [OF cr] q have g: "faults g = []" "ino g p = Some i" "content g p = Some []" "dirs g = dirs f"
    by auto
  then have d: "data g i = []" by (simp add: content_def)
  show ?thesis
  proof
    show "ofstream_open p f = (Return \<lparr>os_ino = Some i, os_pos = 0, os_fail = False\<rparr>, g)"
      using q c cr by (simp add: ofstream_open_def sys_open_trunc_def prog_defs syscall_quiet)
    show "ofstream_write \<lparr>os_ino = Some i, os_pos = 0, os_fail = False\<rparr> ys g
       = (Return \<lparr>os_ino = Some i, os_pos = length ys, os_fail = False\<rparr>, store i 0 ys g)" for ys
      using g by (simp add: ofstream_write_def sys_write_def prog_defs syscall_quiet)
    show "content (store i 0 ys g) p = Some ys" for ys
      using g d by (simp add: content_store)
  qed (use g in auto)
qed

lemma plf_parse_any: "plf_parse (show_int v @ [newline]) = Some (max LONG_MIN (min LONG_MAX v))"
proof -
  have d: "list_all is_digit (show_nat n)" for n by simp
  have nn: "\<forall>c \<in> set (show_int v). c \<noteq> newline \<and> c \<noteq> nul"
    using d [of "nat v"] d [of "nat (- v)"]
    by (auto simp: show_int_def list_all_iff newline_def nul_def is_digit_def code_def)
  then have "takeWhile (\<lambda>x. x \<noteq> newline) (show_int v @ [newline]) = show_int v"
    by (subst takeWhile_append2) auto
  moreover have "c_str (show_int v) = show_int v"
    using nn unfolding c_str_def by (subst takeWhile_eq_all_conv) auto
  moreover have "strtol (show_int v) = (max LONG_MIN (min LONG_MAX v), [])"
    using strtol_show_any [of "[]" v] by simp
  ultimately show ?thesis
    by (simp add: plf_parse_def getline_string_def)
qed

lemma plf_parse_shown [simp]: "long_range v \<Longrightarrow> plf_parse (show_int v @ [newline]) = Some v"
  by (simp add: plf_parse_any long_range_def LONG_MIN_def LONG_MAX_def)

lemma plf_parse_empty [simp]: "plf_parse [] = None"
  by (simp add: plf_parse_def getline_string_def)

end
