(* ===== verification/Edit_Stream.thy ===== *)
theory Edit_Stream
  imports Names Filesystem
begin

text \<open>
  The bytes of an edit log: the header that \<^verbatim>\<open>JNClientOutputStream\<close> writes, the scanner
  \<^verbatim>\<open>JNClientInputStream\<close>, and the encoder of one transaction,
  \<^verbatim>\<open>TestJNClientOutputStream\<close>. The scanner's position is the 32-bit \<^verbatim>\<open>size_t\<close> that its header
  declares; a read behind the end of the string is undefined behaviour; the scan loop is a
  partial function, \<open>None\<close> where it does not end.
\<close>

section \<open>Integers as bytes\<close>

definition byte :: "int \<Rightarrow> nat \<Rightarrow> char" where
  "byte v k = char_of (v div 256 ^ k)"

text \<open>The bytes of an \<open>n\<close>-byte integer in memory, and the integer in a byte array.\<close>

definition native_bytes :: "bool \<Rightarrow> nat \<Rightarrow> int \<Rightarrow> string" where
  "native_bytes le n v = (if le then map (byte v) [0..<n] else map (\<lambda>k. byte v (n - 1 - k)) [0..<n])"

definition be_value :: "string \<Rightarrow> int" where
  "be_value cs = foldl (\<lambda>a c. 256 * a + int (code c)) 0 cs"

definition native_value :: "bool \<Rightarrow> string \<Rightarrow> int" where
  "native_value le u8 = be_value (if le then rev u8 else u8)"

text \<open>\<^verbatim>\<open>IS_LITTLE_ENDIAN\<close> of the x86-64 target; the endianness does not matter (see below).\<close>

definition IS_LITTLE_ENDIAN :: bool where "IS_LITTLE_ENDIAN = True"

definition store_as_big_endian :: "bool \<Rightarrow> nat \<Rightarrow> int \<Rightarrow> string" where
  "store_as_big_endian le n u = (let u8 = native_bytes le n u in
     map (\<lambda>k. if le then u8 ! (n - k - 1) else u8 ! k) [0..<n])"

definition writeInt :: "int \<Rightarrow> string" where
  "writeInt i = store_as_big_endian IS_LITTLE_ENDIAN 4 i"

definition writeLong :: "int \<Rightarrow> string" where
  "writeLong l = store_as_big_endian IS_LITTLE_ENDIAN 8 l"

section \<open>JNClientOutputStream\<close>

text \<open>The stream of the segment being written is an \<^typ>\<open>ofstream\<close> with its file name.\<close>

definition header :: "int \<Rightarrow> string" where
  "header layoutVersion = writeInt layoutVersion @ writeInt 0"

text \<open>\<^verbatim>\<open>create\<close>: seek, write the header and flush; the result is \<^verbatim>\<open>!stream.fail()\<close>.\<close>

definition os_create :: "int \<Rightarrow> ofstream \<Rightarrow> (fs, ofstream) prog" where
  "os_create layoutVersion os = ofstream_write (ofstream_seekp 0 os) (header layoutVersion)"

definition os_writeRaw :: "string \<Rightarrow> ofstream \<Rightarrow> (fs, ofstream) prog" where
  "os_writeRaw records os = ofstream_write os records"

definition os_abort :: "ofstream \<Rightarrow> ofstream" where
  "os_abort os = ofstream_close os"

section \<open>JNClientInputStream\<close>

text \<open>\<^verbatim>\<open>mStrm[pos]\<close>: the terminating NUL can be read, what is behind it cannot.\<close>

definition str_at :: "string \<Rightarrow> int \<Rightarrow> char option" where
  "str_at s pos = (if nat pos < length s then Some (s ! nat pos)
     else if nat pos = length s then Some nul else None)"

text \<open>The methods are programs over \<^verbatim>\<open>mCurPosition\<close>.\<close>

definition next_char :: "string \<Rightarrow> (int, char) prog" where
  "next_char mStrm = seq (gets (str_at mStrm)) (\<lambda>c. case c of
      None \<Rightarrow> halt Undefined
    | Some c \<Rightarrow> seq (modify (\<lambda>p. u32 (p + 1))) (\<lambda>_. ret c))"

definition readOpcode :: "string \<Rightarrow> (int, nat) prog" where
  "readOpcode mStrm = seq (next_char mStrm) (\<lambda>c. ret (code c))"

fun read_chars :: "nat \<Rightarrow> string \<Rightarrow> (int, string) prog" where
  "read_chars 0 mStrm = ret []"
| "read_chars (Suc n) mStrm = seq (next_char mStrm) (\<lambda>c. seq (read_chars n mStrm) (\<lambda>cs. ret (c # cs)))"

text \<open>The union: the character read \<open>k\<close>-th goes to \<^verbatim>\<open>u8[sizeof(T) - k - 1]\<close> or to \<^verbatim>\<open>u8[k]\<close>.\<close>

definition read_as_type :: "bool \<Rightarrow> nat \<Rightarrow> string \<Rightarrow> (int, int) prog" where
  "read_as_type le n mStrm = seq (read_chars n mStrm) (\<lambda>cs.
     ret (native_value le (if le then rev cs else cs)))"

definition readInt :: "string \<Rightarrow> (int, int) prog" where
  "readInt mStrm = seq (read_as_type IS_LITTLE_ENDIAN 4 mStrm) (\<lambda>v. ret (s32 v))"

definition readLong :: "string \<Rightarrow> (int, int) prog" where
  "readLong mStrm = seq (read_as_type IS_LITTLE_ENDIAN 8 mStrm) (\<lambda>v. ret (s64 v))"

text \<open>The \<^verbatim>\<open>int\<close> argument becomes a \<^verbatim>\<open>size_t\<close>: a negative one moves the position back.\<close>

definition scanString :: "int \<Rightarrow> (int, unit) prog" where
  "scanString len = modify (\<lambda>p. u32 (p + u32 len))"

definition skipHeader :: "string \<Rightarrow> (int, unit) prog" where
  "skipHeader mStrm = seq (readInt mStrm) (\<lambda>layoutVersion. seq (readInt mStrm) (\<lambda>layoutFlags.
     if layoutFlags \<noteq> 0 then err else ret ()))"

definition scanOp :: "string \<Rightarrow> (int, int) prog" where
  "scanOp mStrm = seq (gets (\<lambda>mCurPosition. mCurPosition)) (\<lambda>mCurPosition.
     if int (length mStrm) \<le> mCurPosition then ret INVALID_TXID
     else seq (readOpcode mStrm) (\<lambda>opcode.
       if opcode \<noteq> OPCODE then err
       else seq (readInt mStrm) (\<lambda>len. seq (readLong mStrm) (\<lambda>txId.
         seq (scanString (s32 (len - 12))) (\<lambda>_. seq (readInt mStrm) (\<lambda>checksum. ret txId))))))"

partial_function (option) scan_loop :: "string \<Rightarrow> int \<Rightarrow> int \<Rightarrow> int result option" where
  "scan_loop mStrm tempLast pos = (case scanOp mStrm pos of
      (Return txid, pos') \<Rightarrow>
        if txid = INVALID_TXID then Some (Return tempLast)
        else scan_loop mStrm (if tempLast = INVALID_TXID \<or> tempLast < txid then txid else tempLast) pos'
    | (Error, pos') \<Rightarrow> Some Error
    | (Stop k, pos') \<Rightarrow> Some (Stop k))"

declare scan_loop.simps [code]

text \<open>The part of \<^verbatim>\<open>scanLog\<close> behind the opening of the file.\<close>

definition scan_content :: "string \<Rightarrow> int result" where
  "scan_content c = (case skipHeader c 0 of
      (Return _, pos) \<Rightarrow> (case scan_loop c INVALID_TXID pos of None \<Rightarrow> Stop Diverged | Some r \<Rightarrow> r)
    | (Error, pos) \<Rightarrow> Error
    | (Stop k, pos) \<Rightarrow> Stop k)"

definition scanLog :: "string \<Rightarrow> (fs, int) prog" where
  "scanLog filename = seq (sys_read filename) (\<lambda>c f. (scan_content c, f))"

section \<open>TestJNClientOutputStream\<close>

text \<open>One transaction; the CRC-32 of boost is an argument.\<close>

definition calculateSize :: "string \<Rightarrow> int" where
  "calculateSize txdata = 17 + int (length txdata)"

definition encode_op :: "(string \<Rightarrow> int) \<Rightarrow> int \<Rightarrow> string \<Rightarrow> string" where
  "encode_op crc32 txId txdata =
     (let buf = [char_of OPCODE] @ writeInt (calculateSize txdata - 5) @ writeLong txId @ txdata
      in buf @ writeInt (crc32 buf))"

section \<open>Facts: bytes\<close>

definition be_bytes :: "nat \<Rightarrow> int \<Rightarrow> string" where
  "be_bytes n v = map (\<lambda>k. byte v (n - 1 - k)) [0..<n]"

lemma be_bytes_simps [simp]: "be_bytes 0 v = []" "be_bytes (Suc n) v = byte v n # be_bytes n v"
proof -
  have "map (\<lambda>k. byte v (n - k)) [0..<Suc n] = byte v n # map (\<lambda>k. byte v (n - Suc k)) [0..<n]"
    by (simp add: upt_conv_Cons map_Suc_upt [symmetric] del: upt_Suc)
  then show "be_bytes (Suc n) v = byte v n # be_bytes n v"
    by (simp add: be_bytes_def del: upt_Suc) 
qed (simp add: be_bytes_def)

lemma length_be_bytes [simp]: "length (be_bytes n v) = n"
  by (simp add: be_bytes_def)

lemma store_as_big_endian_eq: "store_as_big_endian le n v = be_bytes n v"
  by (rule nth_equalityI) (auto simp: store_as_big_endian_def native_bytes_def be_bytes_def Let_def)

lemma writes_eq: "writeInt i = be_bytes 4 i" "writeLong i = be_bytes 8 i"
  by (simp_all add: writeInt_def writeLong_def store_as_big_endian_eq)

lemma native_value_read [simp]: "native_value le (if le then rev cs else cs) = be_value cs"
  by (simp add: native_value_def)

lemma code_byte: "int (code (byte v k)) = v div 256 ^ k mod 256"
  by (simp only: code_def byte_def of_nat_of_char of_char_of)

lemma be_value_acc:
  "foldl (\<lambda>a c. 256 * a + int (code c)) a (be_bytes n v) = a * 256 ^ n + v mod 256 ^ n"
proof (induction n arbitrary: a)
  case 0
  then show ?case by simp
next
  case (Suc n)
  have "v mod 256 ^ Suc n = 256 ^ n * (v div 256 ^ n mod 256) + v mod 256 ^ n"
    using zmod_zmult2_eq [of 256 v "256 ^ n"] by (simp add: mult.commute)
  then show ?case by (simp only: be_bytes_simps foldl_Cons Suc code_byte) (simp add: algebra_simps)
qed

lemma be_value_be_bytes: "be_value (be_bytes n v) = v mod 256 ^ n"
  by (simp add: be_value_def be_value_acc)

lemma int_back: "s32 (be_value (be_bytes 4 v)) = s32 v"
proof -
  have "v mod 256 ^ 4 = take_bit 32 v" by (simp add: take_bit_eq_mod)
  then show ?thesis by (simp add: be_value_be_bytes s32_def signed_take_bit_take_bit)
qed

lemma long_back: "s64 (be_value (be_bytes 8 v)) = s64 v"
proof -
  have "v mod 256 ^ 8 = u64 v" by (simp add: u64_def take_bit_eq_mod)
  then show ?thesis by (simp add: be_value_be_bytes)
qed

section \<open>Facts: reading back\<close>

lemma u32_id: "0 \<le> x \<Longrightarrow> x < 2 ^ 32 \<Longrightarrow> u32 x = x"
  by (simp add: u32_def take_bit_int_eq_self)

text \<open>Reading \<open>cs\<close> where it stands in a string below the 32-bit limit.\<close>

lemma read_chars_at:
  assumes "int (length pre + length cs) < 2 ^ 32"
  shows "read_chars (length cs) (pre @ cs @ post) (int (length pre)) = (Return cs, int (length pre + length cs))"
  using assms
proof (induction cs arbitrary: pre)
  case Nil
  then show ?case by (simp add: prog_simps)
next
  case (Cons c cs)
  have "next_char (pre @ (c # cs) @ post) (int (length pre)) = (Return c, int (length (pre @ [c])))"
    using Cons.prems by (simp add: next_char_def prog_simps str_at_def nth_append u32_id)
  moreover have "read_chars (length cs) ((pre @ [c]) @ cs @ post) (int (length (pre @ [c])))
      = (Return cs, int (length (pre @ [c]) + length cs))"
    using Cons.prems by (intro Cons.IH) simp
  ultimately show ?case by (simp add: seq_Return prog_simps)
qed

lemma read_be_bytes:
  assumes "int (length pre + n) < 2 ^ 32"
  shows "read_as_type le n (pre @ be_bytes n v @ post) (int (length pre))
    = (Return (be_value (be_bytes n v)), int (length pre + n))"
  using read_chars_at [of pre "be_bytes n v" post] assms
  by (simp add: read_as_type_def seq_Return prog_simps)

lemma readInt_at:
  assumes "int (length pre + 4) < 2 ^ 32"
  shows "readInt (pre @ writeInt v @ post) (int (length pre)) = (Return (s32 v), int (length pre + 4))"
  using read_be_bytes [OF assms] unfolding readInt_def writes_eq
  by (simp add: seq_Return prog_simps int_back)

lemma readLong_at:
  assumes "int (length pre + 8) < 2 ^ 32"
  shows "readLong (pre @ writeLong v @ post) (int (length pre)) = (Return (s64 v), int (length pre + 8))"
  using read_be_bytes [OF assms] unfolding readLong_def writes_eq
  by (simp add: seq_Return prog_simps long_back)

lemma length_writes [simp]: "length (writeInt v) = 4" "length (writeLong v) = 8"
  by (simp_all add: writes_eq)

lemma length_header [simp]: "length (header lv) = 8"
  by (simp add: header_def)

lemma skipHeader_header: "skipHeader (header lv @ post) 0 = (Return (), 8)"
proof -
  have 1: "readInt (header lv @ post) 0 = (Return (s32 lv), 4)"
    using readInt_at [of "[]" lv "writeInt 0 @ post"] by (simp add: header_def)
  have 2: "readInt (header lv @ post) 4 = (Return 0, 8)"
    using readInt_at [of "writeInt lv" 0 post] by (simp add: header_def s32_id)
  show ?thesis by (simp add: skipHeader_def seq_def 1 2 prog_simps)
qed

lemma length_encode_op [simp]: "length (encode_op crc t d) = 17 + length d"
  by (simp add: encode_op_def Let_def)

text \<open>The scanner takes exactly one encoded transaction.\<close>

lemma scanOp_encode_op:
  assumes len: "int (length pre + 17 + length d) < 2 ^ 32" and d: "int (length d) < 2 ^ 31 - 12"
    and t: "long_range t"
  shows "scanOp (pre @ encode_op crc t d @ post) (int (length pre))
    = (Return t, int (length pre + 17 + length d))"
proof -
  obtain x where op: "encode_op crc t d = [char_of OPCODE] @ writeInt (12 + int (length d)) @ writeLong t @ d @ writeInt x"
    by (auto simp: encode_op_def calculateSize_def Let_def)
  let ?s = "pre @ encode_op crc t d @ post"
  have more: "\<not> int (length ?s) \<le> int (length pre)" by simp
  have code: "readOpcode ?s (int (length pre)) = (Return OPCODE, int (length pre + 1))"
    using len by (simp add: op readOpcode_def next_char_def seq_def prog_simps str_at_def nth_append u32_id
        code_def OPCODE_def)
  have ln: "readInt ?s (int (length pre + 1)) = (Return (12 + int (length d)), int (length pre + 5))"
    using readInt_at [of "pre @ [char_of OPCODE]" "12 + int (length d)" "writeLong t @ d @ writeInt x @ post"] len d
    by (simp add: op s32_id)
  have tx: "readLong ?s (int (length pre + 5)) = (Return t, int (length pre + 13))"
    using readLong_at [of "pre @ [char_of OPCODE] @ writeInt (12 + int (length d))" t "d @ writeInt x @ post"] len t
    by (simp add: op)
  have sk: "scanString (s32 (12 + int (length d) - 12)) (int (length pre + 13)) = (Return (), int (length pre + 13 + length d))"
    using len d by (simp add: scanString_def prog_simps s32_id u32_id)
  have ck: "readInt ?s (int (length pre + 13 + length d)) = (Return (s32 x), int (length pre + 17 + length d))"
    using readInt_at [of "pre @ [char_of OPCODE] @ writeInt (12 + int (length d)) @ writeLong t @ d" x post] len
    by (simp add: op add.commute add.left_commute)
  show ?thesis
    unfolding scanOp_def seq_gets using more
    by (simp only: if_False seq_def code ln tx sk ck ret_run simp_thms prod.case result.case)
qed

text \<open>The bytes of a sequence of transactions, and what the scanner makes of their ids.\<close>

definition encode_ops :: "(string \<Rightarrow> int) \<Rightarrow> (int \<times> string) list \<Rightarrow> string" where
  "encode_ops crc ops = concat (map (\<lambda>(t, d). encode_op crc t d) ops)"

definition last_txid :: "int \<Rightarrow> (int \<times> string) list \<Rightarrow> int" where
  "last_txid a ops = foldl (\<lambda>l (t, d). if l = INVALID_TXID \<or> l < t then t else l) a ops"

definition wf_ops :: "(int \<times> string) list \<Rightarrow> bool" where
  "wf_ops ops \<longleftrightarrow> list_all (\<lambda>(t, d). long_range t \<and> t \<noteq> INVALID_TXID \<and> int (length d) < 2 ^ 31 - 12) ops"

lemma encode_ops_simps [simp]:
  "encode_ops crc [] = []" "encode_ops crc ((t, d) # ops) = encode_op crc t d @ encode_ops crc ops"
  "encode_ops crc (as @ bs) = encode_ops crc as @ encode_ops crc bs"
  by (simp_all add: encode_ops_def)

lemma scan_loop_end: "int (length s) \<le> pos \<Longrightarrow> scan_loop s l pos = Some (Return l)"
  by (subst scan_loop.simps) (simp add: scanOp_def prog_simps)

lemma scan_loop_ops:
  assumes "wf_ops ops" "int (length pre + length (encode_ops crc ops)) < 2 ^ 32"
  shows "scan_loop (pre @ encode_ops crc ops) l (int (length pre)) = Some (Return (last_txid l ops))"
  using assms
proof (induction ops arbitrary: pre l)
  case Nil
  then show ?case by (simp add: scan_loop_end last_txid_def)
next
  case (Cons op ops)
  obtain t d where op: "op = (t, d)" by fastforce
  have sc: "scanOp (pre @ encode_op crc t d @ encode_ops crc ops) (int (length pre))
      = (Return t, int (length (pre @ encode_op crc t d)))"
    using scanOp_encode_op [of pre d t crc "encode_ops crc ops"] Cons.prems op
    by (simp add: wf_ops_def add.assoc)
  have t: "t \<noteq> INVALID_TXID" using Cons.prems(1) op by (simp add: wf_ops_def)
  have ih: "scan_loop ((pre @ encode_op crc t d) @ encode_ops crc ops) l'
      (int (length (pre @ encode_op crc t d))) = Some (Return (last_txid l' ops))" for l'
    using Cons.prems op by (intro Cons.IH) (simp_all add: wf_ops_def add.assoc)
  from ih show ?case
    unfolding op by (subst scan_loop.simps) (simp add: sc t last_txid_def)
qed

lemma scan_encoded:
  assumes "wf_ops ops" "int (8 + length (encode_ops crc ops)) < 2 ^ 32"
  shows "scan_content (header lv @ encode_ops crc ops) = Return (last_txid INVALID_TXID ops)"
  using scan_loop_ops [of ops "header lv" crc INVALID_TXID] assms
  by (simp add: scan_content_def skipHeader_header)

lemma last_txid_run:
  assumes "0 \<le> t"
  shows "last_txid INVALID_TXID (map (\<lambda>k. (t + int k, d k)) [0..<n])
    = (if n = 0 then INVALID_TXID else t + int n - 1)"
proof (induction n)
  case 0
  then show ?case by (simp add: last_txid_def)
next
  case (Suc n)
  then show ?case using assms by (auto simp: last_txid_def INVALID_TXID_def)
qed

end
