(* ===== verification/Edit_Logs.thy ===== *)
theory Edit_Logs
  imports Edit_Stream
begin

text \<open>
  \<^verbatim>\<open>EditLogFile\<close>, a segment of the log on disk, and \<^verbatim>\<open>FileJournalManager\<close>, which finds
  segments by the names in the storage directory, starts them and finalizes them.
\<close>

section \<open>EditLogFile\<close>

record EditLogFile =
  fullFileName :: string
  firstTxId :: int
  lastTxId :: int
  inProgress :: bool
  corruptHeader :: bool

definition mk_EditLogFile :: "string \<Rightarrow> int \<Rightarrow> int \<Rightarrow> bool \<Rightarrow> EditLogFile" where
  "mk_EditLogFile name frst lst inprog = \<lparr>fullFileName = name, firstTxId = frst,
     lastTxId = lst, inProgress = inprog, corruptHeader = False\<rparr>"

definition no_EditLogFile :: EditLogFile where
  "no_EditLogFile = mk_EditLogFile [] INVALID_TXID INVALID_TXID False"

definition isInitialized :: "EditLogFile \<Rightarrow> bool" where
  "isInitialized elf \<longleftrightarrow> fullFileName elf \<noteq> []"

definition containsTxId :: "EditLogFile \<Rightarrow> int \<Rightarrow> bool" where
  "containsTxId elf txId \<longleftrightarrow> firstTxId elf \<le> txId \<and> txId \<le> lastTxId elf"

definition elf_less :: "EditLogFile \<Rightarrow> EditLogFile \<Rightarrow> bool" where
  "elf_less this other =
    (if firstTxId this < firstTxId other then True
     else if firstTxId this > firstTxId other then False
     else if lastTxId this < lastTxId other then True
     else if lastTxId this > lastTxId other then False
     else True)"

definition elf_greater :: "EditLogFile \<Rightarrow> EditLogFile \<Rightarrow> bool" where
  "elf_greater this other =
    (if firstTxId this > firstTxId other then True
     else if firstTxId this < firstTxId other then False
     else if lastTxId this > lastTxId other then True
     else if lastTxId this < lastTxId other then False
     else True)"

definition elf_equal :: "EditLogFile \<Rightarrow> EditLogFile \<Rightarrow> bool" where
  "elf_equal this other \<longleftrightarrow> firstTxId this = firstTxId other \<and> lastTxId this = lastTxId other"

definition elf_scanLog :: "EditLogFile \<Rightarrow> (fs, EditLogFile) prog" where
  "elf_scanLog elf = seq (scanLog (fullFileName elf)) (\<lambda>l.
     ret (elf\<lparr>lastTxId := l, corruptHeader := False\<rparr>))"

definition renameSelf :: "string \<Rightarrow> EditLogFile \<Rightarrow> (fs, EditLogFile) prog" where
  "renameSelf newSuffix elf = (let to = fullFileName elf @ newSuffix in
     seq (replaceFile (fullFileName elf) to) (\<lambda>_. ret (elf\<lparr>fullFileName := to\<rparr>)))"

definition moveAsideCorruptFile :: "EditLogFile \<Rightarrow> (fs, EditLogFile) prog" where
  "moveAsideCorruptFile elf = renameSelf ''.corrupt'' elf"

definition moveAsideTrashFile :: "int \<Rightarrow> EditLogFile \<Rightarrow> (fs, EditLogFile) prog" where
  "moveAsideTrashFile markerTxid elf = renameSelf ''.trash'' elf"

definition moveAsideEmptyFile :: "EditLogFile \<Rightarrow> (fs, EditLogFile) prog" where
  "moveAsideEmptyFile elf = renameSelf ''.empty'' elf"

section \<open>The order of segments\<close>

text \<open>What \<^verbatim>\<open>operator<\<close> compares, as a linear order, so that the library's sorting applies.\<close>

datatype log_key = Log_Key (key_first: int) (key_last: int)

instantiation log_key :: linorder
begin

definition less_eq_log_key :: "log_key \<Rightarrow> log_key \<Rightarrow> bool" where
  "less_eq_log_key a b \<longleftrightarrow> key_first a < key_first b \<or>
     (key_first a = key_first b \<and> key_last a \<le> key_last b)"

definition less_log_key :: "log_key \<Rightarrow> log_key \<Rightarrow> bool" where
  "less_log_key a b \<longleftrightarrow> a \<le> b \<and> \<not> b \<le> (a :: log_key)"

instance
  by standard (auto simp: less_eq_log_key_def less_log_key_def intro: log_key.expand)

end

definition elf_key :: "EditLogFile \<Rightarrow> log_key" where
  "elf_key e = Log_Key (firstTxId e) (lastTxId e)"

text \<open>\<^verbatim>\<open>std::sort\<close>, where \<^verbatim>\<open>operator<\<close> orders the elements.\<close>

definition elf_sort :: "EditLogFile list \<Rightarrow> EditLogFile list" where
  "elf_sort xs = sort_key elf_key xs"

lemma elf_less_key: "elf_less a b \<longleftrightarrow> elf_key a \<le> elf_key b"
  by (auto simp: elf_less_def elf_key_def less_eq_log_key_def)

section \<open>FileJournalManager\<close>

text \<open>The two patterns: the captured digits of a file name that matches.\<close>

definition match_finalized :: "string \<Rightarrow> (string \<times> string) option" where
  "match_finalized name =
    (let a = takeWhile is_digit (drop 6 name); r = dropWhile is_digit (drop 6 name) in
     if take 6 name = ''edits_'' \<and> a \<noteq> [] \<and> take 1 r = ''-'' \<and> drop 1 r \<noteq> []
       \<and> list_all is_digit (drop 1 r)
     then Some (a, drop 1 r) else None)"

definition match_inprogress :: "string \<Rightarrow> string option" where
  "match_inprogress name =
    (if take 17 name = ''edits_inprogress_'' \<and> drop 17 name \<noteq> [] \<and> list_all is_digit (drop 17 name)
     then Some (drop 17 name) else None)"

definition matchEditLog :: "string \<Rightarrow> string \<Rightarrow> EditLogFile option" where
  "matchEditLog dir name = (case match_finalized name of
      Some (a, b) \<Rightarrow> Some (mk_EditLogFile (dir @ ''/'' @ name) (fst (strtol a)) (fst (strtol b)) False)
    | None \<Rightarrow> (case match_inprogress name of
        Some a \<Rightarrow> Some (mk_EditLogFile (dir @ ''/'' @ name) (fst (strtol a)) INVALID_TXID True)
      | None \<Rightarrow> None))"

definition GetFilesInDirectory :: "string \<Rightarrow> (fs, string list) prog" where
  "GetFilesInDirectory directory = sys_list directory"

definition matchEditLogs :: "string \<Rightarrow> (fs, EditLogFile list) prog" where
  "matchEditLogs dir = seq (GetFilesInDirectory dir) (\<lambda>filenames.
     ret (List.map_filter (matchEditLog dir) filenames))"

definition getRemoteEditLogs :: "string \<Rightarrow> int \<Rightarrow> bool \<Rightarrow> (fs, EditLogFile list) prog" where
  "getRemoteEditLogs currentDir frst inProgressOk = seq (matchEditLogs currentDir) (\<lambda>allLogFiles.
     ret (elf_sort (List.map_filter (\<lambda>it.
       if corruptHeader it \<or> (\<not> inProgressOk \<and> inProgress it) then None
       else let elf = mk_EditLogFile '' '' (firstTxId it) (lastTxId it) (inProgress it) in
         if firstTxId it \<ge> frst then Some elf
         else if firstTxId it < frst \<and> frst \<le> lastTxId it then Some elf
         else None) allLogFiles)))"

definition getLogFiles :: "string \<Rightarrow> int \<Rightarrow> (fs, EditLogFile list) prog" where
  "getLogFiles currentDir fromTxId = seq (matchEditLogs currentDir) (\<lambda>allLogFiles.
     ret (elf_sort (filter (\<lambda>it. fromTxId \<le> firstTxId it \<or> containsTxId it fromTxId) allLogFiles)))"

definition getLogFile :: "string \<Rightarrow> int \<Rightarrow> (fs, EditLogFile) prog" where
  "getLogFile dir startTxId = seq (matchEditLogs dir) (\<lambda>matchedEditLogs.
     (case filter (\<lambda>it. firstTxId it = startTxId) matchedEditLogs of
        [] \<Rightarrow> ret no_EditLogFile
      | [elf] \<Rightarrow> ret elf
      | _ \<Rightarrow> err))"

text \<open>
  \<^verbatim>\<open>currentInProgress\<close> is the object's state. \<^verbatim>\<open>startLogSegment\<close> hands the stream out even
  where it then returns \<open>-1\<close>, so its result is the stream and the success of \<^verbatim>\<open>create\<close>.
\<close>

definition fjm_startLogSegment :: "string \<Rightarrow> int \<Rightarrow> int \<Rightarrow> (fs \<times> string, ofstream \<times> bool) prog" where
  "fjm_startLogSegment currentDir txid layoutVersion =
     seq (upd_snd (\<lambda>_. getInProgressEditsFile currentDir txid)) (\<lambda>_.
     seq (gets snd) (\<lambda>currentInProgress. on_fst (
       seq (ofstream_open currentInProgress) (\<lambda>os.
       seq (os_create layoutVersion os) (\<lambda>os. ret (os, \<not> os_fail os))))))"

definition fjm_finalizeLogSegment :: "string \<Rightarrow> int \<Rightarrow> int \<Rightarrow> (fs \<times> string, unit) prog" where
  "fjm_finalizeLogSegment currentDir frst lst =
     (let inProgressFile = getInProgressEditsFile currentDir frst;
          dstFile = getFinalizedEditsFile currentDir frst lst in
      seq (on_fst (file_exists dstFile)) (\<lambda>finalized_file_exists.
        if finalized_file_exists then err
        else seq (on_fst (file_rename inProgressFile dstFile)) (\<lambda>_.
          upd_snd (\<lambda>cur. if inProgressFile = cur then [] else cur))))"

section \<open>Facts\<close>

lemma match_inprogress_name:
  assumes "0 \<le> t"
  shows "match_inprogress (getInProgressEditsFileName t) = Some (setw0 19 (show_int t))"
  using setw0_digits [OF show_int_digits [OF assms]]
  by (simp add: match_inprogress_def name_defs EDITS_INPROGRESS_def)

lemma match_finalized_inprogress: "match_finalized (''edits_i'' @ s) = None"
  by (simp add: match_finalized_def is_digit_def code_def)

lemma matchEditLog_inprogress:
  assumes "0 \<le> t" "long_range t"
  shows "matchEditLog d (getInProgressEditsFileName t)
    = Some (mk_EditLogFile (getInProgressEditsFile d t) t INVALID_TXID True)"
proof -
  have "getInProgressEditsFileName t = ''edits_i'' @ drop 7 (getInProgressEditsFileName t)"
    by (simp add: name_defs EDITS_INPROGRESS_def)
  then have "match_finalized (getInProgressEditsFileName t) = None"
    using match_finalized_inprogress by metis
  then show ?thesis
    using assms by (simp add: matchEditLog_def match_inprogress_name strtol_setw0 getInProgressEditsFile_def)
qed

lemma match_finalized_name:
  assumes "0 \<le> s" "0 \<le> e"
  shows "match_finalized (getFinalizedEditsFileName s e) = Some (setw0 19 (show_int s), setw0 19 (show_int e))"
proof -
  let ?a = "setw0 19 (show_int s)" and ?b = "setw0 19 (show_int e)"
  have a: "list_all is_digit ?a" and b: "list_all is_digit ?b"
    using assms by (simp_all add: setw0_digits show_int_digits)
  have "takeWhile is_digit (?a @ CHR ''-'' # ?b) = ?a" "dropWhile is_digit (?a @ CHR ''-'' # ?b) = CHR ''-'' # ?b"
    using a by (simp_all add: takeWhile_prefix dropWhile_prefix)
  with b show ?thesis
    by (simp add: match_finalized_def name_defs EDITS_def Let_def)
qed

lemma matchEditLog_finalized:
  assumes "0 \<le> s" "long_range s" "0 \<le> e" "long_range e"
  shows "matchEditLog d (getFinalizedEditsFileName s e)
    = Some (mk_EditLogFile (getFinalizedEditsFile d s e) s e False)"
  using assms
  by (simp add: matchEditLog_def match_finalized_name strtol_setw0 getFinalizedEditsFile_def)

end
