(* ===== verification/Journal.thy ===== *)
theory Journal
  imports Storage Long_Files Edit_Logs
begin

text \<open>
  \<^verbatim>\<open>src/Journal.h\<close> and \<^verbatim>\<open>src/Journal.cpp\<close>: the journal of one name service, that is the
  fencing of writers by epoch, the segment being written, and the recovery of segments.
  Each method is a program over the object and the file system. The methods that write
  hold the object's mutex from their first step to their last, so each is one step of the
  object (\<^verbatim>\<open>format\<close> and \<^verbatim>\<open>getEditLogManifest\<close> do not take it).
\<close>

section \<open>State\<close>

record journal =
  jfs :: fs
  storage :: jnstorage
  curSegment :: "ofstream option"
  curSegmentTxId :: int
  nextTxId :: int
  highestWrittenTxId :: int
  currentEpochIpcSerial :: int
  lastPromisedEpoch :: "plf option"
  lastWriterEpoch :: "plf option"
  committedTxnId :: "belf option"
  currentInProgress :: string   \<comment> \<open>the state of \<^verbatim>\<open>fjm\<close>\<close>
  j_initialized :: bool

text \<open>Calls of the parts: on the file system, the storage, the manager, and behind a pointer.\<close>

definition on_fs :: "(fs, 'a) prog \<Rightarrow> (journal, 'a) prog" where
  "on_fs m j = (case m (jfs j) of (r, f) \<Rightarrow> (r, j\<lparr>jfs := f\<rparr>))"

definition on_storage :: "(fs \<times> jnstorage, 'a) prog \<Rightarrow> (journal, 'a) prog" where
  "on_storage m j = (case m (jfs j, storage j) of (r, (f, s)) \<Rightarrow> (r, j\<lparr>jfs := f, storage := s\<rparr>))"

definition on_fjm :: "(fs \<times> string, 'a) prog \<Rightarrow> (journal, 'a) prog" where
  "on_fjm m j = (case m (jfs j, currentInProgress j) of
     (r, (f, c)) \<Rightarrow> (r, j\<lparr>jfs := f, currentInProgress := c\<rparr>))"

definition on_promised :: "(fs \<times> plf, 'a) prog \<Rightarrow> (journal, 'a) prog" where
  "on_promised m j = (case lastPromisedEpoch j of
      None \<Rightarrow> (Stop Undefined, j)
    | Some p \<Rightarrow> (case m (jfs j, p) of
        (r, (f, p')) \<Rightarrow> (r, j\<lparr>jfs := f, lastPromisedEpoch := Some p'\<rparr>)))"

definition on_writer :: "(fs \<times> plf, 'a) prog \<Rightarrow> (journal, 'a) prog" where
  "on_writer m j = (case lastWriterEpoch j of
      None \<Rightarrow> (Stop Undefined, j)
    | Some p \<Rightarrow> (case m (jfs j, p) of
        (r, (f, p')) \<Rightarrow> (r, j\<lparr>jfs := f, lastWriterEpoch := Some p'\<rparr>)))"

definition on_committed :: "(fs \<times> belf, 'a) prog \<Rightarrow> (journal, 'a) prog" where
  "on_committed m j = (case committedTxnId j of
      None \<Rightarrow> (Stop Undefined, j)
    | Some p \<Rightarrow> (case m (jfs j, p) of
        (r, (f, p')) \<Rightarrow> (r, j\<lparr>jfs := f, committedTxnId := Some p'\<rparr>)))"

definition currentDir :: "journal \<Rightarrow> string" where
  "currentDir j = st_currentDir (storage j)"

section \<open>Construction, format and the cached files\<close>

definition refreshCachedData :: "(journal, unit) prog" where
  "refreshCachedData = modify (\<lambda>j. j\<lparr>
     lastPromisedEpoch := Some (mk_plf (currentDir j @ ''/'' @ ''last-promised-epoch'') 0),
     lastWriterEpoch := Some (mk_plf (currentDir j @ ''/'' @ ''last-writer-epoch'') 0),
     committedTxnId := Some (mk_belf (currentDir j @ ''/'' @ ''committed-txid'') INVALID_TXID)\<rparr>)"

fun scan_latest :: "EditLogFile list \<Rightarrow> (fs, EditLogFile) prog" where
  "scan_latest [] = ret no_EditLogFile"
| "scan_latest (latestLog # rest) = seq (elf_scanLog latestLog) (\<lambda>latestLog.
     if lastTxId latestLog = INVALID_TXID
     then seq (moveAsideEmptyFile latestLog) (\<lambda>_. scan_latest rest)
     else ret latestLog)"

definition scanStorageForLatestEdits :: "(journal, EditLogFile) prog" where
  "scanStorageForLatestEdits = seq (gets currentDir) (\<lambda>dir.
     seq (on_fs (dir_exists dir)) (\<lambda>hasCurrentDir.
       if \<not> hasCurrentDir then ret no_EditLogFile
       else seq (on_fs (getLogFiles dir 0)) (\<lambda>files. on_fs (scan_latest (rev files)))))"

definition new_journal :: "fs \<Rightarrow> string \<Rightarrow> journal" where
  "new_journal f logDir = \<lparr>jfs = f, storage = new_storage logDir, curSegment = None,
     curSegmentTxId = INVALID_TXID, nextTxId = INVALID_TXID, highestWrittenTxId = 0,
     currentEpochIpcSerial = -1, lastPromisedEpoch = None, lastWriterEpoch = None,
     committedTxnId = None, currentInProgress = [], j_initialized = False\<rparr>"

text \<open>The constructor, on \<open>new_journal f logDir\<close>.\<close>

definition mk_Journal :: "env \<Rightarrow> (journal, unit) prog" where
  "mk_Journal e = seq (on_storage (mk_JNStorage e)) (\<lambda>_. seq (gets storage) (\<lambda>st.
     if \<not> st_initialized st then ret ()
     else seq refreshCachedData (\<lambda>_. seq (attempt scanStorageForLatestEdits) (\<lambda>r.
       case r of None \<Rightarrow> ret ()
       | Some latest \<Rightarrow> modify (\<lambda>j. (if isInitialized latest
             then j\<lparr>highestWrittenTxId := lastTxId latest\<rparr> else j)\<lparr>j_initialized := True\<rparr>)))))"

definition checkFormatted :: "(journal, unit) prog" where
  "checkFormatted = seq (gets storage) (\<lambda>st. if \<not> isFormatted st then err else ret ())"

definition getLastPromisedEpoch :: "(journal, int) prog" where
  "getLastPromisedEpoch = seq (attempt checkFormatted) (\<lambda>_. on_promised plf_get)"

definition getLastWriterEpoch :: "(journal, int) prog" where
  "getLastWriterEpoch = seq (attempt checkFormatted) (\<lambda>_. on_writer plf_get)"

definition format :: "env \<Rightarrow> 'a storage_info_scheme \<Rightarrow> (journal, unit) prog" where
  "format e nsInfo =
     (if namespaceID nsInfo = 0 then halt Aborted
      else seq (on_storage (storage_format e nsInfo)) (\<lambda>_. refreshCachedData))"

definition close :: "(journal, unit) prog" where
  "close = on_storage storage_unlock"

section \<open>Fencing\<close>

definition updateLastPromisedEpoch :: "int \<Rightarrow> (journal, unit) prog" where
  "updateLastPromisedEpoch newEpoch = seq (on_promised (plf_set newEpoch)) (\<lambda>_.
     modify (\<lambda>j. j\<lparr>currentEpochIpcSerial := 0\<rparr>))"

definition abortCurSegment :: "(journal, unit) prog" where
  "abortCurSegment = modify (\<lambda>j. case curSegment j of
      None \<Rightarrow> j
    | Some os \<Rightarrow> j\<lparr>curSegment := None, curSegmentTxId := INVALID_TXID\<rparr>)"

text \<open>The result is \<^verbatim>\<open>lastsegmenttxid\<close> of the response, where it is set.\<close>

definition newEpoch :: "'a storage_info_scheme \<Rightarrow> int \<Rightarrow> (journal, int option) prog" where
  "newEpoch nsInfo epoch = seq checkFormatted (\<lambda>_. seq (gets storage) (\<lambda>st.
     if \<not> checkConsistentNamespace nsInfo st then err
     else seq getLastPromisedEpoch (\<lambda>lpe.
       if epoch \<le> lpe then err
       else seq (updateLastPromisedEpoch epoch) (\<lambda>_. seq abortCurSegment (\<lambda>_.
         seq scanStorageForLatestEdits (\<lambda>latestFile.
           ret (if isInitialized latestFile then Some (u64 (firstTxId latestFile)) else None)))))))"

text \<open>
  \<^verbatim>\<open>checkRequest\<close>: the epoch, then the serial number, then the committed transaction id,
  which is also stored. Before an old serial number is refused, the refusal is logged with \<^verbatim>\<open>%s\<close> for
  the number: \<^verbatim>\<open>vfprintf\<close> takes it for the address of a string, and \<^verbatim>\<open>return -1\<close> is not reached
  (see \<^verbatim>\<open>old_serial_is_logged_badly\<close> in theory Logging).
\<close>

definition checkRequest :: "request_info \<Rightarrow> (journal, unit) prog" where
  "checkRequest reqInfo = seq (on_promised plf_get) (\<lambda>lpe.
     if ri_epoch reqInfo < lpe then err
     else seq (if lpe < ri_epoch reqInfo then updateLastPromisedEpoch (ri_epoch reqInfo) else ret ()) (\<lambda>_.
       seq (gets currentEpochIpcSerial) (\<lambda>serial.
         if ri_ipcSerialNumber reqInfo \<le> serial then halt Undefined
         else seq (modify (\<lambda>j. j\<lparr>currentEpochIpcSerial := ri_ipcSerialNumber reqInfo\<rparr>)) (\<lambda>_.
           if hasCommittedTxId reqInfo
           then seq (on_committed belf_get) (\<lambda>cti.
             if ri_committedTxId reqInfo < cti then halt Aborted
             else on_committed (belf_set (ri_committedTxId reqInfo)))
           else ret ()))))"

definition checkWriteRequest :: "request_info \<Rightarrow> (journal, unit) prog" where
  "checkWriteRequest reqInfo = seq (checkRequest reqInfo) (\<lambda>_. seq (on_writer plf_get) (\<lambda>lwe.
     if ri_epoch reqInfo \<noteq> lwe then err else ret ()))"

section \<open>Writing segments\<close>

definition purgePaxosDecision :: "int \<Rightarrow> (journal, unit) prog" where
  "purgePaxosDecision segmentTxId = seq (gets storage) (\<lambda>st.
     (let paxosFile = getPaxosFile st segmentTxId in
      on_fs (seq (file_exists paxosFile) (\<lambda>hasPaxosFile.
        if hasPaxosFile then file_delete paxosFile else ret ()))))"

definition startLogSegment :: "request_info \<Rightarrow> int \<Rightarrow> int \<Rightarrow> (journal, unit) prog" where
  "startLogSegment reqInfo txid layoutV =
     seq checkFormatted (\<lambda>_. seq (checkRequest reqInfo) (\<lambda>_.
     seq abortCurSegment (\<lambda>_. seq (gets currentDir) (\<lambda>dir.
     seq (on_fs (getLogFile dir txid)) (\<lambda>existing.
     seq (if isInitialized existing
          then (if \<not> inProgress existing then halt Aborted
                else seq (on_fs (elf_scanLog existing)) (\<lambda>existing.
                  if lastTxId existing \<noteq> firstTxId existing then halt Aborted else ret ()))
          else ret ()) (\<lambda>_.
     seq (on_writer plf_get) (\<lambda>curLastWriterEpoch.
     seq (if curLastWriterEpoch \<noteq> ri_epoch reqInfo then on_writer (plf_set (ri_epoch reqInfo)) else ret ()) (\<lambda>_.
     seq (purgePaxosDecision txid) (\<lambda>_.
     seq (on_fjm (fjm_startLogSegment dir txid layoutV)) (\<lambda>(os, created).
     seq (modify (\<lambda>j. j\<lparr>curSegment := Some os\<rparr>)) (\<lambda>_.
       if \<not> created then err
       else modify (\<lambda>j. j\<lparr>curSegmentTxId := txid, nextTxId := txid\<rparr>))))))))))))"

definition journal_edits :: "request_info \<Rightarrow> int \<Rightarrow> int \<Rightarrow> int \<Rightarrow> string \<Rightarrow> (journal, unit) prog" where
  "journal_edits reqInfo segmentTxId firstTxnId numTxns records =
     seq checkFormatted (\<lambda>_. seq (checkWriteRequest reqInfo) (\<lambda>_.
     seq (gets curSegmentTxId) (\<lambda>cur.
       if cur \<noteq> segmentTxId then seq abortCurSegment (\<lambda>_. err)
       else seq (gets nextTxId) (\<lambda>nxt.
         if nxt \<noteq> firstTxnId then err
         else (let lastTxnId = s64 (firstTxnId + numTxns - 1) in
           seq (on_committed belf_get) (\<lambda>ctid. seq (gets curSegment) (\<lambda>seg.
             case seg of
               None \<Rightarrow> halt Undefined
             | Some os \<Rightarrow> seq (on_fs (os_writeRaw records os)) (\<lambda>os.
                 seq (modify (\<lambda>j. j\<lparr>curSegment := Some os\<rparr>)) (\<lambda>_.
                   if os_fail os then halt Aborted
                   else modify (\<lambda>j. j\<lparr>highestWrittenTxId := lastTxnId,
                                     nextTxId := s64 (lastTxnId + 1)\<rparr>))))))))))"

text \<open>The segment of the writer is closed before its transaction ids are compared.\<close>

definition finalizeLogSegment :: "request_info \<Rightarrow> int \<Rightarrow> int \<Rightarrow> (journal, unit) prog" where
  "finalizeLogSegment reqInfo startTxId endTxId =
     seq checkFormatted (\<lambda>_. seq (checkRequest reqInfo) (\<lambda>_.
     seq (gets (\<lambda>j. startTxId = curSegmentTxId j)) (\<lambda>writing.
     seq (if writing then seq abortCurSegment (\<lambda>_. seq (gets nextTxId) (\<lambda>nxt.
            if nxt \<noteq> s64 (endTxId + 1) then err else ret ()))
          else ret ()) (\<lambda>_.
     (let needsValidation = \<not> writing in
     seq (gets currentDir) (\<lambda>dir. seq (on_fs (getLogFile dir startTxId)) (\<lambda>elf.
       if \<not> isInitialized elf then err
       else seq (if inProgress elf
                 then seq (if needsValidation
                           then seq (on_fs (elf_scanLog elf)) (\<lambda>elf.
                             if lastTxId elf \<noteq> endTxId then err else ret ())
                           else ret ()) (\<lambda>_.
                   on_fjm (fjm_finalizeLogSegment dir startTxId endTxId))
                 else (if endTxId \<noteq> lastTxId elf then halt Aborted else ret ())) (\<lambda>_.
         purgePaxosDecision (firstTxId elf)))))))))"

section \<open>Recovery\<close>

text \<open>\<open>None\<close> is \<^verbatim>\<open>isInitialized = false\<close>.\<close>

definition getSegmentInfo :: "int \<Rightarrow> (journal, SegmentState option) prog" where
  "getSegmentInfo segmentTxId = seq (gets currentDir) (\<lambda>dir.
     seq (on_fs (getLogFile dir segmentTxId)) (\<lambda>elf.
       if \<not> isInitialized elf then ret None
       else seq (if inProgress elf then on_fs (elf_scanLog elf) else ret elf) (\<lambda>elf.
         if lastTxId elf = INVALID_TXID
         then seq (attempt (on_fs (moveAsideEmptyFile elf))) (\<lambda>_. ret None)
         else ret (Some \<lparr>ss_startTxId = u64 segmentTxId, ss_endTxId = u64 (lastTxId elf),
                        ss_isInProgress = inProgress elf\<rparr>))))"

definition getPersistedPaxosData :: "env \<Rightarrow> int \<Rightarrow> (journal, PaxosData option) prog" where
  "getPersistedPaxosData e segmentTxId = seq (gets storage) (\<lambda>st.
     (let paxosFileName = getPaxosFile st segmentTxId in
      seq (on_fs (file_exists paxosFileName)) (\<lambda>paxos_file_exists_flag.
        if \<not> paxos_file_exists_flag then ret None
        else seq (on_fs (sys_read paxosFileName)) (\<lambda>c.
          case pb_parse e c of
            None \<Rightarrow> halt Aborted
          | Some tempPaxosData \<Rightarrow>
              if ss_startTxId (pd_segmentState tempPaxosData) \<noteq> u64 segmentTxId then halt Aborted
              else ret (Some tempPaxosData)))))"

definition completeHalfDoneAcceptRecovery :: "PaxosData option \<Rightarrow> (journal, unit) prog" where
  "completeHalfDoneAcceptRecovery paxosData = (case paxosData of
      None \<Rightarrow> ret ()
    | Some pd \<Rightarrow> seq (gets storage) (\<lambda>st.
        (let segmentId = s64 (ss_startTxId (pd_segmentState pd));
             epoch = s64 (pd_acceptedInEpoch pd);
             tmp = getSyncLogTemporaryFile st segmentId epoch in
         on_fs (seq (file_exists tmp) (\<lambda>tmp_file_exists_flag.
           if tmp_file_exists_flag then replaceFile tmp (getInProgressEditLog st segmentId)
           else ret ())))))"

definition persistPaxosData :: "env \<Rightarrow> int \<Rightarrow> PaxosData \<Rightarrow> (journal, unit) prog" where
  "persistPaxosData e segmentTxId newData = seq (gets storage) (\<lambda>st.
     (let f = getPaxosFile st segmentTxId; ftemp = f @ ''.tmp'' in
      on_fs (seq (ofstream_open ftemp) (\<lambda>fos.
        if os_ino fos = None then err
        else (case pb_serialize e newData of
            None \<Rightarrow> seq (attempt (file_delete ftemp)) (\<lambda>_. err)
          | Some bytes \<Rightarrow> seq (ofstream_write fos bytes) (\<lambda>_. file_rename ftemp f))))))"

record PrepareRecoveryResponse =
  pr_segmentState :: "SegmentState option"
  pr_acceptedInEpoch :: "int option"
  pr_lastWriterEpoch :: int
  pr_lastCommittedTxId :: "int option"

definition default_SegmentState :: SegmentState where
  "default_SegmentState = \<lparr>ss_startTxId = 0, ss_endTxId = 0, ss_isInProgress = False\<rparr>"

definition prepareRecovery :: "env \<Rightarrow> request_info \<Rightarrow> int \<Rightarrow> (journal, PrepareRecoveryResponse) prog" where
  "prepareRecovery e reqInfo segmentTxId =
     seq checkFormatted (\<lambda>_. seq (checkRequest reqInfo) (\<lambda>_. seq abortCurSegment (\<lambda>_.
     seq (getPersistedPaxosData e segmentTxId) (\<lambda>previouslyAccepted.
     seq (completeHalfDoneAcceptRecovery previouslyAccepted) (\<lambda>_.
     seq (getSegmentInfo segmentTxId) (\<lambda>ssp.
     (let segInfo = (case ssp of None \<Rightarrow> default_SegmentState | Some s \<Rightarrow> s);
          hasFinalizedSegment = (ssp \<noteq> None \<and> \<not> ss_isInProgress segInfo) in
     seq (case previouslyAccepted of
            Some pd \<Rightarrow>
              if \<not> hasFinalizedSegment
              then (let acceptedState = pd_segmentState pd in
                if ss_endTxId acceptedState \<noteq> ss_endTxId segInfo then halt Aborted
                else ret (Some acceptedState, Some (pd_acceptedInEpoch pd)))
              else ret (ssp, None)
          | None \<Rightarrow> ret (ssp, None)) (\<lambda>(state, accepted).
     seq (on_writer plf_get) (\<lambda>lwe. seq (on_committed belf_get) (\<lambda>cti.
       ret \<lparr>pr_segmentState = state, pr_acceptedInEpoch = accepted, pr_lastWriterEpoch = u64 lwe,
            pr_lastCommittedTxId = (if cti \<noteq> INVALID_TXID then Some (u64 cti) else None)\<rparr>))))))))))"

definition syncLog :: "env \<Rightarrow> request_info \<Rightarrow> SegmentState \<Rightarrow> string \<Rightarrow> (journal, string) prog" where
  "syncLog e reqInfo segment url = seq (gets storage) (\<lambda>st.
     (let tmpFile = getSyncLogTemporaryFile st (s64 (ss_startTxId segment)) (ri_epoch reqInfo) in
      on_fs (seq (ofstream_open tmpFile) (\<lambda>os.
        (case http_get e url of
          Response body responseCode \<Rightarrow> seq (ofstream_write os body) (\<lambda>_.
            if responseCode = 200 then ret tmpFile
            else seq (attempt (file_delete tmpFile)) (\<lambda>_. err))
        | Threw body \<Rightarrow> seq (ofstream_write os body) (\<lambda>_.
            seq (attempt (file_delete tmpFile)) (\<lambda>_. err)))))))"

text \<open>The checks of \<^verbatim>\<open>acceptRecovery\<close> where there already is a segment of another length.\<close>

definition check_replacement :: "SegmentState \<Rightarrow> SegmentState \<Rightarrow> (journal, unit) prog" where
  "check_replacement currentSegment segment = seq (on_committed belf_get) (\<lambda>cti0.
     (let cti = u64 cti0 in
      if (ss_startTxId currentSegment \<le> cti \<and> cti \<le> ss_endTxId currentSegment) \<and>
         (cti < ss_startTxId segment \<or> ss_endTxId segment < cti) then halt Aborted
      else if \<not> ss_isInProgress currentSegment then halt Aborted
      else modify (\<lambda>j. if ss_startTxId currentSegment \<le> u64 (highestWrittenTxId j) \<and>
                          u64 (highestWrittenTxId j) \<le> ss_endTxId currentSegment
                       then j\<lparr>highestWrittenTxId := s64 (ss_endTxId segment)\<rparr> else j)))"

definition acceptRecovery :: "env \<Rightarrow> request_info \<Rightarrow> SegmentState \<Rightarrow> string \<Rightarrow> (journal, unit) prog" where
  "acceptRecovery e reqInfo segment fromUrl =
     seq checkFormatted (\<lambda>_. seq (checkRequest reqInfo) (\<lambda>_. seq abortCurSegment (\<lambda>_.
     (let segmentTxId = s64 (ss_startTxId segment) in
     if ss_endTxId segment = 0 \<or> ss_endTxId segment < u64 segmentTxId then halt Aborted
     else seq (attempt (getPersistedPaxosData e segmentTxId)) (\<lambda>oldData.
     (let newData = \<lparr>pd_segmentState = segment, pd_acceptedInEpoch = u64 (ri_epoch reqInfo)\<rparr> in
     seq (case oldData of
            Some (Some old) \<Rightarrow> if u64 (ri_epoch reqInfo) < pd_acceptedInEpoch old then halt Aborted else ret ()
          | _ \<Rightarrow> ret ()) (\<lambda>_.
     seq (attempt (getSegmentInfo segmentTxId)) (\<lambda>info.
     seq (case Option.bind info id of
            Some currentSegment \<Rightarrow>
              if ss_endTxId currentSegment \<noteq> ss_endTxId segment
              then seq (check_replacement currentSegment segment) (\<lambda>_. syncLog e reqInfo segment fromUrl)
              else ret []
          | None \<Rightarrow>
              seq (modify (\<lambda>j. if u64 (highestWrittenTxId j) < ss_endTxId segment
                               then j\<lparr>highestWrittenTxId := s64 (ss_endTxId segment)\<rparr> else j)) (\<lambda>_.
                syncLog e reqInfo segment fromUrl)) (\<lambda>syncedFile.
     seq (persistPaxosData e segmentTxId newData) (\<lambda>_.
       if syncedFile \<noteq> [] then seq (gets storage) (\<lambda>st.
         on_fs (replaceFile syncedFile (getInProgressEditLog st segmentTxId)))
       else ret ()))))))))))"

section \<open>The manifest\<close>

fun checkIfLogsInSequence :: "EditLogFile list \<Rightarrow> bool" where
  "checkIfLogsInSequence (prev # log # rest) =
     (if firstTxId log \<le> lastTxId prev then False else checkIfLogsInSequence (log # rest))"
| "checkIfLogsInSequence _ = True"

text \<open>
  The loop over \<^verbatim>\<open>temp\<close>: the last element looked at, and the list without the first
  in-progress segment.
\<close>

fun take_in_progress :: "EditLogFile \<Rightarrow> EditLogFile list \<Rightarrow> EditLogFile \<times> EditLogFile list" where
  "take_in_progress log [] = (log, [])"
| "take_in_progress log (x # xs) =
     (if inProgress x then (x, xs)
      else (case take_in_progress x xs of (l, ys) \<Rightarrow> (l, x # ys)))"

definition getEditLogManifest :: "int \<Rightarrow> bool \<Rightarrow> (journal, EditLogFile list) prog" where
  "getEditLogManifest sinceTxId inProgressOk = seq checkFormatted (\<lambda>_. seq (gets currentDir) (\<lambda>dir.
     seq (on_fs (getRemoteEditLogs dir sinceTxId inProgressOk)) (\<lambda>temp.
     seq (gets highestWrittenTxId) (\<lambda>highest.
       (let temp = (if inProgressOk
             then (case take_in_progress no_EditLogFile temp of (log, rest) \<Rightarrow>
               if isInitialized log \<and> inProgress log
               then rest @ [mk_EditLogFile '' '' (firstTxId log) highest False] else rest)
             else temp) in
        if \<not> checkIfLogsInSequence temp then err else ret temp)))))"

end
