(* ===== verification/Quiet_Files.thy ===== *)
theory Quiet_Files
  imports Journal
begin

text \<open>
  What the journal's work on segments leaves alone on disk. The files it works on are the
  in-progress segments, the downloads for them, the recovery decisions and what it moved
  aside (\<open>scratch\<close>); a file whose scan finds no transaction may be moved aside too. Every
  other file is protected: \<open>quiet f g\<close> says that protected files are the same in \<open>g\<close>. It is
  a preorder on file systems, and each program below moves along it under all faults.
\<close>

section \<open>Protected files\<close>

definition scratch :: "string \<Rightarrow> bool" where
  "scratch q \<longleftrightarrow> (\<exists>d t. q = getInProgressEditsFile d t)
     \<or> (\<exists>d t e. q = getInProgressEditsFile d t @ ''.epoch='' @ show_int e)
     \<or> (\<exists>d t. q = d @ ''/paxos/'' @ show_int t)
     \<or> (\<exists>d t. q = d @ ''/paxos/'' @ show_int t @ ''.tmp'')
     \<or> (\<exists>p. q = p @ ''.empty'')"

definition log_path :: "string \<Rightarrow> bool" where
  "log_path p \<longleftrightarrow> (\<exists>d n elf. matchEditLog d n = Some elf \<and> fullFileName elf = p)"

definition protected :: "string \<Rightarrow> string \<Rightarrow> bool" where
  "protected p c \<longleftrightarrow> \<not> scratch p \<and> (log_path p \<longrightarrow> scan_content c \<noteq> Return INVALID_TXID)"

text \<open>The names of files that the work on segments neither makes nor removes.\<close>

definition reserved :: "string \<Rightarrow> bool" where
  "reserved p \<longleftrightarrow> \<not> scratch p \<and> \<not> log_path p \<and> (\<forall>d a b. p \<noteq> getFinalizedEditsFile d a b)"

definition quiet :: "fs \<Rightarrow> fs \<Rightarrow> bool" where
  "quiet f g \<longleftrightarrow> (wf_fs f \<longrightarrow> wf_fs g) \<and> set (faults g) \<subseteq> set (faults f) \<and>
     (\<forall>p. reserved p \<longrightarrow> same_name p f g) \<and>
     (\<forall>p i c. protected p c \<longrightarrow> holds_file p i c f \<longrightarrow> holds_file p i c g)"

interpretation quiet: fs_order quiet
proof
  show "quiet f f" for f by (simp add: quiet_def named.step_refl)
  show "quiet f h" if "quiet f g" "quiet g h" for f g h
    using that unfolding quiet_def by (meson named.step_trans subset_trans)
  show "quiet f (f\<lparr>faults := k\<rparr>)" if "faults f = x # k" for f x k
    using that by (auto simp: quiet_def holds_file_def wf_fs_def ino_def same_name_def)
qed

text \<open>No file but a scratch file has the inode that the stream writes to.\<close>

definition stranger :: "ofstream \<Rightarrow> fs \<Rightarrow> bool" where
  "stranger os f \<longleftrightarrow> (\<forall>i. os_ino os = Some i \<longrightarrow> wf_fs f \<longrightarrow>
     i < next_ino f \<and> (\<forall>p. ino f p = Some i \<longrightarrow> scratch p))"

lemma quietI:
  assumes "moves (\<lambda>f g. wf_fs f \<longrightarrow> wf_fs g) m"
    and "moves (\<lambda>f g. set (faults g) \<subseteq> set (faults f)) m"
    and "\<And>p i c. protected p c \<Longrightarrow> holds_file p i c f \<Longrightarrow> moves (\<lambda>f g. holds_file p i c f \<longrightarrow> holds_file p i c g) m"
    and "\<And>p. reserved p \<Longrightarrow> moves (same_name p) m"
    and "m f = (r, g)"
  shows "quiet f g"
  using movesD [OF assms(1,5)] movesD [OF assms(2,5)] movesD [OF assms(3) assms(5)] movesD [OF assms(4,5)]
  by (simp add: quiet_def)

lemma scratch_names [simp]:
  "scratch (getInProgressEditsFile d t)" "scratch (getInProgressEditLog st t)"
  "scratch (getSyncLogTemporaryFile st t e)" "scratch (getPaxosFile st t)"
  "scratch (getPaxosFile st t @ ''.tmp'')" "scratch (p @ ''.empty'')"
proof -
  have "getPaxosFile st t = st_currentDir st @ ''/paxos/'' @ show_int t"
    by (simp add: getPaxosFile_def getPaxosDir_def)
  then show "scratch (getPaxosFile st t)" "scratch (getPaxosFile st t @ ''.tmp'')"
    unfolding scratch_def by (metis append_assoc)+
qed (unfold scratch_def getInProgressEditLog_def getSyncLogTemporaryFile_def, blast+)

section \<open>System calls on scratch files\<close>

lemma quiet_remove: "scratch q \<Longrightarrow> moves quiet (sys_remove q)"
  by (rule movesI, rule quietI [where m = "sys_remove q"])
    (auto intro: wf_syscalls spent_syscalls held_syscalls named_syscalls simp: protected_def reserved_def)

lemma quiet_rename: "scratch a \<Longrightarrow> scratch b \<Longrightarrow> moves quiet (sys_rename a b)"
  by (rule movesI, rule quietI [where m = "sys_rename a b"])
    (auto intro!: wf_syscalls spent_syscalls held_syscalls named_syscalls simp: protected_def reserved_def)

lemma quiet_wrappers [moves_intros]:
  "scratch q \<Longrightarrow> moves quiet (file_delete q)"
  "scratch a \<Longrightarrow> scratch b \<Longrightarrow> moves quiet (file_rename a b)"
  "scratch a \<Longrightarrow> scratch b \<Longrightarrow> moves quiet (replaceFile a b)"
  by (simp_all add: file_delete_def file_rename_def quiet_remove quiet_rename quiet.moves_replaceFile)

lemma sys_open_trunc_ino:
  "sys_open_trunc q f = (Return i, g) \<Longrightarrow> ino g q = Some i"
  by (auto simp: sys_open_trunc_def syscall_def no_effect_def dest: content_creat
      split: list.splits fault.splits if_splits prod.splits)

lemma ofstream_openE:
  assumes "ofstream_open q f = (Return os, g)" "os_ino os = Some i"
  shows "ino g q = Some i"
proof -
  from assms obtain j where "sys_open_trunc q f = (Return j, g)" "i = j"
    unfolding ofstream_open_def by (auto simp: prog_simps elim!: seq_ReturnE attempt_ReturnE)
  then show ?thesis by (simp add: sys_open_trunc_ino)
qed

lemma quiet_open:
  assumes q: "scratch q" and run: "ofstream_open q f = (r, g)"
  shows "quiet f g" "r = Return os \<Longrightarrow> stranger os g"
proof -
  show "quiet f g"
    by (rule quietI [where m = "ofstream_open q"])
      (use q run in \<open>auto intro!: wf.moves_ofstream_open spent.moves_ofstream_open
        held.moves_ofstream_open named.moves_ofstream_open
        wf_syscalls spent_syscalls held_syscalls named_syscalls simp: protected_def reserved_def\<close>)
  show "stranger os g" if "r = Return os"
    using q run that ofstream_openE [of q f os g] ino_unique [of g q] ino_less [of g q]
    unfolding stranger_def by metis
qed

lemma quiet_write:
  assumes "stranger os f" and run: "ofstream_write os ys f = (r, g)"
  shows "quiet f g"
proof (rule quietI [where m = "ofstream_write os ys"])
  fix p i c
  assume p: "protected p c" "holds_file p i c f"
  then have "os_ino os \<noteq> Some i"
    using assms(1) by (auto simp: stranger_def holds_file_def protected_def)
  then show "moves (\<lambda>f g. holds_file p i c f \<longrightarrow> holds_file p i c g) (ofstream_write os ys)"
    by (intro held.moves_ofstream_write held_syscalls) auto
qed (use run in \<open>auto intro!: wf.moves_ofstream_write spent.moves_ofstream_write
      named.moves_ofstream_write wf_syscalls spent_syscalls named_syscalls\<close>)

lemma ofstream_write_dents:
  assumes "ofstream_write os ys f = (r, g)"
  shows "dents g = dents f" "next_ino g = next_ino f"
  using assms unfolding ofstream_write_def
  by (auto simp: seq_def attempt_def ret_def sys_write_def syscall_def store_def
      split: prod.splits result.splits option.splits if_splits list.splits fault.splits)

lemma ofstream_write_ino: "ofstream_write os ys f = (Return os', g) \<Longrightarrow> os_ino os' = os_ino os"
  unfolding ofstream_write_def
  by (auto simp: seq_def attempt_def ret_def
      split: prod.splits result.splits option.splits if_splits)

lemma stranger_write:
  assumes "stranger os f" "ofstream_write os ys f = (Return os', g)"
  shows "stranger os' g"
proof -
  note d = ofstream_write_dents [OF assms(2)]
  have "wf_fs g = wf_fs f" "\<And>p. ino g p = ino f p" using d by (simp_all add: wf_fs_def ino_def)
  with assms(1) show ?thesis
    unfolding stranger_def ofstream_write_ino [OF assms(2)] d(2) by simp
qed

text \<open>A program that is quiet once its stream is one of a scratch file.\<close>

definition uses :: "ofstream \<Rightarrow> (fs, 'a) prog \<Rightarrow> bool" where
  "uses os m \<longleftrightarrow> moves (\<lambda>f g. stranger os f \<longrightarrow> quiet f g) m"

lemma uses_quiet: "moves quiet m \<Longrightarrow> uses os m"
  by (auto simp: uses_def elim: moves_mono)

lemma uses_if: "uses os m \<Longrightarrow> uses os n \<Longrightarrow> uses os (if b then m else n)"
  by simp

lemma uses_write: "(\<And>os'. moves quiet (h os')) \<Longrightarrow> uses os (seq (ofstream_write os ys) h)"
  unfolding uses_def
proof (rule movesI, rule impI)
  fix f r g
  assume h: "\<And>os'. moves quiet (h os')" and os: "stranger os f"
    and run: "seq (ofstream_write os ys) h f = (r, g)"
  from run show "quiet f g"
    by (cases rule: seq_casesE) (blast intro: quiet.step_trans quiet_write [OF os] movesD [OF h])+
qed

lemma quiet_seq_open:
  assumes "scratch q" "\<And>os. uses os (h os)"
  shows "moves quiet (seq (ofstream_open q) h)"
proof (rule movesI)
  fix f r g
  assume "seq (ofstream_open q) h f = (r, g)"
  then show "quiet f g"
  proof (cases rule: seq_casesE)
    case (Return os k)
    have "stranger os k" using quiet_open(2) [OF assms(1) Return(1) refl] .
    then have "quiet k g" using movesD [OF assms(2) [unfolded uses_def] Return(2)] by blast
    with quiet_open(1) [OF assms(1) Return(1)] show ?thesis by (rule quiet.step_trans)
  qed (auto intro: quiet_open(1) [OF assms(1)])
qed

lemma quiet_fjm_start:
  assumes "fjm_startLogSegment d t lv (f, c) = (r, (g, c'))"
  shows "quiet f g" "r = Return (os, created) \<Longrightarrow> stranger os g"
proof -
  let ?m = "seq (ofstream_open (getInProgressEditsFile d t)) (\<lambda>os. seq (os_create lv os) (\<lambda>os. ret (os, \<not> os_fail os)))"
  from assms have run: "?m f = (r, g)"
    by (simp add: fjm_startLogSegment_def prog_simps on_fst_run)
  have ino: "os_ino (ofstream_seekp 0 os) = os_ino os" for os by (simp add: ofstream_seekp_def)
  have "moves quiet ?m"
    unfolding os_create_def
  proof (rule quiet_seq_open [OF scratch_names(1)])
    fix os
    have "stranger (ofstream_seekp 0 os) f = stranger os f" for f by (simp add: stranger_def ino)
    moreover have "uses (ofstream_seekp 0 os) (seq (ofstream_write (ofstream_seekp 0 os) (header lv))
        (\<lambda>os. ret (os, \<not> os_fail os)))"
      by (intro uses_write quiet.moves_ret)
    ultimately show "uses os (seq (ofstream_write (ofstream_seekp 0 os) (header lv))
        (\<lambda>os. ret (os, \<not> os_fail os)))"
      by (simp add: uses_def)
  qed
  with run show "quiet f g" by (auto dest: movesD)
  show "stranger os g" if "r = Return (os, created)"
  proof -
    from run that obtain o1 f1 where o1: "ofstream_open (getInProgressEditsFile d t) f = (Return o1, f1)"
        "ofstream_write (ofstream_seekp 0 o1) (header lv) f1 = (Return os, g)"
      by (auto simp: prog_simps os_create_def elim!: seq_ReturnE)
    from quiet_open(2) [OF _ o1(1) refl] have "stranger (ofstream_seekp 0 o1) f1"
      by (simp add: stranger_def ino)
    then show ?thesis using o1(2) by (rule stranger_write)
  qed
qed

lemma file_exists_Return: "file_exists q f = (Return b, g) \<Longrightarrow> b = is_file g q"
  by (auto simp: file_exists_def sys_is_regular_def syscall_def is_file_def ino_def
      split: list.splits fault.splits)

lemma quiet_fjm_finalize:
  assumes "fjm_finalizeLogSegment d a b (f, c) = (r, (g, c'))"
  shows "quiet f g"
proof -
  let ?dst = "getFinalizedEditsFile d a b" and ?src = "getInProgressEditsFile d a"
  have ren: "quiet h k" if "file_rename ?src ?dst h = (r', k)" "\<not> is_file h ?dst" for h k r'
  proof (rule quietI [where m = "sys_rename ?src ?dst"])
    fix p i c
    assume "protected p c" "holds_file p i c h"
    with that(2) have "?src \<noteq> p" "?dst \<noteq> p" by (auto simp: protected_def holds_file_def is_file_def)
    then show "moves (\<lambda>f g. holds_file p i c f \<longrightarrow> holds_file p i c g) (sys_rename ?src ?dst)"
      by (rule held_syscalls)
  next
    fix p
    assume "reserved p"
    then have "?src \<noteq> p" "?dst \<noteq> p" by (auto simp: reserved_def)
    then show "moves (same_name p) (sys_rename ?src ?dst)" by (rule named_syscalls)
  qed (use that in \<open>simp_all add: wf_syscalls spent_syscalls file_rename_def\<close>)
  have run: "(seq (file_exists ?dst) (\<lambda>e. if e then err else file_rename ?src ?dst)) f = (r, g)"
    using assms unfolding fjm_finalizeLogSegment_def Let_def
    by (auto simp: seq_def on_fst_def prog_simps split: prod.splits result.splits if_splits)
  have ex: "quiet f h" if "file_exists ?dst f = (r', h)" for r' h
    using that by (rule movesD [OF quiet.moves_exists(1)])
  from run show ?thesis
    by (cases rule: seq_casesE)
      (auto simp: prog_simps split: if_splits dest: ex file_exists_Return
        intro: quiet.step_trans [OF ex ren])
qed

section \<open>Scans, and files moved aside\<close>

definition found :: "EditLogFile \<Rightarrow> bool" where
  "found elf \<longleftrightarrow> log_path (fullFileName elf) \<and> fullFileName elf \<noteq> [] \<and>
     (if inProgress elf then lastTxId elf = INVALID_TXID else 0 \<le> lastTxId elf)"

lemma strtol_digits_nonneg: "list_all is_digit ds \<Longrightarrow> 0 \<le> fst (strtol ds)"
proof (cases "ds = []")
  case False
  assume "list_all is_digit ds"
  with False show ?thesis
    using strtol_digits [of ds "[]"] digits_value_nonneg [of ds] by (simp add: LONG_MAX_def)
qed (simp add: strtol_def read_sign_def)

lemma matchEditLog_found: "matchEditLog d n = Some elf \<Longrightarrow> found elf"
proof -
  assume m: "matchEditLog d n = Some elf"
  then have "log_path (fullFileName elf)" unfolding log_path_def by blast
  moreover have "list_all is_digit b" if "match_finalized n = Some (a, b)" for a b
    using that by (auto simp: match_finalized_def Let_def split: if_splits)
  ultimately show ?thesis
    using m by (auto simp: found_def matchEditLog_def mk_EditLogFile_def strtol_digits_nonneg
        split: option.splits)
qed

lemma matchEditLogs_found:
  "matchEditLogs d f = (Return elfs, g) \<Longrightarrow> list_all found elfs"
  unfolding matchEditLogs_def
  by (auto simp: prog_simps list_all_iff List.map_filter_def elim!: seq_ReturnE) (rule matchEditLog_found)

lemma getLogFiles_found: "getLogFiles d t f = (Return elfs, g) \<Longrightarrow> list_all found elfs"
  unfolding getLogFiles_def elf_sort_def
  using matchEditLogs_found by (fastforce simp: prog_simps list_all_iff elim!: seq_ReturnE)

lemma getLogFile_found:
  assumes "getLogFile d t f = (Return elf, g)" "isInitialized elf"
  shows "found elf" "firstTxId elf = t"
proof -
  from assms(1) obtain elfs h where m: "matchEditLogs d f = (Return elfs, h)"
      "(case filter (\<lambda>it. firstTxId it = t) elfs of [] \<Rightarrow> ret no_EditLogFile | [elf] \<Rightarrow> ret elf | _ \<Rightarrow> err) h
       = (Return elf, g)"
    unfolding getLogFile_def by (auto elim!: seq_ReturnE)
  with assms(2) have "filter (\<lambda>it. firstTxId it = t) elfs = [elf]"
    by (auto simp: prog_simps isInitialized_def no_EditLogFile_def mk_EditLogFile_def split: list.splits)
  then have "elf \<in> set (filter (\<lambda>it. firstTxId it = t) elfs)" by simp
  then have "elf \<in> set elfs" "firstTxId elf = t" by simp_all
  with matchEditLogs_found [OF m(1)] show "found elf" "firstTxId elf = t" by (auto simp: list_all_iff)
qed

lemma quiet_lookups [moves_intros]:
  "moves quiet (matchEditLogs d)" "moves quiet (getLogFile d t)" "moves quiet (getLogFiles d t)"
  "moves quiet (getRemoteEditLogs d t b)" "moves quiet (scanLog p)" "moves quiet (elf_scanLog elf)"
proof -
  show m: "moves quiet (matchEditLogs d)"
    unfolding matchEditLogs_def GetFilesInDirectory_def
    by (intro quiet.moves_seq quiet.moves_ret quiet.moves_read_only)
  show "moves quiet (getLogFile d t)"
    unfolding getLogFile_def
    by (intro quiet.moves_seq m) (auto split: list.splits simp: quiet.moves_ret quiet.moves_err)
  show "moves quiet (getLogFiles d t)" "moves quiet (getRemoteEditLogs d t b)"
    unfolding getLogFiles_def getRemoteEditLogs_def by (intro quiet.moves_seq quiet.moves_ret m)+
  show s: "moves quiet (scanLog p)" for p
    unfolding scanLog_def
    by (rule quiet.moves_seq, rule quiet.moves_read_only) (simp add: moves_def quiet.step_refl)
  show "moves quiet (elf_scanLog elf)"
    unfolding elf_scanLog_def by (intro quiet.moves_seq quiet.moves_ret s)
qed

lemma sys_read_Return: "sys_read p f = (Return c, g) \<Longrightarrow> content g p = Some c"
  by (auto simp: sys_read_def syscall_def content_def ino_def split: list.splits fault.splits option.splits)

lemma elf_scanLog_Return:
  assumes "elf_scanLog elf f = (Return elf', g)"
  obtains c where "content g (fullFileName elf) = Some c" "scan_content c = Return (lastTxId elf')"
    "elf' = elf\<lparr>lastTxId := lastTxId elf', corruptHeader := False\<rparr>"
proof -
  from assms obtain c where "sys_read (fullFileName elf) f = (Return c, g)"
      "scan_content c = Return (lastTxId elf')"
      "elf' = elf\<lparr>lastTxId := lastTxId elf', corruptHeader := False\<rparr>"
    unfolding elf_scanLog_def scanLog_def by (auto simp: prog_simps elim!: seq_ReturnE)
  then show thesis using that sys_read_Return by blast
qed

lemma quiet_moveAside:
  assumes other: "\<And>p i c. protected p c \<Longrightarrow> holds_file p i c f \<Longrightarrow> p \<noteq> fullFileName elf"
    and log: "log_path (fullFileName elf)"
    and run: "moveAsideEmptyFile elf f = (r, g)"
  shows "quiet f g"
proof -
  let ?a = "fullFileName elf" and ?b = "fullFileName elf @ ''.empty''"
  from run obtain r' where run': "replaceFile ?a ?b f = (r', g)"
    unfolding moveAsideEmptyFile_def renameSelf_def Let_def
    by (auto simp: prog_simps elim!: seq_casesE)
  show ?thesis
  proof (rule quietI [where m = "replaceFile ?a ?b"])
    fix p i c
    assume p: "protected p c" "holds_file p i c f"
    then have "?a \<noteq> p" "?b \<noteq> p" using other [OF p] by (auto simp: protected_def)
    then show "moves (\<lambda>f g. holds_file p i c f \<longrightarrow> holds_file p i c g) (replaceFile ?a ?b)"
      by (intro held.moves_replaceFile held_syscalls)
  next
    fix p
    assume "reserved p"
    then have "?a \<noteq> p" "?b \<noteq> p" using log by (auto simp: reserved_def)
    then show "moves (same_name p) (replaceFile ?a ?b)"
      by (intro named.moves_replaceFile named_syscalls)
  qed (use run' in \<open>auto intro: wf.moves_replaceFile wf_syscalls spent.moves_replaceFile spent_syscalls\<close>)
qed

text \<open>A segment that was scanned and has no transactions is not protected.\<close>

lemma quiet_moveAside_scanned:
  assumes "elf_scanLog elf f = (Return elf', g)" "log_path (fullFileName elf)"
    and "lastTxId elf' = INVALID_TXID" "moveAsideEmptyFile elf' g = (r, h)"
  shows "quiet g h"
proof (rule quiet_moveAside [OF _ _ assms(4)])
  show "log_path (fullFileName elf')"
    using elf_scanLog_Return [OF assms(1)] assms(2)
    by (metis EditLogFile.select_convs(1) EditLogFile.surjective EditLogFile.update_convs(3,5))
  fix p i c
  assume p: "protected p c" "holds_file p i c g"
  obtain c' where c': "content g (fullFileName elf) = Some c'" "scan_content c' = Return INVALID_TXID"
      "fullFileName elf' = fullFileName elf"
    using elf_scanLog_Return [OF assms(1)] assms(3) by (metis EditLogFile.select_convs(1) EditLogFile.surjective EditLogFile.update_convs(3,5))
  show "p \<noteq> fullFileName elf'"
  proof
    assume "p = fullFileName elf'"
    with c' p(2) have "c = c'" by (auto dest: holds_file_content)
    with \<open>p = _\<close> p(1) c' assms(2) show False by (simp add: protected_def)
  qed
qed

lemma quiet_scan_latest: "list_all found elfs \<Longrightarrow> moves quiet (scan_latest elfs)"
proof (induction elfs)
  case Nil
  then show ?case by (simp add: quiet.moves_ret)
next
  case (Cons elf elfs)
  show ?case
  proof (rule movesI)
    fix f r g
    assume run: "scan_latest (elf # elfs) f = (r, g)"
    have sc: "quiet f k" if "elf_scanLog elf f = (r', k)" for r' k
      using that by (rule movesD [OF quiet_lookups(6)])
    from run show "quiet f g"
      unfolding scan_latest.simps
    proof (cases rule: seq_casesE)
      case (Return elf' h)
      have "quiet h g"
      proof (cases "lastTxId elf' = INVALID_TXID")
        case True
        with Return have "seq (moveAsideEmptyFile elf') (\<lambda>_. scan_latest elfs) h = (r, g)" by simp
        then show ?thesis
          using quiet_moveAside_scanned [OF Return(1) _ True] Cons
          by (cases rule: seq_casesE) (auto simp: found_def intro: quiet.step_trans dest: movesD)
      qed (use Return in \<open>simp add: prog_simps quiet.step_refl\<close>)
      with sc [OF Return(1)] show ?thesis by (rule quiet.step_trans)
    qed (use sc in auto)
  qed
qed

end
