(* ===== verification/Journal_Order.thy ===== *)
theory Journal_Order
  imports Quiet_Files
begin

text \<open>
  The contract between the journal and its parts. \<open>journal_order\<close> is a preorder on
  journals that every elementary action of the code moves along: quiet file operations,
  opening, writing and dropping the segment, the counters, raising the serial number, and
  reading and raising the three cells. Every method, composed of such actions, then moves
  along it. The interpretations are what stays true of a journal: the promise is never
  lowered, requests are served in order, files that are not its scratch are kept.
\<close>

section \<open>The values of the cells in memory\<close>

definition promise_val :: "journal \<Rightarrow> int option" where
  "promise_val j = Option.bind (lastPromisedEpoch j) plf_val"

definition writer_val :: "journal \<Rightarrow> int option" where
  "writer_val j = Option.bind (lastWriterEpoch j) plf_val"

definition committed_val :: "journal \<Rightarrow> int option" where
  "committed_val j = Option.bind (committedTxnId j) belf_val"

lemmas cell_vals = promise_val_def writer_val_def committed_val_def

section \<open>The cells of the journal provide the interface\<close>

lemma on_promised_run:
  "on_promised m j = (r, k) \<longleftrightarrow> (case lastPromisedEpoch j of
      None \<Rightarrow> r = Stop Undefined \<and> k = j
    | Some p \<Rightarrow> (\<exists>f p'. m (jfs j, p) = (r, (f, p')) \<and> k = j\<lparr>jfs := f, lastPromisedEpoch := Some p'\<rparr>))"
  by (auto simp: on_promised_def split: option.splits prod.splits)

lemma on_writer_run:
  "on_writer m j = (r, k) \<longleftrightarrow> (case lastWriterEpoch j of
      None \<Rightarrow> r = Stop Undefined \<and> k = j
    | Some p \<Rightarrow> (\<exists>f p'. m (jfs j, p) = (r, (f, p')) \<and> k = j\<lparr>jfs := f, lastWriterEpoch := Some p'\<rparr>))"
  by (auto simp: on_writer_def split: option.splits prod.splits)

lemma on_committed_run:
  "on_committed m j = (r, k) \<longleftrightarrow> (case committedTxnId j of
      None \<Rightarrow> r = Stop Undefined \<and> k = j
    | Some p \<Rightarrow> (\<exists>f p'. m (jfs j, p) = (r, (f, p')) \<and> k = j\<lparr>jfs := f, committedTxnId := Some p'\<rparr>))"
  by (auto simp: on_committed_def split: option.splits prod.splits)

lemma on_fs_run: "on_fs m j = (r, k) \<longleftrightarrow> (\<exists>f. m (jfs j) = (r, f) \<and> k = j\<lparr>jfs := f\<rparr>)"
  by (auto simp: on_fs_def split: prod.splits)

lemma on_fjm_run: "on_fjm m j = (r, k) \<longleftrightarrow>
    (\<exists>f c. m (jfs j, currentInProgress j) = (r, (f, c)) \<and> k = j\<lparr>jfs := f, currentInProgress := c\<rparr>)"
  by (auto simp: on_fjm_def split: prod.splits)

lemma on_storage_run: "on_storage m j = (r, k) \<longleftrightarrow>
    (\<exists>f s. m (jfs j, storage j) = (r, (f, s)) \<and> k = j\<lparr>jfs := f, storage := s\<rparr>)"
  by (auto simp: on_storage_def split: prod.splits)

lemmas on_runs = on_promised_run on_writer_run on_committed_run on_fs_run on_fjm_run on_storage_run

lemma journal_same [simp]:
  "lastPromisedEpoch j = Some p \<Longrightarrow> j\<lparr>jfs := jfs j, lastPromisedEpoch := Some p\<rparr> = j"
  "lastWriterEpoch j = Some q \<Longrightarrow> j\<lparr>jfs := jfs j, lastWriterEpoch := Some q\<rparr> = j"
  "committedTxnId j = Some b \<Longrightarrow> j\<lparr>jfs := jfs j, committedTxnId := Some b\<rparr> = j"
  by simp_all

lemma same_segment: "curSegment j = Some os \<Longrightarrow> j\<lparr>jfs := f, curSegment := Some os\<rparr> = j\<lparr>jfs := f\<rparr>"
  by (cases j) simp

interpretation promised: long_cell "on_promised plf_get" "\<lambda>v. on_promised (plf_set v)" promise_val
proof
  fix s v w u r t
  show "on_promised plf_get s = (Return v, s)" if "promise_val s = Some v"
    using that plf.get_cached [of "(jfs s, the (lastPromisedEpoch s))" v]
    by (auto simp: promise_val_def on_promised_def split: option.splits bind_splits)
  show "promise_val t = Some v" if "on_promised plf_get s = (Return v, t)"
    using that by (auto simp: on_promised_run promise_val_def dest: plf.get_loads split: option.splits)
  show "promise_val t = Some v" if "on_promised (plf_set v) s = (Return u, t)"
    using that by (auto simp: on_promised_run promise_val_def dest: plf.set_stores split: option.splits)
  show "promise_val t = Some w" if "on_promised (plf_set v) s = (r, t)" "r \<noteq> Return ()" "promise_val s = Some w"
    using that by (auto simp: on_promised_run promise_val_def dest: plf.set_fails split: option.splits)
qed

interpretation writer: long_cell "on_writer plf_get" "\<lambda>v. on_writer (plf_set v)" writer_val
proof
  fix s v w u r t
  show "on_writer plf_get s = (Return v, s)" if "writer_val s = Some v"
    using that plf.get_cached [of "(jfs s, the (lastWriterEpoch s))" v]
    by (auto simp: writer_val_def on_writer_def split: option.splits bind_splits)
  show "writer_val t = Some v" if "on_writer plf_get s = (Return v, t)"
    using that by (auto simp: on_writer_run writer_val_def dest: plf.get_loads split: option.splits)
  show "writer_val t = Some v" if "on_writer (plf_set v) s = (Return u, t)"
    using that by (auto simp: on_writer_run writer_val_def dest: plf.set_stores split: option.splits)
  show "writer_val t = Some w" if "on_writer (plf_set v) s = (r, t)" "r \<noteq> Return ()" "writer_val s = Some w"
    using that by (auto simp: on_writer_run writer_val_def dest: plf.set_fails split: option.splits)
qed

interpretation committed: long_cell "on_committed belf_get" "\<lambda>v. on_committed (belf_set v)" committed_val
proof
  fix s v w u r t
  show "on_committed belf_get s = (Return v, s)" if "committed_val s = Some v"
    using that belf.get_cached [of "(jfs s, the (committedTxnId s))" v]
    by (auto simp: committed_val_def on_committed_def split: option.splits bind_splits)
  show "committed_val t = Some v" if "on_committed belf_get s = (Return v, t)"
    using that by (auto simp: on_committed_run committed_val_def dest: belf.get_loads split: option.splits)
  show "committed_val t = Some v" if "on_committed (belf_set v) s = (Return u, t)"
    using that by (auto simp: on_committed_run committed_val_def dest: belf.set_stores split: option.splits)
  show "committed_val t = Some w" if "on_committed (belf_set v) s = (r, t)" "r \<noteq> Return ()" "committed_val s = Some w"
    using that by (auto simp: on_committed_run committed_val_def dest: belf.set_fails split: option.splits)
qed

section \<open>The contract\<close>

locale journal_order = step_order R for R :: "journal \<Rightarrow> journal \<Rightarrow> bool" +
  assumes fs_quiet: "quiet (jfs s) g \<Longrightarrow> R s (s\<lparr>jfs := g\<rparr>)"
    and segment_opened: "quiet (jfs s) g \<Longrightarrow> stranger os g \<Longrightarrow>
      R s (s\<lparr>jfs := g, currentInProgress := c, curSegment := Some os\<rparr>)"
    and segment_written: "curSegment s = Some os \<Longrightarrow> os_writeRaw recs os (jfs s) = (r, g) \<Longrightarrow>
      R s (s\<lparr>jfs := g, curSegment := Some (case r of Return os' \<Rightarrow> os' | _ \<Rightarrow> os)\<rparr>)"
    and segment_dropped: "R s (s\<lparr>curSegment := None, curSegmentTxId := n\<rparr>)"
    and in_progress_moved: "R s (s\<lparr>currentInProgress := c\<rparr>)"
    and counters_moved: "R s (s\<lparr>curSegmentTxId := a, nextTxId := b, highestWrittenTxId := h\<rparr>)"
    and serial_raised: "currentEpochIpcSerial s < n \<Longrightarrow> R s (s\<lparr>currentEpochIpcSerial := n\<rparr>)"
    and promise_read: "on_promised plf_get s = (ri, t) \<Longrightarrow> R s t"
    and promise_raised: "promise_val s = Some l \<Longrightarrow> l < n \<Longrightarrow> updateLastPromisedEpoch n s = (ru, t) \<Longrightarrow> R s t"
    and writer_read: "on_writer plf_get s = (ri, t) \<Longrightarrow> R s t"
    and writer_written: "on_writer (plf_set n) s = (ru, t) \<Longrightarrow> R s t"
    and committed_read: "on_committed belf_get s = (ri, t) \<Longrightarrow> R s t"
    and committed_raised: "committed_val s = Some l \<Longrightarrow> l \<le> n \<Longrightarrow> on_committed (belf_set n) s = (ru, t) \<Longrightarrow> R s t"
begin

subsection \<open>Elementary actions\<close>

lemma moves_on_fs: "moves quiet m \<Longrightarrow> moves R (on_fs m)"
  by (rule movesI) (auto simp: on_fs_run dest!: movesD intro: fs_quiet)

lemma moves_prod: "(\<And>a b. moves R (f a b)) \<Longrightarrow> moves R (case p of (a, b) \<Rightarrow> f a b)"
  by (cases p) simp

lemma moves_cells:
  "moves R (on_promised plf_get)" "moves R (on_writer plf_get)" "moves R (on_committed belf_get)"
  "moves R (on_writer (plf_set n))"
  using promise_read writer_read committed_read writer_written by (auto intro!: movesI)

lemma moves_counters:
  "moves R (modify (\<lambda>j. j\<lparr>curSegmentTxId := a, nextTxId := b\<rparr>))"
  "moves R (modify (\<lambda>j. j\<lparr>highestWrittenTxId := h, nextTxId := b\<rparr>))"
  "moves R (modify (\<lambda>j. if P j then j\<lparr>highestWrittenTxId := h\<rparr> else j))"
proof -
  have "R s (s\<lparr>curSegmentTxId := a, nextTxId := b\<rparr>)" for s
    using counters_moved [where s = s and h = "highestWrittenTxId s" and a = a and b = b] by simp
  then show "moves R (modify (\<lambda>j. j\<lparr>curSegmentTxId := a, nextTxId := b\<rparr>))" by (rule moves_modify)
  have "R s (s\<lparr>highestWrittenTxId := h, nextTxId := b\<rparr>)" for s
    using counters_moved [where s = s and a = "curSegmentTxId s" and b = b and h = h] by (cases s) simp
  then show "moves R (modify (\<lambda>j. j\<lparr>highestWrittenTxId := h, nextTxId := b\<rparr>))" by (rule moves_modify)
  have "R s (s\<lparr>highestWrittenTxId := h\<rparr>)" for s
    using counters_moved [where s = s and a = "curSegmentTxId s" and b = "nextTxId s" and h = h] by simp
  then show "moves R (modify (\<lambda>j. if P j then j\<lparr>highestWrittenTxId := h\<rparr> else j))"
    by (intro moves_modify) (simp add: step_refl)
qed

lemma moves_fjm_finalize: "moves R (on_fjm (fjm_finalizeLogSegment d a b))"
proof (rule movesI)
  fix s r t
  assume "on_fjm (fjm_finalizeLogSegment d a b) s = (r, t)"
  then obtain f c where "quiet (jfs s) f" "t = s\<lparr>jfs := f\<rparr>\<lparr>currentInProgress := c\<rparr>"
    by (auto simp: on_fjm_run dest: quiet_fjm_finalize)
  then show "R s t" by (auto intro: step_trans [OF fs_quiet in_progress_moved])
qed

lemma moves_open_segment:
  assumes "\<And>created. moves R (h created)"
  shows "moves R (seq (on_fjm (fjm_startLogSegment d n lv)) (\<lambda>(os, created).
    seq (modify (\<lambda>j. j\<lparr>curSegment := Some os\<rparr>)) (\<lambda>_. h created)))"
proof (rule movesI)
  fix s r t
  assume "seq (on_fjm (fjm_startLogSegment d n lv)) (\<lambda>(os, created).
    seq (modify (\<lambda>j. j\<lparr>curSegment := Some os\<rparr>)) (\<lambda>_. h created)) s = (r, t)"
  then show "R s t"
  proof (cases rule: seq_casesE)
    case (Return p u)
    obtain os created where p: "p = (os, created)" by fastforce
    from Return(1) p obtain g c where u: "u = s\<lparr>jfs := g, currentInProgress := c\<rparr>" and
        run: "fjm_startLogSegment d n lv (jfs s, currentInProgress s) = (Return (os, created), (g, c))"
      by (auto simp: on_fjm_run)
    from quiet_fjm_start [OF run] u have "R s (u\<lparr>curSegment := Some os\<rparr>)"
      by (auto intro: segment_opened)
    moreover have "h created (u\<lparr>curSegment := Some os\<rparr>) = (r, t)"
      using Return(2) p by (simp add: prog_simps)
    ultimately show ?thesis by (blast intro: step_trans movesD [OF assms])
  qed (auto simp: on_fjm_run intro: step_trans [OF fs_quiet in_progress_moved, simplified] dest: quiet_fjm_start(1))
qed

lemma moves_write_segment:
  assumes "\<And>os'. moves R (h os')"
  shows "moves R (seq (gets curSegment) (\<lambda>seg. case seg of None \<Rightarrow> halt k
    | Some os \<Rightarrow> seq (on_fs (os_writeRaw recs os)) (\<lambda>os.
        seq (modify (\<lambda>j. j\<lparr>curSegment := Some os\<rparr>)) (\<lambda>_. h os))))"
proof (rule movesI)
  fix s r t
  assume run: "seq (gets curSegment) (\<lambda>seg. case seg of None \<Rightarrow> halt k
    | Some os \<Rightarrow> seq (on_fs (os_writeRaw recs os)) (\<lambda>os.
        seq (modify (\<lambda>j. j\<lparr>curSegment := Some os\<rparr>)) (\<lambda>_. h os))) s = (r, t)"
  show "R s t"
  proof (cases "curSegment s")
    case None
    with run show ?thesis by (simp add: prog_simps step_refl)
  next
    case (Some os)
    from run Some have "seq (on_fs (os_writeRaw recs os)) (\<lambda>os.
        seq (modify (\<lambda>j. j\<lparr>curSegment := Some os\<rparr>)) (\<lambda>_. h os)) s = (r, t)"
      by (simp add: prog_simps)
    then show ?thesis
    proof (cases rule: seq_casesE)
      case (Return os' u)
      from Return(1) have "R s (u\<lparr>curSegment := Some os'\<rparr>)"
        by (auto simp: on_fs_run dest: segment_written [OF Some])
      moreover have "h os' (u\<lparr>curSegment := Some os'\<rparr>) = (r, t)"
        using Return(2) by (simp add: prog_simps)
      ultimately show ?thesis by (blast intro: step_trans movesD [OF assms])
    qed (auto simp: on_fs_run same_segment [OF Some] dest!: segment_written [OF Some])
  qed
qed

subsection \<open>Fencing\<close>

lemma moves_checkFormatted: "moves R checkFormatted"
  unfolding checkFormatted_def by (intro moves_rules)

lemma moves_abortCurSegment: "moves R abortCurSegment"
  unfolding abortCurSegment_def
  by (rule moves_modify) (auto split: option.splits intro: step_refl segment_dropped)

lemma moves_get_epochs: "moves R getLastPromisedEpoch" "moves R getLastWriterEpoch"
  unfolding getLastPromisedEpoch_def getLastWriterEpoch_def
  by (intro moves_rules moves_checkFormatted moves_cells)+

lemma moves_scanStorage: "moves R scanStorageForLatestEdits"
proof -
  have scan: "moves R (seq (on_fs (getLogFiles d 0)) (\<lambda>files. on_fs (scan_latest (rev files))))" for d
  proof (rule movesI)
    fix s r t
    assume "seq (on_fs (getLogFiles d 0)) (\<lambda>files. on_fs (scan_latest (rev files))) s = (r, t)"
    then show "R s t"
    proof (cases rule: seq_casesE)
      case (Return files u)
      from Return(1) have "list_all found files" by (auto simp: on_fs_run dest: getLogFiles_found)
      then have "moves quiet (scan_latest (rev files))" by (intro quiet_scan_latest) simp
      with Return show ?thesis
        by (blast intro: step_trans movesD [OF moves_on_fs] quiet_lookups)
    qed (blast intro: movesD [OF moves_on_fs] quiet_lookups)+
  qed
  show ?thesis
    unfolding scanStorageForLatestEdits_def
    by (intro scan moves_rules moves_on_fs quiet.moves_exists)
qed

lemma getLastPromisedEpoch_val:
  "getLastPromisedEpoch s = (Return v, t) \<Longrightarrow> promise_val t = Some v"
  unfolding getLastPromisedEpoch_def by (auto elim!: seq_ReturnE intro: promised.get_loads)

lemma moves_newEpoch: "moves R (newEpoch nsInfo epoch)"
proof -
  have raise: "moves R (seq getLastPromisedEpoch (\<lambda>lpe. if epoch \<le> lpe then err
      else seq (updateLastPromisedEpoch epoch) (\<lambda>_. h)))" if h: "moves R h" for h :: "(journal, int option) prog"
  proof (rule movesI)
    fix s r t
    assume "seq getLastPromisedEpoch (\<lambda>lpe. if epoch \<le> lpe then err
      else seq (updateLastPromisedEpoch epoch) (\<lambda>_. h)) s = (r, t)"
    then show "R s t"
    proof (cases rule: seq_casesE)
      case (Return lpe u)
      have su: "R s u" using moves_get_epochs(1) Return(1) by (rule movesD)
      have up: "R s k" if "lpe < epoch" "updateLastPromisedEpoch epoch u = (r', k)" for r' k
        using su promise_raised [OF getLastPromisedEpoch_val [OF Return(1)] that] by (rule step_trans)
      show ?thesis
      proof (cases "epoch \<le> lpe")
        case True
        with Return su show ?thesis by (simp add: prog_simps)
      next
        case False
        with Return(2) have "seq (updateLastPromisedEpoch epoch) (\<lambda>_. h) u = (r, t)" by simp
        then show ?thesis
          by (cases rule: seq_casesE) (use False up in \<open>auto intro: step_trans movesD [OF h]\<close>)
      qed
    qed (auto intro: movesD [OF moves_get_epochs(1)])
  qed
  show ?thesis
    unfolding newEpoch_def
    by (intro raise moves_rules moves_checkFormatted moves_abortCurSegment moves_scanStorage)
qed

lemma moves_raise_serial:
  assumes "moves R h"
  shows "moves R (seq (gets currentEpochIpcSerial) (\<lambda>serial. if n \<le> serial then halt Undefined
    else seq (modify (\<lambda>j. j\<lparr>currentEpochIpcSerial := n\<rparr>)) (\<lambda>_. h)))"
proof (rule movesI)
  fix s r t
  assume run: "seq (gets currentEpochIpcSerial) (\<lambda>serial. if n \<le> serial then halt Undefined
    else seq (modify (\<lambda>j. j\<lparr>currentEpochIpcSerial := n\<rparr>)) (\<lambda>_. h)) s = (r, t)"
  show "R s t"
  proof (cases "n \<le> currentEpochIpcSerial s")
    case True
    with run show ?thesis by (simp add: prog_simps step_refl)
  next
    case False
    with run have "h (s\<lparr>currentEpochIpcSerial := n\<rparr>) = (r, t)" by (simp add: prog_simps)
    with False show ?thesis
      by (intro step_trans [OF serial_raised movesD [OF assms]]) auto
  qed
qed

lemma moves_raise_committed:
  "moves R (seq (on_committed belf_get) (\<lambda>cti. if n < cti then halt k else on_committed (belf_set n)))"
proof (rule movesI)
  fix s r t
  assume "seq (on_committed belf_get) (\<lambda>cti. if n < cti then halt k else on_committed (belf_set n)) s = (r, t)"
  then show "R s t"
  proof (cases rule: seq_casesE)
    case (Return cti u)
    have "R s u" using committed_read Return(1) by blast
    moreover have "R u t"
    proof (cases "n < cti")
      case True
      with Return(2) show ?thesis by (simp add: prog_simps step_refl)
    next
      case False
      with Return(2) have "on_committed (belf_set n) u = (r, t)" by simp
      with False show ?thesis
        by (intro committed_raised [OF committed.get_loads [OF Return(1)]]) auto
    qed
    ultimately show ?thesis by (rule step_trans)
  qed (blast intro: committed_read)+
qed

lemma moves_checkRequest: "moves R (checkRequest reqInfo)"
proof -
  have raise: "moves R (seq (on_promised plf_get) (\<lambda>lpe. if ri_epoch reqInfo < lpe then err
      else seq (if lpe < ri_epoch reqInfo then updateLastPromisedEpoch (ri_epoch reqInfo) else ret ())
        (\<lambda>_. h)))" if h: "moves R h" for h :: "(journal, unit) prog"
  proof (rule movesI)
    fix s r t
    assume "seq (on_promised plf_get) (\<lambda>lpe. if ri_epoch reqInfo < lpe then err
      else seq (if lpe < ri_epoch reqInfo then updateLastPromisedEpoch (ri_epoch reqInfo) else ret ())
        (\<lambda>_. h)) s = (r, t)"
    then show "R s t"
    proof (cases rule: seq_casesE)
      case (Return lpe u)
      have su: "R s u" using promise_read Return(1) by blast
      have "R u t"
      proof (cases "ri_epoch reqInfo < lpe")
        case True
        with Return(2) show ?thesis by (simp add: prog_simps step_refl)
      next
        case False
        with Return(2) have "seq (if lpe < ri_epoch reqInfo then updateLastPromisedEpoch (ri_epoch reqInfo)
            else ret ()) (\<lambda>_. h) u = (r, t)" by simp
        then show ?thesis
          by (cases rule: seq_casesE)
            (auto simp: prog_simps split: if_splits intro: step_refl step_trans movesD [OF h]
              promise_raised [OF promised.get_loads [OF Return(1)]])
      qed
      with su show ?thesis by (rule step_trans)
    qed (blast intro: promise_read)+
  qed
  show ?thesis
    unfolding checkRequest_def
    by (intro raise moves_raise_serial moves_if moves_raise_committed moves_ret)
qed

lemma moves_checkWriteRequest: "moves R (checkWriteRequest reqInfo)"
  unfolding checkWriteRequest_def by (intro moves_rules moves_checkRequest moves_cells)

subsection \<open>Segments\<close>

lemmas moves_lookups = moves_on_fs [OF quiet_lookups(2)] moves_on_fs [OF quiet_lookups(4)]
  moves_on_fs [OF quiet_lookups(6)]

lemma moves_purgePaxosDecision: "moves R (purgePaxosDecision n)"
  unfolding purgePaxosDecision_def Let_def
  by (intro moves_rules moves_on_fs quiet.moves_rules quiet.moves_exists quiet_wrappers scratch_names)

lemma moves_startLogSegment: "moves R (startLogSegment reqInfo n lv)"
  unfolding startLogSegment_def
  by (intro moves_open_segment moves_rules moves_checkFormatted moves_checkRequest moves_abortCurSegment
      moves_lookups moves_cells moves_purgePaxosDecision moves_counters)

lemma moves_journal_edits: "moves R (journal_edits reqInfo seg frst num recs)"
  unfolding journal_edits_def Let_def
  by (intro moves_write_segment moves_rules moves_checkFormatted moves_checkWriteRequest
      moves_abortCurSegment moves_cells moves_counters)

lemma moves_finalizeLogSegment: "moves R (finalizeLogSegment reqInfo a b)"
  unfolding finalizeLogSegment_def Let_def
  by (intro moves_rules moves_checkFormatted moves_checkRequest moves_abortCurSegment moves_lookups
      moves_fjm_finalize moves_purgePaxosDecision)

lemma moves_getEditLogManifest: "moves R (getEditLogManifest n b)"
  unfolding getEditLogManifest_def Let_def
  by (intro moves_rules moves_checkFormatted moves_lookups)

subsection \<open>Recovery\<close>

lemma moves_getSegmentInfo: "moves R (getSegmentInfo n)"
proof -
  have tail: "R u t"
    if elf: "found elf" and run: "seq (if inProgress elf then on_fs (elf_scanLog elf) else ret elf) (\<lambda>elf.
         if lastTxId elf = INVALID_TXID
         then seq (attempt (on_fs (moveAsideEmptyFile elf))) (\<lambda>_. ret None)
         else ret (h elf)) u = (r, t)" for elf u r t and h :: "EditLogFile \<Rightarrow> SegmentState option"
    using run
  proof (cases rule: seq_casesE)
    case (Return elf' k)
    have uk: "R u k"
      using Return(1) by (auto simp: prog_simps split: if_splits intro: step_refl movesD [OF moves_lookups(3)])
    show ?thesis
    proof (cases "lastTxId elf' = INVALID_TXID")
      case True
      then have p: "inProgress elf" using Return(1) elf
        by (auto simp: found_def prog_simps INVALID_TXID_def split: if_splits)
      with Return(1) have sc: "elf_scanLog elf (jfs u) = (Return elf', jfs k)" by (auto simp: on_fs_run)
      from Return(2) True obtain r' where "on_fs (moveAsideEmptyFile elf') k = (r', t)"
        by (auto simp: prog_simps seq_def attempt_def split: prod.splits result.splits)
      then obtain f where "moveAsideEmptyFile elf' (jfs k) = (r', f)" "t = k\<lparr>jfs := f\<rparr>"
        by (auto simp: on_fs_run)
      then have "R k t"
        using quiet_moveAside_scanned [OF sc _ True] elf by (auto simp: found_def intro: fs_quiet)
      with uk show ?thesis by (rule step_trans)
    qed (use Return uk in \<open>simp add: prog_simps\<close>)
  qed (auto simp: prog_simps split: if_splits intro: movesD [OF moves_lookups(3)])
  have look: "moves R (seq (on_fs (getLogFile d n)) (\<lambda>elf.
       if \<not> isInitialized elf then ret None
       else seq (if inProgress elf then on_fs (elf_scanLog elf) else ret elf) (\<lambda>elf.
         if lastTxId elf = INVALID_TXID
         then seq (attempt (on_fs (moveAsideEmptyFile elf))) (\<lambda>_. ret None)
         else ret (h elf))))" for d and h :: "EditLogFile \<Rightarrow> SegmentState option"
  proof (rule movesI, erule seq_casesE)
    fix s r t elf u
    assume 1: "on_fs (getLogFile d n) s = (Return elf, u)"
      and 2: "(if \<not> isInitialized elf then ret None
       else seq (if inProgress elf then on_fs (elf_scanLog elf) else ret elf) (\<lambda>elf.
         if lastTxId elf = INVALID_TXID
         then seq (attempt (on_fs (moveAsideEmptyFile elf))) (\<lambda>_. ret None)
         else ret (h elf))) u = (r, t)"
    have "R s u" using 1 by (rule movesD [OF moves_lookups(1)])
    moreover have "R u t"
    proof (cases "isInitialized elf")
      case True
      with 1 have "found elf" by (auto simp: on_fs_run dest: getLogFile_found(1))
      with 2 True tail show ?thesis by simp
    qed (use 2 in \<open>simp add: prog_simps step_refl\<close>)
    ultimately show "R s t" by (rule step_trans)
  qed (auto intro: movesD [OF moves_lookups(1)])
  show ?thesis
    unfolding getSegmentInfo_def by (rule moves_seq, rule moves_gets, rule look)
qed

lemma moves_getPersistedPaxosData: "moves R (getPersistedPaxosData e n)"
  unfolding getPersistedPaxosData_def Let_def
  by (intro moves_rules moves_on_fs quiet.moves_exists quiet.moves_read_only)

lemma moves_completeHalfDone: "moves R (completeHalfDoneAcceptRecovery p)"
  unfolding completeHalfDoneAcceptRecovery_def Let_def
  by (intro moves_rules moves_on_fs quiet.moves_rules quiet.moves_exists quiet_wrappers scratch_names)

lemma moves_persistPaxosData: "moves R (persistPaxosData e n d)"
proof -
  have "moves quiet (seq (ofstream_open (p @ ''.tmp'')) (\<lambda>fos. if os_ino fos = None then err
      else (case b of None \<Rightarrow> seq (attempt (file_delete (p @ ''.tmp''))) (\<lambda>_. err)
        | Some bytes \<Rightarrow> seq (ofstream_write fos bytes) (\<lambda>_. file_rename (p @ ''.tmp'') p))))"
    if p: "scratch p" "scratch (p @ ''.tmp'')" for p b
  proof (rule quiet_seq_open [OF p(2)])
    show "uses fos (if os_ino fos = None then err
      else (case b of None \<Rightarrow> seq (attempt (file_delete (p @ ''.tmp''))) (\<lambda>_. err)
        | Some bytes \<Rightarrow> seq (ofstream_write fos bytes) (\<lambda>_. file_rename (p @ ''.tmp'') p)))" for fos
    proof (cases b)
      case None
      have "moves quiet (seq (attempt (file_delete (p @ ''.tmp''))) (\<lambda>_. err :: (fs, unit) prog))"
        by (intro quiet.moves_rules quiet_wrappers p)
      with None show ?thesis by (auto intro: uses_quiet quiet.moves_err)
    next
      case (Some bytes)
      have "uses fos (seq (ofstream_write fos bytes) (\<lambda>_. file_rename (p @ ''.tmp'') p))"
        by (intro uses_write quiet_wrappers p)
      with Some show ?thesis by (auto intro: uses_quiet quiet.moves_err)
    qed
  qed
  then show ?thesis
    unfolding persistPaxosData_def Let_def
    by (intro moves_seq moves_gets moves_on_fs) (simp_all del: append_assoc)
qed

lemma moves_syncLog: "moves R (syncLog e reqInfo seg url)"
proof -
  have "moves quiet (seq (ofstream_open p) (\<lambda>os. case http_get e url of
      Response body responseCode \<Rightarrow> seq (ofstream_write os body) (\<lambda>_.
            if responseCode = 200 then ret p else seq (attempt (file_delete p)) (\<lambda>_. err))
    | Threw body \<Rightarrow> seq (ofstream_write os body) (\<lambda>_. seq (attempt (file_delete p)) (\<lambda>_. err))))"
    if p: "scratch p" for p
  proof (rule quiet_seq_open [OF p])
    have del: "moves quiet (seq (attempt (file_delete p)) (\<lambda>_. err :: (fs, string) prog))"
      by (intro quiet.moves_rules quiet_wrappers p)
    show "uses os (case http_get e url of
      Response body responseCode \<Rightarrow> seq (ofstream_write os body) (\<lambda>_.
            if responseCode = 200 then ret p else seq (attempt (file_delete p)) (\<lambda>_. err))
    | Threw body \<Rightarrow> seq (ofstream_write os body) (\<lambda>_. seq (attempt (file_delete p)) (\<lambda>_. err)))" for os
      by (cases "http_get e url") (auto intro!: uses_write del quiet.moves_ret)
  qed
  then show ?thesis
    unfolding syncLog_def Let_def by (intro moves_seq moves_gets moves_on_fs) simp_all
qed

lemma moves_prepareRecovery: "moves R (prepareRecovery e reqInfo n)"
  unfolding prepareRecovery_def Let_def
  by (intro moves_prod moves_rules moves_checkFormatted moves_checkRequest moves_abortCurSegment
      moves_getPersistedPaxosData moves_completeHalfDone moves_getSegmentInfo moves_cells)

lemma moves_check_replacement: "moves R (check_replacement cur seg)"
  unfolding check_replacement_def Let_def by (intro moves_rules moves_cells moves_counters)

lemma moves_acceptRecovery: "moves R (acceptRecovery e reqInfo seg url)"
proof -
  have synced: "yields (\<lambda>p. p = [] \<or> scratch p) (syncLog e reqInfo seg url)"
    unfolding syncLog_def Let_def
    by (intro yields_intros)
      (auto simp: yields_def on_fs_run prog_simps elim!: seq_ReturnE split: fetch.splits if_splits)
  have rest: "moves R (seq (persistPaxosData e n d) (\<lambda>_. if p \<noteq> [] then seq (gets storage) (\<lambda>st.
      on_fs (replaceFile p (getInProgressEditLog st n))) else ret ()))"
    if "p = [] \<or> scratch p" for n d p
    by (cases "p = []")
      (use that in \<open>auto intro!: moves_rules moves_persistPaxosData moves_on_fs quiet_wrappers\<close>)
  have sync: "moves R (seq (case info of
            Some cur \<Rightarrow> if ss_endTxId cur \<noteq> ss_endTxId seg
              then seq (check_replacement cur seg) (\<lambda>_. syncLog e reqInfo seg url) else ret []
          | None \<Rightarrow> seq (modify (\<lambda>j. if P j then j\<lparr>highestWrittenTxId := h\<rparr> else j)) (\<lambda>_.
                syncLog e reqInfo seg url)) (\<lambda>p. seq (persistPaxosData e n d) (\<lambda>_. if p \<noteq> []
      then seq (gets storage) (\<lambda>st. on_fs (replaceFile p (getInProgressEditLog st n))) else ret ())))"
    for info P h n d
  proof (rule moves_seq_yields [where Q = "\<lambda>p. p = [] \<or> scratch p", OF _ _ rest])
  qed (auto split: option.split intro!: yields_intros synced moves_rules moves_check_replacement
      moves_syncLog moves_counters)
  show ?thesis
    unfolding acceptRecovery_def Let_def
    by (intro sync moves_rules moves_checkFormatted moves_checkRequest moves_abortCurSegment
        moves_getPersistedPaxosData moves_getSegmentInfo)
qed

end

end
