(* ===== verification/Journal_Steps.thy ===== *)
theory Journal_Steps
  imports Journal_Order
begin

text \<open>
  The journal as a state machine: its requests, the steps of its life (a request served to
  the end, or the process killed and started again on the files that are left), and the
  orders that every request moves along: the interpretations of \<open>journal_order\<close>.
\<close>

section \<open>Requests\<close>

datatype call =
    Get_Epoch
  | New_Epoch namespace_info int
  | Start request_info int int
  | Edits request_info int int int string
  | Finalize request_info int int
  | Manifest int bool
  | Prepare request_info int
  | Accept request_info SegmentState string

datatype answer =
    Done
  | Epoch int
  | Segment "int option"
  | Logs "EditLogFile list"
  | Recovery PrepareRecoveryResponse

fun run_call :: "env \<Rightarrow> call \<Rightarrow> (journal, answer) prog" where
  "run_call e Get_Epoch = seq getLastPromisedEpoch (\<lambda>x. ret (Epoch x))"
| "run_call e (New_Epoch nsInfo epoch) = seq (newEpoch nsInfo epoch) (\<lambda>x. ret (Segment x))"
| "run_call e (Start reqInfo n lv) = seq (startLogSegment reqInfo n lv) (\<lambda>_. ret Done)"
| "run_call e (Edits reqInfo seg frst num recs) =
     seq (journal_edits reqInfo seg frst num recs) (\<lambda>_. ret Done)"
| "run_call e (Finalize reqInfo a b) = seq (finalizeLogSegment reqInfo a b) (\<lambda>_. ret Done)"
| "run_call e (Manifest n ok) = seq (getEditLogManifest n ok) (\<lambda>x. ret (Logs x))"
| "run_call e (Prepare reqInfo n) = seq (prepareRecovery e reqInfo n) (\<lambda>x. ret (Recovery x))"
| "run_call e (Accept reqInfo seg url) = seq (acceptRecovery e reqInfo seg url) (\<lambda>_. ret Done)"

text \<open>The writer's credentials, for the requests that carry them.\<close>

fun credentials :: "call \<Rightarrow> request_info option" where
  "credentials (Start reqInfo n lv) = Some reqInfo"
| "credentials (Edits reqInfo seg frst num recs) = Some reqInfo"
| "credentials (Finalize reqInfo a b) = Some reqInfo"
| "credentials (Prepare reqInfo n) = Some reqInfo"
| "credentials (Accept reqInfo seg url) = Some reqInfo"
| "credentials _ = None"

context journal_order begin

lemma moves_run_call: "moves R (run_call e c)"
  by (cases c)
    (auto intro!: moves_seq moves_ret moves_get_epochs moves_newEpoch moves_startLogSegment
      moves_journal_edits moves_finalizeLogSegment moves_getEditLogManifest moves_prepareRecovery
      moves_acceptRecovery)

lemma run_call_order: "run_call e c s = (r, t) \<Longrightarrow> R s t"
  using moves_run_call by (rule movesD)

end

section \<open>What the requests do to the memory\<close>

lemma checkFormatted_same: "checkFormatted s = (r, t) \<Longrightarrow> t = s \<and> (r = Return () \<or> r = Error)"
  by (auto simp: checkFormatted_def prog_simps split: if_splits)

lemma cell_vals_update [simp]:
  "promise_val (s\<lparr>jfs := f\<rparr>) = promise_val s" "committed_val (s\<lparr>jfs := f\<rparr>) = committed_val s"
  "promise_val (s\<lparr>curSegment := os\<rparr>) = promise_val s" "committed_val (s\<lparr>curSegment := os\<rparr>) = committed_val s"
  "promise_val (s\<lparr>currentInProgress := c\<rparr>) = promise_val s" "committed_val (s\<lparr>currentInProgress := c\<rparr>) = committed_val s"
  "promise_val (s\<lparr>curSegmentTxId := n\<rparr>) = promise_val s" "committed_val (s\<lparr>curSegmentTxId := n\<rparr>) = committed_val s"
  "promise_val (s\<lparr>nextTxId := n\<rparr>) = promise_val s" "committed_val (s\<lparr>nextTxId := n\<rparr>) = committed_val s"
  "promise_val (s\<lparr>highestWrittenTxId := n\<rparr>) = promise_val s" "committed_val (s\<lparr>highestWrittenTxId := n\<rparr>) = committed_val s"
  "promise_val (s\<lparr>currentEpochIpcSerial := n\<rparr>) = promise_val s" "committed_val (s\<lparr>currentEpochIpcSerial := n\<rparr>) = committed_val s"
  "promise_val (s\<lparr>lastWriterEpoch := w\<rparr>) = promise_val s" "committed_val (s\<lparr>lastWriterEpoch := w\<rparr>) = committed_val s"
  "promise_val (s\<lparr>committedTxnId := b\<rparr>) = promise_val s" "committed_val (s\<lparr>lastPromisedEpoch := q\<rparr>) = committed_val s"
  by (simp_all add: cell_vals)

lemma on_writer_frame:
  "on_writer m s = (r, t) \<Longrightarrow> promise_val t = promise_val s \<and> committed_val t = committed_val s \<and>
     currentEpochIpcSerial t = currentEpochIpcSerial s \<and> storage t = storage s"
  by (auto simp: on_writer_run split: option.splits)

lemma on_committed_frame:
  "on_committed m s = (r, t) \<Longrightarrow> promise_val t = promise_val s \<and>
     currentEpochIpcSerial t = currentEpochIpcSerial s \<and> storage t = storage s"
  by (auto simp: on_committed_run split: option.splits)

lemma on_promised_frame:
  "on_promised m s = (r, t) \<Longrightarrow> committed_val t = committed_val s \<and>
     currentEpochIpcSerial t = currentEpochIpcSerial s \<and> storage t = storage s"
  by (auto simp: on_promised_run split: option.splits)

lemmas cell_frames = on_writer_frame on_committed_frame on_promised_frame

lemma updateLastPromisedEpochE:
  assumes "updateLastPromisedEpoch n s = (r, t)"
  obtains (Return) u where "on_promised (plf_set n) s = (Return (), u)" "r = Return ()"
      "t = u\<lparr>currentEpochIpcSerial := 0\<rparr>"
    | (other) "on_promised (plf_set n) s = (r, t)" "r \<noteq> Return ()"
  using assms unfolding updateLastPromisedEpoch_def
  by (auto simp: prog_simps elim!: seq_casesE)

lemma updateLastPromisedEpoch_val:
  "updateLastPromisedEpoch n s = (Return u, t) \<Longrightarrow> promise_val t = Some n"
  by (erule updateLastPromisedEpochE) (auto dest: promised.set_stores)

text \<open>The promise and the serial number, lexicographically.\<close>

definition ahead :: "journal \<Rightarrow> journal \<Rightarrow> bool" where
  "ahead s t \<longleftrightarrow> (\<forall>x. promise_val s = Some x \<longrightarrow> (\<exists>y. promise_val t = Some y \<and>
     (x < y \<or> x = y \<and> currentEpochIpcSerial s \<le> currentEpochIpcSerial t)))"

lemma ahead_same:
  "promise_val t = promise_val s \<Longrightarrow> currentEpochIpcSerial s \<le> currentEpochIpcSerial t \<Longrightarrow> ahead s t"
  by (auto simp: ahead_def)

lemma ahead_read: "on_promised plf_get s = (r, t) \<Longrightarrow> ahead s t"
proof (cases "promise_val s")
  case (Some x)
  assume "on_promised plf_get s = (r, t)"
  with promised.get_cached [OF Some] show ?thesis by (simp add: ahead_def)
qed (simp add: ahead_def)

lemma ahead_raise:
  assumes "promise_val s = Some l" "l < n" "updateLastPromisedEpoch n s = (r, t)"
  shows "ahead s t"
  using assms(3)
proof (cases rule: updateLastPromisedEpochE)
  case (Return u)
  with assms show ?thesis by (auto simp: ahead_def dest: promised.set_stores)
next
  case other
  with assms(1) have "promise_val t = Some l" by (auto intro: promised.set_fails)
  with other assms(1) show ?thesis by (auto simp: ahead_def dest: cell_frames)
qed

lemma ahead_cells:
  "on_writer m s = (r, t) \<Longrightarrow> ahead s t" "on_committed m' s = (r', t) \<Longrightarrow> ahead s t"
  using on_writer_frame [of m s r t] on_committed_frame [of m' s r' t] by (auto intro: ahead_same)

interpretation ahead: journal_order ahead
proof
  show "ahead s s" for s by (simp add: ahead_same)
  show "ahead s u" if "ahead s t" "ahead t u" for s t u
    using that by (fastforce simp: ahead_def)
qed (auto intro: ahead_same ahead_read ahead_raise ahead_cells)

text \<open>The promise alone, and the committed transaction id.\<close>

lemma ahead_grows: "ahead s t \<Longrightarrow> grows promise_val s t"
  by (force simp: ahead_def grows_def)

interpretation commits: journal_order "grows committed_val"
proof
  show "grows committed_val s t" if "on_committed belf_get s = (r, t)" for s t r
  proof (cases "committed_val s")
    case (Some x)
    with committed.get_cached [OF Some] that show ?thesis by (simp add: grows_def)
  qed (simp add: grows_def)
  show "grows committed_val s t"
    if "committed_val s = Some l" "l \<le> n" "on_committed (belf_set n) s = (r, t)" for s t r l n
    using that by (auto intro: committed.set_up)
  show "grows committed_val s t" if "updateLastPromisedEpoch n s = (r, t)" for s t r n
    using that
  proof (cases rule: updateLastPromisedEpochE)
    case (Return u)
    with on_promised_frame [OF Return(1)] show ?thesis by (simp add: grows_same)
  next
    case other
    with on_promised_frame [OF other(1)] show ?thesis by (simp add: grows_same)
  qed
qed (auto intro: grow.step_refl grow.step_trans grows_same dest: cell_frames)

text \<open>The storage is only changed by \<open>format\<close>.\<close>

interpretation stored: journal_order "\<lambda>s t. storage t = storage s"
  by unfold_locales (auto dest: cell_frames elim!: updateLastPromisedEpochE)

end
