(* ===== verification/Journal_Disk.thy ===== *)
theory Journal_Disk
  imports Journal_Steps
begin

text \<open>
  The files of the cells. A request leaves every protected file alone (a finalized segment,
  for one), and as long as every system call happens or does not happen, what the file of
  the promise says is never below a promise that was made: the fence holds across crashes.
\<close>

section \<open>The programs of the cells\<close>

text \<open>The file \<open>p\<close> is as it was, whatever happened to others.\<close>

definition beside :: "string \<Rightarrow> fs \<Rightarrow> fs \<Rightarrow> bool" where
  "beside p f g \<longleftrightarrow> (wf_fs f \<longrightarrow> wf_fs g) \<and> set (faults g) \<subseteq> set (faults f) \<and> same_name p f g \<and>
     (\<forall>i c. holds_file p i c f \<longrightarrow> holds_file p i c g)"

interpretation beside: fs_order "beside p" for p
proof
  show "beside p f f" for f by (simp add: beside_def named.step_refl)
  show "beside p f h" if "beside p f g" "beside p g h" for f g h
    using that unfolding beside_def by (meson named.step_trans subset_trans)
  show "beside p f (f\<lparr>faults := k\<rparr>)" if "faults f = x # k" for f x k
    using that by (auto simp: beside_def holds_file_def wf_fs_def ino_def same_name_def)
qed

lemma besideI:
  assumes "moves (\<lambda>f g. wf_fs f \<longrightarrow> wf_fs g) m" "moves (\<lambda>f g. set (faults g) \<subseteq> set (faults f)) m"
    "moves (same_name p) m" "\<And>i c. moves (\<lambda>f g. holds_file p i c f \<longrightarrow> holds_file p i c g) m"
  shows "moves (beside p) m"
  using assms by (simp add: moves_def beside_def)

lemma beside_open: "q \<noteq> p \<Longrightarrow> moves (beside p) (ofstream_open q)"
  by (intro besideI wf.moves_ofstream_open spent.moves_ofstream_open named.moves_ofstream_open
      held.moves_ofstream_open wf_syscalls spent_syscalls named_syscalls held_syscalls)

text \<open>A stream that does not write to \<open>p\<close>.\<close>

definition apart :: "string \<Rightarrow> ofstream \<Rightarrow> fs \<Rightarrow> bool" where
  "apart p os f \<longleftrightarrow> (\<forall>i. os_ino os = Some i \<longrightarrow> i < next_ino f \<and> ino f p \<noteq> Some i)"

lemma beside_write:
  assumes "apart p os f" "ofstream_write os ys f = (r, g)"
  shows "beside p f g"
proof -
  note d = ofstream_write_dents [OF assms(2)]
  have "moves (\<lambda>f g. wf_fs f \<longrightarrow> wf_fs g) (ofstream_write os ys)"
    "moves (\<lambda>f g. set (faults g) \<subseteq> set (faults f)) (ofstream_write os ys)"
    by (intro wf.moves_ofstream_write spent.moves_ofstream_write wf_syscalls spent_syscalls)+
  then have "wf_fs f \<longrightarrow> wf_fs g" "set (faults g) \<subseteq> set (faults f)"
    using assms(2) by (auto dest: movesD)
  moreover have "holds_file p i c g" if "holds_file p i c f" for i c
  proof -
    from that assms(1) have "os_ino os \<noteq> Some i" by (auto simp: apart_def holds_file_def)
    with held_ofstream_write [OF assms(2) that] show ?thesis by blast
  qed
  moreover have "same_name p f g" unfolding same_name_def ino_def d by simp
  ultimately show ?thesis unfolding beside_def by blast
qed

lemma apart_same: "apart p os f \<Longrightarrow> same_name p f g \<Longrightarrow> apart p os g"
  by (auto simp: apart_def same_name_def)

lemma apart_beside: "apart p os f \<Longrightarrow> beside p f g \<Longrightarrow> apart p os g"
  by (simp add: apart_same beside_def)

lemma apart_ino: "os_ino os' = os_ino os \<Longrightarrow> apart p os' f = apart p os f"
  by (simp add: apart_def)

lemma apart_open:
  assumes "ofstream_open q f = (Return os, g)" "q \<noteq> p" "wf_fs g"
  shows "apart p os g"
  using ofstream_openE [OF assms(1)] assms(2,3) ino_less ino_unique unfolding apart_def by metis

subsection \<open>PersistentLongFile\<close>

lemma plf_readFile_beside: "moves (beside p) (plf_readFile q v)"
  unfolding plf_readFile_def
  by (intro beside.moves_rules beside.moves_exists beside.moves_read_only)

lemma plf_getE:
  assumes "plf_get (f, q) = (r, (g, q'))"
  obtains (cached) "plf_loaded q" "r = Return (plf_value q)" "g = f" "q' = q"
    | (read) v where "\<not> plf_loaded q" "plf_readFile (plf_file q) (plf_default q) f = (Return v, g)"
        "r = Return v" "q' = q\<lparr>plf_value := v, plf_loaded := True\<rparr>"
    | (failed) r' where "\<not> plf_loaded q" "plf_readFile (plf_file q) (plf_default q) f = (r', g)"
        "\<And>v. r \<noteq> Return v" "q' = q"
proof (cases "plf_loaded q")
  case True
  with assms show ?thesis by (intro cached) (auto simp: plf_get_def prog_simps)
next
  case False
  with assms have "seq (on_fst (plf_readFile (plf_file q) (plf_default q))) (\<lambda>temp.
       seq (upd_snd (\<lambda>p. p\<lparr>plf_value := temp, plf_loaded := True\<rparr>)) (\<lambda>_. ret temp)) (f, q) = (r, (g, q'))"
    by (simp add: plf_get_def prog_simps)
  then show ?thesis
  proof (cases rule: seq_casesE)
    case (Return v t)
    with False show ?thesis by (intro read) (auto simp: on_fst_run prog_simps)
  next
    case Error
    with False show ?thesis by (intro failed) (auto simp: on_fst_run)
  next
    case (Stop k)
    with False show ?thesis by (intro failed) (auto simp: on_fst_run)
  qed
qed

lemma plf_get_beside: "plf_get (f, q) = (r, (g, q')) \<Longrightarrow> beside p f g"
  by (erule plf_getE) (auto simp: beside.step_refl intro: movesD [OF plf_readFile_beside])

lemma plf_get_file: "plf_get (f, q) = (r, (g, q')) \<Longrightarrow> plf_file q' = plf_file q \<and> plf_default q' = plf_default q"
  by (erule plf_getE) auto

lemma plf_writeFile_beside:
  assumes "q \<noteq> p" "plf_writeFile q n f = (r, g)" "wf_fs f"
  shows "beside p f g"
  using assms(2) unfolding plf_writeFile_def
proof (cases rule: seq_casesE)
  case (Return os h)
  have fh: "beside p f h" using beside_open [OF assms(1)] Return(1) by (rule movesD)
  then have "wf_fs h" using assms(3) by (simp add: beside_def)
  with apart_open [OF Return(1) assms(1)] have ap: "apart p os h" by blast
  have "beside p h g"
  proof (cases "os_ino os = None")
    case True
    with Return(2) show ?thesis by (simp add: prog_simps beside.step_refl)
  next
    case False
    with Return(2) have "seq (ofstream_write os (show_int n @ [newline])) (\<lambda>_. ret ()) h = (r, g)" by simp
    then show ?thesis
      by (cases rule: seq_casesE) (auto simp: prog_simps intro: beside_write [OF ap])
  qed
  with fh show ?thesis by (rule beside.step_trans)
qed (auto intro: movesD [OF beside_open [OF assms(1)]])

lemma plf_setE:
  assumes "plf_set n (f, q) = (r, (g, q'))"
  obtains (same) "plf_loaded q" "plf_value q = n" "r = Return ()" "g = f" "q' = q"
    | (written) "plf_writeFile (plf_file q) n f = (Return (), g)" "r = Return ()"
        "q' = q\<lparr>plf_value := n, plf_loaded := True\<rparr>"
    | (failed) "plf_writeFile (plf_file q) n f = (r, g)" "r \<noteq> Return ()" "q' = q"
proof (cases "plf_value q \<noteq> n \<or> \<not> plf_loaded q")
  case False
  with assms show ?thesis by (intro same) (auto simp: plf_set_def prog_simps)
next
  case True
  with assms have "seq (on_fst (plf_writeFile (plf_file q) n))
      (\<lambda>_. upd_snd (\<lambda>p. p\<lparr>plf_value := n, plf_loaded := True\<rparr>)) (f, q) = (r, (g, q'))"
    by (simp add: plf_set_def prog_simps)
  then show ?thesis
  proof (cases rule: seq_casesE)
    case (Return v t)
    then show ?thesis by (intro written) (auto simp: on_fst_run prog_simps)
  next
    case Error
    then show ?thesis by (intro failed) (auto simp: on_fst_run)
  next
    case (Stop k)
    then show ?thesis by (intro failed) (auto simp: on_fst_run)
  qed
qed

lemma plf_set_file: "plf_set n (f, q) = (r, (g, q')) \<Longrightarrow> plf_file q' = plf_file q \<and> plf_default q' = plf_default q"
  by (erule plf_setE) auto

lemma plf_set_beside:
  "plf_set n (f, q) = (r, (g, q')) \<Longrightarrow> plf_file q \<noteq> p \<Longrightarrow> wf_fs f \<Longrightarrow> beside p f g"
  by (erule plf_setE) (auto simp: beside.step_refl intro: plf_writeFile_beside)

subsection \<open>BestEffortLongFile\<close>

lemma belf_lazyOpen_beside:
  assumes "belf_lazyOpen (f, b) = (r, (g, b'))" "belf_file b \<noteq> p" "wf_fs f" "apart p (belf_ostrm b) f"
  shows "beside p f g \<and> belf_file b' = belf_file b \<and> apart p (belf_ostrm b') g"
proof (cases "belf_opened b")
  case True
  with assms show ?thesis by (simp add: belf_lazyOpen_def prog_simps beside.step_refl)
next
  case False
  have rd: "beside p f h" if "sys_read (belf_file b) f = (r', h)" for r' h
    using that by (rule movesD [OF beside.moves_read_only(1)])
  have op: "beside p h k \<and> (\<forall>os. r' = Return os \<longrightarrow> apart p os k)"
    if "ofstream_open (belf_file b) h = (r', k)" "wf_fs h" for r' h k
  proof -
    have "beside p h k" using that(1) by (rule movesD [OF beside_open [OF assms(2)]])
    moreover from this that have "wf_fs k" by (simp add: beside_def)
    ultimately show ?thesis using that(1) assms(2) by (auto intro: apart_open)
  qed
  from assms(1) False obtain r' h where 1: "sys_read (belf_file b) f = (r', h)"
    and 2: "(g = h \<and> belf_ostrm b' = belf_ostrm b \<and> belf_file b' = belf_file b) \<or>
       (\<exists>r'' k. ofstream_open (belf_file b) h = (r'', k) \<and> g = k \<and> belf_file b' = belf_file b \<and>
         (case r'' of Return os \<Rightarrow> belf_ostrm b' = os | _ \<Rightarrow> belf_ostrm b' = belf_ostrm b))"
    unfolding belf_lazyOpen_def
    by (cases "sys_read (belf_file b) f"; cases b'; cases b)
      (auto simp: prog_simps seq_def attempt_def on_fst_def upd_snd_def
        split: prod.splits result.splits option.splits if_splits)
  from rd [OF 1] assms(3) have "wf_fs h" by (simp add: beside_def)
  with 2 rd [OF 1] op assms(4) show ?thesis
    by (fastforce intro: beside.step_trans apart_beside split: result.splits)
qed

lemma belf_get_beside:
  assumes "belf_get (f, b) = (r, (g, b'))" "belf_file b \<noteq> p" "wf_fs f" "apart p (belf_ostrm b) f"
  shows "beside p f g \<and> belf_file b' = belf_file b \<and> apart p (belf_ostrm b') g"
proof -
  from assms(1) obtain r' where "belf_lazyOpen (f, b) = (r', (g, b'))"
    unfolding belf_get_def by (auto simp: prog_simps elim!: seq_casesE)
  then show ?thesis using assms by (intro belf_lazyOpen_beside)
qed

lemma belf_set_beside:
  assumes "belf_set n (f, b) = (r, (g, b'))" "belf_file b \<noteq> p" "wf_fs f" "apart p (belf_ostrm b) f"
  shows "beside p f g \<and> belf_file b' = belf_file b \<and> apart p (belf_ostrm b') g"
  using assms(1) unfolding belf_set_def
proof (cases rule: seq_casesE)
  case (Return u t)
  obtain h b1 where t: "t = (h, b1)" by fastforce
  from belf_lazyOpen_beside [OF Return(1) [unfolded t] assms(2-)] have
    l: "beside p f h" "belf_file b1 = belf_file b" "apart p (belf_ostrm b1) h" by auto
  have sk: "os_ino (ofstream_seekp 0 os) = os_ino os" for os by (simp add: ofstream_seekp_def)
  have ap: "apart p (ofstream_seekp 0 (belf_ostrm b1)) h" using l(3) apart_ino [OF sk] by blast
  from Return(2) t obtain r' where w: "ofstream_write (ofstream_seekp 0 (belf_ostrm b1)) (setw0 19 (show_int n)) h = (r', g)"
    and b': "belf_file b' = belf_file b1" "belf_ostrm b' = (case r' of Return os \<Rightarrow> os | _ \<Rightarrow> belf_ostrm b1)"
    by (auto simp: prog_simps seq_def on_fst_def split: prod.splits result.splits)
  have "os_ino (belf_ostrm b') = os_ino (belf_ostrm b1)"
    using b'(2) ofstream_write_ino [of _ _ h _ g] w sk by (cases r') auto
  moreover have "beside p h g" using ap w by (rule beside_write)
  ultimately show ?thesis
    using l b'(1) by (metis apart_beside apart_ino beside.step_trans)
qed (use belf_lazyOpen_beside [OF _ assms(2-)] in auto)

section \<open>A file that no request disturbs\<close>

lemma reserved_empty: "reserved []"
  by (auto simp: reserved_def scratch_def log_path_def name_defs matchEditLog_def mk_EditLogFile_def
      split: option.splits)

lemma quiet_next_ino: "quiet f g \<Longrightarrow> next_ino f \<le> next_ino g"
  using reserved_empty by (auto simp: quiet_def same_name_def)

definition undisturbed :: "string \<Rightarrow> nat \<Rightarrow> string \<Rightarrow> journal \<Rightarrow> bool" where
  "undisturbed p i c s \<longleftrightarrow> protected p c \<and> holds_file p i c (jfs s) \<and>
     (\<forall>os. curSegment s = Some os \<longrightarrow> apart p os (jfs s)) \<and>
     (\<forall>b. committedTxnId s = Some b \<longrightarrow> belf_file b \<noteq> p \<and> apart p (belf_ostrm b) (jfs s)) \<and>
     (\<forall>q. lastWriterEpoch s = Some q \<longrightarrow> plf_file q \<noteq> p) \<and>
     (\<forall>q. lastPromisedEpoch s = Some q \<longrightarrow> plf_file q \<noteq> p)"

lemma undisturbed_fs:
  assumes "undisturbed p i c s" "holds_file p i c g" "next_ino (jfs s) \<le> next_ino g"
  shows "undisturbed p i c (s\<lparr>jfs := g\<rparr>)"
  using assms by (auto simp: undisturbed_def apart_def holds_file_def)

lemma undisturbed_beside:
  "undisturbed p i c s \<Longrightarrow> beside p (jfs s) g \<Longrightarrow> undisturbed p i c (s\<lparr>jfs := g\<rparr>)"
  by (rule undisturbed_fs) (auto simp: undisturbed_def beside_def same_name_def)

lemma undisturbed_wf: "undisturbed p i c s \<Longrightarrow> wf_fs (jfs s)"
  by (simp add: undisturbed_def holds_file_def)

lemma undisturbed_quiet:
  "undisturbed p i c s \<Longrightarrow> quiet (jfs s) g \<Longrightarrow> undisturbed p i c (s\<lparr>jfs := g\<rparr>)"
  by (rule undisturbed_fs) (auto simp: undisturbed_def quiet_def quiet_next_ino)

lemma undisturbed_cells:
  assumes u: "undisturbed p i c s" and b: "beside p (jfs s) f"
  shows "plf_file q \<noteq> p \<Longrightarrow> undisturbed p i c (s\<lparr>jfs := f, lastPromisedEpoch := Some q\<rparr>)"
    "plf_file q \<noteq> p \<Longrightarrow> undisturbed p i c (s\<lparr>jfs := f, lastWriterEpoch := Some q\<rparr>)"
    "belf_file l \<noteq> p \<Longrightarrow> apart p (belf_ostrm l) f \<Longrightarrow> undisturbed p i c (s\<lparr>jfs := f, committedTxnId := Some l\<rparr>)"
  using undisturbed_beside [OF u b] by (auto simp: undisturbed_def)

lemma undisturbed_promised:
  assumes u: "undisturbed p i c s"
    and m: "\<And>q r f q'. m (jfs s, q) = (r, (f, q')) \<Longrightarrow> plf_file q \<noteq> p \<Longrightarrow> wf_fs (jfs s) \<Longrightarrow>
      beside p (jfs s) f \<and> plf_file q' = plf_file q"
    and run: "on_promised m s = (r, t)"
  shows "undisturbed p i c t"
proof (cases "lastPromisedEpoch s")
  case (Some q)
  with run obtain f q' where "m (jfs s, q) = (r, (f, q'))" "t = s\<lparr>jfs := f, lastPromisedEpoch := Some q'\<rparr>"
    by (auto simp: on_promised_run)
  moreover have "plf_file q \<noteq> p" using u Some by (simp add: undisturbed_def)
  ultimately show ?thesis using m undisturbed_wf [OF u] undisturbed_cells(1) [OF u] by metis
qed (use run u in \<open>simp add: on_promised_run\<close>)

lemma undisturbed_writer:
  assumes u: "undisturbed p i c s"
    and m: "\<And>q r f q'. m (jfs s, q) = (r, (f, q')) \<Longrightarrow> plf_file q \<noteq> p \<Longrightarrow> wf_fs (jfs s) \<Longrightarrow>
      beside p (jfs s) f \<and> plf_file q' = plf_file q"
    and run: "on_writer m s = (r, t)"
  shows "undisturbed p i c t"
proof (cases "lastWriterEpoch s")
  case (Some q)
  with run obtain f q' where "m (jfs s, q) = (r, (f, q'))" "t = s\<lparr>jfs := f, lastWriterEpoch := Some q'\<rparr>"
    by (auto simp: on_writer_run)
  moreover have "plf_file q \<noteq> p" using u Some by (simp add: undisturbed_def)
  ultimately show ?thesis using m undisturbed_wf [OF u] undisturbed_cells(2) [OF u] by metis
qed (use run u in \<open>simp add: on_writer_run\<close>)

lemma undisturbed_committed:
  assumes u: "undisturbed p i c s"
    and m: "\<And>b r f b'. m (jfs s, b) = (r, (f, b')) \<Longrightarrow> belf_file b \<noteq> p \<Longrightarrow> wf_fs (jfs s) \<Longrightarrow>
      apart p (belf_ostrm b) (jfs s) \<Longrightarrow> beside p (jfs s) f \<and> belf_file b' = belf_file b \<and> apart p (belf_ostrm b') f"
    and run: "on_committed m s = (r, t)"
  shows "undisturbed p i c t"
proof (cases "committedTxnId s")
  case (Some b)
  with run obtain f b' where "m (jfs s, b) = (r, (f, b'))" "t = s\<lparr>jfs := f, committedTxnId := Some b'\<rparr>"
    by (auto simp: on_committed_run)
  moreover have "belf_file b \<noteq> p" "apart p (belf_ostrm b) (jfs s)" using u Some by (simp_all add: undisturbed_def)
  ultimately show ?thesis using m undisturbed_wf [OF u] undisturbed_cells(3) [OF u] by metis
qed (use run u in \<open>simp add: on_committed_run\<close>)

lemma undisturbed_memory:
  "undisturbed p i c (s\<lparr>currentEpochIpcSerial := n\<rparr>) = undisturbed p i c s"
  "undisturbed p i c (s\<lparr>currentInProgress := x\<rparr>) = undisturbed p i c s"
  "undisturbed p i c (s\<lparr>curSegmentTxId := a, nextTxId := b, highestWrittenTxId := h\<rparr>) = undisturbed p i c s"
  "undisturbed p i c s \<Longrightarrow> undisturbed p i c (s\<lparr>curSegment := None, curSegmentTxId := a\<rparr>)"
  by (simp_all add: undisturbed_def)

lemma undisturbed_write:
  assumes u: "undisturbed p i c s" and os: "curSegment s = Some os"
    and run: "os_writeRaw recs os (jfs s) = (r, g)"
  shows "undisturbed p i c (s\<lparr>jfs := g, curSegment := Some (case r of Return os' \<Rightarrow> os' | _ \<Rightarrow> os)\<rparr>)"
proof -
  have ap: "apart p os (jfs s)" using u os by (simp add: undisturbed_def)
  have run': "ofstream_write os recs (jfs s) = (r, g)" using run by (simp add: os_writeRaw_def)
  have b: "beside p (jfs s) g" using ap run' by (rule beside_write)
  have "os_ino (case r of Return os' \<Rightarrow> os' | _ \<Rightarrow> os) = os_ino os"
    using run' by (auto dest: ofstream_write_ino split: result.splits)
  then have "apart p (case r of Return os' \<Rightarrow> os' | _ \<Rightarrow> os) g"
    using apart_beside [OF ap b] apart_ino by blast
  with undisturbed_beside [OF u b] show ?thesis by (simp add: undisturbed_def)
qed

lemma undisturbed_opened:
  assumes u: "undisturbed p i c s" and q: "quiet (jfs s) g" and os: "stranger os g"
  shows "undisturbed p i c (s\<lparr>jfs := g, currentInProgress := n, curSegment := Some os\<rparr>)"
proof -
  from undisturbed_quiet [OF u q] have g: "undisturbed p i c (s\<lparr>jfs := g\<rparr>)" .
  then have "holds_file p i c g" "\<not> scratch p" by (simp_all add: undisturbed_def protected_def)
  with os have "apart p os g" by (auto simp: apart_def stranger_def holds_file_def)
  with g show ?thesis by (simp add: undisturbed_def)
qed

interpretation undisturbed: journal_order "\<lambda>s t. undisturbed p i c s \<longrightarrow> undisturbed p i c t" for p i c
proof
  fix s t :: journal and n l :: int and ri :: "int result" and ru :: "unit result"
  show "undisturbed p i c s \<longrightarrow> undisturbed p i c t" if "on_promised plf_get s = (ri, t)"
    using that undisturbed_promised [where m = plf_get] plf_get_beside plf_get_file by blast
  show "undisturbed p i c s \<longrightarrow> undisturbed p i c t" if "on_writer plf_get s = (ri, t)"
    using that undisturbed_writer [where m = plf_get] plf_get_beside plf_get_file by blast
  show "undisturbed p i c s \<longrightarrow> undisturbed p i c t" if "on_writer (plf_set n) s = (ru, t)"
    using that undisturbed_writer [where m = "plf_set n"] plf_set_beside plf_set_file by blast
  show "undisturbed p i c s \<longrightarrow> undisturbed p i c t" if "on_committed belf_get s = (ri, t)"
    using that undisturbed_committed [where m = belf_get] belf_get_beside by blast
  show "undisturbed p i c s \<longrightarrow> undisturbed p i c t" if "on_committed (belf_set n) s = (ru, t)"
    using that undisturbed_committed [where m = "belf_set n"] belf_set_beside by blast
  have set: "undisturbed p i c s \<longrightarrow> undisturbed p i c t" if "on_promised (plf_set n) s = (ru, t)" for ru t
    using that undisturbed_promised [where m = "plf_set n"] plf_set_beside plf_set_file by blast
  show "undisturbed p i c s \<longrightarrow> undisturbed p i c t" if "updateLastPromisedEpoch n s = (ru, t)"
    using that by (cases rule: updateLastPromisedEpochE) (use set undisturbed_memory(1) in blast)+
qed (simp_all add: undisturbed_memory undisturbed_quiet undisturbed_opened undisturbed_write)

end
