(* ===== verification/Journal_Fence.thy ===== *)
theory Journal_Fence
  imports Journal_Disk
begin

text \<open>
  The fence on disk. Where every system call either happens or does not (a process may die
  between any two), the file of the promise never holds a number below a promise that was
  made, so that a journal that is started again refuses the writers it refused before.
\<close>

section \<open>The file of the promise\<close>

fun atomic :: "fault \<Rightarrow> bool" where
  "atomic Fine = True"
| "atomic (Faulty n) = (n = 0)"
| "atomic (Fatal n) = (n = 0)"

definition fence_file :: "string \<Rightarrow> string" where
  "fence_file d = d @ ''/'' @ ''last-promised-epoch''"

text \<open>What the file says, to a process that has not read it yet, is not below \<open>v\<close>.\<close>

definition says_at_least :: "int \<Rightarrow> string option \<Rightarrow> bool" where
  "says_at_least v c \<longleftrightarrow> (case c of None \<Rightarrow> v \<le> 0 | Some c \<Rightarrow> (\<forall>w. plf_parse c = Some w \<longrightarrow> v \<le> w))"

definition fence_on_disk :: "string \<Rightarrow> int \<Rightarrow> fs \<Rightarrow> bool" where
  "fence_on_disk d v f \<longleftrightarrow> wf_fs f \<and> list_all atomic (faults f) \<and> long_range v \<and>
     says_at_least v (content f (fence_file d))"

definition fenced :: "string \<Rightarrow> int \<Rightarrow> journal \<Rightarrow> bool" where
  "fenced d v s \<longleftrightarrow> fence_on_disk d v (jfs s) \<and>
     (\<exists>q. lastPromisedEpoch s = Some q \<and> plf_file q = fence_file d \<and> plf_default q = 0 \<and>
        (plf_loaded q \<longrightarrow> v \<le> plf_value q)) \<and>
     (\<exists>q. lastWriterEpoch s = Some q \<and> plf_file q \<noteq> fence_file d) \<and>
     (\<exists>b. committedTxnId s = Some b \<and> belf_file b \<noteq> fence_file d \<and>
        apart (fence_file d) (belf_ostrm b) (jfs s)) \<and>
     (\<forall>os. curSegment s = Some os \<longrightarrow> apart (fence_file d) os (jfs s))"

lemma says_mono: "says_at_least v c \<Longrightarrow> w \<le> v \<Longrightarrow> says_at_least w c"
  by (auto simp: says_at_least_def split: option.splits)

lemma says_written: "long_range v \<Longrightarrow> v \<le> n \<Longrightarrow> says_at_least v (Some (show_int n @ [newline]))"
  by (auto simp: says_at_least_def plf_parse_any long_range_def LONG_MAX_def LONG_MIN_def)

lemma says_empty: "says_at_least v (Some [])"
  by (simp add: says_at_least_def)

subsection \<open>Its name\<close>

lemma list_all_last: "list_all P xs \<Longrightarrow> xs \<noteq> [] \<Longrightarrow> P (last xs)"
  by (simp add: list_all_iff)

lemma last_show_int: "is_digit (last (show_int i))"
  using list_all_show_nat [of "nat i"] list_all_show_nat [of "nat (- i)"] show_nat_nonempty
  by (simp add: show_int_def list_all_iff)

lemma last_setw0: "is_digit (last (setw0 w (show_int i)))"
  using last_show_int [of i] by (simp add: setw0_def)

lemma setw0_show_int_nonempty [simp]: "setw0 w (show_int i) \<noteq> []"
  by (simp add: setw0_def)

lemma last_scratch: "scratch p \<Longrightarrow> is_digit (last p) \<or> last p = CHR ''p'' \<or> last p = CHR ''y''"
  by (auto simp: scratch_def name_defs EDITS_INPROGRESS_def last_setw0 last_show_int)

lemma last_finalized: "is_digit (last (getFinalizedEditsFile d a b))"
  by (simp add: name_defs last_setw0)

lemma last_log_path: "log_path p \<Longrightarrow> is_digit (last p)"
proof -
  assume "log_path p"
  then obtain d n elf where m: "matchEditLog d n = Some elf" "p = fullFileName elf"
    by (auto simp: log_path_def)
  have fin: "is_digit (last n)" "n \<noteq> []" if "match_finalized n = Some (a, b)" for a b
  proof -
    let ?r = "dropWhile is_digit (drop 6 n)"
    from that have r: "drop 1 ?r \<noteq> []" "list_all is_digit (drop 1 ?r)"
      by (auto simp: match_finalized_def Let_def split: if_splits)
    then have "is_digit (last (drop 1 ?r))" by (metis list_all_last)
    moreover from r(1) have "last (drop 1 ?r) = last ?r" by (simp add: last_drop)
    moreover have "?r \<noteq> []" using r(1) by (metis drop_Nil)
    then have "last (takeWhile is_digit (drop 6 n) @ ?r) = last ?r" by (rule last_appendR)
    then have l: "last ?r = last (drop 6 n)" by simp
    have ne: "drop 6 n \<noteq> []"
    proof
      assume "drop 6 n = []"
      with \<open>?r \<noteq> []\<close> show False by simp
    qed
    from ne have "last (drop 6 n) = last n" "n \<noteq> []" by (auto simp: last_drop)
    ultimately show "is_digit (last n)" "n \<noteq> []" using l by simp_all
  qed
  have inp: "is_digit (last n)" "n \<noteq> []" if "match_inprogress n = Some a" for a
  proof -
    from that have "drop 17 n \<noteq> []" "list_all is_digit (drop 17 n)"
      by (auto simp: match_inprogress_def split: if_splits)
    then have "is_digit (last (drop 17 n))" by (metis list_all_last)
    with \<open>drop 17 n \<noteq> []\<close> show "is_digit (last n)" "n \<noteq> []" by (auto simp: last_drop)
  qed
  have "is_digit (last n) \<and> n \<noteq> [] \<and> p = d @ ''/'' @ n"
    using m fin inp by (auto simp: matchEditLog_def mk_EditLogFile_def split: option.splits)
  then show ?thesis by simp
qed

lemma last_fence_file: "last (fence_file d) = CHR ''h''"
  by (simp add: fence_file_def)

lemma not_digit_h: "\<not> is_digit CHR ''h''" by (simp add: is_digit_def code_def)

lemma reserved_fence_file: "reserved (fence_file d)"
proof -
  have "\<not> scratch (fence_file d)" "\<not> log_path (fence_file d)"
    using last_scratch [of "fence_file d"] last_log_path [of "fence_file d"]
    by (auto simp: last_fence_file not_digit_h)
  moreover have "fence_file d \<noteq> getFinalizedEditsFile d' a b" for d' a b
    using last_finalized [of d' a b] last_fence_file [of d] not_digit_h by metis
  ultimately show ?thesis by (simp add: reserved_def)
qed

lemma protected_fence_file: "protected (fence_file d) c"
  using reserved_fence_file [of d] by (simp add: protected_def reserved_def)

lemma quiet_beside_fence: "quiet f g \<Longrightarrow> beside (fence_file d) f g"
  using reserved_fence_file protected_fence_file by (auto simp: quiet_def beside_def)

section \<open>Writing it\<close>

lemma sys_open_trunc_outcome:
  assumes "sys_open_trunc p f = (r, g)"
  shows "(content g p = content f p \<and> ino g p = ino f p \<and> next_ino g = next_ino f \<and> (\<forall>i. r \<noteq> Return i)) \<or>
    (\<exists>i. r = Return i \<and> ino g p = Some i \<and> content g p = Some [] \<and> next_ino f \<le> next_ino g \<and>
      (ino f p = Some i \<or> i = next_ino f))"
proof -
  have cr: "ino k p = Some j \<and> content k p = Some [] \<and> next_ino h \<le> next_ino k \<and>
      (ino h p = Some j \<or> j = next_ino h)" if "creat p h = (j, k)" for h j k
    using content_creat [OF that] that by (auto simp: creat_def split: option.splits)
  have same: "content (h\<lparr>faults := k\<rparr>) p = content h p" "ino (h\<lparr>faults := k\<rparr>) p = ino h p" for h k
    by (simp_all add: content_def ino_def)
  show ?thesis
    using assms unfolding sys_open_trunc_def syscall_def no_effect_def
    by (auto split: list.splits fault.splits if_splits prod.splits simp: same dest!: cr)
qed

lemma ofstream_open_outcome:
  assumes "ofstream_open p f = (r, g)"
  obtains (failed) "content g p = content f p" "ino g p = ino f p" "next_ino g = next_ino f"
      "\<And>os. r = Return os \<Longrightarrow> os_ino os = None"
    | (opened) i where "r = Return \<lparr>os_ino = Some i, os_pos = 0, os_fail = False\<rparr>" "ino g p = Some i"
      "content g p = Some []" "next_ino f \<le> next_ino g" "ino f p = Some i \<or> i = next_ino f"
proof -
  obtain r' where "sys_open_trunc p f = (r', g)"
    and "r = (case r' of Return i \<Rightarrow> Return \<lparr>os_ino = Some i, os_pos = 0, os_fail = False\<rparr>
      | Error \<Rightarrow> Return \<lparr>os_ino = None, os_pos = 0, os_fail = True\<rparr> | Stop k \<Rightarrow> Stop k)"
    using assms unfolding ofstream_open_def
    by (auto simp: seq_def attempt_def ret_def split: prod.splits result.splits)
  with sys_open_trunc_outcome [of p f r' g] show ?thesis
    using that by (cases r') auto
qed

lemma write_atomic:
  assumes "list_all atomic (faults f)" "ino f p = Some i" "content f p = Some []"
    "ofstream_write \<lparr>os_ino = Some i, os_pos = 0, os_fail = False\<rparr> ys f = (r, g)"
  shows "content g p = Some [] \<or> content g p = Some ys"
proof -
  obtain r' where w: "sys_write i 0 ys f = (r', g)"
    using assms(4) by (auto simp: ofstream_write_def seq_def attempt_def ret_def split: prod.splits result.splits)
  have d: "data f i = []" using assms(2,3) by (simp add: content_def)
  show ?thesis
    using w assms(1,2) d unfolding sys_write_def syscall_def
    by (auto simp: content_def ino_def store_def split: list.splits fault.splits)
qed

lemma plf_writeFile_wf:
  assumes "plf_writeFile p n f = (r, g)"
  shows "wf_fs f \<Longrightarrow> wf_fs g" "list_all atomic (faults f) \<Longrightarrow> list_all atomic (faults g)"
proof -
  have "moves (\<lambda>f g. wf_fs f \<longrightarrow> wf_fs g) (plf_writeFile p n)"
    unfolding plf_writeFile_def
    by (intro kept.moves_rules wf.moves_ofstream_open wf.moves_ofstream_write wf_syscalls)
  with assms show "wf_fs f \<Longrightarrow> wf_fs g" by (blast dest: movesD)
  have "moves (\<lambda>f g. set (faults g) \<subseteq> set (faults f)) (plf_writeFile p n)"
    unfolding plf_writeFile_def
    by (intro spent.moves_rules spent.moves_ofstream_open spent.moves_ofstream_write spent_syscalls)
  with assms have "set (faults g) \<subseteq> set (faults f)" by (blast dest: movesD)
  then show "list_all atomic (faults f) \<Longrightarrow> list_all atomic (faults g)" by (auto simp: list_all_iff)
qed

lemma plf_writeFile_outcome:
  assumes run: "plf_writeFile p n f = (r, g)" and a: "list_all atomic (faults f)"
  shows "(content g p = content f p \<and> r \<noteq> Return ()) \<or> content g p = Some [] \<or>
      content g p = Some (show_int n @ [newline])"
    and "wf_fs f \<Longrightarrow> apart p os f \<Longrightarrow> apart p os g"
proof -
  have spent: "list_all atomic (faults h)" if "ofstream_open p f = (r', h)" for r' h
    using movesD [OF spent.moves_ofstream_open [OF spent_syscalls(1)] that] a by (auto simp: list_all_iff)
  have "((content g p = content f p \<and> r \<noteq> Return ()) \<or> content g p = Some [] \<or>
      content g p = Some (show_int n @ [newline])) \<and> (wf_fs f \<longrightarrow> apart p os f \<longrightarrow> apart p os g)"
    using run unfolding plf_writeFile_def
  proof (cases rule: seq_casesE)
    case (Return fos h)
    from Return(1) show ?thesis
    proof (cases rule: ofstream_open_outcome)
      case failed
      with Return(2) have "g = h" "r = Error" by (auto simp: prog_simps)
      with failed show ?thesis by (auto simp: apart_def)
    next
      case (opened i)
      with Return(2) obtain r' where w: "ofstream_write fos (show_int n @ [newline]) h = (r', g)"
        by (auto simp: prog_simps elim!: seq_casesE)
      from write_atomic [OF spent [OF Return(1)] opened(2,3)] opened(1) w
      have c: "content g p = Some [] \<or> content g p = Some (show_int n @ [newline])" by auto
      have "apart p os g" if "wf_fs f" "apart p os f"
        using that opened ofstream_write_dents [OF w]
        by (auto simp: apart_def ino_def)
      with c show ?thesis by blast
    qed
  next
    case Error
    then show ?thesis
      by (cases rule: ofstream_open_outcome) (auto simp: apart_def)
  next
    case (Stop k)
    from Stop(1) show ?thesis
      by (cases rule: ofstream_open_outcome) (use Stop in \<open>auto simp: apart_def\<close>)
  qed
  then show "(content g p = content f p \<and> r \<noteq> Return ()) \<or> content g p = Some [] \<or>
      content g p = Some (show_int n @ [newline])" "wf_fs f \<Longrightarrow> apart p os f \<Longrightarrow> apart p os g" by blast+
qed

lemma fence_written:
  assumes "fence_on_disk d v f" "v \<le> n" "plf_writeFile (fence_file d) n f = (r, g)"
  shows "fence_on_disk d v g" "r = Return () \<Longrightarrow> long_range n \<Longrightarrow> fence_on_disk d n g"
proof -
  have f: "wf_fs f" "list_all atomic (faults f)" "long_range v" "says_at_least v (content f (fence_file d))"
    using assms(1) by (simp_all add: fence_on_disk_def)
  note g = plf_writeFile_wf [OF assms(3)] plf_writeFile_outcome(1) [OF assms(3) f(2)]
  have "says_at_least v (content g (fence_file d))"
    using g(3) f says_written [OF f(3) assms(2)] says_empty by (elim disjE) simp_all
  with f g show "fence_on_disk d v g" by (simp add: fence_on_disk_def)
  show "fence_on_disk d n g" if "r = Return ()" "long_range n"
  proof -
    have "says_at_least n (content g (fence_file d))"
      using g(3) that says_written [OF that(2)] says_empty by (elim disjE) simp_all
    with f g that show ?thesis by (simp add: fence_on_disk_def)
  qed
qed

section \<open>Every request keeps the fence\<close>

lemma content_beside:
  assumes "beside p f g" "wf_fs f"
  shows "content g p = content f p"
proof (cases "ino f p")
  case None
  with assms(1) show ?thesis by (simp add: content_def beside_def same_name_def)
next
  case (Some i)
  with assms(2) have "holds_file p i (data f i) f" by (simp add: holds_file_def)
  moreover from this assms(1) have "holds_file p i (data f i) g" by (simp add: beside_def)
  ultimately show ?thesis by (simp add: holds_file_content)
qed

lemma fence_beside: "fence_on_disk d v f \<Longrightarrow> beside (fence_file d) f g \<Longrightarrow> fence_on_disk d v g"
  using content_beside [of "fence_file d" f g] by (auto simp: fence_on_disk_def beside_def list_all_iff)

lemma fenced_wf: "fenced d v s \<Longrightarrow> wf_fs (jfs s)"
  by (simp add: fenced_def fence_on_disk_def)

lemma fenced_beside:
  "fenced d v s \<Longrightarrow> beside (fence_file d) (jfs s) g \<Longrightarrow> fenced d v (s\<lparr>jfs := g\<rparr>)"
  by (auto simp: fenced_def intro: fence_beside apart_beside)

lemma fenced_quiet: "fenced d v s \<Longrightarrow> quiet (jfs s) g \<Longrightarrow> fenced d v (s\<lparr>jfs := g\<rparr>)"
  by (rule fenced_beside [OF _ quiet_beside_fence])

lemma fenced_memory:
  "fenced d v (s\<lparr>currentEpochIpcSerial := n\<rparr>) = fenced d v s"
  "fenced d v (s\<lparr>currentInProgress := x\<rparr>) = fenced d v s"
  "fenced d v (s\<lparr>curSegmentTxId := a, nextTxId := b, highestWrittenTxId := h\<rparr>) = fenced d v s"
  "fenced d v s \<Longrightarrow> fenced d v (s\<lparr>curSegment := None, curSegmentTxId := a\<rparr>)"
  by (simp_all add: fenced_def)

lemma fenced_write:
  assumes u: "fenced d v s" and os: "curSegment s = Some os"
    and run: "os_writeRaw recs os (jfs s) = (r, g)"
  shows "fenced d v (s\<lparr>jfs := g, curSegment := Some (case r of Return os' \<Rightarrow> os' | _ \<Rightarrow> os)\<rparr>)"
proof -
  have ap: "apart (fence_file d) os (jfs s)" using u os by (simp add: fenced_def)
  have run': "ofstream_write os recs (jfs s) = (r, g)" using run by (simp add: os_writeRaw_def)
  have b: "beside (fence_file d) (jfs s) g" using ap run' by (rule beside_write)
  have "os_ino (case r of Return os' \<Rightarrow> os' | _ \<Rightarrow> os) = os_ino os"
    using run' by (auto dest: ofstream_write_ino split: result.splits)
  then have "apart (fence_file d) (case r of Return os' \<Rightarrow> os' | _ \<Rightarrow> os) g"
    using apart_beside [OF ap b] apart_ino by blast
  with fenced_beside [OF u b] show ?thesis by (simp add: fenced_def)
qed

lemma fenced_opened:
  assumes u: "fenced d v s" and q: "quiet (jfs s) g" and os: "stranger os g"
  shows "fenced d v (s\<lparr>jfs := g, currentInProgress := n, curSegment := Some os\<rparr>)"
proof -
  from fenced_quiet [OF u q] have g: "fenced d v (s\<lparr>jfs := g\<rparr>)" .
  then have "wf_fs g" by (auto dest: fenced_wf)
  with os have "apart (fence_file d) os g"
    using protected_fence_file [of d] by (auto simp: apart_def stranger_def protected_def)
  with g show ?thesis by (simp add: fenced_def)
qed

lemma plf_readFile_says:
  assumes "plf_readFile p 0 f = (Return w, g)" "says_at_least v (content f p)" "wf_fs f"
  shows "v \<le> w"
proof -
  from assms(1) obtain b h where ex: "file_exists p f = (Return b, h)"
    and tl: "(if \<not> b then ret 0 else seq (sys_read p) (\<lambda>c. case plf_parse c of None \<Rightarrow> err | Some v \<Rightarrow> ret v)) h
      = (Return w, g)"
    unfolding plf_readFile_def by (elim seq_ReturnE) blast
  have fh: "beside p f h" using beside.moves_exists(1) ex by (rule movesD)
  then have h: "wf_fs h" "content h p = content f p" using assms(3) content_beside by (auto simp: beside_def)
  show ?thesis
  proof (cases b)
    case False
    with file_exists_Return [OF ex] have "content h p = None" by (simp add: is_file_def content_def)
    with False tl assms(2) h show ?thesis by (simp add: prog_simps says_at_least_def)
  next
    case True
    with tl obtain c k where rd: "sys_read p h = (Return c, k)"
      and "(case plf_parse c of None \<Rightarrow> err | Some v \<Rightarrow> ret v) k = (Return w, g)"
      by (auto elim!: seq_ReturnE)
    then have "plf_parse c = Some w" by (auto simp: prog_simps split: option.splits)
    moreover have "content h p = Some c"
      using sys_read_Return [OF rd] movesD [OF beside.moves_read_only(1) rd] h content_beside by metis
    ultimately show ?thesis using assms(2) h by (simp add: says_at_least_def)
  qed
qed

lemma fenced_read:
  assumes u: "fenced d v s" and run: "on_promised plf_get s = (r, t)"
  shows "fenced d v t" "r = Return w \<Longrightarrow> v \<le> w"
proof -
  from u obtain q where q: "lastPromisedEpoch s = Some q" "plf_file q = fence_file d" "plf_default q = 0"
      "plf_loaded q \<longrightarrow> v \<le> plf_value q" by (auto simp: fenced_def)
  with run obtain f q' where get: "plf_get (jfs s, q) = (r, (f, q'))"
    and t: "t = s\<lparr>jfs := f, lastPromisedEpoch := Some q'\<rparr>" by (auto simp: on_promised_run)
  have says: "says_at_least v (content (jfs s) (fence_file d))" using u by (simp add: fenced_def fence_on_disk_def)
  have "(plf_loaded q' \<longrightarrow> v \<le> plf_value q') \<and> (\<forall>w. r = Return w \<longrightarrow> v \<le> w)"
    using get
  proof (cases rule: plf_getE)
    case (read w)
    have "v \<le> w" using read(2) q plf_readFile_says [OF _ says fenced_wf [OF u]] by simp
    with read show ?thesis by simp
  qed (use q in auto)
  moreover have "fenced d v (s\<lparr>jfs := f\<rparr>)" using u plf_get_beside [OF get] by (rule fenced_beside)
  ultimately show "fenced d v t" "r = Return w \<Longrightarrow> v \<le> w"
    using plf_get_file [OF get] q t by (auto simp: fenced_def)
qed

lemma fenced_raise:
  assumes u: "fenced d v s" and l: "promise_val s = Some l" "l < n"
    and run: "updateLastPromisedEpoch n s = (r, t)"
  shows "fenced d v t" "r = Return () \<Longrightarrow> long_range n \<Longrightarrow> fenced d n t"
proof -
  from u obtain q where q: "lastPromisedEpoch s = Some q" "plf_file q = fence_file d" "plf_default q = 0"
      "plf_loaded q \<longrightarrow> v \<le> plf_value q" by (auto simp: fenced_def)
  with l have vn: "v \<le> n" "plf_value q \<noteq> n" by (auto simp: promise_val_def plf_val_def split: if_splits)
  obtain u' where set: "on_promised (plf_set n) s = (r, u')"
      and t: "t = (if r = Return () then u'\<lparr>currentEpochIpcSerial := 0\<rparr> else u')"
    using run by (cases rule: updateLastPromisedEpochE) auto
  then obtain f q' where w: "plf_set n (jfs s, q) = (r, (f, q'))"
    and u': "u' = s\<lparr>jfs := f, lastPromisedEpoch := Some q'\<rparr>" using q by (auto simp: on_promised_run)
  have disk: "fence_on_disk d v (jfs s)" using u by (simp add: fenced_def)
  have wr: "plf_writeFile (fence_file d) n (jfs s) = (r, f)" "plf_file q' = fence_file d" "plf_default q' = 0"
    "if r = Return () then plf_value q' = n else q' = q"
    using w vn(2) q by (auto elim!: plf_setE)
  have ap: "apart (fence_file d) os f" if "apart (fence_file d) os (jfs s)" for os
    using plf_writeFile_outcome(2) [OF wr(1)] disk that by (simp add: fence_on_disk_def)
  have "fenced d v u'"
    using fence_written(1) [OF disk vn(1) wr(1)] wr(2-4) u q vn(1) ap u'
    by (auto simp: fenced_def split: if_splits)
  with t show "fenced d v t" by (simp add: fenced_memory)
  show "fenced d n t" if r: "r = Return ()" "long_range n"
  proof -
    have "fenced d n u'"
      using fence_written(2) [OF disk vn(1) wr(1) r] wr(2-4) u r ap u'
      by (auto simp: fenced_def)
    with t r show ?thesis by (simp add: fenced_memory)
  qed
qed

lemma fenced_cells:
  assumes u: "fenced d v s" and b: "beside (fence_file d) (jfs s) f"
  shows "plf_file q \<noteq> fence_file d \<Longrightarrow> fenced d v (s\<lparr>jfs := f, lastWriterEpoch := Some q\<rparr>)"
    "belf_file l \<noteq> fence_file d \<Longrightarrow> apart (fence_file d) (belf_ostrm l) f \<Longrightarrow>
       fenced d v (s\<lparr>jfs := f, committedTxnId := Some l\<rparr>)"
  using fenced_beside [OF u b] by (auto simp: fenced_def)

lemma fenced_writer:
  assumes u: "fenced d v s"
    and m: "\<And>q r f q'. m (jfs s, q) = (r, (f, q')) \<Longrightarrow> plf_file q \<noteq> fence_file d \<Longrightarrow> wf_fs (jfs s) \<Longrightarrow>
      beside (fence_file d) (jfs s) f \<and> plf_file q' = plf_file q"
    and run: "on_writer m s = (r, t)"
  shows "fenced d v t"
proof -
  from u obtain q where q: "lastWriterEpoch s = Some q" "plf_file q \<noteq> fence_file d" by (auto simp: fenced_def)
  with run obtain f q' where "m (jfs s, q) = (r, (f, q'))" "t = s\<lparr>jfs := f, lastWriterEpoch := Some q'\<rparr>"
    by (auto simp: on_writer_run)
  then show ?thesis using m q fenced_wf [OF u] fenced_cells(1) [OF u] by metis
qed

lemma fenced_committed:
  assumes u: "fenced d v s"
    and m: "\<And>b r f b'. m (jfs s, b) = (r, (f, b')) \<Longrightarrow> belf_file b \<noteq> fence_file d \<Longrightarrow> wf_fs (jfs s) \<Longrightarrow>
      apart (fence_file d) (belf_ostrm b) (jfs s) \<Longrightarrow>
      beside (fence_file d) (jfs s) f \<and> belf_file b' = belf_file b \<and> apart (fence_file d) (belf_ostrm b') f"
    and run: "on_committed m s = (r, t)"
  shows "fenced d v t"
proof -
  from u obtain b where b: "committedTxnId s = Some b" "belf_file b \<noteq> fence_file d"
      "apart (fence_file d) (belf_ostrm b) (jfs s)" by (auto simp: fenced_def)
  with run obtain f b' where "m (jfs s, b) = (r, (f, b'))" "t = s\<lparr>jfs := f, committedTxnId := Some b'\<rparr>"
    by (auto simp: on_committed_run)
  then show ?thesis using m b fenced_wf [OF u] fenced_cells(2) [OF u] by metis
qed

interpretation fenced: journal_order "\<lambda>s t. fenced d v s \<longrightarrow> fenced d v t" for d v
proof
  fix s t :: journal and n l :: int and ri :: "int result" and ru :: "unit result"
  show "fenced d v s \<longrightarrow> fenced d v t" if "on_promised plf_get s = (ri, t)"
    using that fenced_read(1) by blast
  show "fenced d v s \<longrightarrow> fenced d v t" if "on_writer plf_get s = (ri, t)"
    using that fenced_writer [where m = plf_get] plf_get_beside plf_get_file by blast
  show "fenced d v s \<longrightarrow> fenced d v t" if "on_writer (plf_set n) s = (ru, t)"
    using that fenced_writer [where m = "plf_set n"] plf_set_beside plf_set_file by blast
  show "fenced d v s \<longrightarrow> fenced d v t" if "on_committed belf_get s = (ri, t)"
    using that fenced_committed [where m = belf_get] belf_get_beside by blast
  show "fenced d v s \<longrightarrow> fenced d v t" if "on_committed (belf_set n) s = (ru, t)"
    using that fenced_committed [where m = "belf_set n"] belf_set_beside by blast
  show "fenced d v s \<longrightarrow> fenced d v t"
    if "promise_val s = Some l" "l < n" "updateLastPromisedEpoch n s = (ru, t)"
    using that fenced_raise(1) by blast
qed (simp_all add: fenced_memory fenced_quiet fenced_opened fenced_write)

end
