(* ===== verification/Journal_Life.thy ===== *)
theory Journal_Life
  imports Journal_Fence
begin

text \<open>
  The life of a journal: requests, and the process killed at any system call and started
  again on the files that are left. The invariants of the requests are invariants of this
  step relation too; the facts about its reachable states are by rule induction.
\<close>

section \<open>Starting on the files of a directory\<close>

lemma spent_open_fd: "moves (\<lambda>f g. set (faults g) \<subseteq> set (faults f)) (sys_open_fd p)"
  unfolding sys_open_fd_def
  by (rule spent.moves_syscall) (auto simp: Let_def faults_creat no_effect_def)

lemma beside_open_fd: "q \<noteq> p \<Longrightarrow> moves (beside p) (sys_open_fd q)"
  by (intro besideI wf_syscalls spent_open_fd named_syscalls held_syscalls)

lemma beside_lockfile: "q \<noteq> p \<Longrightarrow> moves (beside p) (try_to_acquire_lockfile q)"
  by (intro beside.moves_lockfile beside_open_fd)
    (auto simp: beside_def holds_file_def wf_fs_def same_name_def ino_def)

definition sto :: "string \<Rightarrow> fs \<times> jnstorage \<Rightarrow> fs \<times> jnstorage \<Rightarrow> bool" where
  "sto p s t \<longleftrightarrow> beside p (fst s) (fst t) \<and> st_currentDir (snd t) = st_currentDir (snd s) \<and>
     st_logDir (snd t) = st_logDir (snd s)"

interpretation sto: step_order "sto p" for p
  by unfold_locales (auto simp: sto_def intro: beside.step_refl beside.step_trans)

lemma sto_on_fst: "moves (beside p) m \<Longrightarrow> moves (sto p) (on_fst m)"
  by (auto simp: moves_def sto_def on_fst_def split: prod.splits) (metis snd_conv)

lemma sto_upd: "(\<And>st. st_currentDir (g st) = st_currentDir st \<and> st_logDir (g st) = st_logDir st) \<Longrightarrow>
    moves (sto p) (upd_snd g)"
  by (simp add: moves_def sto_def upd_snd_def beside.step_refl)

lemma parse_properties_dirs:
  "parse_properties get st = Some st' \<Longrightarrow> st_currentDir st' = st_currentDir st \<and> st_logDir st' = st_logDir st"
  by (auto simp: parse_properties_def Let_def split: if_splits)

lemma sto_readProperties: "moves (sto p) (readProperties e q)"
proof -
  have props: "moves (sto p) (seq (gets snd) (\<lambda>st. case parse_properties h st of None \<Rightarrow> err | Some st' \<Rightarrow> upd_snd (\<lambda>_. st')))" for h
    by (rule movesI)
      (auto simp: prog_simps sto_def beside.step_refl split: option.splits dest: parse_properties_dirs)
  show ?thesis
    unfolding readProperties_def by (intro props sto.moves_seq sto_on_fst beside.moves_read_only)
qed

lemma sto_mk_JNStorage: "last p \<noteq> CHR ''k'' \<Longrightarrow> moves (sto p) (mk_JNStorage e)"
proof -
  assume p: "last p \<noteq> CHR ''k''"
  have "getLockFile st \<noteq> p" for st using p by (auto simp: getLockFile_def)
  then have "moves (sto p) analyzeStorageDirectory"
    unfolding analyzeStorageDirectory_def
    by (intro sto.moves_rules sto_on_fst beside.moves_exists beside_lockfile sto_upd) auto
  then show ?thesis
    unfolding mk_JNStorage_def analyzeStorage_def
    by (intro sto.moves_rules sto_readProperties sto_upd) auto
qed

text \<open>The directory of the journal.\<close>

definition lives :: "string \<Rightarrow> journal \<Rightarrow> bool" where
  "lives dir s \<longleftrightarrow> st_logDir (storage s) = dir \<and> currentDir s = dir @ ''/current''"

text \<open>A journal that has just started: what it has is what it found on disk.\<close>

lemma mk_JournalE:
  assumes "mk_Journal e (new_journal f dir) = (Return (), s)" "j_initialized s"
  obtains g st scanned latest where "mk_JNStorage e (f, new_storage dir) = (Return (), (g, st))"
    "attempt scanStorageForLatestEdits
       (snd (refreshCachedData ((new_journal f dir)\<lparr>jfs := g, storage := st\<rparr>))) = (Return (Some latest), scanned)"
    "s = (if isInitialized latest then scanned\<lparr>highestWrittenTxId := lastTxId latest\<rparr> else scanned)\<lparr>j_initialized := True\<rparr>"
proof -
  let ?j = "new_journal f dir"
  from assms(1) obtain j1 where 1: "on_storage (mk_JNStorage e) ?j = (Return (), j1)"
    and 2: "seq (gets storage) (\<lambda>st. if \<not> st_initialized st then ret ()
     else seq refreshCachedData (\<lambda>_. seq (attempt scanStorageForLatestEdits) (\<lambda>r.
       case r of None \<Rightarrow> ret ()
       | Some latest \<Rightarrow> modify (\<lambda>j. (if isInitialized latest
             then j\<lparr>highestWrittenTxId := lastTxId latest\<rparr> else j)\<lparr>j_initialized := True\<rparr>)))) j1 = (Return (), s)"
    unfolding mk_Journal_def by (rule seq_ReturnE) auto
  from 1 obtain g st where st: "mk_JNStorage e (f, new_storage dir) = (Return (), (g, st))"
      "j1 = ?j\<lparr>jfs := g, storage := st\<rparr>"
    by (auto simp: on_storage_run new_journal_def)
  have ini: "\<not> j_initialized j1" using st(2) by (simp add: new_journal_def)
  have "st_initialized (storage j1)"
  proof (rule ccontr)
    assume "\<not> st_initialized (storage j1)"
    with 2 ini assms(2) show False by (simp add: prog_simps)
  qed
  with 2 obtain r u where scan: "attempt scanStorageForLatestEdits (snd (refreshCachedData j1)) = (Return r, u)"
    and tl: "(case r of None \<Rightarrow> ret () | Some latest \<Rightarrow> modify (\<lambda>j. (if isInitialized latest
             then j\<lparr>highestWrittenTxId := lastTxId latest\<rparr> else j)\<lparr>j_initialized := True\<rparr>)) u = (Return (), s)"
    by (auto simp: prog_simps refreshCachedData_def elim!: seq_ReturnE)
  have keep: "j_initialized u = j_initialized j1"
  proof -
    have "moves (\<lambda>s t. j_initialized t = j_initialized s) (attempt scanStorageForLatestEdits)"
      unfolding scanStorageForLatestEdits_def
      by (intro frame.moves_rules) (auto simp: moves_def on_fs_def split: prod.splits)
    from movesD [OF this scan] show ?thesis by (simp add: refreshCachedData_def modify_def)
  qed
  show ?thesis
  proof (cases r)
    case None
    with tl keep ini assms(2) show ?thesis by (simp add: prog_simps)
  next
    case (Some latest)
    with that [OF st(1)] scan tl st(2) show ?thesis by (simp add: prog_simps)
  qed
qed

lemma started:
  assumes "mk_JNStorage e (f, new_storage dir) = (r, (g, st))" "last p \<noteq> CHR ''k''"
  shows "beside p f g" "st_currentDir st = dir @ ''/current''" "st_logDir st = dir"
  using movesD [OF sto_mk_JNStorage [OF assms(2)] assms(1)] by (simp_all add: sto_def new_storage_def)

text \<open>What \<open>mk_Journal\<close> leaves is after the refreshed object, in every order of the requests.\<close>

lemma attempt_moves: "moves R m \<Longrightarrow> attempt m s = (r, t) \<Longrightarrow> R s t"
  by (auto simp: attempt_def dest: movesD split: prod.splits result.splits)

lemma start_lives:
  assumes "mk_Journal e (new_journal f dir) = (Return (), s)" "j_initialized s"
  shows "lives dir s"
  using assms
proof (cases rule: mk_JournalE)
  case (1 g st scanned latest)
  from attempt_moves [OF stored.moves_scanStorage 1(2)] have "storage scanned = st"
    by (simp add: refreshCachedData_def modify_def)
  with 1(3) started [OF 1(1), of "''x''"] show ?thesis by (simp add: lives_def currentDir_def)
qed

lemma start_fenced:
  assumes "mk_Journal e (new_journal f dir) = (Return (), s)" "j_initialized s"
    and "fence_on_disk (dir @ ''/current'') v f"
  shows "fenced (dir @ ''/current'') v s"
  using assms(1,2)
proof (cases rule: mk_JournalE)
  case (1 g st scanned latest)
  let ?d = "dir @ ''/current''"
  have k: "last (fence_file ?d) \<noteq> CHR ''k''" by (simp add: last_fence_file)
  note st = started [OF 1(1) k]
  have "fence_on_disk ?d v g" by (rule fence_beside [OF assms(3) st(1)])
  moreover have "?d @ ''/'' @ ''last-writer-epoch'' \<noteq> fence_file ?d" "?d @ ''/'' @ ''committed-txid'' \<noteq> fence_file ?d"
    by (simp_all add: fence_file_def)
  moreover have "?d @ ''/'' @ ''last-promised-epoch'' = fence_file ?d" by (simp add: fence_file_def)
  ultimately have "fenced ?d v (snd (refreshCachedData ((new_journal f dir)\<lparr>jfs := g, storage := st\<rparr>)))"
    using st(2) by (simp only: fenced_def refreshCachedData_def modify_def new_journal_def currentDir_def
        mk_plf_def mk_belf_def closed_stream_def apart_def journal.simps plf.simps belf.simps ofstream.simps
        snd_conv simp_thms option.simps ex_simps)
  with attempt_moves [OF fenced.moves_scanStorage 1(2)] have "fenced ?d v scanned" by blast
  with 1(3) show ?thesis by (simp add: fenced_def)
qed

lemma start_undisturbed:
  assumes "mk_Journal e (new_journal f dir) = (Return (), s)" "j_initialized s"
    and p: "protected p c" "is_digit (last p)" "holds_file p i c f"
  shows "undisturbed p i c s"
  using assms(1,2)
proof (cases rule: mk_JournalE)
  case (1 g st scanned latest)
  have ends: "x \<noteq> p" if "last x = CHR ''h'' \<or> last x = CHR ''d'' \<or> last x = CHR ''k''" for x
    using that p(2) by (auto simp: is_digit_def code_def)
  have k: "last p \<noteq> CHR ''k''" using p(2) by (auto simp: is_digit_def code_def)
  note st = started [OF 1(1) k]
  have "holds_file p i c g" using p(3) st(1) by (simp add: beside_def)
  then have "undisturbed p i c (snd (refreshCachedData ((new_journal f dir)\<lparr>jfs := g, storage := st\<rparr>)))"
    using p ends by (simp add: undisturbed_def refreshCachedData_def modify_def new_journal_def
        mk_plf_def mk_belf_def closed_stream_def apart_def)
  with attempt_moves [OF undisturbed.moves_scanStorage 1(2)] have "undisturbed p i c scanned" by blast
  with 1(3) show ?thesis by (simp add: undisturbed_def)
qed

section \<open>Steps\<close>

text \<open>
  \<open>served\<close>: a request that returns. \<open>restarted\<close>: the process ends, between requests or inside
  of one, and the journal is built again, with descriptors closed and a new script of faults.
  \<open>ok\<close> says which faults there are.
\<close>

inductive step :: "env \<Rightarrow> (fault \<Rightarrow> bool) \<Rightarrow> journal \<Rightarrow> journal \<Rightarrow> bool" for e ok where
  served: "run_call e c s = (r, t) \<Longrightarrow> \<forall>k. r \<noteq> Stop k \<Longrightarrow> step e ok s t"
| restarted: "t = s \<or> (\<exists>c k. run_call e c s = (Stop k, t)) \<Longrightarrow> list_all ok fl \<Longrightarrow>
    mk_Journal e (new_journal ((jfs t)\<lparr>faults := fl, fds := []\<rparr>) (st_logDir (storage t))) = (Return (), u) \<Longrightarrow>
    j_initialized u \<Longrightarrow> step e ok s u"

inductive_cases stepE: "step e ok s t"

definition life :: "env \<Rightarrow> (fault \<Rightarrow> bool) \<Rightarrow> journal \<Rightarrow> journal \<Rightarrow> bool" where
  "life e ok = (step e ok)\<^sup>*\<^sup>*"

definition starts :: "env \<Rightarrow> fs \<Rightarrow> string \<Rightarrow> journal \<Rightarrow> bool" where
  "starts e f dir s \<longleftrightarrow> mk_Journal e (new_journal f dir) = (Return (), s) \<and> j_initialized s"

text \<open>An order of the requests that survives the end of the process is an invariant of life.\<close>

lemma life_induct:
  assumes "life e ok s t" "Q s" "\<And>s t. step e ok s t \<Longrightarrow> Q s \<Longrightarrow> Q t"
  shows "Q t"
  using assms(1) unfolding life_def by (induction rule: rtranclp_induct) (auto intro: assms)

lemma call_lives: "run_call e c s = (r, t) \<Longrightarrow> lives dir s \<Longrightarrow> lives dir t"
  using stored.run_call_order [of e c s r t] by (simp add: lives_def currentDir_def)

lemma step_guarded:
  assumes "step e atomic s t" "lives dir s" "fenced (dir @ ''/current'') v s"
  shows "lives dir t \<and> fenced (dir @ ''/current'') v t"
  using assms(1)
proof (cases rule: step.cases)
  case (served c r)
  with assms call_lives fenced.run_call_order show ?thesis by blast
next
  case (restarted w fl)
  have w: "lives dir w \<and> fenced (dir @ ''/current'') v w"
    using restarted(1) assms call_lives fenced.run_call_order by blast
  then have "fence_on_disk (dir @ ''/current'') v ((jfs w)\<lparr>faults := fl, fds := []\<rparr>)"
    using restarted(2) by (auto simp: fenced_def fence_on_disk_def wf_fs_def content_def ino_def)
  with restarted w show ?thesis using start_lives start_fenced by (auto simp: lives_def)
qed

lemma life_guarded:
  "life e atomic s t \<Longrightarrow> lives dir s \<Longrightarrow> fenced (dir @ ''/current'') v s \<Longrightarrow>
     lives dir t \<and> fenced (dir @ ''/current'') v t"
  by (rule life_induct [where Q = "\<lambda>t. lives dir t \<and> fenced (dir @ ''/current'') v t"])
    (auto dest: step_guarded)

lemma step_undisturbed:
  assumes "step e ok s t" "undisturbed p i c s" "is_digit (last p)"
  shows "undisturbed p i c t"
  using assms(1)
proof (cases rule: step.cases)
  case (served c r)
  with assms undisturbed.run_call_order show ?thesis by blast
next
  case (restarted w fl)
  have w: "undisturbed p i c w" using restarted(1) assms undisturbed.run_call_order by blast
  then have "protected p c" "holds_file p i c ((jfs w)\<lparr>faults := fl, fds := []\<rparr>)"
    by (simp_all add: undisturbed_def holds_file_def wf_fs_def ino_def)
  with restarted assms(3) show ?thesis by (auto intro: start_undisturbed)
qed

lemma life_undisturbed:
  "life e ok s t \<Longrightarrow> undisturbed p i c s \<Longrightarrow> is_digit (last p) \<Longrightarrow> undisturbed p i c t"
  by (erule life_induct) (auto intro: step_undisturbed)

end
