(* ===== verification/Journal_Cells.thy ===== *)
theory Journal_Cells
  imports Journal_Life
begin

text \<open>
  Housekeeping: the three cells of a journal keep their files in its directory, and the
  stream of the committed transaction id writes to the file of that name and to no other.
  This is an invariant of every life of a journal, under all faults.
\<close>

definition cells :: "string \<Rightarrow> journal \<Rightarrow> bool" where
  "cells d s \<longleftrightarrow> wf_fs (jfs s) \<and>
     (\<exists>q. lastPromisedEpoch s = Some q \<and> plf_file q = d @ ''/'' @ ''last-promised-epoch'') \<and>
     (\<exists>q. lastWriterEpoch s = Some q \<and> plf_file q = d @ ''/'' @ ''last-writer-epoch'') \<and>
     (\<exists>b. committedTxnId s = Some b \<and> belf_file b = d @ ''/'' @ ''committed-txid'' \<and>
        (\<forall>i. os_ino (belf_ostrm b) = Some i \<longrightarrow> ino (jfs s) (d @ ''/'' @ ''committed-txid'') = Some i))"

abbreviation committed_file :: "string \<Rightarrow> string" where
  "committed_file d \<equiv> d @ ''/'' @ ''committed-txid''"

lemma reserved_end: "\<not> is_digit (last p) \<Longrightarrow> last p \<noteq> CHR ''p'' \<Longrightarrow> last p \<noteq> CHR ''y'' \<Longrightarrow> reserved p"
  using last_scratch last_log_path last_finalized unfolding reserved_def by metis

lemma reserved_committed_file: "reserved (committed_file d)"
  by (rule reserved_end) (simp_all add: is_digit_def code_def)

lemma quiet_committed: "quiet f g \<Longrightarrow> ino g (committed_file d) = ino f (committed_file d)"
  using reserved_committed_file [of d] unfolding quiet_def same_name_def by blast

lemma cells_memory:
  "cells d (s\<lparr>currentEpochIpcSerial := n\<rparr>) = cells d s"
  "cells d (s\<lparr>currentInProgress := x\<rparr>) = cells d s"
  "cells d (s\<lparr>curSegmentTxId := a, nextTxId := b, highestWrittenTxId := h\<rparr>) = cells d s"
  "cells d (s\<lparr>curSegment := os, curSegmentTxId := a\<rparr>) = cells d s"
  "cells d (s\<lparr>jfs := g, curSegment := os\<rparr>) = cells d (s\<lparr>jfs := g\<rparr>)"
  "cells d (s\<lparr>jfs := g, currentInProgress := x, curSegment := os\<rparr>) = cells d (s\<lparr>jfs := g\<rparr>)"
  by (simp_all add: cells_def)

lemma cells_fs:
  "cells d s \<Longrightarrow> wf_fs g \<Longrightarrow> ino g (committed_file d) = ino (jfs s) (committed_file d) \<Longrightarrow> cells d (s\<lparr>jfs := g\<rparr>)"
  by (auto simp: cells_def)

lemma cells_quiet: "cells d s \<Longrightarrow> quiet (jfs s) g \<Longrightarrow> cells d (s\<lparr>jfs := g\<rparr>)"
  by (intro cells_fs quiet_committed) (auto simp: cells_def quiet_def)

lemma cells_beside: "cells d s \<Longrightarrow> beside (committed_file d) (jfs s) g \<Longrightarrow> cells d (s\<lparr>jfs := g\<rparr>)"
  by (intro cells_fs) (auto simp: cells_def beside_def same_name_def)

lemma cells_promised:
  assumes u: "cells d s"
    and m: "\<And>q r f q'. m (jfs s, q) = (r, (f, q')) \<Longrightarrow> plf_file q \<noteq> committed_file d \<Longrightarrow> wf_fs (jfs s) \<Longrightarrow>
      beside (committed_file d) (jfs s) f \<and> plf_file q' = plf_file q"
    and run: "on_promised m s = (r, t)"
  shows "cells d t"
proof -
  from u obtain q where q: "lastPromisedEpoch s = Some q" "plf_file q = d @ ''/'' @ ''last-promised-epoch''"
    by (auto simp: cells_def)
  with run obtain f q' where f: "m (jfs s, q) = (r, (f, q'))" "t = s\<lparr>jfs := f, lastPromisedEpoch := Some q'\<rparr>"
    by (auto simp: on_promised_run)
  have b: "beside (committed_file d) (jfs s) f" "plf_file q' = plf_file q"
    using m [OF f(1)] q u by (simp_all add: cells_def)
  from cells_beside [OF u b(1)] b(2) f(2) q show ?thesis by (simp add: cells_def)
qed

lemma cells_writer:
  assumes u: "cells d s"
    and m: "\<And>q r f q'. m (jfs s, q) = (r, (f, q')) \<Longrightarrow> plf_file q \<noteq> committed_file d \<Longrightarrow> wf_fs (jfs s) \<Longrightarrow>
      beside (committed_file d) (jfs s) f \<and> plf_file q' = plf_file q"
    and run: "on_writer m s = (r, t)"
  shows "cells d t"
proof -
  from u obtain q where q: "lastWriterEpoch s = Some q" "plf_file q = d @ ''/'' @ ''last-writer-epoch''"
    by (auto simp: cells_def)
  with run obtain f q' where f: "m (jfs s, q) = (r, (f, q'))" "t = s\<lparr>jfs := f, lastWriterEpoch := Some q'\<rparr>"
    by (auto simp: on_writer_run)
  have b: "beside (committed_file d) (jfs s) f" "plf_file q' = plf_file q"
    using m [OF f(1)] q u by (simp_all add: cells_def)
  from cells_beside [OF u b(1)] b(2) f(2) q show ?thesis by (simp add: cells_def)
qed

text \<open>The stream of the committed transaction id, on its own file.\<close>

lemma belf_lazyOpen_own:
  assumes "belf_lazyOpen (f, b) = (r, (g, b'))" "wf_fs f"
    and "\<forall>i. os_ino (belf_ostrm b) = Some i \<longrightarrow> ino f (belf_file b) = Some i"
  shows "wf_fs g \<and> belf_file b' = belf_file b \<and>
    (\<forall>i. os_ino (belf_ostrm b') = Some i \<longrightarrow> ino g (belf_file b) = Some i)"
proof (cases "belf_opened b")
  case True
  with assms show ?thesis by (simp add: belf_lazyOpen_def prog_simps)
next
  case False
  from assms(1) False obtain r' h where 1: "sys_read (belf_file b) f = (r', h)"
    and 2: "(g = h \<and> belf_ostrm b' = belf_ostrm b \<and> belf_file b' = belf_file b) \<or>
       (\<exists>r''. ofstream_open (belf_file b) h = (r'', g) \<and> belf_file b' = belf_file b \<and>
         (case r'' of Return os \<Rightarrow> belf_ostrm b' = os | _ \<Rightarrow> belf_ostrm b' = belf_ostrm b))"
    unfolding belf_lazyOpen_def
    by (cases "sys_read (belf_file b) f"; cases b'; cases b)
      (auto simp: prog_simps seq_def attempt_def on_fst_def upd_snd_def
        split: prod.splits result.splits option.splits if_splits)
  have h: "wf_fs h" "ino h (belf_file b) = ino f (belf_file b)"
    using movesD [OF beside.moves_read_only(1) 1, of "belf_file b"] assms(2)
    by (simp_all add: beside_def same_name_def)
  from 2 show ?thesis
  proof (elim disjE exE conjE)
    fix r''
    assume o: "ofstream_open (belf_file b) h = (r'', g)" "belf_file b' = belf_file b"
      "case r'' of Return os \<Rightarrow> belf_ostrm b' = os | _ \<Rightarrow> belf_ostrm b' = belf_ostrm b"
    have "wf_fs g" using movesD [OF wf.moves_ofstream_open [OF wf_syscalls(1)] o(1)] h by blast
    moreover have "ino g (belf_file b) = Some i" if "os_ino (belf_ostrm b') = Some i" for i
      using o(1)
    proof (cases rule: ofstream_open_outcome)
      case failed
      with o(3) that assms(3) h show ?thesis by (cases r'') auto
    next
      case (opened j)
      with o(3) that show ?thesis by auto
    qed
    ultimately show ?thesis using o(2) by simp
  qed (use h assms in auto)
qed

lemma belf_own:
  assumes "wf_fs f" "\<forall>i. os_ino (belf_ostrm b) = Some i \<longrightarrow> ino f (belf_file b) = Some i"
  shows "belf_get (f, b) = (ri, (g, b')) \<Longrightarrow> wf_fs g \<and> belf_file b' = belf_file b \<and>
      (\<forall>i. os_ino (belf_ostrm b') = Some i \<longrightarrow> ino g (belf_file b) = Some i)"
    "belf_set n (f, b) = (ru, (g, b')) \<Longrightarrow> wf_fs g \<and> belf_file b' = belf_file b \<and>
      (\<forall>i. os_ino (belf_ostrm b') = Some i \<longrightarrow> ino g (belf_file b) = Some i)"
proof -
  show "belf_get (f, b) = (ri, (g, b')) \<Longrightarrow> wf_fs g \<and> belf_file b' = belf_file b \<and>
      (\<forall>i. os_ino (belf_ostrm b') = Some i \<longrightarrow> ino g (belf_file b) = Some i)"
  proof -
    assume "belf_get (f, b) = (ri, (g, b'))"
    then obtain r' where "belf_lazyOpen (f, b) = (r', (g, b'))"
      unfolding belf_get_def by (auto simp: prog_simps elim!: seq_casesE)
    then show ?thesis using assms by (rule belf_lazyOpen_own)
  qed
  assume "belf_set n (f, b) = (ru, (g, b'))"
  then show "wf_fs g \<and> belf_file b' = belf_file b \<and>
      (\<forall>i. os_ino (belf_ostrm b') = Some i \<longrightarrow> ino g (belf_file b) = Some i)"
    unfolding belf_set_def
  proof (cases rule: seq_casesE)
    case (Return u t)
    obtain h b1 where t: "t = (h, b1)" by fastforce
    note l = belf_lazyOpen_own [OF Return(1) [unfolded t] assms]
    from Return(2) t obtain r' where w: "ofstream_write (ofstream_seekp 0 (belf_ostrm b1)) (setw0 19 (show_int n)) h = (r', g)"
      and b': "belf_file b' = belf_file b1" "belf_ostrm b' = (case r' of Return os \<Rightarrow> os | _ \<Rightarrow> belf_ostrm b1)"
      by (auto simp: prog_simps seq_def on_fst_def split: prod.splits result.splits)
    have "os_ino (belf_ostrm b') = os_ino (belf_ostrm b1)"
      using b'(2) ofstream_write_ino [of _ _ h _ g] w by (cases r') (auto simp: ofstream_seekp_def)
    moreover have "wf_fs g" "ino g p = ino h p" for p
      using l ofstream_write_dents [OF w] by (simp_all add: wf_fs_def ino_def)
    ultimately show ?thesis using l b'(1) by simp
  qed (use belf_lazyOpen_own [OF _ assms] in auto)
qed

lemma cells_committed:
  assumes u: "cells d s"
    and m: "\<And>b r f b'. m (jfs s, b) = (r, (f, b')) \<Longrightarrow> wf_fs (jfs s) \<Longrightarrow>
      \<forall>i. os_ino (belf_ostrm b) = Some i \<longrightarrow> ino (jfs s) (belf_file b) = Some i \<Longrightarrow>
      wf_fs f \<and> belf_file b' = belf_file b \<and> (\<forall>i. os_ino (belf_ostrm b') = Some i \<longrightarrow> ino f (belf_file b) = Some i)"
    and run: "on_committed m s = (r, t)"
  shows "cells d t"
proof -
  from u obtain b where b: "committedTxnId s = Some b" "belf_file b = committed_file d"
      "\<forall>i. os_ino (belf_ostrm b) = Some i \<longrightarrow> ino (jfs s) (belf_file b) = Some i" "wf_fs (jfs s)"
    by (auto simp: cells_def)
  with run obtain f b' where f: "m (jfs s, b) = (r, (f, b'))" "t = s\<lparr>jfs := f, committedTxnId := Some b'\<rparr>"
    by (auto simp: on_committed_run)
  from m [OF f(1) b(4,3)] u b(2) f(2) show ?thesis by (auto simp: cells_def)
qed

interpretation cells: journal_order "\<lambda>s t. cells d s \<longrightarrow> cells d t" for d
proof
  fix s t :: journal and n l :: int and ri :: "int result" and ru :: "unit result"
    and os :: ofstream and recs r g
  show "cells d s \<longrightarrow> cells d t" if "on_promised plf_get s = (ri, t)"
    using that cells_promised [where m = plf_get] plf_get_beside plf_get_file by blast
  show "cells d s \<longrightarrow> cells d t" if "on_writer plf_get s = (ri, t)"
    using that cells_writer [where m = plf_get] plf_get_beside plf_get_file by blast
  show "cells d s \<longrightarrow> cells d t" if "on_writer (plf_set n) s = (ru, t)"
    using that cells_writer [where m = "plf_set n"] plf_set_beside plf_set_file by blast
  show "cells d s \<longrightarrow> cells d t" if "on_committed belf_get s = (ri, t)"
    using that cells_committed [where m = belf_get] belf_own(1) by blast
  show "cells d s \<longrightarrow> cells d t" if "on_committed (belf_set n) s = (ru, t)"
    using that cells_committed [where m = "belf_set n"] belf_own(2) by blast
  have set: "cells d s \<longrightarrow> cells d t" if "on_promised (plf_set n) s = (ru, t)" for ru t
    using that cells_promised [where m = "plf_set n"] plf_set_beside plf_set_file by blast
  show "cells d s \<longrightarrow> cells d t" if "updateLastPromisedEpoch n s = (ru, t)"
    using that by (cases rule: updateLastPromisedEpochE) (use set cells_memory(1) in blast)+
  show "cells d s \<longrightarrow> cells d (s\<lparr>jfs := g, curSegment := Some (case r of Return os' \<Rightarrow> os' | _ \<Rightarrow> os)\<rparr>)"
    if "curSegment s = Some os" "os_writeRaw recs os (jfs s) = (r, g)"
    using ofstream_write_dents [OF that(2) [unfolded os_writeRaw_def]]
    by (auto simp: cells_memory intro!: cells_fs simp: cells_def wf_fs_def ino_def)
qed (simp_all add: cells_memory cells_quiet)

lemma start_cells:
  assumes "mk_Journal e (new_journal f dir) = (Return (), s)" "j_initialized s" "wf_fs f"
  shows "cells (dir @ ''/current'') s"
  using assms(1,2)
proof (cases rule: mk_JournalE)
  case (1 g st scanned latest)
  have k: "last (committed_file dir) \<noteq> CHR ''k''" by simp
  note st = started [OF 1(1) k]
  have "wf_fs g" using assms(3) st(1) by (simp add: beside_def)
  then have "cells (dir @ ''/current'') (snd (refreshCachedData ((new_journal f dir)\<lparr>jfs := g, storage := st\<rparr>)))"
    using st(2) by (simp add: cells_def refreshCachedData_def modify_def new_journal_def currentDir_def
        mk_plf_def mk_belf_def closed_stream_def)
  with attempt_moves [OF cells.moves_scanStorage 1(2)] have "cells (dir @ ''/current'') scanned" by blast
  with 1(3) show ?thesis by (simp add: cells_def)
qed

lemma step_cells:
  assumes "step e ok s t" "lives dir s" "cells (dir @ ''/current'') s"
  shows "lives dir t \<and> cells (dir @ ''/current'') t"
  using assms(1)
proof (cases rule: step.cases)
  case (served c r)
  with assms call_lives cells.run_call_order show ?thesis by blast
next
  case (restarted w fl)
  have w: "lives dir w \<and> cells (dir @ ''/current'') w"
    using restarted(1) assms call_lives cells.run_call_order by blast
  then have "wf_fs ((jfs w)\<lparr>faults := fl, fds := []\<rparr>)" by (simp add: cells_def wf_fs_def)
  with restarted w show ?thesis using start_lives start_cells by (auto simp: lives_def)
qed

lemma life_cells:
  "life e ok s t \<Longrightarrow> lives dir s \<Longrightarrow> cells (dir @ ''/current'') s \<Longrightarrow> lives dir t \<and> cells (dir @ ''/current'') t"
  by (rule life_induct [where Q = "\<lambda>t. lives dir t \<and> cells (dir @ ''/current'') t"]) (auto dest: step_cells)

lemma starts_cells:
  "starts e f dir s \<Longrightarrow> wf_fs f \<Longrightarrow> lives dir s \<and> cells (dir @ ''/current'') s"
  by (auto simp: starts_def intro: start_lives start_cells)

text \<open>No cell touches another file of the directory.\<close>

definition cells_apart :: "string \<Rightarrow> journal \<Rightarrow> bool" where
  "cells_apart p s \<longleftrightarrow> wf_fs (jfs s) \<and>
     (\<forall>q. lastPromisedEpoch s = Some q \<longrightarrow> plf_file q \<noteq> p) \<and>
     (\<forall>q. lastWriterEpoch s = Some q \<longrightarrow> plf_file q \<noteq> p) \<and>
     (\<forall>b. committedTxnId s = Some b \<longrightarrow> belf_file b \<noteq> p \<and> apart p (belf_ostrm b) (jfs s))"

lemma cells_are_apart:
  assumes "cells d s" "is_digit (last p)"
  shows "cells_apart p s"
proof -
  have e: "x \<noteq> p" if "last x = CHR ''h'' \<or> last x = CHR ''d''" for x
    using that assms(2) by (auto simp: is_digit_def code_def)
  from assms(1) obtain b where b: "committedTxnId s = Some b" "belf_file b = committed_file d"
    "\<forall>i. os_ino (belf_ostrm b) = Some i \<longrightarrow> ino (jfs s) (committed_file d) = Some i" "wf_fs (jfs s)"
    by (auto simp: cells_def)
  moreover have "committed_file d \<noteq> p" by (rule e) simp
  ultimately have "apart p (belf_ostrm b) (jfs s)"
    unfolding apart_def using ino_less ino_unique by metis
  moreover have "plf_file q \<noteq> p" if "lastPromisedEpoch s = Some q \<or> lastWriterEpoch s = Some q" for q
    using that assms(1) by (intro e) (auto simp: cells_def)
  ultimately show ?thesis using b(1,2,4) e by (simp add: cells_apart_def)
qed

end
