(* ===== verification/Segments.thy ===== *)
theory Segments
  imports Journal_Cells
begin

text \<open>
  The segment being written, from \<open>startLogSegment\<close> over \<open>journal\<close> to \<open>finalizeLogSegment\<close>:
  what a request that succeeded has done to the file, whatever faults there were.
\<close>

section \<open>Requests that only use the cells\<close>

text \<open>The file \<open>p\<close> and the segment are as they were.\<close>

definition aside :: "string \<Rightarrow> journal \<Rightarrow> journal \<Rightarrow> bool" where
  "aside p s t \<longleftrightarrow> (cells_apart p s \<longrightarrow> cells_apart p t \<and> beside p (jfs s) (jfs t)) \<and>
     curSegment t = curSegment s \<and> curSegmentTxId t = curSegmentTxId s \<and> nextTxId t = nextTxId s \<and>
     highestWrittenTxId t = highestWrittenTxId s \<and>
     storage t = storage s \<and> currentInProgress t = currentInProgress s"

interpretation aside: step_order "aside p" for p
  by unfold_locales (auto simp: aside_def intro: beside.step_refl beside.step_trans)

lemma aside_serial: "aside p s (s\<lparr>currentEpochIpcSerial := n\<rparr>)"
  by (simp add: aside_def cells_apart_def beside.step_refl)

lemma cells_apart_beside:
  assumes "cells_apart p s" "beside p (jfs s) f"
  shows "cells_apart p (s\<lparr>jfs := f\<rparr>)"
  using assms by (auto simp: cells_apart_def beside_def intro: apart_beside [unfolded beside_def])

lemma aside_promised:
  assumes m: "\<And>f q r g q'. m (f, q) = (r, (g, q')) \<Longrightarrow> plf_file q \<noteq> p \<Longrightarrow> wf_fs f \<Longrightarrow>
      beside p f g \<and> plf_file q' = plf_file q"
  shows "moves (aside p) (on_promised m)" "moves (aside p) (on_writer m)"
proof -
  show "moves (aside p) (on_promised m)"
  proof (rule movesI)
    fix s r t
    assume run: "on_promised m s = (r, t)"
    show "aside p s t"
    proof (cases "lastPromisedEpoch s")
      case (Some q)
      with run obtain f q' where f: "m (jfs s, q) = (r, (f, q'))" "t = s\<lparr>jfs := f, lastPromisedEpoch := Some q'\<rparr>"
        by (auto simp: on_promised_run)
      have "cells_apart p t \<and> beside p (jfs s) f" if a: "cells_apart p s"
      proof -
        have b: "beside p (jfs s) f" "plf_file q' = plf_file q" "plf_file q \<noteq> p"
          using m [OF f(1)] a Some by (simp_all add: cells_apart_def)
        with cells_apart_beside [OF a b(1)] f(2) show ?thesis by (simp add: cells_apart_def)
      qed
      with f(2) show ?thesis by (simp add: aside_def)
    qed (use run in \<open>simp add: on_promised_run aside.step_refl\<close>)
  qed
  show "moves (aside p) (on_writer m)"
  proof (rule movesI)
    fix s r t
    assume run: "on_writer m s = (r, t)"
    show "aside p s t"
    proof (cases "lastWriterEpoch s")
      case (Some q)
      with run obtain f q' where f: "m (jfs s, q) = (r, (f, q'))" "t = s\<lparr>jfs := f, lastWriterEpoch := Some q'\<rparr>"
        by (auto simp: on_writer_run)
      have "cells_apart p t \<and> beside p (jfs s) f" if a: "cells_apart p s"
      proof -
        have b: "beside p (jfs s) f" "plf_file q' = plf_file q" "plf_file q \<noteq> p"
          using m [OF f(1)] a Some by (simp_all add: cells_apart_def)
        with cells_apart_beside [OF a b(1)] f(2) show ?thesis by (simp add: cells_apart_def)
      qed
      with f(2) show ?thesis by (simp add: aside_def)
    qed (use run in \<open>simp add: on_writer_run aside.step_refl\<close>)
  qed
qed

lemma aside_committed:
  assumes m: "\<And>f b r g b'. m (f, b) = (r, (g, b')) \<Longrightarrow> belf_file b \<noteq> p \<Longrightarrow> wf_fs f \<Longrightarrow>
      apart p (belf_ostrm b) f \<Longrightarrow> beside p f g \<and> belf_file b' = belf_file b \<and> apart p (belf_ostrm b') g"
  shows "moves (aside p) (on_committed m)"
proof (rule movesI)
  fix s r t
  assume run: "on_committed m s = (r, t)"
  show "aside p s t"
  proof (cases "committedTxnId s")
    case (Some b)
    with run obtain f b' where f: "m (jfs s, b) = (r, (f, b'))" "t = s\<lparr>jfs := f, committedTxnId := Some b'\<rparr>"
      by (auto simp: on_committed_run)
    have "cells_apart p t \<and> beside p (jfs s) f" if a: "cells_apart p s"
    proof -
      have b: "beside p (jfs s) f" "belf_file b' \<noteq> p" "apart p (belf_ostrm b') f"
        using m [OF f(1)] a Some by (simp_all add: cells_apart_def)
      with cells_apart_beside [OF a b(1)] f(2) show ?thesis by (simp add: cells_apart_def)
    qed
    with f(2) show ?thesis by (simp add: aside_def)
  qed (use run in \<open>simp add: on_committed_run aside.step_refl\<close>)
qed

lemma aside_cells:
  "moves (aside p) (on_promised plf_get)" "moves (aside p) (on_promised (plf_set n))"
  "moves (aside p) (on_writer plf_get)" "moves (aside p) (on_writer (plf_set n))"
  "moves (aside p) (on_committed belf_get)" "moves (aside p) (on_committed (belf_set n))"
  by (intro aside_promised aside_committed conjI plf_get_beside plf_set_beside belf_get_beside belf_set_beside;
      simp add: plf_get_file plf_set_file)+

lemma aside_checks:
  "moves (aside p) checkFormatted" "moves (aside p) (checkRequest q)" "moves (aside p) (checkWriteRequest q)"
  unfolding checkFormatted_def checkWriteRequest_def checkRequest_def updateLastPromisedEpoch_def
  by (intro aside.moves_rules aside_cells aside.moves_modify aside_serial)+

text \<open>What an accepted request has established.\<close>

lemma checkRequest_accepted:
  assumes "checkRequest q s = (Return x, t)"
  shows "promise_val t = Some (ri_epoch q) \<and> currentEpochIpcSerial t = ri_ipcSerialNumber q"
proof -
  let ?c = "if hasCommittedTxId q then seq (on_committed belf_get) (\<lambda>cti.
      if ri_committedTxId q < cti then halt Aborted else on_committed (belf_set (ri_committedTxId q))) else ret ()"
  from assms obtain l s1 s2 where 1: "on_promised plf_get s = (Return l, s1)" "\<not> ri_epoch q < l"
    and 2: "(if l < ri_epoch q then updateLastPromisedEpoch (ri_epoch q) else ret ()) s1 = (Return (), s2)"
    and 3: "?c (s2\<lparr>currentEpochIpcSerial := ri_ipcSerialNumber q\<rparr>) = (Return x, t)"
    unfolding checkRequest_def
    by (auto simp: prog_simps elim!: seq_ReturnE split: if_splits)
  have "promise_val s2 = Some (ri_epoch q)"
    using 1 2 promised.get_loads [OF 1(1)]
    by (auto simp: prog_simps split: if_splits dest: updateLastPromisedEpoch_val)
  moreover have "keeps (\<lambda>s. (promise_val s, currentEpochIpcSerial s)) ?c"
    unfolding keeps_def
    by (intro frame.moves_rules) (auto intro!: movesI dest: on_committed_frame)
  from keepsD [OF this 3] have "promise_val t = promise_val s2 \<and> currentEpochIpcSerial t = ri_ipcSerialNumber q"
    by simp
  ultimately show ?thesis by simp
qed

lemma on_fs_frame:
  "on_fs m s = (r, t) \<Longrightarrow> promise_val t = promise_val s \<and> writer_val t = writer_val s \<and>
     committed_val t = committed_val s \<and> currentEpochIpcSerial t = currentEpochIpcSerial s"
  by (auto simp: on_fs_run cell_vals)

lemma on_fjm_frame:
  "on_fjm m s = (r, t) \<Longrightarrow> promise_val t = promise_val s \<and> writer_val t = writer_val s \<and>
     committed_val t = committed_val s \<and> currentEpochIpcSerial t = currentEpochIpcSerial s"
  by (auto simp: on_fjm_run cell_vals)

section \<open>The stream of the segment\<close>

text \<open>The open segment's file \<open>p\<close> holds \<open>bs\<close>, and the stream is at its end.\<close>

definition writing :: "string \<Rightarrow> string \<Rightarrow> journal \<Rightarrow> bool" where
  "writing p bs s \<longleftrightarrow> (\<exists>os i. curSegment s = Some os \<and> os_ino os = Some i \<and> \<not> os_fail os \<and>
     os_pos os = length bs \<and> holds_file p i bs (jfs s))"

lemma writing_aside: "writing p bs s \<Longrightarrow> aside p s t \<Longrightarrow> cells_apart p s \<Longrightarrow> writing p bs t"
  by (fastforce simp: writing_def aside_def beside_def)

lemma overwrite_append: "overwrite xs (length xs) ys = xs @ ys"
  by (simp add: overwrite_def)

lemma ofstream_write_ok:
  assumes run: "ofstream_write os ys f = (Return os', g)" and ok: "\<not> os_fail os'"
    and h: "os_ino os = Some i" "holds_file p i xs f" "os_pos os = length xs"
  shows "os_ino os' = Some i \<and> os_pos os' = length (xs @ ys) \<and> holds_file p i (xs @ ys) g"
proof -
  have nf: "\<not> os_fail os" using run ok by (auto simp: ofstream_write_def prog_simps h(1) split: if_splits)
  from run h(1) nf obtain y g' where w: "attempt (sys_write i (os_pos os) ys) f = (Return y, g')"
    and r: "os' = (case y of Some _ \<Rightarrow> os\<lparr>os_pos := os_pos os + length ys\<rparr> | None \<Rightarrow> os\<lparr>os_fail := True\<rparr>)" "g = g'"
    unfolding ofstream_write_def by (auto simp: prog_simps elim!: seq_ReturnE)
  from w r ok have "sys_write i (os_pos os) ys f = (Return (), g)" "y = Some ()"
    by (auto elim!: attempt_ReturnE)
  then have "dents g = dents f" "next_ino g = next_ino f" "data g = (data f)(i := overwrite (data f i) (os_pos os) ys)"
    by (auto simp: sys_write_def syscall_def store_def split: list.splits fault.splits)
  with h r \<open>y = Some ()\<close> show ?thesis
    by (auto simp: holds_file_def ino_def wf_fs_def overwrite_append)
qed

lemma writing_write:
  assumes w: "writing p bs s" and os: "curSegment s = Some os"
    and run: "on_fs (os_writeRaw recs os) s = (Return os', t)" "\<not> os_fail os'"
  shows "writing p (bs @ recs) (t\<lparr>curSegment := Some os'\<rparr>)"
  using assms ofstream_write_ok [of os recs "jfs s" os']
  by (auto simp: writing_def on_fs_run os_writeRaw_def)

section \<open>Starting a segment\<close>

lemma ofstream_openE':
  assumes "ofstream_open p f = (Return os, g)" "wf_fs f" "\<not> os_fail os"
  obtains i where "os = \<lparr>os_ino = Some i, os_pos = 0, os_fail = False\<rparr>" "holds_file p i [] g"
proof -
  have "wf_fs g" using movesD [OF wf.moves_ofstream_open [OF wf_syscalls(1)] assms(1)] assms(2) by blast
  from assms(1) show thesis
  proof (cases rule: ofstream_open_outcome)
    case failed
    from assms(1) failed(4) have "os_fail os"
      by (auto simp: ofstream_open_def prog_simps elim!: seq_ReturnE split: option.splits)
    with assms(3) show thesis by simp
  next
    case (opened i)
    with \<open>wf_fs g\<close> that show thesis by (auto simp: holds_file_def content_def)
  qed
qed

lemma fjm_start_writing:
  assumes run: "fjm_startLogSegment d n lv (f, c) = (Return (os, True), (g, c'))" and wf: "wf_fs f"
  shows "\<exists>i. os_ino os = Some i \<and> \<not> os_fail os \<and> os_pos os = length (header lv) \<and>
    holds_file (getInProgressEditsFile d n) i (header lv) g"
proof -
  let ?p = "getInProgressEditsFile d n"
  from run obtain o1 f1 where 1: "ofstream_open ?p f = (Return o1, f1)"
    and 2: "ofstream_write (ofstream_seekp 0 o1) (header lv) f1 = (Return os, g)" "\<not> os_fail os"
    by (auto simp: fjm_startLogSegment_def prog_simps on_fst_run os_create_def elim!: seq_ReturnE)
  have nf: "\<not> os_fail o1"
  proof
    assume "os_fail o1"
    then have "os_fail (ofstream_seekp 0 o1)" by (simp add: ofstream_seekp_def)
    with 2 show False by (auto simp: ofstream_write_def prog_simps split: option.splits)
  qed
  from ofstream_openE' [OF 1 wf nf] obtain i where
    i: "o1 = \<lparr>os_ino = Some i, os_pos = 0, os_fail = False\<rparr>" "holds_file ?p i [] f1" by blast
  then show ?thesis
    using ofstream_write_ok [OF 2, of i ?p "[]"] 2(2) by (simp add: ofstream_seekp_def)
qed

lemma startLogSegment_tail:
  assumes run: "seq (on_fjm (fjm_startLogSegment d n lv)) (\<lambda>(os, created).
     seq (modify (\<lambda>j. j\<lparr>curSegment := Some os\<rparr>)) (\<lambda>_.
       if \<not> created then err
       else modify (\<lambda>j. j\<lparr>curSegmentTxId := n, nextTxId := n\<rparr>))) s = (Return (), t)"
    and wf: "wf_fs (jfs s)"
  shows "writing (getInProgressEditsFile d n) (header lv) t \<and> curSegmentTxId t = n \<and> nextTxId t = n \<and>
    promise_val t = promise_val s \<and> writer_val t = writer_val s"
proof -
  from run obtain os u where 1: "on_fjm (fjm_startLogSegment d n lv) s = (Return (os, True), u)"
    and t: "t = u\<lparr>curSegment := Some os, curSegmentTxId := n, nextTxId := n\<rparr>"
    by (auto simp: prog_simps elim!: seq_ReturnE split: if_splits)
  from 1 obtain g c where "fjm_startLogSegment d n lv (jfs s, currentInProgress s) = (Return (os, True), (g, c))"
    "jfs u = g" by (auto simp: on_fjm_run)
  from fjm_start_writing [OF this(1) wf] this(2) t on_fjm_frame [OF 1] show ?thesis
    by (auto simp: writing_def cell_vals)
qed

lemma abortCurSegment_run: "abortCurSegment s = (r, t) \<Longrightarrow> r = Return () \<and> curSegment t = None \<and>
    jfs t = jfs s \<and> nextTxId t = nextTxId s \<and> storage t = storage s \<and>
    promise_val t = promise_val s \<and> writer_val t = writer_val s \<and> currentEpochIpcSerial t = currentEpochIpcSerial s"
  by (auto simp: abortCurSegment_def prog_simps cell_vals split: option.splits)

text \<open>What holds between the check of the request and the answer.\<close>

definition admitted :: "string \<Rightarrow> int \<Rightarrow> journal \<Rightarrow> bool" where
  "admitted d n s \<longleftrightarrow> cells d s \<and> currentDir s = d \<and> promise_val s = Some n"

lemma admitted_kept:
  assumes "moves (\<lambda>s t. cells d s \<longrightarrow> cells d t) m" "moves (\<lambda>s t. storage t = storage s) m"
    "moves (\<lambda>s t. promise_val t = promise_val s) m"
  shows "moves (\<lambda>s t. admitted d n s \<longrightarrow> admitted d n t) m"
  using assms by (simp add: moves_def admitted_def currentDir_def)

lemma promise_frames:
  "moves (\<lambda>s t. promise_val t = promise_val s) (on_fs m1)"
  "moves (\<lambda>s t. promise_val t = promise_val s) (on_writer m2)"
  "moves (\<lambda>s t. promise_val t = promise_val s) (on_committed m3)"
  "moves (\<lambda>s t. promise_val t = promise_val s) (on_fjm m4)"
  "moves (\<lambda>s t. promise_val t = promise_val s) abortCurSegment"
  by (auto intro!: movesI dest: on_fs_frame on_writer_frame on_committed_frame on_fjm_frame abortCurSegment_run)

lemma admitted_ops:
  "moves (\<lambda>s t. admitted d n s \<longrightarrow> admitted d n t) abortCurSegment"
  "moves (\<lambda>s t. admitted d n s \<longrightarrow> admitted d n t) (on_fs (getLogFile dir k))"
  "moves (\<lambda>s t. admitted d n s \<longrightarrow> admitted d n t) (on_fs (elf_scanLog elf))"
  "moves (\<lambda>s t. admitted d n s \<longrightarrow> admitted d n t) (on_writer plf_get)"
  "moves (\<lambda>s t. admitted d n s \<longrightarrow> admitted d n t) (on_writer (plf_set w))"
  "moves (\<lambda>s t. admitted d n s \<longrightarrow> admitted d n t) (on_committed belf_get)"
  "moves (\<lambda>s t. admitted d n s \<longrightarrow> admitted d n t) (purgePaxosDecision k)"
  "moves (\<lambda>s t. admitted d n s \<longrightarrow> admitted d n t) (on_fjm (fjm_finalizeLogSegment dir a b))"
proof -
  have "moves (\<lambda>s t. promise_val t = promise_val s) (purgePaxosDecision k)"
    unfolding purgePaxosDecision_def Let_def by (intro frame.moves_rules promise_frames)
  then show "moves (\<lambda>s t. admitted d n s \<longrightarrow> admitted d n t) (purgePaxosDecision k)"
    by (intro admitted_kept cells.moves_purgePaxosDecision stored.moves_purgePaxosDecision)
qed (intro admitted_kept promise_frames cells.moves_abortCurSegment stored.moves_abortCurSegment
    cells.moves_lookups stored.moves_lookups cells.moves_cells stored.moves_cells
    cells.moves_fjm_finalize stored.moves_fjm_finalize)+

lemma checkRequest_admits:
  "triple (\<lambda>s. cells d s \<and> currentDir s = d) (checkRequest q) (\<lambda>_. admitted d (ri_epoch q))"
proof (rule tripleI)
  fix s x t
  assume s: "cells d s \<and> currentDir s = d" and run: "checkRequest q s = (Return x, t)"
  from movesD [OF cells.moves_checkRequest run] movesD [OF stored.moves_checkRequest run] s
    checkRequest_accepted [OF run]
  show "admitted d (ri_epoch q) t" by (simp add: admitted_def currentDir_def)
qed

lemma checkFormatted_triple: "triple P checkFormatted (\<lambda>_. P)"
  by (rule tripleI) (auto dest: checkFormatted_same)

lemmas admits = admitted_ops [THEN triple_kept]

lemma startLogSegment_triple:
  "triple (\<lambda>s. cells d s \<and> currentDir s = d) (startLogSegment q n lv) (\<lambda>_ t.
     writing (getInProgressEditsFile d n) (header lv) t \<and> curSegmentTxId t = n \<and> nextTxId t = n \<and>
     promise_val t = Some (ri_epoch q) \<and> writer_val t = Some (ri_epoch q))"
proof -
  let ?A = "admitted d (ri_epoch q)"
  have check: "triple ?A (if isInitialized elf
          then (if \<not> inProgress elf then halt Aborted
                else seq (on_fs (elf_scanLog elf)) (\<lambda>existing.
                  if lastTxId existing \<noteq> firstTxId existing then halt Aborted else ret ()))
          else ret ()) (\<lambda>_. ?A)" for elf
    by (intro triple_kept kept.moves_rules admitted_ops)
  have get: "triple ?A (on_writer plf_get) (\<lambda>w s. ?A s \<and> writer_val s = Some w)"
  proof (rule tripleI)
    fix s w t
    assume "?A s" "on_writer plf_get s = (Return w, t)"
    then show "?A t \<and> writer_val t = Some w" using movesD [OF admitted_ops(4)] writer.get_loads by blast
  qed
  have set: "triple (\<lambda>s. ?A s \<and> writer_val s = Some w)
      (if w \<noteq> ri_epoch q then on_writer (plf_set (ri_epoch q)) else ret ())
      (\<lambda>_ s. ?A s \<and> writer_val s = Some (ri_epoch q))" for w
  proof (rule triple_if)
    show "triple (\<lambda>s. ?A s \<and> writer_val s = Some w) (on_writer (plf_set (ri_epoch q)))
        (\<lambda>_ s. ?A s \<and> writer_val s = Some (ri_epoch q))"
      unfolding triple_def using movesD [OF admitted_ops(5)] writer.set_stores by blast
  qed (simp add: triple_def prog_simps)
  have purge: "triple (\<lambda>s. ?A s \<and> writer_val s = Some w) (purgePaxosDecision n)
      (\<lambda>_ s. ?A s \<and> writer_val s = Some w)" for w
  proof -
    have "moves (\<lambda>s t. writer_val t = writer_val s) (purgePaxosDecision n)"
      unfolding purgePaxosDecision_def Let_def
      by (intro frame.moves_rules) (auto intro!: movesI dest: on_fs_frame)
    from movesD [OF this] movesD [OF admitted_ops(7)] show ?thesis unfolding triple_def by metis
  qed
  have tail: "triple (\<lambda>s. ?A s \<and> writer_val s = Some w)
      (seq (on_fjm (fjm_startLogSegment d n lv)) (\<lambda>(os, created).
        seq (modify (\<lambda>j. j\<lparr>curSegment := Some os\<rparr>)) (\<lambda>_.
          if \<not> created then err else modify (\<lambda>j. j\<lparr>curSegmentTxId := n, nextTxId := n\<rparr>))))
      (\<lambda>_ t. writing (getInProgressEditsFile d n) (header lv) t \<and> curSegmentTxId t = n \<and> nextTxId t = n \<and>
         promise_val t = Some (ri_epoch q) \<and> writer_val t = Some w)" for w
  proof (rule tripleI)
    fix s x t
    assume s: "?A s \<and> writer_val s = Some w"
      and run: "(seq (on_fjm (fjm_startLogSegment d n lv)) (\<lambda>(os, created).
        seq (modify (\<lambda>j. j\<lparr>curSegment := Some os\<rparr>)) (\<lambda>_.
          if \<not> created then err else modify (\<lambda>j. j\<lparr>curSegmentTxId := n, nextTxId := n\<rparr>)))) s = (Return x, t)"
    have "wf_fs (jfs s)" using s by (simp add: admitted_def cells_def)
    from startLogSegment_tail [OF _ this] run s
    show "writing (getInProgressEditsFile d n) (header lv) t \<and> curSegmentTxId t = n \<and> nextTxId t = n \<and>
         promise_val t = Some (ri_epoch q) \<and> writer_val t = Some w"
      by (simp add: admitted_def)
  qed
  have dir: "triple ?A (gets currentDir) (\<lambda>dir s. ?A s \<and> dir = d)"
    by (simp add: triple_def prog_simps admitted_def)
  show ?thesis
    unfolding startLogSegment_def
    by (intro triple_seq [OF checkFormatted_triple] triple_seq [OF checkRequest_admits] triple_seq [OF admits(1)]
        triple_seq [OF dir] triple_fact, hypsubst,
        intro triple_seq [OF admits(2)] triple_seq [OF check] triple_seq [OF get] triple_seq [OF set]
        triple_seq [OF purge] tail)
qed

section \<open>Writing edits\<close>

lemma checkWriteRequest_accepted:
  assumes "checkWriteRequest q s = (Return x, t)"
  shows "promise_val t = Some (ri_epoch q) \<and> writer_val t = Some (ri_epoch q)"
proof -
  from assms obtain s1 w where 1: "checkRequest q s = (Return (), s1)" "on_writer plf_get s1 = (Return w, t)"
      "w = ri_epoch q"
    unfolding checkWriteRequest_def by (auto simp: prog_simps elim!: seq_ReturnE split: if_splits)
  with checkRequest_accepted [OF 1(1)] on_writer_frame [OF 1(2)] writer.get_loads [OF 1(2)]
  show ?thesis by simp
qed

lemma journal_edits_Return:
  assumes run: "journal_edits q seg frst num recs s = (Return x, t)"
  obtains s1 s2 os os' s3 where "aside p s s1" "aside p s1 s2" "curSegmentTxId s = seg" "nextTxId s = frst"
    "promise_val s1 = Some (ri_epoch q)" "writer_val s1 = Some (ri_epoch q)"
    "promise_val s2 = promise_val s1" "writer_val s2 = writer_val s1"
    "curSegment s2 = Some os" "on_fs (os_writeRaw recs os) s2 = (Return os', s3)" "\<not> os_fail os'"
    "t = s3\<lparr>curSegment := Some os', highestWrittenTxId := s64 (frst + num - 1),
        nextTxId := s64 (s64 (frst + num - 1) + 1)\<rparr>"
proof -
  from run obtain s1 s2 c os os' s3 where 1: "checkWriteRequest q s = (Return (), s1)"
    and 2: "curSegmentTxId s1 = seg" "nextTxId s1 = frst" "on_committed belf_get s1 = (Return c, s2)"
    and 3: "curSegment s2 = Some os" "on_fs (os_writeRaw recs os) s2 = (Return os', s3)" "\<not> os_fail os'"
      "t = s3\<lparr>curSegment := Some os', highestWrittenTxId := s64 (frst + num - 1),
        nextTxId := s64 (s64 (frst + num - 1) + 1)\<rparr>"
    unfolding journal_edits_def
    by (auto simp: prog_simps Let_def elim!: seq_ReturnE split: if_splits option.splits
        dest!: checkFormatted_same)
  have a: "aside p s s1" using movesD [OF aside_checks(3) 1] .
  have b: "aside p s1 s2" using movesD [OF aside_cells(5) 2(3)] .
  have c: "promise_val s2 = promise_val s1" "writer_val s2 = writer_val s1"
    using 2(3) by (auto simp: on_committed_run cell_vals split: option.splits)
  have d: "curSegmentTxId s = seg" "nextTxId s = frst" using a 2 by (simp_all add: aside_def)
  show thesis
    by (rule that [OF a b d _ _ c 3]) (use checkWriteRequest_accepted [OF 1] in simp_all)
qed

lemma journal_edits_appends:
  assumes run: "journal_edits q seg frst num recs s = (Return x, t)" and w: "writing p bs s" and a: "cells_apart p s"
  shows "writing p (bs @ recs) t \<and> curSegmentTxId t = seg"
  using run
proof (cases rule: journal_edits_Return [where p = p])
  case (1 s1 s2 os os' s3)
  have a1: "cells_apart p s1" using 1(1) a by (simp add: aside_def)
  have "writing p bs s2"
    using writing_aside [OF writing_aside [OF w 1(1) a] 1(2) a1] .
  from writing_write [OF this 1(9,10,11)] have "writing p (bs @ recs) (s3\<lparr>curSegment := Some os'\<rparr>)" .
  moreover have "curSegmentTxId s3 = seg"
    using 1(1,2,3,10) by (auto simp: aside_def on_fs_run)
  ultimately show ?thesis using 1(12) by (simp add: writing_def)
qed

section \<open>Finalizing\<close>

lemma sys_list_Return:
  assumes "sys_list d f = (Return names, g)"
  shows "names = List.map_filter (leaf d) (map fst (dents f)) \<and> dents g = dents f"
  using assms by (auto simp: sys_list_def syscall_def no_effect_def split: list.splits fault.splits if_splits)

lemma getLogFile_inprogress:
  assumes run: "getLogFile d n f = (Return elf, g)" and f: "ino f (getInProgressEditsFile d n) = Some i"
    and n: "0 \<le> n" "long_range n"
  shows "elf = mk_EditLogFile (getInProgressEditsFile d n) n INVALID_TXID True"
proof -
  let ?e = "mk_EditLogFile (getInProgressEditsFile d n) n INVALID_TXID True"
  let ?n = "getInProgressEditsFileName n"
  from run obtain elfs h where m: "matchEditLogs d f = (Return elfs, h)"
    and c: "(case filter (\<lambda>it. firstTxId it = n) elfs of [] \<Rightarrow> ret no_EditLogFile | [elf] \<Rightarrow> ret elf | _ \<Rightarrow> err) h
      = (Return elf, g)"
    unfolding getLogFile_def by (auto elim!: seq_ReturnE)
  from m obtain names where l: "sys_list d f = (Return names, h)" and e: "elfs = List.map_filter (matchEditLog d) names"
    unfolding matchEditLogs_def GetFilesInDirectory_def by (auto simp: prog_simps elim!: seq_ReturnE)
  have dig: "CHR ''/'' \<notin> set ?n"
    using setw0_digits [OF show_int_digits [OF n(1)], of 19]
    by (auto simp: name_defs EDITS_INPROGRESS_def list_all_iff)
  have "getInProgressEditsFile d n \<in> set (map fst (dents f))"
    using ino_in_dents [OF f] by (force simp: image_iff)
  moreover have "leaf d (getInProgressEditsFile d n) = Some ?n"
    using dig by (simp add: leaf_def getInProgressEditsFile_def under_def Let_def)
  ultimately have "?n \<in> set names"
    using sys_list_Return [OF l] by (force simp: List.map_filter_def)
  then have "?e \<in> set elfs"
    using matchEditLog_inprogress [OF n] e by (force simp: List.map_filter_def)
  then have "?e \<in> set (filter (\<lambda>it. firstTxId it = n) elfs)" by (simp add: mk_EditLogFile_def)
  then obtain x xs where x: "filter (\<lambda>it. firstTxId it = n) elfs = x # xs" "?e \<in> set (x # xs)"
    by (cases "filter (\<lambda>it. firstTxId it = n) elfs") auto
  show ?thesis
  proof (cases xs)
    case Nil
    with c x show ?thesis by (simp add: prog_simps)
  next
    case (Cons y ys)
    with c x show ?thesis by (simp add: prog_simps)
  qed
qed

lemma file_rename_moves:
  assumes run: "file_rename a b f = (Return (), g)" and f: "ino f a = Some i" and ab: "a \<noteq> b"
  shows "ino g b = Some i \<and> ino g a = None \<and> data g = data f"
  using assms unfolding file_rename_def sys_rename_def syscall_def
  by (auto simp: ino_def map_of_move_dent no_effect_def split: list.splits fault.splits if_splits)

lemma last_component:
  assumes "x @ CHR ''/'' # a = y @ CHR ''/'' # b" "CHR ''/'' \<notin> set a" "CHR ''/'' \<notin> set b"
  shows "a = b"
proof -
  have t: "takeWhile (\<lambda>c. c \<noteq> CHR ''/'') (rev (z @ CHR ''/'' # c)) = rev c" if "CHR ''/'' \<notin> set c" for z c :: string
    using that by (simp, subst takeWhile_append2) auto
  from assms t [of a x] t [of b y] show ?thesis by simp
qed

lemma no_slash: "CHR ''/'' \<notin> set (show_int i)" "CHR ''/'' \<notin> set (setw0 w (show_int i))"
proof -
  show "CHR ''/'' \<notin> set (show_int i)"
    using list_all_show_nat [of "nat i"] list_all_show_nat [of "nat (- i)"]
    by (auto simp: show_int_def list_all_iff)
  then show "CHR ''/'' \<notin> set (setw0 w (show_int i))" by (simp add: setw0_def)
qed

lemma finalized_component:
  assumes "getFinalizedEditsFile d a b = x @ CHR ''/'' # c" "CHR ''/'' \<notin> set c"
  shows "c = getFinalizedEditsFileName a b"
proof -
  have "CHR ''/'' \<notin> set (getFinalizedEditsFileName a b)" by (simp add: name_defs EDITS_def no_slash)
  moreover have "getFinalizedEditsFile d a b = d @ CHR ''/'' # getFinalizedEditsFileName a b"
    by (simp add: getFinalizedEditsFile_def)
  ultimately show ?thesis using assms last_component by metis
qed

lemma finalized_name_not_i: "getFinalizedEditsFileName a b \<noteq> ''edits_i'' @ c"
  using setw0_show_int_not_i by (simp add: name_defs EDITS_def)

lemma finalized_neq_inprogress: "getFinalizedEditsFile d a b \<noteq> getInProgressEditsFile d' n"
proof
  assume "getFinalizedEditsFile d a b = getInProgressEditsFile d' n"
  then have "getFinalizedEditsFile d a b = d' @ CHR ''/'' # (''edits_i'' @ ''nprogress_'' @ setw0 19 (show_int n))"
    by (simp add: name_defs EDITS_INPROGRESS_def)
  from finalized_component [OF this, THEN sym] finalized_name_not_i show False by (simp add: no_slash)
qed

lemma finalized_not_scratch: "\<not> scratch (getFinalizedEditsFile d a b)"
proof
  let ?p = "getFinalizedEditsFile d a b"
  assume "scratch ?p"
  moreover have "is_digit (last ?p)" by (rule last_finalized)
  moreover have "last (x @ y @ z @ ''.tmp'') = CHR ''p''" "last (x @ ''.empty'') = CHR ''y''" for x y z by simp_all
  moreover have "\<not> is_digit CHR ''p''" "\<not> is_digit CHR ''y''" by (simp_all add: is_digit_def code_def)
  ultimately consider (ip) d' t where "?p = getInProgressEditsFile d' t"
    | (ep) d' t e where "?p = getInProgressEditsFile d' t @ ''.epoch='' @ show_int e"
    | (px) d' t where "?p = d' @ ''/paxos/'' @ show_int t"
    unfolding scratch_def by metis
  then show False
  proof cases
    case ip
    then show False using finalized_neq_inprogress by blast
  next
    case ep
    then have "?p = d' @ CHR ''/'' # (''edits_i'' @ ''nprogress_'' @ setw0 19 (show_int t) @ ''.epoch='' @ show_int e)"
      by (simp add: name_defs EDITS_INPROGRESS_def)
    from finalized_component [OF this, THEN sym] finalized_name_not_i show False by (simp add: no_slash)
  next
    case px
    then have "?p = (d' @ ''/paxos'') @ CHR ''/'' # show_int t" by simp
    from finalized_component [OF this no_slash(1)] have "show_int t = ''edits_'' @ drop 6 (show_int t)"
      by (simp add: name_defs EDITS_def)
    moreover have "hd (show_int t) \<noteq> CHR ''e''"
      using setw0_show_int_hd [of 0 t] by (auto simp: setw0_def is_digit_def code_def)
    ultimately show False by (metis append_Cons list.sel(1))
  qed
qed

lemma paxos_neq: "getPaxosFile st k \<noteq> getInProgressEditsFile d n" "getPaxosFile st k \<noteq> getFinalizedEditsFile d a b"
proof -
  show "getPaxosFile st k \<noteq> getInProgressEditsFile d n"
  proof
    assume "getPaxosFile st k = getInProgressEditsFile d n"
    then have "(st_currentDir st @ ''/paxos'') @ CHR ''/'' # show_int k
        = d @ CHR ''/'' # (''edits_inprogress_'' @ setw0 19 (show_int n))"
      by (simp add: name_defs EDITS_INPROGRESS_def getPaxosFile_def getPaxosDir_def)
    from last_component [OF this] have "show_int k = ''edits_inprogress_'' @ setw0 19 (show_int n)"
      by (simp add: no_slash)
    then have "hd (show_int k) = CHR ''e''" by simp
    then show False using setw0_show_int_hd [of 0 k] by (simp add: setw0_def is_digit_def code_def)
  qed
  show "getPaxosFile st k \<noteq> getFinalizedEditsFile d a b"
    using finalized_not_scratch [of d a b] scratch_names(4) [of st k] by metis
qed

lemma beside_remove: "q \<noteq> p \<Longrightarrow> moves (beside p) (file_delete q)"
  unfolding file_delete_def
  by (intro besideI wf_syscalls spent_syscalls named_syscalls held_syscalls)

lemma beside_getLogFile: "moves (beside p) (getLogFile d n)"
proof -
  have "moves (beside p) (matchEditLogs d)"
    unfolding matchEditLogs_def GetFilesInDirectory_def
    by (intro beside.moves_rules beside.moves_read_only)
  then show ?thesis
    unfolding getLogFile_def
    by (intro beside.moves_seq) (auto split: list.splits simp: beside.moves_ret beside.moves_err)
qed

lemma purgePaxos_beside:
  assumes "purgePaxosDecision k s = (r, t)" "\<And>st. getPaxosFile st k \<noteq> p"
  shows "beside p (jfs s) (jfs t) \<and> curSegment t = curSegment s"
proof -
  have "moves (beside p) (seq (file_exists q) (\<lambda>has. if has then file_delete q else ret ()))" if "q \<noteq> p" for q
    by (intro beside.moves_rules beside.moves_exists beside_remove that)
  note m = this
  from assms(1) obtain f where f: "seq (file_exists (getPaxosFile (storage s) k)) (\<lambda>has. if has
      then file_delete (getPaxosFile (storage s) k) else ret ()) (jfs s) = (r, f)" "t = s\<lparr>jfs := f\<rparr>"
    by (auto simp: purgePaxosDecision_def Let_def prog_simps on_fs_run)
  from movesD [OF m [OF assms(2)] f(1)] f(2) show ?thesis by simp
qed

lemma seq_checkFormatted:
  fixes m :: "(journal, unit) prog"
  shows "seq checkFormatted (\<lambda>_. seq m h) s = (Return x, t) \<Longrightarrow> \<exists>s1. m s = (Return (), s1) \<and> h () s1 = (Return x, t)"
  by (auto elim!: seq_ReturnE dest!: checkFormatted_same)

lemma fjm_finalize_Return:
  assumes run: "fjm_finalizeLogSegment d n e (f, c) = (Return (), (g, c'))"
    and h: "holds_file (getInProgressEditsFile d n) i bs f"
  shows "holds_file (getFinalizedEditsFile d n e) i bs g \<and> ino g (getInProgressEditsFile d n) = None"
proof -
  let ?src = "getInProgressEditsFile d n" and ?dst = "getFinalizedEditsFile d n e"
  from run obtain k where 1: "file_exists ?dst f = (Return False, k)" and 2: "file_rename ?src ?dst k = (Return (), g)"
    unfolding fjm_finalizeLogSegment_def Let_def
    by (auto simp: seq_def on_fst_def prog_simps split: prod.splits result.splits if_splits)
  have k: "holds_file ?src i bs k" using movesD [OF beside.moves_exists(1) 1] h by (simp add: beside_def)
  have "wf_fs g" using movesD [OF wf_syscalls(3) 2 [unfolded file_rename_def]] k by (simp add: holds_file_def)
  with file_rename_moves [OF 2, of i] k finalized_neq_inprogress [symmetric] show ?thesis
    by (simp add: holds_file_def)
qed

lemma finalize_open_segment:
  assumes run: "finalizeLogSegment q n e s = (Return x, t)"
    and w: "writing (getInProgressEditsFile d n) bs s" "curSegmentTxId s = n"
    and d: "cells d s" "currentDir s = d" and n: "0 \<le> n" "long_range n"
  shows "nextTxId s = s64 (e + 1) \<and> content (jfs t) (getFinalizedEditsFile d n e) = Some bs \<and>
    content (jfs t) (getInProgressEditsFile d n) = None \<and> curSegment t = None"
proof -
  let ?p = "getInProgressEditsFile d n" and ?q = "getFinalizedEditsFile d n e"
  have dig: "is_digit (last ?p)" by (simp add: name_defs last_setw0)
  have ap: "cells_apart ?p s" using d(1) dig by (rule cells_are_apart)
  from run obtain s1 where 1: "checkRequest q s = (Return (), s1)"
    and r1: "seq (gets (\<lambda>j. n = curSegmentTxId j)) (\<lambda>writing.
     seq (if writing then seq abortCurSegment (\<lambda>_. seq (gets nextTxId) (\<lambda>nxt.
            if nxt \<noteq> s64 (e + 1) then err else ret ())) else ret ()) (\<lambda>_.
     (let needsValidation = \<not> writing in
     seq (gets currentDir) (\<lambda>dir. seq (on_fs (getLogFile dir n)) (\<lambda>elf.
       if \<not> isInitialized elf then err
       else seq (if inProgress elf
                 then seq (if needsValidation
                           then seq (on_fs (elf_scanLog elf)) (\<lambda>elf.
                             if lastTxId elf \<noteq> e then err else ret ())
                           else ret ()) (\<lambda>_.
                   on_fjm (fjm_finalizeLogSegment dir n e))
                 else (if e \<noteq> lastTxId elf then halt Aborted else ret ())) (\<lambda>_.
         purgePaxosDecision (firstTxId elf))))))) s1 = (Return x, t)"
    using seq_checkFormatted [OF run [unfolded finalizeLogSegment_def]] by blast
  have a: "aside ?p s s1" using movesD [OF aside_checks(2) 1] .
  have w1: "writing ?p bs s1" using w(1) a ap by (rule writing_aside)
  then obtain i where h1: "holds_file ?p i bs (jfs s1)" by (auto simp: writing_def)
  have c1: "curSegmentTxId s1 = n" "currentDir s1 = d" "nextTxId s1 = nextTxId s"
    using a w(2) d(2) by (simp_all add: aside_def currentDir_def)
  from r1 c1 have "seq (seq abortCurSegment (\<lambda>_. seq (gets nextTxId) (\<lambda>nxt.
        if nxt \<noteq> s64 (e + 1) then err else ret ())))
      (\<lambda>_. seq (gets currentDir) (\<lambda>dir. seq (on_fs (getLogFile dir n)) (\<lambda>elf.
       if \<not> isInitialized elf then err
       else seq (if inProgress elf then on_fjm (fjm_finalizeLogSegment dir n e)
                 else (if e \<noteq> lastTxId elf then halt Aborted else ret ())) (\<lambda>_.
         purgePaxosDecision (firstTxId elf))))) s1 = (Return x, t)"
    by (simp only: seq_gets [of "\<lambda>j. n = curSegmentTxId j"] Let_def if_True if_False
        not_True_eq_False seq_ret simp_thms cong: if_cong)
  then obtain s2 elf s3 where 2: "abortCurSegment s1 = (Return (), s2)" "nextTxId s2 = s64 (e + 1)"
    and l: "on_fs (getLogFile (currentDir s2) n) s2 = (Return elf, s3)" "isInitialized elf"
    and r3: "seq (if inProgress elf then on_fjm (fjm_finalizeLogSegment (currentDir s2) n e)
                 else (if e \<noteq> lastTxId elf then halt Aborted else ret ())) (\<lambda>_.
         purgePaxosDecision (firstTxId elf)) s3 = (Return x, t)"
    by (rule seq_ReturnE) (erule seq_ReturnE, auto simp: prog_simps split: if_splits elim: seq_ReturnE)
  note ab = abortCurSegment_run [OF 2(1)]
  have h2: "holds_file ?p i bs (jfs s2)" "currentDir s2 = d" "curSegment s2 = None"
    using ab h1 c1 by (simp_all add: currentDir_def)
  from l(1) h2 have 3: "getLogFile d n (jfs s2) = (Return elf, jfs s3)" "curSegment s3 = None"
    by (auto simp: on_fs_run)
  have elf: "elf = mk_EditLogFile ?p n INVALID_TXID True"
    using getLogFile_inprogress [OF 3(1) _ n] h2(1) by (simp add: holds_file_def)
  have h3: "holds_file ?p i bs (jfs s3)"
    using movesD [OF beside_getLogFile 3(1)] h2(1) by (simp add: beside_def)
  from r3 elf h2(2) obtain s4 where 4: "on_fjm (fjm_finalizeLogSegment d n e) s3 = (Return (), s4)"
    and 5: "purgePaxosDecision n s4 = (Return x, t)"
    by (auto simp: mk_EditLogFile_def elim!: seq_ReturnE)
  from 4 obtain c c' where "fjm_finalizeLogSegment d n e (jfs s3, c) = (Return (), (jfs s4, c'))" "curSegment s4 = None"
    using 3(2) by (auto simp: on_fjm_run)
  from fjm_finalize_Return [OF this(1) h3] this(2) have h4: "holds_file ?q i bs (jfs s4)" "ino (jfs s4) ?p = None"
    "curSegment s4 = None" by simp_all
  have "beside ?q (jfs s4) (jfs t) \<and> curSegment t = curSegment s4"
    "beside ?p (jfs s4) (jfs t) \<and> curSegment t = curSegment s4"
    using purgePaxos_beside [OF 5] paxos_neq by blast+
  with h4 2(2) ab c1(3) show ?thesis
    by (simp add: beside_def same_name_def content_def holds_file_def)
qed

end
