(* ===== verification/Examples.thy ===== *)
theory Examples
  imports Journal_Life
begin

text \<open>
  Concrete arguments for the theorems: a properties reader, a download, an empty disk with
  the directory of one journal, and what requests make of it.
\<close>

text \<open>Lines of \<open>key=value\<close>.\<close>

fun split_lines :: "string \<Rightarrow> string \<Rightarrow> string list" where
  "split_lines l [] = [rev l]"
| "split_lines l (c # cs) = (if c = newline then rev l # split_lines [] cs else split_lines (c # l) cs)"

fun find_property :: "string \<Rightarrow> string list \<Rightarrow> string" where
  "find_property key [] = []"
| "find_property key (l # ls) =
     (if take (Suc (length key)) l = key @ ''='' then drop (Suc (length key)) l else find_property key ls)"

definition ex_paxos :: PaxosData where
  "ex_paxos = \<lparr>pd_segmentState = \<lparr>ss_startTxId = 1, ss_endTxId = 1, ss_isInProgress = True\<rparr>, pd_acceptedInEpoch = 2\<rparr>"

definition ex_crc :: "string \<Rightarrow> int" where "ex_crc s = int (length s)"

definition ex_segment :: string where
  "ex_segment = header (-57) @ encode_ops ex_crc [(1, ''abc'')]"

definition ex_env :: env where
  "ex_env = \<lparr>pb_serialize = (\<lambda>d. if d = ex_paxos then Some ''paxos'' else None),
     pb_parse = (\<lambda>c. if c = ''paxos'' then Some ex_paxos else None),
     load_properties = (\<lambda>c key. find_property key (split_lines [] c)),
     http_get = (\<lambda>url. Response ex_segment 200)\<rparr>"

definition ex_dir :: string where "ex_dir = ''/j''"

definition ex_disk :: fs where
  "ex_disk = \<lparr>dents = [], data = (\<lambda>_. []), next_ino = 0, dirs = [ex_dir], fds = [0, 1, 2], faults = []\<rparr>"

definition ex_ns :: namespace_info where
  "ex_ns = \<lparr>layoutVersion = -57, clusterID = ''c'', namespaceID = 7, cTime = 0, bpId = ''b''\<rparr>"

definition ex_blank :: journal where
  "ex_blank = snd (mk_Journal ex_env (new_journal ex_disk ex_dir))"

definition ex_formatted :: journal where "ex_formatted = snd (format ex_env ex_ns ex_blank)"

definition ex_started :: journal where
  "ex_started = snd (mk_Journal ex_env (new_journal ((jfs ex_formatted)\<lparr>fds := []\<rparr>) ex_dir))"

definition ex_req :: "int \<Rightarrow> int \<Rightarrow> request_info" where
  "ex_req epoch serial = \<lparr>ri_jid = ''j'', ri_epoch = epoch, ri_ipcSerialNumber = serial, ri_committedTxId = INVALID_TXID\<rparr>"

definition ex_promised :: journal where "ex_promised = snd (newEpoch ex_ns 2 ex_started)"

definition ex_writing :: journal where
  "ex_writing = snd (startLogSegment (ex_req 2 1) 1 (-57) ex_promised)"

definition ex_written :: journal where
  "ex_written = snd (journal_edits (ex_req 2 2) 1 1 1 (encode_ops ex_crc [(1, ''abc'')]) ex_writing)"

definition ex_finalized :: journal where
  "ex_finalized = snd (finalizeLogSegment (ex_req 2 3) 1 1 ex_written)"

section \<open>Their runs\<close>

lemma run_snd: "fst (m s) = r \<Longrightarrow> m s = (r, snd (m s))"
  by (cases "m s") simp

lemma ex_starts: "starts ex_env ((jfs ex_formatted)\<lparr>fds := []\<rparr>) ex_dir ex_started"
proof -
  have "fst (mk_Journal ex_env (new_journal ((jfs ex_formatted)\<lparr>fds := []\<rparr>) ex_dir)) = Return ()" by code_simp
  then have "mk_Journal ex_env (new_journal ((jfs ex_formatted)\<lparr>fds := []\<rparr>) ex_dir) = (Return (), ex_started)"
    unfolding ex_started_def by (rule run_snd)
  moreover have "j_initialized ex_started" by code_simp
  ultimately show ?thesis unfolding starts_def by (rule conjI)
qed

lemma ex_names:
  "dents (jfs ex_formatted) = [(''/j/in_use.lock'', 0), (''/j/current/VERSION'', 1)]"
  "next_ino (jfs ex_formatted) = 2" "faults (jfs ex_formatted) = []"
  by code_simp+

lemma ex_wf: "wf_fs ((jfs ex_formatted)\<lparr>fds := []\<rparr>)"
  by (simp add: wf_fs_def ex_names)

lemma ex_promised_run: "newEpoch ex_ns 2 ex_started = (Return None, ex_promised)"
  unfolding ex_promised_def by (rule run_snd) code_simp

lemma ex_writing_run: "startLogSegment (ex_req 2 1) 1 (-57) ex_promised = (Return (), ex_writing)"
  unfolding ex_writing_def by (rule run_snd) code_simp

lemma ex_written_run:
  "journal_edits (ex_req 2 2) 1 1 1 (encode_ops ex_crc [(1, ''abc'')]) ex_writing = (Return (), ex_written)"
  unfolding ex_written_def by (rule run_snd) code_simp

lemma ex_finalized_run: "finalizeLogSegment (ex_req 2 3) 1 1 ex_written = (Return (), ex_finalized)"
  unfolding ex_finalized_def by (rule run_snd) code_simp

end
