(* ===== verification/Writing.thy ===== *)
theory Writing
  imports Segments Examples
begin

text \<open>
  Writing a segment refines appending transactions to a list. \<open>represents\<close> relates the
  journal to the list; each request that succeeds is an operation on the list, and the file
  that is left by the last one holds exactly the encoding of the list.
\<close>

section \<open>The abstract segment\<close>

text \<open>Transactions \<open>ops\<close> with consecutive ids from \<open>n\<close> on.\<close>

definition numbered :: "int \<Rightarrow> (int \<times> string) list \<Rightarrow> bool" where
  "numbered n ops \<longleftrightarrow> map fst ops = map (\<lambda>k. n + int k) [0..<length ops]"

definition represents ::
    "(string \<Rightarrow> int) \<Rightarrow> int \<Rightarrow> string \<Rightarrow> int \<Rightarrow> (int \<times> string) list \<Rightarrow> journal \<Rightarrow> bool" where
  "represents crc lv d n ops s \<longleftrightarrow> cells d s \<and> currentDir s = d \<and> numbered n ops \<and>
     writing (getInProgressEditsFile d n) (header lv @ encode_ops crc ops) s \<and>
     curSegmentTxId s = n \<and> nextTxId s = n + int (length ops)"

lemma numbered_append:
  assumes "numbered n xs" "numbered (n + int (length xs)) ys"
  shows "numbered n (xs @ ys)"
proof -
  have "map (\<lambda>k. n + int k) [length xs..<length xs + length ys] = map (\<lambda>k. n + int (length xs) + int k) [0..<length ys]"
    by (rule nth_equalityI) simp_all
  with assms show ?thesis
    by (simp add: numbered_def upt_add_eq_append [of 0 "length xs" "length ys", simplified])
qed

lemma run_dir:
  assumes "moves (\<lambda>s t. storage t = storage s) m" "moves (\<lambda>s t. cells d s \<longrightarrow> cells d t) m" "m s = (r, t)"
    and "cells d s" "currentDir s = d"
  shows "cells d t \<and> currentDir t = d"
  using movesD [OF assms(1,3)] movesD [OF assms(2,3)] assms(4,5) by (simp add: currentDir_def)

text \<open>
  C6. A segment that is started is empty: its file, made anew, holds the header and nothing
  else, the next transaction expected is its first, and the writer's epoch is both the
  promise and the last writer epoch.
\<close>

theorem startLogSegment_opens:
  assumes "startLogSegment q n lv s = (Return x, t)" "cells d s" "currentDir s = d"
  shows "represents crc lv d n [] t \<and> promise_val t = Some (ri_epoch q) \<and> writer_val t = Some (ri_epoch q)"
proof -
  note run_dir [OF stored.moves_startLogSegment cells.moves_startLogSegment assms]
  moreover note tripleD [OF startLogSegment_triple _ assms(1), of d]
  ultimately show ?thesis using assms(2,3) by (simp add: represents_def numbered_def)
qed

lemma ex_cells: "cells (ex_dir @ ''/current'') ex_promised \<and> currentDir ex_promised = ex_dir @ ''/current''"
proof -
  have "lives ex_dir ex_started \<and> cells (ex_dir @ ''/current'') ex_started"
    using ex_starts ex_wf by (rule starts_cells)
  then show ?thesis
    using run_dir [OF stored.moves_newEpoch cells.moves_newEpoch ex_promised_run] by (simp add: lives_def)
qed

theorem startLogSegment_opens_witness:
  "represents ex_crc (-57) (ex_dir @ ''/current'') 1 [] ex_writing \<and>
   promise_val ex_writing = Some (ri_epoch (ex_req 2 1)) \<and> writer_val ex_writing = Some (ri_epoch (ex_req 2 1))"
  by (rule startLogSegment_opens [OF ex_writing_run]) (simp_all add: ex_cells)

text \<open>
  C3. Edits that are accepted are the next ones of the open segment, from the writer whose
  epoch is the last writer epoch, and they are appended: the file holds what it held and the
  encoding of the new transactions, and the next one expected is the one behind them.
\<close>

theorem journal_appends:
  assumes s: "represents crc lv d n ops s"
    and run: "journal_edits q seg frst (int (length new)) (encode_ops crc new) s = (Return x, t)"
    and new: "numbered frst new" and range: "0 \<le> n" "n + int (length ops) + int (length new) < 2 ^ 63"
  shows "seg = n \<and> frst = n + int (length ops) \<and> represents crc lv d n (ops @ new) t \<and>
    promise_val t = Some (ri_epoch q) \<and> writer_val t = Some (ri_epoch q)"
proof -
  let ?p = "getInProgressEditsFile d n"
  have ap: "cells_apart ?p s"
    using s by (intro cells_are_apart [of d]) (simp_all add: represents_def name_defs last_setw0)
  have w: "writing ?p (header lv @ encode_ops crc (ops @ new)) t \<and> curSegmentTxId t = seg"
  proof -
    have "writing ?p (header lv @ encode_ops crc ops) s" using s by (simp add: represents_def)
    from journal_edits_appends [OF run this ap] show ?thesis by simp
  qed
  have dir: "cells d t \<and> currentDir t = d"
    using run_dir [OF stored.moves_journal_edits cells.moves_journal_edits run] s by (simp add: represents_def)
  from run show ?thesis
  proof (cases rule: journal_edits_Return [where p = ?p])
    case (1 s1 s2 os os' s3)
    have f: "frst = n + int (length ops)" "seg = n" using 1(3,4) s by (simp_all add: represents_def)
    have r: "long_range (frst + int (length new) - 1)" "long_range (frst + int (length new))"
      using range f by (simp_all add: long_range_def)
    have "nextTxId t = n + int (length (ops @ new))" using 1(12) r f by simp
    moreover have "promise_val t = Some (ri_epoch q)" "writer_val t = Some (ri_epoch q)"
      using 1(5-8,10,12) by (auto simp: on_fs_run cell_vals)
    moreover have "numbered n (ops @ new)"
      using numbered_append s new f by (simp add: represents_def)
    ultimately show ?thesis using w dir f by (simp add: represents_def)
  qed
qed

lemma ex_represents: "represents ex_crc (-57) (ex_dir @ ''/current'') 1 [] ex_writing"
  using tripleD [OF startLogSegment_triple _ ex_writing_run, of "ex_dir @ ''/current''"] ex_cells
    run_dir [OF stored.moves_startLogSegment cells.moves_startLogSegment ex_writing_run]
  by (simp add: represents_def numbered_def)

theorem journal_appends_witness:
  "1 = (1::int) \<and> 1 = 1 + int (length ([] :: (int \<times> string) list)) \<and>
   represents ex_crc (-57) (ex_dir @ ''/current'') 1 ([] @ [(1, ''abc'')]) ex_written \<and>
   promise_val ex_written = Some (ri_epoch (ex_req 2 2)) \<and> writer_val ex_written = Some (ri_epoch (ex_req 2 2))"
proof (rule journal_appends [OF ex_represents])
  show "journal_edits (ex_req 2 2) 1 1 (int (length [(1, ''abc'')])) (encode_ops ex_crc [(1, ''abc'')]) ex_writing
    = (Return (), ex_written)" using ex_written_run by simp
qed (simp_all add: numbered_def)

section \<open>Finalizing\<close>

lemma last_numbered:
  assumes "numbered n ops" "0 \<le> n" "ops \<noteq> []"
  shows "last_txid INVALID_TXID ops = n + int (length ops) - 1"
proof -
  have "ops = map (\<lambda>k. (n + int k, snd (ops ! k))) [0..<length ops]"
  proof (rule nth_equalityI)
    fix k
    assume k: "k < length ops"
    then have "fst (ops ! k) = map fst ops ! k" by simp
    also have "\<dots> = n + int k" using assms(1) k by (simp add: numbered_def)
    finally show "ops ! k = map (\<lambda>k. (n + int k, snd (ops ! k))) [0..<length ops] ! k"
      using k by (simp add: prod_eq_iff)
  qed simp
  then show ?thesis using last_txid_run [OF assms(2), of "\<lambda>k. snd (ops ! k)" "length ops"] assms(3) by simp
qed

lemma wf_numbered:
  assumes "numbered n ops" "0 \<le> n" "n + int (length ops) < 2 ^ 63" "\<forall>(t, x) \<in> set ops. int (length x) < 2 ^ 31 - 12"
  shows "wf_ops ops"
proof -
  have "\<exists>k < length ops. t = n + int k" if "(t, x) \<in> set ops" for t x
  proof -
    from that have "t \<in> set (map fst ops)" by force
    with assms(1) show ?thesis by (auto simp: numbered_def)
  qed
  with assms(2-4) show ?thesis
    by (fastforce simp: wf_ops_def list_all_iff long_range_def INVALID_TXID_def)
qed

text \<open>
  C4. Finalizing the open segment renames its file and changes no byte of it: the finalized
  file holds the header and the transactions that were written, the in-progress file is
  gone, and a scan of the finalized file returns the id in its name.
\<close>

theorem finalize_seals:
  assumes s: "represents crc lv d n ops s" and run: "finalizeLogSegment q n e s = (Return x, t)"
    and range: "0 \<le> n" "n + int (length ops) < 2 ^ 63" "0 \<le> e" "e < 2 ^ 63 - 1" "ops \<noteq> []"
    and size: "\<forall>(t, x) \<in> set ops. int (length x) < 2 ^ 31 - 12"
      "int (8 + length (encode_ops crc ops)) < 2 ^ 32"
  shows "e = n + int (length ops) - 1 \<and>
    content (jfs t) (getFinalizedEditsFile d n e) = Some (header lv @ encode_ops crc ops) \<and>
    content (jfs t) (getInProgressEditsFile d n) = None \<and> curSegment t = None \<and>
    scan_content (header lv @ encode_ops crc ops) = Return e"
proof -
  have "long_range n" "long_range (e + 1)" using range by (simp_all add: long_range_def)
  with finalize_open_segment [OF run, of d "header lv @ encode_ops crc ops"] s range(1)
  have f: "n + int (length ops) = e + 1"
    "content (jfs t) (getFinalizedEditsFile d n e) = Some (header lv @ encode_ops crc ops)"
    "content (jfs t) (getInProgressEditsFile d n) = None" "curSegment t = None"
    by (simp_all add: represents_def)
  have ops: "numbered n ops" using s by (simp add: represents_def)
  have "scan_content (header lv @ encode_ops crc ops) = Return (n + int (length ops) - 1)"
    using scan_encoded [OF wf_numbered [OF ops range(1,2) size(1)] size(2)] last_numbered [OF ops range(1,5)] by simp
  with f show ?thesis by simp
qed

lemma ex_represents_written: "represents ex_crc (-57) (ex_dir @ ''/current'') 1 [(1, ''abc'')] ex_written"
proof -
  let ?p = "getInProgressEditsFile (ex_dir @ ''/current'') 1"
  have r: "cells (ex_dir @ ''/current'') ex_writing" "currentDir ex_writing = ex_dir @ ''/current''"
    "writing ?p (header (-57)) ex_writing" using ex_represents by (simp_all add: represents_def)
  have "cells_apart ?p ex_writing" by (rule cells_are_apart [OF r(1)]) (simp add: name_defs last_setw0)
  from journal_edits_appends [OF ex_written_run r(3) this]
  have "writing ?p (header (-57) @ encode_ops ex_crc [(1, ''abc'')]) ex_written \<and> curSegmentTxId ex_written = 1" .
  moreover have "nextTxId ex_written = 2" by code_simp
  ultimately show ?thesis
    using run_dir [OF stored.moves_journal_edits cells.moves_journal_edits ex_written_run r(1,2)]
    by (simp add: represents_def numbered_def)
qed

theorem finalize_seals_witness:
  "1 = 1 + int (length [(1::int, ''abc'')]) - 1 \<and>
   content (jfs ex_finalized) (getFinalizedEditsFile (ex_dir @ ''/current'') 1 1)
     = Some (header (-57) @ encode_ops ex_crc [(1, ''abc'')]) \<and>
   content (jfs ex_finalized) (getInProgressEditsFile (ex_dir @ ''/current'') 1) = None \<and>
   curSegment ex_finalized = None \<and> scan_content (header (-57) @ encode_ops ex_crc [(1, ''abc'')]) = Return 1"
  by (rule finalize_seals [OF ex_represents_written ex_finalized_run]) simp_all

end
