(* ===== verification/Fencing.thy ===== *)
theory Fencing
  imports Examples
begin

text \<open>
  Fencing: a promised epoch shuts out every writer with a lower one. The properties say what
  a journal refuses, that its promise only goes up, and that this survives the process.
\<close>

section \<open>Requests that carry credentials\<close>

lemma credentials_checked:
  assumes "credentials c = Some q"
  obtains h where "run_call e c = seq checkFormatted (\<lambda>_. seq (checkRequest q) h)"
proof -
  have "\<exists>h. run_call e c = seq checkFormatted (\<lambda>_. seq (checkRequest q) h)"
    using assms
    by (cases c)
      (simp_all add: startLogSegment_def journal_edits_def finalizeLogSegment_def prepareRecovery_def
        acceptRecovery_def checkWriteRequest_def seq_assoc, blast+)
  then show thesis using that by blast
qed

lemma checkRequest_refuses:
  assumes "on_promised plf_get s = (r, t)" "\<And>w. r = Return w \<Longrightarrow> ri_epoch q < w"
  shows "\<exists>k. checkRequest q s = (k, t) \<and> (\<forall>x. k \<noteq> Return x) \<and> (\<forall>w. r = Return w \<longrightarrow> k = Error)"
  using assms by (cases r) (auto simp: checkRequest_def seq_def prog_simps)

lemma run_call_refuses:
  assumes c: "credentials c = Some q" and "on_promised plf_get s = (r, t)" "\<And>w. r = Return w \<Longrightarrow> ri_epoch q < w"
    and run: "run_call e c s = (k, u)"
  shows "(u = s \<or> u = t) \<and> (\<forall>x. k \<noteq> Return x) \<and> ((\<forall>w. r = Return w \<longrightarrow> k = Error))"
proof -
  obtain h where h: "run_call e c = seq checkFormatted (\<lambda>_. seq (checkRequest q) h)"
    using c by (rule credentials_checked)
  from checkRequest_refuses [OF assms(2,3)] obtain k' where
    k': "checkRequest q s = (k', t)" "\<forall>x. k' \<noteq> Return x" "\<forall>w. r = Return w \<longrightarrow> k' = Error" by blast
  from run h have "seq checkFormatted (\<lambda>_. seq (checkRequest q) h) s = (k, u)" by simp
  then show ?thesis
  proof (cases rule: seq_casesE)
    case (Return x v)
    with checkFormatted_same have "v = s" by blast
    with Return(2) k' show ?thesis by (cases k') (auto simp: seq_def)
  next
    case Error
    with checkFormatted_same show ?thesis by blast
  next
    case (Stop n)
    with checkFormatted_same show ?thesis by blast
  qed
qed

text \<open>
  C2. A request whose epoch is below the promise the journal holds is refused, and nothing
  changes: not the serial number, not the segment, not a byte on disk.
\<close>

theorem stale_request_refused:
  assumes "promise_val s = Some x" "credentials c = Some q" "ri_epoch q < x"
  shows "run_call e c s = (Error, s)"
proof -
  have get: "on_promised plf_get s = (Return x, s)" using assms(1) by (rule promised.get_cached)
  obtain k u where run: "run_call e c s = (k, u)" by fastforce
  from run_call_refuses [OF assms(2) get _ run] assms(3) have "u = s" "k = Error" by auto
  with run show ?thesis by simp
qed

theorem stale_request_refused_witness:
  "run_call ex_env (Start (ex_req 1 1) 1 (-57)) ex_promised = (Error, ex_promised)"
proof (rule stale_request_refused)
  show "promise_val ex_promised = Some 2" by code_simp
  show "credentials (Start (ex_req 1 1) 1 (-57)) = Some (ex_req 1 1)" by simp
  show "ri_epoch (ex_req 1 1) < 2" by (simp add: ex_req_def)
qed

text \<open>
  Within an epoch requests are served in order: one whose serial number is not above the last one is not
  served, and nothing changes. It is not refused either. The line that logs the refusal has \<^verbatim>\<open>%s\<close> for the
  number, so a request that is repeated takes the node down.
\<close>

theorem old_serial_is_never_served:
  assumes "promise_val s = Some (ri_epoch q)" "credentials c = Some q"
    and "ri_ipcSerialNumber q \<le> currentEpochIpcSerial s" "checkFormatted s = (Return (), s)"
  shows "run_call e c s = (Stop Undefined, s)"
proof -
  obtain h where h: "run_call e c = seq checkFormatted (\<lambda>_. seq (checkRequest q) h)"
    using assms(2) by (rule credentials_checked)
  have "checkRequest q s = (Stop Undefined, s)"
    using assms(1,3) by (simp add: checkRequest_def seq_def promised.get_cached prog_simps)
  then show ?thesis
    unfolding h by (simp add: seq_def assms(4))
qed

theorem old_serial_is_never_served_witness:
  "run_call ex_env (Finalize (ex_req 2 2) 1 1) ex_written = (Stop Undefined, ex_written)"
proof (rule old_serial_is_never_served)
  show "promise_val ex_written = Some (ri_epoch (ex_req 2 2))" by code_simp
  show "credentials (Finalize (ex_req 2 2) 1 1) = Some (ex_req 2 2)" by simp
  show "ri_ipcSerialNumber (ex_req 2 2) \<le> currentEpochIpcSerial ex_written" by code_simp
  have "fst (checkFormatted ex_written) = Return ()" by code_simp
  then show "checkFormatted ex_written = (Return (), ex_written)"
    using checkFormatted_same [of ex_written] by (cases "checkFormatted ex_written") simp
qed

section \<open>Requests that come to one process\<close>










section \<open>Across crashes\<close>









end
