(* ===== verification/Durability.thy ===== *)
theory Durability
  imports Writing Fencing
begin

text \<open>
  What is on disk stays on disk: a finalized segment over the rest of the journal's life, and
  what the journal finds when it starts again.
\<close>

section \<open>Finalized segments\<close>

lemma content_holds: "wf_fs f \<Longrightarrow> content f p = Some c \<Longrightarrow> \<exists>i. holds_file p i c f"
  by (auto simp: content_def holds_file_def)

lemma undisturbed_content: "undisturbed p i c s \<Longrightarrow> content (jfs s) p = Some c"
  unfolding undisturbed_def by (blast intro: holds_file_content)

lemma sealed_undisturbed:
  assumes "cells d s" "curSegment s = None" "content (jfs s) (getFinalizedEditsFile d' a b) = Some c"
    and "scan_content c \<noteq> Return INVALID_TXID"
  obtains i where "undisturbed (getFinalizedEditsFile d' a b) i c s"
proof -
  let ?p = "getFinalizedEditsFile d' a b"
  have "wf_fs (jfs s)" using assms(1) by (simp add: cells_def)
  then obtain i where "holds_file ?p i c (jfs s)" using content_holds assms(3) by blast
  moreover have "cells_apart ?p s" using assms(1) last_finalized by (rule cells_are_apart)
  moreover have "protected ?p c" using finalized_not_scratch assms(4) by (simp add: protected_def)
  ultimately show thesis using that assms(2) by (simp add: undisturbed_def cells_apart_def)
qed

text \<open>
  C5. Transactions that were finalized are never lost. Once a writer has its segment finalized,
  the file holds the header and every transaction written, byte for byte, for the rest of the
  journal's life: whatever requests come, including recovery and new epochs, whatever system
  calls fail half way, and however often the process dies and starts again.
\<close>

theorem finalized_segment_is_never_lost:
  assumes s: "represents crc lv d n ops s" and run: "finalizeLogSegment q n e s = (Return x, t)"
    and range: "0 \<le> n" "n + int (length ops) < 2 ^ 63" "0 \<le> e" "e < 2 ^ 63 - 1" "ops \<noteq> []"
    and size: "\<forall>(t, x) \<in> set ops. int (length x) < 2 ^ 31 - 12"
      "int (8 + length (encode_ops crc ops)) < 2 ^ 32"
    and life: "life v ok t u"
  shows "content (jfs u) (getFinalizedEditsFile d n e) = Some (header lv @ encode_ops crc ops)"
proof -
  let ?c = "header lv @ encode_ops crc ops"
  have w: "cells d s" "currentDir s = d" "numbered n ops" using s by (simp_all add: represents_def)
  have wr: "writing (getInProgressEditsFile d n) ?c s" "curSegmentTxId s = n" "nextTxId s = n + int (length ops)"
    using s by (simp_all add: represents_def)
  have ln: "long_range n" "long_range (e + 1)" using range by (simp_all add: long_range_def)
  from finalize_open_segment [OF run wr(1,2) w(1,2) range(1) ln(1)] ln wr(3)
  have f: "n + int (length ops) = e + 1" "content (jfs t) (getFinalizedEditsFile d n e) = Some ?c" "curSegment t = None"
    by simp_all
  have "scan_content ?c = Return e"
    using scan_encoded [OF wf_numbered [OF w(3) range(1,2) size(1)] size(2)] last_numbered [OF w(3) range(1,5)] f(1)
    by simp
  then have "scan_content ?c \<noteq> Return INVALID_TXID" using range(3) by (simp add: INVALID_TXID_def)
  moreover have "cells d t"
    using movesD [OF cells.moves_finalizeLogSegment run] w(1) by blast
  ultimately obtain i where "undisturbed (getFinalizedEditsFile d n e) i ?c t"
    using sealed_undisturbed f(2,3) by metis
  from undisturbed_content [OF life_undisturbed [OF life this last_finalized]] show ?thesis .
qed

theorem finalized_segment_is_never_lost_witness:
  "content (jfs ex_finalized) (getFinalizedEditsFile (ex_dir @ ''/current'') 1 1)
     = Some (header (-57) @ encode_ops ex_crc [(1, ''abc'')])"
proof (rule finalized_segment_is_never_lost [OF ex_represents_written ex_finalized_run])
  show "life ex_env (\<lambda>_. True) ex_finalized ex_finalized" by (simp add: life_def)
qed (simp_all add: encode_op_def Let_def calculateSize_def)

section \<open>The segment that a new epoch reports\<close>

interpretation same_dirs: fs_order "\<lambda>f g. dirs g = dirs f"
  by unfold_locales simp_all

lemma dirs_creat: "dirs (snd (creat p f)) = dirs f"
  by (simp add: creat_def split: option.splits)

lemma same_dirs_syscalls:
  "moves (\<lambda>f g. dirs g = dirs f) (sys_open_trunc p)" "moves (\<lambda>f g. dirs g = dirs f) (sys_write i k ys)"
  using dirs_creat
  by (auto simp: sys_open_trunc_def sys_write_def store_def no_effect_def
      intro!: same_dirs.moves_syscall split: prod.splits if_splits) (metis snd_conv)

lemma same_dirs_plf:
  "moves (\<lambda>f g. dirs g = dirs f) (plf_readFile p v)" "moves (\<lambda>f g. dirs g = dirs f) (plf_writeFile p v)"
proof -
  show "moves (\<lambda>f g. dirs g = dirs f) (plf_readFile p v)"
    unfolding plf_readFile_def
    by (intro frame.moves_rules same_dirs.moves_exists same_dirs.moves_read_only)
  show "moves (\<lambda>f g. dirs g = dirs f) (plf_writeFile p v)"
    unfolding plf_writeFile_def
    by (intro frame.moves_rules same_dirs.moves_ofstream_open same_dirs.moves_ofstream_write same_dirs_syscalls)
qed

lemma same_dirs_promised:
  "moves (\<lambda>s t. dirs (jfs t) = dirs (jfs s)) (on_promised plf_get)"
  "moves (\<lambda>s t. dirs (jfs t) = dirs (jfs s)) (on_promised (plf_set v))"
proof -
  have lift: "moves (\<lambda>s t. dirs (jfs t) = dirs (jfs s)) (on_promised m)"
    if "\<And>f q r g q'. m (f, q) = (r, (g, q')) \<Longrightarrow> dirs g = dirs f" for m :: "(fs \<times> plf, 'a) prog"
    by (rule movesI) (auto simp: on_promised_def split: option.splits prod.splits dest: that)
  show "moves (\<lambda>s t. dirs (jfs t) = dirs (jfs s)) (on_promised plf_get)"
    by (rule lift) (auto elim!: plf_getE dest: movesD [OF same_dirs_plf(1)])
  show "moves (\<lambda>s t. dirs (jfs t) = dirs (jfs s)) (on_promised (plf_set v))"
    by (rule lift) (auto simp: plf_set_def prog_simps on_fst_run elim!: seq_casesE split: if_splits
        dest: movesD [OF same_dirs_plf(2)])
qed

lemma matchEditLogs_lists:
  assumes run: "matchEditLogs d f = (Return elfs, g)" and f: "ino f (d @ ''/'' @ n) = Some i"
    and n: "CHR ''/'' \<notin> set n" "matchEditLog d n = Some elf"
  shows "elf \<in> set elfs"
proof -
  from run obtain names where l: "sys_list d f = (Return names, g)" and e: "elfs = List.map_filter (matchEditLog d) names"
    unfolding matchEditLogs_def GetFilesInDirectory_def by (auto simp: prog_simps elim!: seq_ReturnE)
  have "d @ ''/'' @ n \<in> set (map fst (dents f))" using ino_in_dents [OF f] by (force simp: image_iff)
  moreover have "leaf d (d @ ''/'' @ n) = Some n" using n(1) by (simp add: leaf_def under_def Let_def)
  ultimately have "n \<in> set names" using sys_list_Return [OF l] by (force simp: List.map_filter_def)
  with n(2) e show ?thesis by (force simp: List.map_filter_def)
qed

text \<open>The scan stops at, or before, a segment with transactions.\<close>

lemma scan_latest_reaches:
  assumes "scan_latest logs f = (Return elf, g)" "list_all found logs" "x \<in> set logs"
    and "holds_file (fullFileName x) i c f" "protected (fullFileName x) c" "scan_content c \<noteq> Return INVALID_TXID"
  shows "\<exists>pre y post. logs = pre @ y # post \<and> x \<in> set (y # post) \<and>
    firstTxId elf = firstTxId y \<and> fullFileName elf = fullFileName y"
  using assms
proof (induction logs arbitrary: f)
  case (Cons h rest)
  from Cons.prems(1) obtain h' k where sc: "elf_scanLog h f = (Return h', k)"
    and tl: "(if lastTxId h' = INVALID_TXID then seq (moveAsideEmptyFile h') (\<lambda>_. scan_latest rest) else ret h') k
      = (Return elf, g)"
    by (auto elim!: seq_ReturnE)
  from elf_scanLog_Return [OF sc] obtain c' where c': "content k (fullFileName h) = Some c'"
      "scan_content c' = Return (lastTxId h')" and h': "h' = h\<lparr>lastTxId := lastTxId h', corruptHeader := False\<rparr>" .
  have names: "firstTxId h' = firstTxId h" "fullFileName h' = fullFileName h"
    using arg_cong [OF h', of firstTxId] arg_cong [OF h', of fullFileName] by simp_all
  have k: "holds_file (fullFileName x) i c k"
    using movesD [OF quiet_lookups(6) sc] Cons.prems(4,5) by (simp add: quiet_def)
  show ?case
  proof (cases "lastTxId h' = INVALID_TXID")
    case False
    with tl names have "firstTxId elf = firstTxId h" "fullFileName elf = fullFileName h" by (auto simp: prog_simps)
    with Cons.prems(3) show ?thesis by (intro exI [of _ "[]"]) auto
  next
    case True
    then have "x \<noteq> h" using c' Cons.prems(6) holds_file_content [OF k] by auto
    with Cons.prems(3) have x: "x \<in> set rest" by simp
    from tl True obtain v l where m: "moveAsideEmptyFile h' k = (Return v, l)"
      and r: "scan_latest rest l = (Return elf, g)" by (auto elim!: seq_ReturnE)
    have "quiet k l"
      by (rule quiet_moveAside_scanned [OF sc _ True m]) (use Cons.prems(2) in \<open>simp add: found_def\<close>)
    then have "holds_file (fullFileName x) i c l" using k Cons.prems(5) by (simp add: quiet_def)
    from Cons.IH [OF r _ x this Cons.prems(5,6)] Cons.prems(2) obtain pre y post where
      "rest = pre @ y # post" "x \<in> set (y # post)" "firstTxId elf = firstTxId y" "fullFileName elf = fullFileName y"
      by auto
    then show ?thesis by (intro exI [of _ "h # pre"]) auto
  qed
qed simp

end
