(* ===== verification/Recovery.thy ===== *)
theory Recovery
  imports Durability
begin

text \<open>
  Recovery as the writers use it: what a new epoch reports, and what a journal that accepted a
  segment answers to the next writer that asks.
\<close>

section \<open>The segment that a new epoch reports\<close>

lemma slash_setw0: "0 \<le> n \<Longrightarrow> CHR ''/'' \<notin> set (setw0 w (show_int n))"
proof
  assume "0 \<le> n" "CHR ''/'' \<in> set (setw0 w (show_int n))"
  with setw0_digits [OF show_int_digits, of n w] have "is_digit CHR ''/''" unfolding list_all_iff by blast
  then show False by simp
qed

lemma finalized_listed:
  assumes run: "getLogFiles d 0 f = (Return files, g)"
    and f: "ino f (getFinalizedEditsFile d a b) = Some i"
    and n: "0 \<le> a" "long_range a" "0 \<le> b" "long_range b"
  shows "mk_EditLogFile (getFinalizedEditsFile d a b) a b False \<in> set files"
proof -
  from run obtain elfs where m: "matchEditLogs d f = (Return elfs, g)"
    and files: "files = elf_sort (filter (\<lambda>it. 0 \<le> firstTxId it \<or> containsTxId it 0) elfs)"
    unfolding getLogFiles_def by (auto simp: prog_simps elim!: seq_ReturnE)
  have "mk_EditLogFile (getFinalizedEditsFile d a b) a b False \<in> set elfs"
  proof (rule matchEditLogs_lists [OF m])
    show "ino f (d @ ''/'' @ getFinalizedEditsFileName a b) = Some i"
      using f by (simp add: getFinalizedEditsFile_def)
    show "CHR ''/'' \<notin> set (getFinalizedEditsFileName a b)"
      using n by (simp add: name_defs EDITS_def slash_setw0)
    show "matchEditLog d (getFinalizedEditsFileName a b) = Some (mk_EditLogFile (getFinalizedEditsFile d a b) a b False)"
      using n by (rule matchEditLog_finalized)
  qed
  with files n show ?thesis by (simp add: elf_sort_def mk_EditLogFile_def)
qed

lemma elf_sort_sorted: "sorted (map elf_key (elf_sort xs))"
  by (simp add: elf_sort_def)

lemma elf_key_first: "elf_key x \<le> elf_key y \<Longrightarrow> firstTxId x \<le> firstTxId y"
  by (auto simp: elf_key_def less_eq_log_key_def)

lemma sorted_before:
  assumes "sorted (map elf_key files)" "rev files = pre @ y # post" "x \<in> set (y # post)"
  shows "firstTxId x \<le> firstTxId y"
proof -
  have "files = rev post @ y # rev pre" using assms(2) by (simp add: rev_swap)
  with assms(1) have "\<forall>z \<in> set post. elf_key z \<le> elf_key y" by (simp add: sorted_append)
  with assms(3) show ?thesis by (auto intro: elf_key_first)
qed

lemma scan_finds_at_least:
  assumes run: "scanStorageForLatestEdits s = (Return elf, t)" and dir: "currentDir s = d" "is_dir (jfs s) d"
    and f: "content (jfs s) (getFinalizedEditsFile d a b) = Some c" "wf_fs (jfs s)"
    and c: "scan_content c \<noteq> Return INVALID_TXID"
    and n: "0 \<le> a" "long_range a" "0 \<le> b" "long_range b"
  shows "isInitialized elf \<and> a \<le> firstTxId elf"
proof -
  let ?p = "getFinalizedEditsFile d a b" and ?x = "mk_EditLogFile (getFinalizedEditsFile d a b) a b False"
  from run dir(1) obtain h s1 where 1: "on_fs (dir_exists d) s = (Return h, s1)"
    and r1: "(if \<not> h then ret no_EditLogFile
       else seq (on_fs (getLogFiles d 0)) (\<lambda>files. on_fs (scan_latest (rev files)))) s1 = (Return elf, t)"
    unfolding scanStorageForLatestEdits_def by (auto simp: prog_simps elim!: seq_ReturnE)
  from 1 have x1: "dir_exists d (jfs s) = (Return h, jfs s1)" by (auto simp: on_fs_run)
  with dir(2) have h: h
    by (auto simp: dir_exists_def sys_is_directory_def syscall_def is_dir_def no_effect_def
        split: list.splits fault.splits)
  with r1 have "seq (on_fs (getLogFiles d 0)) (\<lambda>files. on_fs (scan_latest (rev files))) s1 = (Return elf, t)"
    by simp
  then obtain files s2 where s2: "on_fs (getLogFiles d 0) s1 = (Return files, s2)"
      "on_fs (scan_latest (rev files)) s2 = (Return elf, t)"
    by (rule seq_ReturnE)
  then have 2: "getLogFiles d 0 (jfs s1) = (Return files, jfs s2)"
    and 3: "scan_latest (rev files) (jfs s2) = (Return elf, jfs t)"
    by (auto simp: on_fs_run)
  from contentE [OF f] obtain i where i: "holds_file ?p i c (jfs s)" .
  have p: "protected ?p c" using finalized_not_scratch c by (simp add: protected_def)
  have i1: "holds_file ?p i c (jfs s1)"
    using movesD [OF quiet.moves_exists(2) x1] i p by (simp add: quiet_def)
  have i2: "holds_file ?p i c (jfs s2)"
    using movesD [OF quiet_lookups(3) 2] i1 p by (simp add: quiet_def)
  have x: "?x \<in> set files"
    using finalized_listed [OF 2 _ n] i1 by (simp add: holds_file_def)
  have found: "list_all found (rev files)" using getLogFiles_found [OF 2] by (simp add: list_all_iff)
  have px: "fullFileName ?x = ?p" by (simp add: mk_EditLogFile_def)
  from scan_latest_reaches [OF 3 found, of ?x i c] x i2 p c px obtain pre y post
    where y: "rev files = pre @ y # post" "?x \<in> set (y # post)" "firstTxId elf = firstTxId y"
      "fullFileName elf = fullFileName y" by auto
  have "sorted (map elf_key files)"
    using 2 unfolding getLogFiles_def by (auto simp: prog_simps elf_sort_sorted elim!: seq_ReturnE)
  from sorted_before [OF this y(1,2)] have "a \<le> firstTxId y" by (simp add: mk_EditLogFile_def)
  moreover from found y(1) have "fullFileName y \<noteq> []" by (simp add: found_def)
  ultimately show ?thesis using y(3,4) by (simp add: isInitialized_def)
qed

lemma aside_promise: "moves (aside p) getLastPromisedEpoch"
  unfolding getLastPromisedEpoch_def by (intro aside.moves_rules aside_cells aside_checks)

lemma aside_update: "moves (aside p) (updateLastPromisedEpoch n)"
  unfolding updateLastPromisedEpoch_def
  by (intro aside.moves_rules aside_cells aside.moves_modify aside_serial)

lemma dirs_epochs:
  "moves (\<lambda>s t. dirs (jfs t) = dirs (jfs s)) getLastPromisedEpoch"
  "moves (\<lambda>s t. dirs (jfs t) = dirs (jfs s)) (updateLastPromisedEpoch n)"
proof -
  show "moves (\<lambda>s t. dirs (jfs t) = dirs (jfs s)) getLastPromisedEpoch"
    unfolding getLastPromisedEpoch_def checkFormatted_def
    by (intro frame.moves_rules same_dirs_promised)
  show "moves (\<lambda>s t. dirs (jfs t) = dirs (jfs s)) (updateLastPromisedEpoch n)"
    unfolding updateLastPromisedEpoch_def
    by (intro frame.moves_rules same_dirs_promised movesI) (auto simp: modify_def)
qed

text \<open>What is left of \<open>newEpoch\<close> when the promise is made.\<close>

lemma newEpoch_Return:
  assumes run: "newEpoch ns n s = (Return r, t)"
  obtains s1 elf where "currentDir s1 = currentDir s" "cells_apart p s \<longrightarrow> beside p (jfs s) (jfs s1)" "dirs (jfs s1) = dirs (jfs s)"
    "scanStorageForLatestEdits s1 = (Return elf, t)"
    "r = (if isInitialized elf then Some (u64 (firstTxId elf)) else None)"
proof -
  from run obtain l s2 s3 s4 elf where 1: "getLastPromisedEpoch s = (Return l, s2)"
    and 2: "updateLastPromisedEpoch n s2 = (Return (), s3)" and 3: "abortCurSegment s3 = (Return (), s4)"
    and 4: "scanStorageForLatestEdits s4 = (Return elf, t)"
    and r: "r = (if isInitialized elf then Some (u64 (firstTxId elf)) else None)"
    unfolding newEpoch_def
    by (auto simp: prog_simps elim!: seq_ReturnE split: if_splits dest!: checkFormatted_same)
  have a1: "aside p s s2"
    using movesD [OF aside_promise 1] .
  have a2: "aside p s2 s3"
    using movesD [OF aside_update 2] .
  have a: "aside p s s3" using a1 a2 by (rule aside.step_trans)
  note ab = abortCurSegment_run [OF 3]
  have d1: "dirs (jfs s2) = dirs (jfs s)"
    using movesD [OF dirs_epochs(1) 1] .
  have d2: "dirs (jfs s3) = dirs (jfs s2)"
    using movesD [OF dirs_epochs(2) 2] .
  show thesis
  proof (rule that [OF _ _ _ 4 r])
    show "currentDir s4 = currentDir s" using a ab by (simp add: aside_def currentDir_def)
    show "cells_apart p s \<longrightarrow> beside p (jfs s) (jfs s4)" using a ab by (simp add: aside_def)
    show "dirs (jfs s4) = dirs (jfs s)" using d1 d2 ab by simp
  qed
qed

lemma finalized_apart: "cells d s \<Longrightarrow> cells_apart (getFinalizedEditsFile d' a b) s"
  using last_finalized by (simp add: cells_are_apart)

text \<open>
  C10. A new writer is told where to recover. When \<open>newEpoch\<close> answers a writer, the segment it
  reports starts at or behind every finalized segment with transactions in it that the journal
  has: no faults, and no other files in the directory, can make it report an earlier one or none.
\<close>

theorem newEpoch_reports_the_last_segment:
  assumes s: "cells d s" "currentDir s = d" "is_dir (jfs s) d" and run: "newEpoch ns n s = (Return r, t)"
    and f: "content (jfs s) (getFinalizedEditsFile d a b) = Some c" "scan_content c \<noteq> Return INVALID_TXID"
    and ids: "0 \<le> a" "long_range a" "0 \<le> b" "long_range b"
  shows "\<exists>k \<ge> a. r = Some (u64 k)"
proof -
  let ?p = "getFinalizedEditsFile d a b"
  from newEpoch_Return [OF run, of ?p] obtain s1 elf where 1: "currentDir s1 = currentDir s"
      "cells_apart ?p s \<longrightarrow> beside ?p (jfs s) (jfs s1)" "dirs (jfs s1) = dirs (jfs s)"
      "scanStorageForLatestEdits s1 = (Return elf, t)"
      "r = (if isInitialized elf then Some (u64 (firstTxId elf)) else None)" .
  have "wf_fs (jfs s)" using s(1) by (simp add: cells_def)
  with f(1) obtain i where "holds_file ?p i c (jfs s)" by (rule contentE)
  with 1(2) finalized_apart [OF s(1)] have h: "holds_file ?p i c (jfs s1)" by (simp add: beside_def)
  have "isInitialized elf \<and> a \<le> firstTxId elf"
    using scan_finds_at_least [OF 1(4) _ _ holds_file_content [OF h] _ f(2) ids] h s 1(1,3)
    by (simp add: is_dir_def holds_file_def)
  with 1(5) show ?thesis by auto
qed

text \<open>A journal that has just been opened, on the given files.\<close>

definition ex_with :: "(string \<times> string) list \<Rightarrow> fault list \<Rightarrow> journal" where
  "ex_with files script = (let d = ex_dir @ ''/current'' in \<lparr>
     jfs = \<lparr>dents = zip (map fst files) [0..<length files],
            data = (\<lambda>i. if i < length files then snd (files ! i) else []), next_ino = length files,
            dirs = [ex_dir, d, d @ ''/paxos''], fds = [0, 1, 2], faults = script\<rparr>,
     storage = \<lparr>layoutVersion = -57, clusterID = ''c'', namespaceID = 7, cTime = 0, st_logDir = ex_dir,
                st_currentDir = d, st_state = Some NORMAL, st_lockFileFD = 3, st_initialized = True\<rparr>,
     curSegment = None, curSegmentTxId = INVALID_TXID, nextTxId = INVALID_TXID, highestWrittenTxId = 0,
     currentEpochIpcSerial = -1, lastPromisedEpoch = Some (mk_plf (d @ ''/'' @ ''last-promised-epoch'') 0),
     lastWriterEpoch = Some (mk_plf (d @ ''/'' @ ''last-writer-epoch'') 0),
     committedTxnId = Some (mk_belf (d @ ''/'' @ ''committed-txid'') INVALID_TXID),
     currentInProgress = [], j_initialized = True\<rparr>)"

lemma ex_with_cells:
  assumes "distinct (map fst files)"
  shows "cells (ex_dir @ ''/current'') (ex_with files script)"
  using assms by (auto simp: ex_with_def Let_def cells_def wf_fs_def mk_plf_def mk_belf_def closed_stream_def
      dest: set_zip_rightD)

lemma ex_with_parts:
  "currentDir (ex_with files script) = ex_dir @ ''/current''"
  "st_currentDir (storage (ex_with files script)) = ex_dir @ ''/current''"
  "dirs (jfs (ex_with files script)) = [ex_dir, ex_dir @ ''/current'', (ex_dir @ ''/current'') @ ''/paxos'']"
  "faults (jfs (ex_with files script)) = script"
  by (simp_all add: ex_with_def Let_def currentDir_def)

definition ex_sealed :: journal where
  "ex_sealed = ex_with [(getFinalizedEditsFile (ex_dir @ ''/current'') 1 1, ex_segment)] []"

lemma ex_sealed_state:
  "cells (ex_dir @ ''/current'') ex_sealed" "currentDir ex_sealed = ex_dir @ ''/current''"
  "is_dir (jfs ex_sealed) (ex_dir @ ''/current'')"
  "content (jfs ex_sealed) (getFinalizedEditsFile (ex_dir @ ''/current'') 1 1) = Some ex_segment"
  by (simp_all add: ex_sealed_def ex_with_cells ex_with_parts is_dir_def)
    (simp add: ex_with_def Let_def content_def ino_def)

lemma ex_segment_scan: "scan_content ex_segment = Return 1" by code_simp

lemma ex_sealed_run: "newEpoch ex_ns 3 ex_sealed = (Return (Some 1), snd (newEpoch ex_ns 3 ex_sealed))"
  by (rule run_snd) code_simp

theorem newEpoch_reports_the_last_segment_witness: "\<exists>k \<ge> 1. Some (1::int) = Some (u64 k)"
  using newEpoch_reports_the_last_segment [OF ex_sealed_state(1,2,3) ex_sealed_run ex_sealed_state(4)]
  by (simp add: ex_segment_scan INVALID_TXID_def long_range_def)

section \<open>A decision on disk\<close>

lemma paxos_file_digit: "is_digit (last (getPaxosFile st n))"
  by (simp add: getPaxosFile_def last_show_int)

lemma paxos_apart: "cells d s \<Longrightarrow> cells_apart (getPaxosFile st n) s"
  using paxos_file_digit by (simp add: cells_are_apart)

lemma file_exists_same: "file_exists q f = (r, g) \<Longrightarrow> dents g = dents f \<and> data g = data f"
  by (auto simp: file_exists_def sys_is_regular_def syscall_def no_effect_def
      split: list.splits fault.splits)

lemma getPersistedPaxosData_reads:
  assumes run: "getPersistedPaxosData e n s = (Return r, t)"
    and p: "content (jfs s) (getPaxosFile (storage s) n) = Some c" "pb_parse e c = Some pd"
  shows "r = Some pd \<and> ss_startTxId (pd_segmentState pd) = u64 n"
proof -
  let ?p = "getPaxosFile (storage s) n"
  from run obtain b s1 where 1: "on_fs (file_exists ?p) s = (Return b, s1)"
    and r1: "(if \<not> b then ret None
        else seq (on_fs (sys_read ?p)) (\<lambda>c.
          case pb_parse e c of
            None \<Rightarrow> halt Aborted
          | Some tempPaxosData \<Rightarrow>
              if ss_startTxId (pd_segmentState tempPaxosData) \<noteq> u64 n then halt Aborted
              else ret (Some tempPaxosData))) s1 = (Return r, t)"
    unfolding getPersistedPaxosData_def by (auto simp: prog_simps Let_def elim!: seq_ReturnE)
  from 1 have x: "file_exists ?p (jfs s) = (Return b, jfs s1)" by (auto simp: on_fs_run)
  have same: "content (jfs s1) ?p = Some c"
    using file_exists_same [OF x] p(1) by (simp add: content_def ino_def)
  then have b using file_exists_Return [OF x] by (auto simp: is_file_def content_def)
  with r1 obtain c' s2 where 2: "on_fs (sys_read ?p) s1 = (Return c', s2)"
    and r2: "(case pb_parse e c' of None \<Rightarrow> halt Aborted
          | Some tempPaxosData \<Rightarrow>
              if ss_startTxId (pd_segmentState tempPaxosData) \<noteq> u64 n then halt Aborted
              else ret (Some tempPaxosData)) s2 = (Return r, t)"
    by (auto elim!: seq_ReturnE)
  from 2 have "sys_read ?p (jfs s1) = (Return c', jfs s2)" by (auto simp: on_fs_run)
  with same have "c' = c"
    by (auto simp: sys_read_def syscall_def content_def ino_def split: list.splits fault.splits)
  with r2 p(2) show ?thesis by (auto simp: prog_simps split: if_splits)
qed

text \<open>What \<open>prepareRecovery\<close> reports, of a decision and of the segment on disk.\<close>

definition reported :: "PaxosData option \<Rightarrow> SegmentState option \<Rightarrow> (journal, SegmentState option \<times> int option) prog" where
  "reported r ssp = (case r of
      Some pd \<Rightarrow>
        if \<not> (ssp \<noteq> None \<and> \<not> ss_isInProgress (case ssp of None \<Rightarrow> default_SegmentState | Some s \<Rightarrow> s))
        then if ss_endTxId (pd_segmentState pd) \<noteq> ss_endTxId (case ssp of None \<Rightarrow> default_SegmentState | Some s \<Rightarrow> s)
             then halt Aborted
             else ret (Some (pd_segmentState pd), Some (pd_acceptedInEpoch pd))
        else ret (ssp, None)
    | None \<Rightarrow> ret (ssp, None))"

text \<open>
  C9. What a journal has accepted is what it reports. Where a decision on a segment is on
  disk, every answer to \<open>prepareRecovery\<close> for that segment reports the accepted state and the epoch it
  was accepted in, or else a segment that is already finalized, and then without an epoch.
\<close>

theorem accepted_segment_is_reported:
  assumes s: "cells d s" and run: "prepareRecovery e q n s = (Return rsp, t)"
    and p: "content (jfs s) (getPaxosFile (storage s) n) = Some c" "pb_parse e c = Some pd"
  shows "ss_startTxId (pd_segmentState pd) = u64 n \<and>
    (pr_segmentState rsp = Some (pd_segmentState pd) \<and> pr_acceptedInEpoch rsp = Some (pd_acceptedInEpoch pd) \<or>
     (\<exists>seg. pr_segmentState rsp = Some seg \<and> \<not> ss_isInProgress seg) \<and> pr_acceptedInEpoch rsp = None)"
proof -
  let ?p = "getPaxosFile (storage s) n"
  obtain s1 s2 r s3 s4 ssp s5 s6 where
    1: "checkRequest q s = (Return (), s1)" "abortCurSegment s1 = (Return (), s2)"
      "getPersistedPaxosData e n s2 = (Return r, s3)"
    and 2: "reported r ssp s5 = (Return (pr_segmentState rsp, pr_acceptedInEpoch rsp), s6)"
    using seq_checkFormatted [OF run [unfolded prepareRecovery_def]]
    unfolding Let_def reported_def [symmetric]
    by (elim exE conjE seq_ReturnE) (auto simp: prog_simps elim!: seq_ReturnE)
  have a: "aside ?p s s1" using movesD [OF aside_checks(2) 1(1)] .
  with paxos_apart [OF s] have b: "beside ?p (jfs s) (jfs s1)" by (simp add: aside_def)
  have st: "storage s2 = storage s" "jfs s2 = jfs s1"
    using a abortCurSegment_run [OF 1(2)] by (simp_all add: aside_def)
  obtain i where "holds_file ?p i c (jfs s)"
    using contentE [OF p(1)] s by (auto simp: cells_def)
  with b st have "content (jfs s2) (getPaxosFile (storage s2) n) = Some c"
    by (auto simp: beside_def dest: holds_file_content)
  from getPersistedPaxosData_reads [OF 1(3) this p(2)]
  have r: "r = Some pd" "ss_startTxId (pd_segmentState pd) = u64 n" by simp_all
  with 2 show ?thesis by (auto simp: reported_def prog_simps split: if_splits option.splits)
qed

definition ex_decided :: journal where
  "ex_decided = ex_with [(getInProgressEditsFile (ex_dir @ ''/current'') 1, ex_segment),
     (ex_dir @ ''/current/paxos/1'', ''paxos'')] []"

lemma ex_decided_state:
  "cells (ex_dir @ ''/current'') ex_decided"
  "content (jfs ex_decided) (getPaxosFile (storage ex_decided) 1) = Some ''paxos''"
proof -
  show "cells (ex_dir @ ''/current'') ex_decided"
    unfolding ex_decided_def by (rule ex_with_cells) code_simp
  show "content (jfs ex_decided) (getPaxosFile (storage ex_decided) 1) = Some ''paxos''" by code_simp
qed

lemma ex_decided_run:
  "prepareRecovery ex_env (ex_req 3 1) 1 ex_decided = (Return \<lparr>pr_segmentState = Some (pd_segmentState ex_paxos),
     pr_acceptedInEpoch = Some 2, pr_lastWriterEpoch = 0, pr_lastCommittedTxId = None\<rparr>,
   snd (prepareRecovery ex_env (ex_req 3 1) 1 ex_decided))"
  by (rule run_snd) code_simp

theorem accepted_segment_is_reported_witness:
  "ss_startTxId (pd_segmentState ex_paxos) = u64 1 \<and>
    (Some (pd_segmentState ex_paxos) = Some (pd_segmentState ex_paxos) \<and> Some (2::int) = Some (pd_acceptedInEpoch ex_paxos) \<or>
     (\<exists>seg. Some (pd_segmentState ex_paxos) = Some seg \<and> \<not> ss_isInProgress seg) \<and> Some (2::int) = None)"
  using accepted_segment_is_reported [OF ex_decided_state(1) ex_decided_run ex_decided_state(2), of ex_paxos]
  by (simp add: ex_env_def)

end
