(* ===== verification/Acceptance.thy ===== *)
theory Acceptance
  imports Recovery
begin

text \<open>
  \<open>acceptRecovery\<close> takes two steps that its comments ask to be one: it downloads the segment,
  and it records the decision. Here: at whatever system call the process dies, the disk shows
  one of the two states, and \<open>prepareRecovery\<close> finishes what was left half done.
\<close>

section \<open>What holds at every exit of a program\<close>

text \<open>\<open>Q\<close> when it returns, \<open>E\<close> when it fails or the process ends in it.\<close>

definition ends :: "('s \<Rightarrow> bool) \<Rightarrow> ('s, 'a) prog \<Rightarrow> ('a \<Rightarrow> 's \<Rightarrow> bool) \<Rightarrow> ('s \<Rightarrow> bool) \<Rightarrow> bool" where
  "ends P m Q E \<longleftrightarrow> (\<forall>s r t. P s \<longrightarrow> m s = (r, t) \<longrightarrow> (case r of Return x \<Rightarrow> Q x t | _ \<Rightarrow> E t))"

lemma endsI: "(\<And>s r t. P s \<Longrightarrow> m s = (r, t) \<Longrightarrow> case r of Return x \<Rightarrow> Q x t | _ \<Rightarrow> E t) \<Longrightarrow> ends P m Q E"
  by (simp add: ends_def)

lemma endsD: "ends P m Q E \<Longrightarrow> P s \<Longrightarrow> m s = (r, t) \<Longrightarrow> case r of Return x \<Rightarrow> Q x t | _ \<Rightarrow> E t"
  by (simp add: ends_def)

lemma ends_conseq:
  "ends P' m Q' E' \<Longrightarrow> (\<And>s. P s \<Longrightarrow> P' s) \<Longrightarrow> (\<And>x s. Q' x s \<Longrightarrow> Q x s) \<Longrightarrow> (\<And>s. E' s \<Longrightarrow> E s) \<Longrightarrow> ends P m Q E"
  unfolding ends_def by (fastforce split: result.splits)

lemma ends_seq:
  assumes m: "ends P m Q' E" and f: "\<And>x. ends (Q' x) (f x) Q E"
  shows "ends P (seq m f) Q E"
proof (rule endsI)
  fix s r t
  assume "P s" "seq m f s = (r, t)"
  from this(2) show "case r of Return x \<Rightarrow> Q x t | _ \<Rightarrow> E t"
  proof (cases rule: seq_casesE)
    case (Return x u)
    then show ?thesis using endsD [OF m \<open>P s\<close> Return(1)] endsD [OF f _ Return(2)] by simp
  next
    case Error
    then show ?thesis using endsD [OF m \<open>P s\<close> Error(1)] by simp
  next
    case (Stop k)
    then show ?thesis using endsD [OF m \<open>P s\<close> Stop(1)] by simp
  qed
qed

lemma ends_ret: "(\<And>s. P s \<Longrightarrow> Q x s) \<Longrightarrow> ends P (ret x) Q E"
  by (simp add: ends_def prog_simps)

lemma ends_stop: "(\<And>s. P s \<Longrightarrow> E s) \<Longrightarrow> ends P err Q E" "(\<And>s. P s \<Longrightarrow> E s) \<Longrightarrow> ends P (halt k) Q E"
  by (simp_all add: ends_def prog_simps)

lemma ends_gets: "(\<And>s. P s \<Longrightarrow> Q (f s) s) \<Longrightarrow> ends P (gets f) Q E"
  by (simp add: ends_def prog_simps)

lemma ends_modify: "(\<And>s. P s \<Longrightarrow> Q () (f s)) \<Longrightarrow> ends P (modify f) Q E"
  by (simp add: ends_def prog_simps)

lemma ends_if: "(b \<Longrightarrow> ends P m Q E) \<Longrightarrow> (\<not> b \<Longrightarrow> ends P n Q E) \<Longrightarrow> ends P (if b then m else n) Q E"
  by simp

lemma ends_attempt:
  assumes m: "ends P m (\<lambda>x. Q (Some x)) (\<lambda>t. Q None t \<and> E t)"
  shows "ends P (attempt m) Q E"
proof (rule endsI)
  fix s r t
  assume "P s" "attempt m s = (r, t)"
  then show "case r of Return x \<Rightarrow> Q x t | _ \<Rightarrow> E t"
    using endsD [OF m, of s]
    by (auto simp: attempt_def split: prod.splits result.splits)
qed

lemma ends_kept: "moves (\<lambda>s t. P s \<longrightarrow> P t) m \<Longrightarrow> ends P m (\<lambda>_. P) P"
  by (auto simp: ends_def dest: movesD split: result.splits)

lemma ends_fact: "(b \<Longrightarrow> ends P m Q E) \<Longrightarrow> ends (\<lambda>s. P s \<and> b) m Q E"
  unfolding ends_def by blast

section \<open>Files that stay, in a process that can only die\<close>

fun fatal_only :: "fault \<Rightarrow> bool" where
  "fatal_only (Faulty n) = False"
| "fatal_only f = True"

definition steady :: "string list \<Rightarrow> (string \<times> string option) list \<Rightarrow> fs \<Rightarrow> bool" where
  "steady D ps f \<longleftrightarrow> wf_fs f \<and> list_all fatal_only (faults f) \<and> dirs f = D \<and> (\<forall>e \<in> set ps. content f (fst e) = snd e)"

lemma steady_subset: "steady D ps f \<Longrightarrow> set qs \<subseteq> set ps \<Longrightarrow> steady D qs f"
  by (auto simp: steady_def)

lemma steady_content: "steady D ps f \<Longrightarrow> (p, c) \<in> set ps \<Longrightarrow> content f p = c"
  by (force simp: steady_def)

lemma steady_Cons: "steady D ((p, c) # ps) f \<longleftrightarrow> content f p = c \<and> steady D ps f"
  by (auto simp: steady_def)

lemma steady_step:
  assumes f: "steady D ps f" and g: "dirs g = dirs f" "wf_fs g" "set (faults g) \<subseteq> set (faults f)"
    and b: "\<And>p. p \<in> fst ` set ps \<Longrightarrow> beside p f g"
  shows "steady D ps g"
proof -
  have "content g (fst e) = snd e" if "e \<in> set ps" for e
    using content_beside [OF b [of "fst e"]] f that by (simp add: steady_def)
  with f g show ?thesis by (auto simp: steady_def list_all_iff)
qed

lemma steady_moves:
  assumes "moves (\<lambda>f g. dirs g = dirs f) m" "\<And>p. p \<in> fst ` set ps \<Longrightarrow> moves (beside p) m"
    "moves (\<lambda>f g. wf_fs f \<longrightarrow> wf_fs g) m" "moves (\<lambda>f g. set (faults g) \<subseteq> set (faults f)) m"
  shows "moves (\<lambda>f g. steady D ps f \<longrightarrow> steady D ps g) m"
proof (rule movesI, rule impI)
  fix f r g
  assume f: "steady D ps f" and run: "m f = (r, g)"
  show "steady D ps g"
    using steady_step [OF f] movesD [OF assms(1) run] movesD [OF assms(2) run]
      movesD [OF assms(3) run] movesD [OF assms(4) run] f by (simp add: steady_def)
qed

lemma steady_read_only:
  "moves (\<lambda>f g. steady D ps f \<longrightarrow> steady D ps g) (sys_read q)"
  "moves (\<lambda>f g. steady D ps f \<longrightarrow> steady D ps g) (file_exists q)"
  "moves (\<lambda>f g. steady D ps f \<longrightarrow> steady D ps g) (sys_list q)"
  by (intro steady_moves same_dirs.moves_read_only beside.moves_read_only wf.moves_read_only
      spent.moves_read_only same_dirs.moves_exists beside.moves_exists wf.moves_exists spent.moves_exists)+

lemma same_dirs_names:
  "moves (\<lambda>f g. dirs g = dirs f) (sys_remove q)" "moves (\<lambda>f g. dirs g = dirs f) (sys_rename a b)"
  by (auto simp: sys_remove_def sys_rename_def no_effect_def intro!: same_dirs.moves_syscall)

lemma beside_names:
  "q \<noteq> p \<Longrightarrow> moves (beside p) (sys_remove q)"
  "a \<noteq> p \<Longrightarrow> b \<noteq> p \<Longrightarrow> moves (beside p) (sys_rename a b)"
  by (intro besideI wf_syscalls spent_syscalls named_syscalls held_syscalls; simp)+

lemma steady_remove:
  "q \<notin> fst ` set ps \<Longrightarrow> moves (\<lambda>f g. steady D ps f \<longrightarrow> steady D ps g) (sys_remove q)"
  by (intro steady_moves same_dirs_names beside_names wf_syscalls spent_syscalls) auto

lemma steady_rename:
  "a \<notin> fst ` set ps \<Longrightarrow> b \<notin> fst ` set ps \<Longrightarrow> moves (\<lambda>f g. steady D ps f \<longrightarrow> steady D ps g) (sys_rename a b)"
  by (intro steady_moves same_dirs_names beside_names wf_syscalls spent_syscalls) auto

text \<open>A file that can be made.\<close>

definition creatable :: "string list \<Rightarrow> string \<Rightarrow> bool" where
  "creatable D q \<longleftrightarrow> q \<notin> set D \<and> (parent q = [] \<or> parent q \<in> set D)"

definition fresh_stream :: "string \<Rightarrow> ofstream \<Rightarrow> fs \<Rightarrow> bool" where
  "fresh_stream q os f \<longleftrightarrow> (\<exists>i. os = \<lparr>os_ino = Some i, os_pos = 0, os_fail = False\<rparr> \<and> holds_file q i [] f)"

lemma fatal_only_call:
  assumes run: "syscall good part f = (r, g)" and only: "list_all fatal_only (faults f)"
  shows "(\<exists>k. good (f\<lparr>faults := k\<rparr>) = (r, g)) \<or> (\<exists>n k. r = Stop Killed \<and> g = part n (f\<lparr>faults := k\<rparr>))"
proof (cases "faults f")
  case Nil
  then have "f\<lparr>faults := []\<rparr> = f" by (cases f) simp
  moreover have "good f = (r, g)" using Nil run by (simp add: syscall_def)
  ultimately have "good (f\<lparr>faults := []\<rparr>) = (r, g)" by (simp only:)
  then show ?thesis by blast
next
  case (Cons x k)
  then show ?thesis using assms by (cases x) (auto simp: syscall_def)
qed

lemma steady_open:
  assumes q: "q \<notin> fst ` set ps" "creatable D q"
  shows "ends (steady D ps) (ofstream_open q) (\<lambda>os f. steady D ps f \<and> fresh_stream q os f) (steady D ps)"
proof (rule endsI)
  fix f r g
  assume f: "steady D ps f" and run: "ofstream_open q f = (r, g)"
  have "moves (\<lambda>f g. steady D ps f \<longrightarrow> steady D ps g) (ofstream_open q)"
    using q(1) by (intro steady_moves same_dirs.moves_ofstream_open same_dirs_syscalls beside_open
        wf.moves_ofstream_open spent.moves_ofstream_open wf_syscalls spent_syscalls) auto
  from movesD [OF this run] f have g: "steady D ps g" by blast
  show "case r of Return x \<Rightarrow> steady D ps g \<and> fresh_stream q x g | _ \<Rightarrow> steady D ps g"
  proof (cases r)
    case (Return os)
    obtain r' where o: "sys_open_trunc q f = (r', g)"
      and os: "Return os = (case r' of Return i \<Rightarrow> Return \<lparr>os_ino = Some i, os_pos = 0, os_fail = False\<rparr>
        | Error \<Rightarrow> Return \<lparr>os_ino = None, os_pos = 0, os_fail = True\<rparr> | Stop k \<Rightarrow> Stop k)"
      using run Return unfolding ofstream_open_def
      by (auto simp: seq_def attempt_def ret_def split: prod.splits result.splits)
    have "list_all fatal_only (faults f)" using f by (simp add: steady_def)
    note call = fatal_only_call [OF o [unfolded sys_open_trunc_def] this]
    have "can_create (f\<lparr>faults := k\<rparr>) q" for k
      using f q(2) by (simp add: can_create_def creatable_def is_dir_def steady_def)
    with call os obtain i where "r' = Return i" by (cases r') (auto split: prod.splits)
    with o os have "fresh_stream q os g"
      using sys_open_trunc_outcome [OF o] g
      by (auto simp: fresh_stream_def holds_file_def steady_def content_def)
    with g Return show ?thesis by simp
  qed (use g in simp_all)
qed

lemma steady_write:
  assumes q: "q \<notin> fst ` set ps"
  shows "ends (\<lambda>f. steady D ps f \<and> fresh_stream q os f) (ofstream_write os ys)
    (\<lambda>_. steady D ((q, Some ys) # ps)) (steady D ps)"
proof (rule endsI)
  fix f r g
  assume f: "steady D ps f \<and> fresh_stream q os f" and run: "ofstream_write os ys f = (r, g)"
  from f obtain i where os: "os = \<lparr>os_ino = Some i, os_pos = 0, os_fail = False\<rparr>" "holds_file q i [] f"
    by (auto simp: fresh_stream_def)
  have b: "beside p f g" if "p \<in> fst ` set ps" for p
    using q that os ino_unique [of f p i q] ino_less [of f q i]
    by (intro beside_write [OF _ run]) (auto simp: apart_def holds_file_def)
  have g: "steady D ps g"
    using steady_step [of D ps f g] f b
      movesD [OF wf.moves_ofstream_write [OF wf_syscalls(2)] run]
      movesD [OF spent.moves_ofstream_write [OF spent_syscalls(2)] run]
      movesD [OF same_dirs.moves_ofstream_write [OF same_dirs_syscalls(2)] run]
    by (simp add: steady_def)
  show "case r of Return x \<Rightarrow> steady D ((q, Some ys) # ps) g | _ \<Rightarrow> steady D ps g"
  proof (cases r)
    case (Return os')
    obtain r' where w: "sys_write i 0 ys f = (r', g)" "r' = Return () \<or> r' = Error"
      using run Return os(1)
      by (auto simp: ofstream_write_def seq_def attempt_def ret_def split: prod.splits result.splits)
    have "list_all fatal_only (faults f)" using f by (simp add: steady_def)
    from fatal_only_call [OF w(1) [unfolded sys_write_def] this] w(2)
    obtain k where "g = store i 0 ys (f\<lparr>faults := k\<rparr>)" by auto
    then have "data g i = overwrite [] 0 ys \<and> ino g q = Some i"
      using os(2) by (simp add: store_def holds_file_def ino_def)
    then have "content g q = Some ys" by (simp add: content_def overwrite_def)
    with g Return show ?thesis by (simp add: steady_Cons)
  qed (use g in simp_all)
qed

lemma steady_rename_to:
  assumes "a \<noteq> b" "a \<notin> fst ` set ps" "b \<notin> fst ` set ps"
  shows "ends (steady D ((a, Some c) # (b, x) # ps)) (file_rename a b) (\<lambda>_. steady D ((b, Some c) # ps))
    (steady D ((a, Some c) # (b, x) # ps))"
proof (rule endsI)
  fix f r g
  assume f: "steady D ((a, Some c) # (b, x) # ps) f" and run: "file_rename a b f = (r, g)"
  have f': "steady D ps f" "content f a = Some c" "content f b = x" using f by (simp_all add: steady_Cons)
  have g: "steady D ps g"
    using movesD [OF steady_rename [OF assms(2,3)] run [unfolded file_rename_def]] f' by blast
  have l: "list_all fatal_only (faults f)" using f' by (simp add: steady_def)
  have same: "content g a = Some c \<and> content g b = x" if "r \<noteq> Return ()"
    using fatal_only_call [OF run [unfolded file_rename_def sys_rename_def] l] that f'(2,3)
    by (auto simp: no_effect_def content_def ino_def split: if_splits)
  show "case r of Return _ \<Rightarrow> steady D ((b, Some c) # ps) g | _ \<Rightarrow> steady D ((a, Some c) # (b, x) # ps) g"
  proof (cases r)
    case (Return u)
    then have "file_rename a b f = (Return (), g)" using run by simp
    moreover obtain i where "ino f a = Some i" "data f i = c" using f'(2) by (auto simp: content_def)
    ultimately have "content g b = Some c" using file_rename_moves assms(1) by (fastforce simp: content_def)
    with g Return show ?thesis by (simp add: steady_Cons)
  qed (use g same in \<open>simp_all add: steady_Cons\<close>)
qed

lemma steady_replace:
  assumes "a \<noteq> b" "a \<notin> fst ` set ps" "b \<notin> fst ` set ps"
  shows "ends (steady D ((a, Some c) # ps)) (replaceFile a b) (\<lambda>_. steady D ((b, Some c) # ps))
    (steady D ((a, Some c) # ps))"
proof -
  let ?P = "steady D ((a, Some c) # ps)"
  have "moves (\<lambda>f g. ?P f \<longrightarrow> ?P g) (sys_remove b)" using assms by (intro steady_remove) auto
  moreover have "moves (\<lambda>f g. ?P f \<longrightarrow> ?P g) (file_exists q)" for q by (rule steady_read_only)
  ultimately have loop: "moves (\<lambda>f g. ?P f \<longrightarrow> ?P g) (replace_loop k b)" for k
    by (induction k) (simp_all add: file_delete_def kept.moves_ret kept.moves_seq kept.moves_attempt)
  have "ends ?P (file_rename a b) (\<lambda>_. steady D ((b, Some c) # ps)) ?P"
  proof (rule endsI)
    fix f r g
    assume f: "?P f" and run: "file_rename a b f = (r, g)"
    have "steady D ((a, Some c) # (b, content f b) # ps) f" using f by (simp add: steady_Cons)
    from endsD [OF steady_rename_to [OF assms] this run]
    show "case r of Return _ \<Rightarrow> steady D ((b, Some c) # ps) g | _ \<Rightarrow> ?P g"
      by (auto simp: steady_Cons split: result.splits)
  qed
  with loop show ?thesis unfolding replaceFile_def by (intro ends_seq [OF ends_kept])
qed

text \<open>A file that is written anew: a stream is opened on it, and the bytes are written.\<close>

lemma steady_fill:
  assumes "q \<notin> fst ` set ps" "creatable D q"
    and h: "\<And>os x. ends (steady D ((q, Some ys) # ps)) (h os x) Q (steady D ps)"
  shows "ends (steady D ps) (seq (ofstream_open q) (\<lambda>os. seq (ofstream_write os ys) (h os))) Q (steady D ps)"
  by (intro ends_seq [OF steady_open [OF assms(1,2)]] ends_seq [OF steady_write [OF assms(1)]] h)

section \<open>The same in the journal\<close>

definition rests :: "string \<Rightarrow> jnstorage \<Rightarrow> string list \<Rightarrow> (string \<times> string option) list \<Rightarrow> journal \<Rightarrow> bool" where
  "rests d st D ps s \<longleftrightarrow> cells d s \<and> storage s = st \<and> steady D ps (jfs s)"

lemma dirs_committed:
  "moves (\<lambda>s t. dirs (jfs t) = dirs (jfs s)) (on_committed belf_get)"
  "moves (\<lambda>s t. dirs (jfs t) = dirs (jfs s)) (on_committed (belf_set v))"
proof -
  let ?R = "\<lambda>s t. dirs (fst t) = dirs (fst s)"
  have fst: "moves (\<lambda>f g. dirs g = dirs f) m \<Longrightarrow> moves ?R (on_fst m)" for m
    by (auto simp: moves_def on_fst_def split: prod.splits) (metis snd_conv)
  have upd: "moves ?R (upd_snd g)" for g by (simp add: moves_def upd_snd_def)
  have l: "moves ?R belf_lazyOpen"
    unfolding belf_lazyOpen_def
    by (intro frame.moves_rules fst upd same_dirs.moves_read_only same_dirs.moves_ofstream_open same_dirs_syscalls)
  have g: "moves ?R belf_get" and s: "moves ?R (belf_set v)"
    unfolding belf_get_def belf_set_def
    by (intro frame.moves_rules fst upd l same_dirs.moves_ofstream_write same_dirs_syscalls)+
  have lift: "moves (\<lambda>s t. dirs (jfs t) = dirs (jfs s)) (on_committed m)" if "moves ?R m" for m :: "(fs \<times> belf, 'a) prog"
    using that by (intro movesI) (auto simp: on_committed_run split: option.splits dest: movesD)
  show "moves (\<lambda>s t. dirs (jfs t) = dirs (jfs s)) (on_committed belf_get)" by (rule lift [OF g])
  show "moves (\<lambda>s t. dirs (jfs t) = dirs (jfs s)) (on_committed (belf_set v))" by (rule lift [OF s])
qed

lemma dirs_checkRequest: "moves (\<lambda>s t. dirs (jfs t) = dirs (jfs s)) (checkRequest q)"
  unfolding checkRequest_def
  by (intro frame.moves_rules same_dirs_promised dirs_committed dirs_epochs movesI) (auto simp: modify_def)

lemma rests_moves:
  assumes "moves (\<lambda>s t. cells d s \<longrightarrow> cells d t) m" "moves (\<lambda>s t. storage t = storage s) m"
    "moves (\<lambda>s t. dirs (jfs t) = dirs (jfs s)) m" "ps \<noteq> []"
    "\<And>p s r t. p \<in> fst ` set ps \<Longrightarrow> cells_apart p s \<Longrightarrow> m s = (r, t) \<Longrightarrow> beside p (jfs s) (jfs t)"
    "\<forall>p \<in> fst ` set ps. is_digit (last p)"
  shows "moves (\<lambda>s t. rests d st D ps s \<longrightarrow> rests d st D ps t) m"
proof (rule movesI, rule impI)
  fix s r t
  assume s: "rests d st D ps s" and run: "m s = (r, t)"
  have b: "beside p (jfs s) (jfs t)" if "p \<in> fst ` set ps" for p
    using assms(5) [OF that cells_are_apart run] s assms(6) that by (auto simp: rests_def)
  obtain p where "p \<in> fst ` set ps" using assms(4) by (cases ps) auto
  from b [OF this] have "set (faults (jfs t)) \<subseteq> set (faults (jfs s))" by (simp add: beside_def)
  then have "steady D ps (jfs t)"
    using steady_step [of D ps "jfs s" "jfs t"] s b movesD [OF assms(3) run] movesD [OF assms(1) run]
    by (simp add: rests_def cells_def)
  then show "rests d st D ps t"
    using s movesD [OF assms(1) run] movesD [OF assms(2) run] by (simp add: rests_def)
qed

lemma rests_fs: "moves (\<lambda>f g. quiet f g) m \<Longrightarrow> moves (\<lambda>f g. steady D ps f \<longrightarrow> steady D ps g) m \<Longrightarrow>
    moves (\<lambda>s t. rests d st D ps s \<longrightarrow> rests d st D ps t) (on_fs m)"
  by (intro movesI impI) (auto simp: on_fs_run rests_def intro!: cells_quiet dest: movesD)

lemma rests_checkRequest:
  assumes "ps \<noteq> []" "\<forall>p \<in> fst ` set ps. is_digit (last p)"
  shows "moves (\<lambda>s t. rests d st D ps s \<longrightarrow> rests d st D ps t) (checkRequest q)"
    "moves (\<lambda>s t. rests d st D ps s \<longrightarrow> rests d st D ps t) (on_committed belf_get)"
    "moves (\<lambda>s t. rests d st D ps s \<longrightarrow> rests d st D ps t) abortCurSegment"
proof -
  show "moves (\<lambda>s t. rests d st D ps s \<longrightarrow> rests d st D ps t) (checkRequest q)"
    by (rule rests_moves [OF cells.moves_checkRequest stored.moves_checkRequest dirs_checkRequest assms(1) _ assms(2)])
      (use movesD [OF aside_checks(2)] in \<open>auto simp: aside_def\<close>)
  show "moves (\<lambda>s t. rests d st D ps s \<longrightarrow> rests d st D ps t) (on_committed belf_get)"
    by (rule rests_moves [OF cells.moves_cells(3) stored.moves_cells(3) dirs_committed(1) assms(1) _ assms(2)])
      (use movesD [OF aside_cells(5)] in \<open>auto simp: aside_def\<close>)
  show "moves (\<lambda>s t. rests d st D ps s \<longrightarrow> rests d st D ps t) abortCurSegment"
    by (rule rests_moves [OF cells.moves_abortCurSegment stored.moves_abortCurSegment _ assms(1) _ assms(2)])
      (auto dest: abortCurSegment_run intro!: movesI simp: beside.step_refl)
qed

section \<open>Accepting\<close>

lemma ends_segment_info:
  assumes g: "(getInProgressEditsFile d n, Some c) \<in> set ps" "scan_content c = Return k" "k \<noteq> INVALID_TXID"
    and n: "0 \<le> n" "long_range n" "st_currentDir st = d"
  shows "ends (rests d st D ps) (getSegmentInfo n)
    (\<lambda>info s. rests d st D ps s \<and> (\<exists>cur. info = Some cur \<and> ss_endTxId cur = u64 k \<and> ss_isInProgress cur))
    (rests d st D ps)"
proof -
  let ?P = "rests d st D ps" and ?g = "getInProgressEditsFile d n"
  have dir: "ends ?P (gets currentDir) (\<lambda>dir s. ?P s \<and> dir = d) ?P"
    by (rule ends_gets) (simp add: rests_def currentDir_def n)
  have log: "ends ?P (on_fs (getLogFile d n)) (\<lambda>elf s. ?P s \<and> elf = mk_EditLogFile ?g n INVALID_TXID True) ?P"
  proof (rule endsI)
    fix s r t
    assume s: "?P s" and run: "on_fs (getLogFile d n) s = (r, t)"
    have "moves (\<lambda>f g. steady D ps f \<longrightarrow> steady D ps g) (getLogFile d n)"
      unfolding getLogFile_def matchEditLogs_def GetFilesInDirectory_def
      by (intro kept.moves_rules steady_read_only) (auto split: list.splits simp: kept.moves_ret kept.moves_err)
    from movesD [OF rests_fs [OF _ this] run] quiet_lookups(2) s have t: "?P t" by blast
    have "content (jfs s) ?g = Some c" using s g(1) by (auto simp: rests_def dest: steady_content)
    then obtain i where "ino (jfs s) ?g = Some i" by (auto simp: content_def)
    with run t show "case r of Return elf \<Rightarrow> ?P t \<and> elf = mk_EditLogFile ?g n INVALID_TXID True | _ \<Rightarrow> ?P t"
      using getLogFile_inprogress [OF _ _ n(1,2)] by (auto simp: on_fs_run split: result.splits)
  qed
  have scan: "ends ?P (on_fs (elf_scanLog (mk_EditLogFile ?g n INVALID_TXID True)))
      (\<lambda>elf s. ?P s \<and> lastTxId elf = k \<and> inProgress elf) ?P"
  proof (rule endsI)
    fix s r t
    assume s: "?P s" and run: "on_fs (elf_scanLog (mk_EditLogFile ?g n INVALID_TXID True)) s = (r, t)"
    have "moves (\<lambda>f g. steady D ps f \<longrightarrow> steady D ps g) (elf_scanLog elf)" for elf
      unfolding elf_scanLog_def scanLog_def
      by (intro kept.moves_rules steady_read_only) (simp add: moves_def)
    from movesD [OF rests_fs [OF _ this] run] quiet_lookups(6) s have t: "?P t" by blast
    have "lastTxId elf = k \<and> inProgress elf" if "r = Return elf" for elf
    proof -
      from run that have "elf_scanLog (mk_EditLogFile ?g n INVALID_TXID True) (jfs s) = (Return elf, jfs t)"
        by (auto simp: on_fs_run)
      from elf_scanLog_Return [OF this] obtain c' where "content (jfs t) ?g = Some c'" "scan_content c' = Return (lastTxId elf)"
        and elf: "elf = (mk_EditLogFile ?g n INVALID_TXID True)\<lparr>lastTxId := lastTxId elf, corruptHeader := False\<rparr>"
        by (auto simp: mk_EditLogFile_def)
      moreover have "inProgress elf" by (subst elf) (simp add: mk_EditLogFile_def)
      moreover have "content (jfs t) ?g = Some c" using t g(1) by (auto simp: rests_def dest: steady_content)
      ultimately show ?thesis using g(2) by simp
    qed
    with t show "case r of Return elf \<Rightarrow> ?P t \<and> lastTxId elf = k \<and> inProgress elf | _ \<Rightarrow> ?P t" by (auto split: result.splits)
  qed
  have elf: "isInitialized (mk_EditLogFile ?g n INVALID_TXID True)" "inProgress (mk_EditLogFile ?g n INVALID_TXID True)"
    by (simp_all add: isInitialized_def mk_EditLogFile_def getInProgressEditsFile_def)
  show ?thesis
    unfolding getSegmentInfo_def
    by (rule ends_seq [OF dir], rule ends_fact, hypsubst, rule ends_seq [OF log], rule ends_fact, hypsubst,
        simp only: elf not_True_eq_False if_True if_False, rule ends_seq [OF scan], rule ends_fact)
      (use g(3) in \<open>auto intro: ends_ret\<close>)
qed

definition lies :: "jnstorage \<Rightarrow> (fs \<Rightarrow> bool) \<Rightarrow> journal \<Rightarrow> bool" where
  "lies st P s \<longleftrightarrow> storage s = st \<and> P (jfs s)"

lemma ends_on_fs: "ends P m Q E \<Longrightarrow> ends (lies st P) (on_fs m) (\<lambda>x. lies st (Q x)) (lies st E)"
  by (rule endsI) (auto simp: on_fs_run lies_def dest!: endsD split: result.splits)

lemma ends_read_storage:
  "ends P (h st) Q E \<Longrightarrow> (\<And>s. P s \<Longrightarrow> storage s = st) \<Longrightarrow> ends P (seq (gets storage) h) Q E"
  by (simp add: ends_def seq_gets)

lemma ends_storage: "ends (lies st P) (h st) Q E \<Longrightarrow> ends (lies st P) (seq (gets storage) h) Q E"
  by (rule ends_read_storage) (simp_all add: lies_def)

lemma last_sync_file: "is_digit (last (getSyncLogTemporaryFile st n e))"
  by (simp add: getSyncLogTemporaryFile_def last_show_int)

lemma sync_file_neq:
  "getSyncLogTemporaryFile st n e \<noteq> getInProgressEditsFile (st_currentDir st) n"
  "getSyncLogTemporaryFile st n e \<noteq> getPaxosFile st k"
proof -
  show "getSyncLogTemporaryFile st n e \<noteq> getInProgressEditsFile (st_currentDir st) n"
    by (simp add: getSyncLogTemporaryFile_def getInProgressEditLog_def)
  show "getSyncLogTemporaryFile st n e \<noteq> getPaxosFile st k"
  proof
    assume "getSyncLogTemporaryFile st n e = getPaxosFile st k"
    then have "st_currentDir st @ CHR ''/'' # (''edits_inprogress_'' @ setw0 19 (show_int n) @ ''.epoch='' @ show_int e)
        = (st_currentDir st @ ''/paxos'') @ CHR ''/'' # show_int k"
      by (simp add: getSyncLogTemporaryFile_def getInProgressEditLog_def name_defs EDITS_INPROGRESS_def
          getPaxosFile_def getPaxosDir_def)
    from last_component [OF this] have "''edits_inprogress_'' @ setw0 19 (show_int n) @ ''.epoch='' @ show_int e = show_int k"
      by (simp add: no_slash)
    then have "hd (show_int k) = CHR ''e''" by (metis append_Cons list.sel(1))
    then show False using setw0_show_int_hd [of 0 k] by (simp add: setw0_def is_digit_def code_def)
  qed
qed

lemma paxos_tmp_neq: "is_digit (last q) \<Longrightarrow> x @ ''.tmp'' \<noteq> q"
  by (auto simp: is_digit_def code_def)

lemma ends_syncLog:
  assumes e: "http_get e url = Response body 200"
    and q: "getSyncLogTemporaryFile st (s64 (ss_startTxId seg)) (ri_epoch q) = tmp" "tmp \<notin> fst ` set ps" "creatable D tmp"
  shows "ends (lies st (steady D ps)) (syncLog e q seg url)
    (\<lambda>f. lies st (\<lambda>g. steady D ((tmp, Some body) # ps) g \<and> f = tmp)) (lies st (steady D ps))"
proof -
  have "ends (steady D ps) (seq (ofstream_open tmp) (\<lambda>os. seq (ofstream_write os body) (\<lambda>_. ret tmp)))
      (\<lambda>f g. steady D ((tmp, Some body) # ps) g \<and> f = tmp) (steady D ps)"
    by (rule steady_fill [OF q(2,3)]) (simp add: ends_ret)
  from ends_on_fs [OF this, of st] show ?thesis
    unfolding syncLog_def by (intro ends_storage) (simp add: q(1) e)
qed

lemma ends_persist:
  assumes e: "pb_serialize e pd = Some bytes" and p: "getPaxosFile st n = p"
    and t: "p @ ''.tmp'' \<notin> fst ` set ps" "creatable D (p @ ''.tmp'')" "p \<notin> fst ` set ps"
  shows "ends (lies st (steady D ((p, x) # ps))) (persistPaxosData e n pd)
    (\<lambda>_. lies st (steady D ((p, Some bytes) # ps))) (lies st (steady D ((p, x) # ps)))"
proof -
  let ?w = "p @ ''.tmp''"
  have w: "?w \<notin> fst ` set ((p, x) # ps)" using t(1) by simp
  have "ends (\<lambda>f. steady D ((p, x) # ps) f \<and> fresh_stream ?w os f)
      (if os_ino os = None then err
        else (case pb_serialize e pd of
            None \<Rightarrow> seq (attempt (file_delete ?w)) (\<lambda>_. err)
          | Some bytes \<Rightarrow> seq (ofstream_write os bytes) (\<lambda>_. file_rename ?w p)))
      (\<lambda>_. steady D ((p, Some bytes) # ps)) (steady D ((p, x) # ps))" for os
  proof (cases "os_ino os")
    case None
    then show ?thesis by (auto simp: ends_def fresh_stream_def)
  next
    case (Some i)
    have "ends (steady D ((?w, Some bytes) # (p, x) # ps)) (file_rename ?w p) (\<lambda>_. steady D ((p, Some bytes) # ps))
        (steady D ((p, x) # ps))"
      by (rule ends_conseq [OF steady_rename_to [OF _ t(1,3)]]) (auto simp: steady_Cons)
    from ends_seq [OF steady_write [OF w] this] Some e show ?thesis by simp
  qed
  from ends_on_fs [OF ends_seq [OF steady_open [OF w t(2)] this], of st] show ?thesis
    unfolding persistPaxosData_def by (intro ends_storage) (simp only: p Let_def)
qed

lemma rests_lies: "rests d st D ps s \<Longrightarrow> lies st (steady D ps) s"
  by (simp add: rests_def lies_def)

lemma rests_highest: "rests d st D ps (s\<lparr>highestWrittenTxId := h\<rparr>) = rests d st D ps s"
  by (simp add: rests_def cells_def)

lemma lies_subset: "set qs \<subseteq> set ps \<Longrightarrow> lies st (steady D ps) s \<Longrightarrow> lies st (steady D qs) s"
  by (auto simp: lies_def intro: steady_subset)

lemma ends_checkFormatted: "ends P checkFormatted (\<lambda>_. P) P"
  by (auto simp: ends_def checkFormatted_def prog_simps)

lemma rests_persisted_data:
  "moves (\<lambda>s t. rests d st D ps s \<longrightarrow> rests d st D ps t) (getPersistedPaxosData e n)"
  unfolding getPersistedPaxosData_def Let_def
  by (intro kept.moves_rules rests_fs steady_read_only quiet.moves_exists quiet.moves_read_only)

text \<open>The decision and the segment, when the download is done.\<close>

lemma ends_decide:
  assumes e: "pb_serialize e pd = Some bytes" and names: "getPaxosFile st n = p" "getInProgressEditLog st n = g"
    and neq: "tmp \<noteq> p" "tmp \<noteq> g" "g \<noteq> p" "p @ ''.tmp'' \<notin> {p, g, tmp}" "tmp \<noteq> []"
    and c: "creatable D (p @ ''.tmp'')"
  shows "ends (lies st (steady D [(tmp, Some body), (p, x), (g, y)]))
     (seq (persistPaxosData e n pd) (\<lambda>_. if tmp \<noteq> [] then seq (gets storage) (\<lambda>st.
         on_fs (replaceFile tmp (getInProgressEditLog st n))) else ret ()))
     (\<lambda>_. lies st (steady D [(g, Some body), (p, Some bytes)]))
     (\<lambda>s. lies st (steady D [(p, x), (g, y)]) s \<or> lies st (steady D [(tmp, Some body), (p, Some bytes)]) s)"
proof (rule ends_seq)
  show "ends (lies st (steady D [(tmp, Some body), (p, x), (g, y)])) (persistPaxosData e n pd)
      (\<lambda>_. lies st (steady D [(tmp, Some body), (p, Some bytes)]))
      (\<lambda>s. lies st (steady D [(p, x), (g, y)]) s \<or> lies st (steady D [(tmp, Some body), (p, Some bytes)]) s)"
    by (rule ends_conseq [OF ends_persist [OF e names(1), of "[(tmp, Some body), (g, y)]" D x]])
      (use neq c in \<open>auto elim!: lies_subset [rotated]\<close>)
  show "ends (lies st (steady D [(tmp, Some body), (p, Some bytes)]))
      (if tmp \<noteq> [] then seq (gets storage) (\<lambda>st. on_fs (replaceFile tmp (getInProgressEditLog st n))) else ret ())
      (\<lambda>_. lies st (steady D [(g, Some body), (p, Some bytes)]))
      (\<lambda>s. lies st (steady D [(p, x), (g, y)]) s \<or> lies st (steady D [(tmp, Some body), (p, Some bytes)]) s)"
  proof -
    have "ends (steady D [(tmp, Some body), (p, Some bytes)]) (replaceFile tmp g)
        (\<lambda>_. steady D [(g, Some body), (p, Some bytes)]) (steady D [(tmp, Some body), (p, Some bytes)])"
      using neq by (intro steady_replace) auto
    from ends_on_fs [OF this, of st] neq(5) show ?thesis
      by (simp add: ends_storage names(2) ends_conseq)
  qed
qed

lemma ends_replacement:
  assumes "ps \<noteq> []" "\<forall>p \<in> fst ` set ps. is_digit (last p)"
  shows "ends (rests d st D ps) (check_replacement cur seg) (\<lambda>_. rests d st D ps) (rests d st D ps)"
proof -
  note k = ends_kept [OF rests_checkRequest(2) [OF assms]]
  show ?thesis
    unfolding check_replacement_def Let_def
    by (intro ends_seq [OF k] ends_if ends_stop ends_modify) (simp_all add: rests_highest)
qed

lemma ends_weak: "ends P m Q E' \<Longrightarrow> (\<And>s. E' s \<Longrightarrow> E s) \<Longrightarrow> ends P m Q E"
  by (rule ends_conseq)

lemma ends_acceptRecovery:
  assumes e: "http_get e url = Response body 200"
      "pb_serialize e \<lparr>pd_segmentState = seg, pd_acceptedInEpoch = u64 (ri_epoch q)\<rparr> = Some bytes"
    and n: "n = s64 (ss_startTxId seg)" "0 \<le> n" "st_currentDir st = d"
    and names: "getPaxosFile st n = p" "getInProgressEditsFile d n = g" "getSyncLogTemporaryFile st n (ri_epoch q) = tmp"
    and dirs: "creatable D tmp" "creatable D (p @ ''.tmp'')"
    and c: "scan_content c = Return k" "k \<noteq> INVALID_TXID" "u64 k \<noteq> ss_endTxId seg"
  shows "ends (rests d st D [(p, x), (g, Some c)]) (acceptRecovery e q seg url)
     (\<lambda>_. lies st (steady D [(g, Some body), (p, Some bytes)]))
     (\<lambda>s. lies st (steady D [(p, x), (g, Some c)]) s \<or> lies st (steady D [(tmp, Some body), (p, Some bytes)]) s)"
proof -
  let ?ps = "[(p, x), (g, Some c)]"
  let ?J = "rests d st D ?ps"
  let ?E = "\<lambda>s. lies st (steady D ?ps) s \<or> lies st (steady D [(tmp, Some body), (p, Some bytes)]) s"
  have dig: "is_digit (last p)" "is_digit (last g)" "is_digit (last tmp)"
    using names paxos_file_digit last_sync_file by (auto simp: getInProgressEditsFile_def name_defs last_setw0)
  then have ps: "?ps \<noteq> []" "\<forall>p \<in> fst ` set ?ps. is_digit (last p)" by simp_all
  have neq: "tmp \<noteq> p" "tmp \<noteq> g" "g \<noteq> p" "p @ ''.tmp'' \<notin> {p, g, tmp}" "tmp \<noteq> []"
    using names sync_file_neq [of st n "ri_epoch q"] paxos_neq(1) [of st n d n] n(3) paxos_tmp_neq dig
    by (auto simp: getSyncLogTemporaryFile_def)
  have JE: "?E s" if "?J s" for s using rests_lies that by blast
  note kept = ends_weak [OF ends_kept JE]
  have g: "(getInProgressEditsFile d n, Some c) \<in> set ?ps" using names by simp
  have ln: "long_range n" using n(1) by simp
  have info: "ends ?J (attempt (getSegmentInfo n))
      (\<lambda>info s. ?J s \<and> (\<forall>cur. Option.bind info id = Some cur \<longrightarrow> ss_endTxId cur = u64 k)) ?E"
    by (rule ends_attempt, rule ends_conseq [OF ends_segment_info [OF g c(1,2) n(2) ln n(3)]]) (use JE in auto)
  have sync: "ends ?J (syncLog e q seg url) (\<lambda>f. lies st (\<lambda>h. steady D ((tmp, Some body) # ?ps) h \<and> f = tmp)) ?E"
    by (rule ends_conseq [OF ends_syncLog [OF e(1), of st seg q tmp ?ps D]])
      (use names n(1) neq dirs rests_lies in auto)
  have rep: "ends ?J (check_replacement cur seg) (\<lambda>_. ?J) ?E" for cur
    by (rule ends_weak [OF ends_replacement [OF ps] JE])
  have seg: "ends (\<lambda>s. ?J s \<and> (\<forall>cur. Option.bind info id = Some cur \<longrightarrow> ss_endTxId cur = u64 k))
      (case Option.bind info id of
            Some currentSegment \<Rightarrow>
              if ss_endTxId currentSegment \<noteq> ss_endTxId seg
              then seq (check_replacement currentSegment seg) (\<lambda>_. syncLog e q seg url)
              else ret []
          | None \<Rightarrow>
              seq (modify (\<lambda>j. if u64 (highestWrittenTxId j) < ss_endTxId seg
                               then j\<lparr>highestWrittenTxId := s64 (ss_endTxId seg)\<rparr> else j)) (\<lambda>_.
                syncLog e q seg url))
      (\<lambda>f. lies st (\<lambda>h. steady D ((tmp, Some body) # ?ps) h \<and> f = tmp)) ?E" for info
  proof (cases "Option.bind info id")
    case None
    have "ends ?J (modify (\<lambda>j. if u64 (highestWrittenTxId j) < ss_endTxId seg
        then j\<lparr>highestWrittenTxId := s64 (ss_endTxId seg)\<rparr> else j)) (\<lambda>_. ?J) ?E"
      by (rule ends_modify) (simp add: rests_highest)
    from ends_seq [OF this sync] None show ?thesis by simp
  next
    case (Some cur)
    with ends_seq [OF rep sync] c(3) show ?thesis by (intro ends_fact) simp
  qed
  have decide: "ends (lies st (\<lambda>h. steady D ((tmp, Some body) # ?ps) h \<and> f = tmp))
     (seq (persistPaxosData e n \<lparr>pd_segmentState = seg, pd_acceptedInEpoch = u64 (ri_epoch q)\<rparr>)
       (\<lambda>_. if f \<noteq> [] then seq (gets storage) (\<lambda>st.
         on_fs (replaceFile f (getInProgressEditLog st n))) else ret ()))
     (\<lambda>_. lies st (steady D [(g, Some body), (p, Some bytes)])) ?E" for f
  proof (cases "f = tmp")
    case True
    have "getInProgressEditLog st n = g" using names n(3) by (simp add: getInProgressEditLog_def)
    from ends_decide [OF e(2) names(1) this neq dirs(2)] show ?thesis by (simp only: True simp_thms)
  next
    case False
    then show ?thesis by (simp add: ends_def lies_def)
  qed
  have old: "ends ?J (case r of Some (Some old) \<Rightarrow> if b old then halt Aborted else ret () | _ \<Rightarrow> ret ()) (\<lambda>_. ?J) ?E"
    for r :: "PaxosData option option" and b
    by (auto split: option.splits intro!: ends_ret ends_stop dest: JE)
  have persisted: "ends ?J (attempt (getPersistedPaxosData e n)) (\<lambda>_. ?J) ?E"
    by (rule kept, intro kept.moves_attempt rests_persisted_data)
  show ?thesis
    unfolding acceptRecovery_def Let_def n(1) [symmetric]
    by (intro ends_seq [OF ends_weak [OF ends_checkFormatted JE]] ends_seq [OF kept [OF rests_checkRequest(1) [OF ps]]]
        ends_seq [OF kept [OF rests_checkRequest(3) [OF ps]]] ends_if ends_stop
        ends_seq [OF persisted] ends_seq [OF old] ends_seq [OF info] ends_seq [OF seg] decide JE)
qed

text \<open>
  C7. Accepting a segment is one step, whenever the process dies. The journal has an open segment
  of another length, and a request to replace it. When the request is answered, the new segment
  and the decision are on disk. When it is not, because a check fails or the process ends at any
  system call, then either both files are as they were, or the decision is there and the download
  still has its own name. No moment shows the new decision with the old segment and nothing to replace it.
\<close>

theorem acceptance_is_atomic:
  assumes run: "acceptRecovery e q seg url s = (r, t)"
    and s: "cells d s" "st_currentDir (storage s) = d" "list_all fatal_only (faults (jfs s))"
    and e: "http_get e url = Response body 200"
      "pb_serialize e \<lparr>pd_segmentState = seg, pd_acceptedInEpoch = u64 (ri_epoch q)\<rparr> = Some bytes"
    and n: "n = s64 (ss_startTxId seg)" "0 \<le> n"
    and dirs: "creatable (dirs (jfs s)) (getSyncLogTemporaryFile (storage s) n (ri_epoch q))"
      "creatable (dirs (jfs s)) (getPaxosFile (storage s) n @ ''.tmp'')"
    and old: "content (jfs s) (getInProgressEditsFile d n) = Some c" "scan_content c = Return k"
      "k \<noteq> INVALID_TXID" "u64 k \<noteq> ss_endTxId seg"
  shows "case r of
      Return _ \<Rightarrow> content (jfs t) (getInProgressEditsFile d n) = Some body \<and>
        content (jfs t) (getPaxosFile (storage s) n) = Some bytes
    | _ \<Rightarrow> content (jfs t) (getInProgressEditsFile d n) = Some c \<and>
        content (jfs t) (getPaxosFile (storage s) n) = content (jfs s) (getPaxosFile (storage s) n) \<or>
      content (jfs t) (getSyncLogTemporaryFile (storage s) n (ri_epoch q)) = Some body \<and>
        content (jfs t) (getPaxosFile (storage s) n) = Some bytes"
proof -
  let ?p = "getPaxosFile (storage s) n" and ?g = "getInProgressEditsFile d n"
  have "rests d (storage s) (dirs (jfs s)) [(?p, content (jfs s) ?p), (?g, Some c)] s"
    using s old(1) by (simp add: rests_def steady_def cells_def)
  from endsD [OF ends_acceptRecovery [OF e n(1,2) s(2) refl refl refl dirs old(2-4)] this run]
  show ?thesis
    by (auto simp: lies_def steady_Cons split: result.splits)
qed

text \<open>The process dies when the old segment is deleted and the new one has not got its name.\<close>

definition ex_longer :: string where
  "ex_longer = header (-57) @ encode_ops ex_crc [(1, ''abc''), (2, ''d'')]"

definition ex_replacing :: journal where
  "ex_replacing = ex_with [(getInProgressEditsFile (ex_dir @ ''/current'') 1, ex_longer)] (replicate 15 Fine @ [Fatal 0])"

definition ex_died :: journal where
  "ex_died = snd (acceptRecovery ex_env (ex_req 2 1) (pd_segmentState ex_paxos) ''u'' ex_replacing)"

lemma ex_died_run:
  "acceptRecovery ex_env (ex_req 2 1) (pd_segmentState ex_paxos) ''u'' ex_replacing = (Stop Killed, ex_died)"
  unfolding ex_died_def by (rule run_snd) code_simp

lemma ex_replacing_state:
  "cells (ex_dir @ ''/current'') ex_replacing" "st_currentDir (storage ex_replacing) = ex_dir @ ''/current''"
  "content (jfs ex_replacing) (getInProgressEditsFile (ex_dir @ ''/current'') 1) = Some ex_longer"
proof -
  show "cells (ex_dir @ ''/current'') ex_replacing"
    unfolding ex_replacing_def by (rule ex_with_cells) simp
  show "content (jfs ex_replacing) (getInProgressEditsFile (ex_dir @ ''/current'') 1) = Some ex_longer" by code_simp
qed (simp add: ex_replacing_def ex_with_parts)

lemma ex_longer_scan: "scan_content ex_longer = Return 2" by code_simp

theorem acceptance_is_atomic_witness:
  "content (jfs ex_died) (getInProgressEditsFile (ex_dir @ ''/current'') 1) = Some ex_longer \<and>
     content (jfs ex_died) (getPaxosFile (storage ex_replacing) 1) = content (jfs ex_replacing) (getPaxosFile (storage ex_replacing) 1) \<or>
   content (jfs ex_died) (getSyncLogTemporaryFile (storage ex_replacing) 1 (ri_epoch (ex_req 2 1))) = Some ex_segment \<and>
     content (jfs ex_died) (getPaxosFile (storage ex_replacing) 1) = Some ''paxos''"
proof -
  have e: "http_get ex_env ''u'' = Response ex_segment 200"
    "pb_serialize ex_env \<lparr>pd_segmentState = pd_segmentState ex_paxos, pd_acceptedInEpoch = u64 (ri_epoch (ex_req 2 1))\<rparr> = Some ''paxos''"
    by (simp_all add: ex_env_def ex_paxos_def ex_req_def)
  have f: "list_all fatal_only (faults (jfs ex_replacing))" by (simp add: ex_replacing_def ex_with_parts list_all_iff)
  have n: "1 = s64 (ss_startTxId (pd_segmentState ex_paxos))" by code_simp
  have d: "creatable (dirs (jfs ex_replacing)) (getSyncLogTemporaryFile (storage ex_replacing) 1 (ri_epoch (ex_req 2 1)))"
    "creatable (dirs (jfs ex_replacing)) (getPaxosFile (storage ex_replacing) 1 @ ''.tmp'')" by code_simp+
  have k: "u64 2 \<noteq> ss_endTxId (pd_segmentState ex_paxos)" by (simp add: ex_paxos_def)
  from acceptance_is_atomic [OF ex_died_run ex_replacing_state(1,2) f e n _ d ex_replacing_state(3) ex_longer_scan _ k]
  show ?thesis by (simp add: INVALID_TXID_def)
qed

section \<open>Finishing what was left half done\<close>

lemma ends_with: "ends P m Q E \<Longrightarrow> moves (\<lambda>s t. I s \<longrightarrow> I t) m \<Longrightarrow>
    ends (\<lambda>s. P s \<and> I s) m (\<lambda>x s. Q x s \<and> I s) (\<lambda>s. E s \<and> I s)"
  unfolding ends_def by (fastforce dest: movesD split: result.splits)

lemma rests_alt: "rests d st D ps = (\<lambda>s. lies st (steady D ps) s \<and> cells d s)"
  by (auto simp: rests_def lies_def)

lemma dirs_writer: "moves (\<lambda>s t. dirs (jfs t) = dirs (jfs s)) (on_writer plf_get)"
  by (rule movesI) (auto simp: on_writer_run split: option.splits elim!: plf_getE dest: movesD [OF same_dirs_plf(1)])

lemma rests_writer:
  assumes "ps \<noteq> []" "\<forall>p \<in> fst ` set ps. is_digit (last p)"
  shows "moves (\<lambda>s t. rests d st D ps s \<longrightarrow> rests d st D ps t) (on_writer plf_get)"
  by (rule rests_moves [OF cells.moves_cells(2) stored.moves_cells(2) dirs_writer assms(1) _ assms(2)])
    (use movesD [OF aside_cells(3)] in \<open>auto simp: aside_def\<close>)

lemma ends_persisted_data:
  assumes p: "(getPaxosFile st n, Some c) \<in> set ps" "pb_parse e c = Some pd"
  shows "ends (rests d st D ps) (getPersistedPaxosData e n)
    (\<lambda>r s. rests d st D ps s \<and> (r = Some pd \<and> ss_startTxId (pd_segmentState pd) = u64 n)) (rests d st D ps)"
proof (rule endsI)
  fix s r t
  assume s: "rests d st D ps s" and run: "getPersistedPaxosData e n s = (r, t)"
  have t: "rests d st D ps t" using movesD [OF rests_persisted_data run] s by blast
  have "content (jfs s) (getPaxosFile (storage s) n) = Some c"
    using s p(1) by (auto simp: rests_def dest: steady_content)
  with run t getPersistedPaxosData_reads [OF _ _ p(2), of n s _ t]
  show "case r of Return x \<Rightarrow> rests d st D ps t \<and> (x = Some pd \<and> ss_startTxId (pd_segmentState pd) = u64 n)
      | _ \<Rightarrow> rests d st D ps t"
    by (auto split: result.splits)
qed

lemma ends_file_exists:
  assumes "(q, Some c) \<in> set ps"
  shows "ends (steady D ps) (file_exists q) (\<lambda>b f. steady D ps f \<and> b) (steady D ps)"
proof (rule endsI)
  fix f r g
  assume f: "steady D ps f" and run: "file_exists q f = (r, g)"
  have g: "steady D ps g" using movesD [OF steady_read_only(2) run] f by blast
  then have "is_file g q" using assms by (auto simp: is_file_def content_def dest!: steady_content)
  with g run show "case r of Return b \<Rightarrow> steady D ps g \<and> b | _ \<Rightarrow> steady D ps g"
    by (auto split: result.splits dest: file_exists_Return)
qed

lemma ends_complete:
  assumes n: "s64 (ss_startTxId (pd_segmentState pd)) = n"
    and names: "getSyncLogTemporaryFile st n (s64 (pd_acceptedInEpoch pd)) = tmp" "getInProgressEditLog st n = g"
    and neq: "tmp \<noteq> g" "tmp \<notin> fst ` set ps" "g \<notin> fst ` set ps"
  shows "ends (rests d st D ((tmp, Some body) # ps)) (completeHalfDoneAcceptRecovery (Some pd))
    (\<lambda>_. rests d st D ((g, Some body) # ps)) (rests d st D ((tmp, Some body) # ps))"
proof -
  let ?P = "steady D ((tmp, Some body) # ps)"
  have sc: "scratch tmp" "scratch g" using names by auto
  have body: "ends ?P (seq (file_exists tmp) (\<lambda>b. if b then replaceFile tmp g else ret ()))
      (\<lambda>_. steady D ((g, Some body) # ps)) ?P"
  proof (rule ends_seq)
    show "ends ?P (file_exists tmp) (\<lambda>b f. ?P f \<and> b) ?P" by (rule ends_file_exists [of _ body]) simp
    show "ends (\<lambda>f. ?P f \<and> b) (if b then replaceFile tmp g else ret ()) (\<lambda>_. steady D ((g, Some body) # ps)) ?P" for b
      by (rule ends_fact) (simp add: steady_replace [OF neq])
  qed
  have cells: "moves (\<lambda>s t. cells d s \<longrightarrow> cells d t)
      (on_fs (seq (file_exists tmp) (\<lambda>b. if b then replaceFile tmp g else ret ())))"
    by (intro cells.moves_on_fs quiet.moves_rules quiet.moves_exists quiet_wrappers sc)
  have "ends (\<lambda>s. lies st ?P s \<and> cells d s) (completeHalfDoneAcceptRecovery (Some pd))
      (\<lambda>_ s. lies st (steady D ((g, Some body) # ps)) s \<and> cells d s) (\<lambda>s. lies st ?P s \<and> cells d s)"
    unfolding completeHalfDoneAcceptRecovery_def option.case Let_def n
    by (rule ends_read_storage [where st = st])
      (use ends_with [OF ends_on_fs [OF body, of st] cells] in \<open>simp_all only: names, simp add: lies_def\<close>)
  then show ?thesis by (simp add: rests_alt)
qed

lemma ends_reported:
  assumes "ss_isInProgress cur" "\<And>s. P s \<Longrightarrow> E s"
  shows "ends P (reported (Some pd) (Some cur))
    (\<lambda>x s. P s \<and> x = (Some (pd_segmentState pd), Some (pd_acceptedInEpoch pd))) E"
  using assms by (simp add: reported_def ends_def prog_simps)

lemma ends_prepareRecovery:
  assumes st: "st_currentDir st = d" and n: "0 \<le> n" "long_range n"
    and names: "getPaxosFile st n = p" "getInProgressEditsFile d n = g"
      "getSyncLogTemporaryFile st n (s64 (pd_acceptedInEpoch pd)) = tmp"
    and c: "pb_parse e c = Some pd" "scan_content body = Return k" "k \<noteq> INVALID_TXID"
  shows "ends (rests d st D [(tmp, Some body), (p, Some c)]) (prepareRecovery e q n)
     (\<lambda>rsp s. rests d st D [(g, Some body), (p, Some c)] s \<and>
        (pr_segmentState rsp = Some (pd_segmentState pd) \<and> pr_acceptedInEpoch rsp = Some (pd_acceptedInEpoch pd)))
     (\<lambda>s. rests d st D [(tmp, Some body), (p, Some c)] s \<or> rests d st D [(g, Some body), (p, Some c)] s)"
proof -
  let ?J = "rests d st D [(tmp, Some body), (p, Some c)]" and ?K = "rests d st D [(g, Some body), (p, Some c)]"
  let ?E = "\<lambda>s. ?J s \<or> ?K s"
  have dig: "is_digit (last p)" "is_digit (last g)" "is_digit (last tmp)"
    using names paxos_file_digit last_sync_file by (auto simp: getInProgressEditsFile_def name_defs last_setw0)
  have neq: "tmp \<noteq> p" "tmp \<noteq> g" "g \<noteq> p"
    using names sync_file_neq [of st n "s64 (pd_acceptedInEpoch pd)"] paxos_neq(1) [of st n d n] st by auto
  have J: "[(tmp, Some body), (p, Some c)] \<noteq> []" "\<forall>q \<in> fst ` set [(tmp, Some body), (p, Some c)]. is_digit (last q)"
    and K: "[(g, Some body), (p, Some c)] \<noteq> []" "\<forall>q \<in> fst ` set [(g, Some body), (p, Some c)]. is_digit (last q)"
    using dig by simp_all
  note kept = ends_weak [OF ends_kept]
  have persisted: "ends ?J (getPersistedPaxosData e n)
      (\<lambda>r s. ?J s \<and> (r = Some pd \<and> ss_startTxId (pd_segmentState pd) = u64 n)) ?E"
    by (rule ends_weak [OF ends_persisted_data [of st n c _ e pd]]) (use names c(1) in auto)
  have complete: "ends (\<lambda>s. ?J s \<and> (r = Some pd \<and> ss_startTxId (pd_segmentState pd) = u64 n))
      (completeHalfDoneAcceptRecovery r) (\<lambda>_ s. ?K s \<and> r = Some pd) ?E" for r
  proof (rule ends_fact, elim conjE, hypsubst)
    assume "ss_startTxId (pd_segmentState pd) = u64 n"
    then have "s64 (ss_startTxId (pd_segmentState pd)) = n" using n(2) by simp
    from ends_complete [OF this names(3) _ neq(2), of "[(p, Some c)]" d D body] neq names(2) st
    have "ends ?J (completeHalfDoneAcceptRecovery (Some pd)) (\<lambda>_. ?K) ?J"
      by (simp add: getInProgressEditLog_def)
    then show "ends ?J (completeHalfDoneAcceptRecovery (Some pd)) (\<lambda>_ s. ?K s \<and> Some pd = Some pd) ?E"
      by (rule ends_conseq) auto
  qed
  have info: "ends (\<lambda>s. ?K s \<and> r = Some pd) (getSegmentInfo n)
      (\<lambda>ssp s. ?K s \<and> (r = Some pd \<and> (\<exists>cur. ssp = Some cur \<and> ss_isInProgress cur))) ?E" for r
    by (rule ends_fact, rule ends_conseq [OF ends_segment_info [of d n body _ k st D]])
      (use names c n st in auto)
  have report: "ends (\<lambda>s. ?K s \<and> (r = Some pd \<and> (\<exists>cur. ssp = Some cur \<and> ss_isInProgress cur))) (reported r ssp)
      (\<lambda>x s. ?K s \<and> x = (Some (pd_segmentState pd), Some (pd_acceptedInEpoch pd))) ?E" for r ssp
    by (rule ends_fact) (auto intro: ends_reported)
  have tail: "ends (\<lambda>s. ?K s \<and> x = (Some (pd_segmentState pd), Some (pd_acceptedInEpoch pd)))
      (case x of (state, accepted) \<Rightarrow>
        seq (on_writer plf_get) (\<lambda>lwe. seq (on_committed belf_get) (\<lambda>cti.
          ret \<lparr>pr_segmentState = state, pr_acceptedInEpoch = accepted, pr_lastWriterEpoch = u64 lwe,
            pr_lastCommittedTxId = (if cti \<noteq> INVALID_TXID then Some (u64 cti) else None)\<rparr>)))
      (\<lambda>rsp s. ?K s \<and> (pr_segmentState rsp = Some (pd_segmentState pd) \<and>
         pr_acceptedInEpoch rsp = Some (pd_acceptedInEpoch pd))) ?E" for x
    by (rule ends_fact, simp only: prod.case)
      (intro ends_seq [OF kept [OF rests_writer [OF K]]] ends_seq [OF kept [OF rests_checkRequest(2) [OF K]]] ends_ret;
        simp)
  show ?thesis
    unfolding prepareRecovery_def Let_def reported_def [symmetric]
    by (intro ends_seq [OF ends_weak [OF ends_checkFormatted]] ends_seq [OF kept [OF rests_checkRequest(1) [OF J]]]
        ends_seq [OF kept [OF rests_checkRequest(3) [OF J]]]
        ends_seq [OF persisted] ends_seq [OF complete] ends_seq [OF info] ends_seq [OF report] tail disjI1)
qed

text \<open>
  C8. \<open>prepareRecovery\<close> finishes an acceptance that was cut off. The decision is on disk and
  the download has not got its name yet. When the request is answered, the download is the
  segment, and the answer is the decision. When the process dies again, at any system call,
  the download is still there under one name or the other, and so is the decision, so that the
  next \<open>prepareRecovery\<close> can do it.
\<close>

theorem half_done_acceptance_is_completed:
  assumes run: "prepareRecovery e q n s = (r, t)"
    and s: "cells d s" "st_currentDir (storage s) = d" "list_all fatal_only (faults (jfs s))"
    and n: "0 \<le> n" "long_range n"
    and decision: "content (jfs s) (getPaxosFile (storage s) n) = Some c" "pb_parse e c = Some pd"
    and download: "content (jfs s) (getSyncLogTemporaryFile (storage s) n (s64 (pd_acceptedInEpoch pd))) = Some body"
      "scan_content body = Return k" "k \<noteq> INVALID_TXID"
  shows "content (jfs t) (getPaxosFile (storage s) n) = Some c \<and>
    (case r of
      Return rsp \<Rightarrow> content (jfs t) (getInProgressEditsFile d n) = Some body \<and>
        pr_segmentState rsp = Some (pd_segmentState pd) \<and> pr_acceptedInEpoch rsp = Some (pd_acceptedInEpoch pd)
    | _ \<Rightarrow> content (jfs t) (getInProgressEditsFile d n) = Some body \<or>
        content (jfs t) (getSyncLogTemporaryFile (storage s) n (s64 (pd_acceptedInEpoch pd))) = Some body)"
proof -
  have "rests d (storage s) (dirs (jfs s)) [(getSyncLogTemporaryFile (storage s) n (s64 (pd_acceptedInEpoch pd)), Some body),
      (getPaxosFile (storage s) n, Some c)] s"
    using s decision(1) download(1) by (simp add: rests_def steady_def cells_def)
  from endsD [OF ends_prepareRecovery [OF s(2) n refl refl refl decision(2) download(2,3)] this run]
  show ?thesis by (auto simp: rests_def steady_Cons split: result.splits)
qed

definition ex_half_done :: journal where
  "ex_half_done = ex_with [(getInProgressEditsFile (ex_dir @ ''/current'') 1 @ ''.epoch=2'', ex_segment),
     (ex_dir @ ''/current/paxos/1'', ''paxos'')] []"

lemma ex_half_done_state:
  "cells (ex_dir @ ''/current'') ex_half_done" "st_currentDir (storage ex_half_done) = ex_dir @ ''/current''"
  "list_all fatal_only (faults (jfs ex_half_done))"
  "content (jfs ex_half_done) (getPaxosFile (storage ex_half_done) 1) = Some ''paxos''"
  "content (jfs ex_half_done) (getSyncLogTemporaryFile (storage ex_half_done) 1 (s64 (pd_acceptedInEpoch ex_paxos))) = Some ex_segment"
proof -
  show "cells (ex_dir @ ''/current'') ex_half_done"
    unfolding ex_half_done_def by (rule ex_with_cells) code_simp
  show "content (jfs ex_half_done) (getPaxosFile (storage ex_half_done) 1) = Some ''paxos''"
    "content (jfs ex_half_done) (getSyncLogTemporaryFile (storage ex_half_done) 1 (s64 (pd_acceptedInEpoch ex_paxos))) = Some ex_segment"
    by code_simp+
qed (simp_all add: ex_half_done_def ex_with_parts)

lemma ex_half_done_run:
  "prepareRecovery ex_env (ex_req 3 1) 1 ex_half_done = (Return \<lparr>pr_segmentState = Some (pd_segmentState ex_paxos),
     pr_acceptedInEpoch = Some 2, pr_lastWriterEpoch = 0, pr_lastCommittedTxId = None\<rparr>,
   snd (prepareRecovery ex_env (ex_req 3 1) 1 ex_half_done))"
  by (rule run_snd) code_simp

theorem half_done_acceptance_is_completed_witness:
  "content (jfs (snd (prepareRecovery ex_env (ex_req 3 1) 1 ex_half_done)))
     (getInProgressEditsFile (ex_dir @ ''/current'') 1) = Some ex_segment"
proof -
  have "pb_parse ex_env ''paxos'' = Some ex_paxos" by (simp add: ex_env_def)
  from half_done_acceptance_is_completed [OF ex_half_done_run ex_half_done_state(1-3) _ _ ex_half_done_state(4) this
      ex_half_done_state(5) ex_segment_scan]
  show ?thesis by (simp add: long_range_def INVALID_TXID_def)
qed

end
