(* ===== verification/Cell_Safety.thy ===== *)
theory Cell_Safety
  imports Recovery
begin

text \<open>
  The pointers of a journal. The members that cache the epochs and the committed id are null
  until the constructor has found a formatted directory; every request dereferences them
  without looking. They are never null in a journal that was opened.
\<close>

section \<open>Programs that go right\<close>

text \<open>From \<open>P\<close>, the program does nothing undefined, ends, and leaves \<open>P\<close>.\<close>

definition sound :: "('s \<Rightarrow> bool) \<Rightarrow> ('s, 'a) prog \<Rightarrow> bool" where
  "sound P m \<longleftrightarrow> (\<forall>s r t. P s \<longrightarrow> m s = (r, t) \<longrightarrow> r \<noteq> Stop Undefined \<and> r \<noteq> Stop Diverged \<and> P t)"

lemma soundI: "(\<And>s r t. P s \<Longrightarrow> m s = (r, t) \<Longrightarrow> r \<noteq> Stop Undefined \<and> r \<noteq> Stop Diverged \<and> P t) \<Longrightarrow> sound P m"
  by (simp add: sound_def)

lemma soundD: "sound P m \<Longrightarrow> P s \<Longrightarrow> m s = (r, t) \<Longrightarrow> r \<noteq> Stop Undefined \<and> r \<noteq> Stop Diverged \<and> P t"
  by (simp add: sound_def)

lemma sound_seq: "sound P m \<Longrightarrow> (\<And>x. sound P (f x)) \<Longrightarrow> sound P (seq m f)"
proof (rule soundI)
  fix s r t
  assume m: "sound P m" and f: "\<And>x. sound P (f x)" and P: "P s" and run: "seq m f s = (r, t)"
  from run show "r \<noteq> Stop Undefined \<and> r \<noteq> Stop Diverged \<and> P t"
    by (cases rule: seq_casesE) (use soundD [OF m P] soundD [OF f] in blast)+
qed

lemma sound_attempt: "sound P m \<Longrightarrow> sound P (attempt m)"
proof (rule soundI)
  fix s r t
  assume m: "sound P m" and P: "P s" and run: "attempt m s = (r, t)"
  obtain r' u where r': "m s = (r', u)" by (cases "m s")
  have "(case r' of Return x \<Rightarrow> (Return (Some x), u) | Error \<Rightarrow> (Return None, u) | Stop k \<Rightarrow> (Stop k, u)) = (r, t)"
    using run r' by (simp add: attempt_def)
  with soundD [OF m P r'] show "r \<noteq> Stop Undefined \<and> r \<noteq> Stop Diverged \<and> P t"
    by (cases r') auto
qed

lemma sound_run: "sound P m \<Longrightarrow> P s \<Longrightarrow> fst (m s) \<notin> {Stop Undefined, Stop Diverged}"
  using soundD [of P m s "fst (m s)" "snd (m s)"] by simp

lemma sound_basic:
  "sound P (ret x)" "sound P err" "sound P (halt Aborted)" "sound P (halt Killed)" "sound P (gets g)"
  unfolding sound_def prog_simps by blast+

lemma sound_modify: "(\<And>s. P s \<Longrightarrow> P (h s)) \<Longrightarrow> sound P (modify h)"
  unfolding sound_def modify_run by blast

lemma sound_if: "sound P m \<Longrightarrow> sound P n \<Longrightarrow> sound P (if b then m else n)"
  by simp

lemma sound_option:
  "sound P m \<Longrightarrow> (\<And>x. sound P (f x)) \<Longrightarrow> sound P (case v of None \<Rightarrow> m | Some x \<Rightarrow> f x)"
  by (cases v) simp_all

lemma sound_syscall: "(\<And>f. fst (good f) \<noteq> Stop Undefined \<and> fst (good f) \<noteq> Stop Diverged) \<Longrightarrow>
    sound (\<lambda>_. True) (syscall good part)"
  unfolding sound_def syscall_def
  by (auto split: list.splits fault.splits) (metis fst_conv)+

lemmas sound_rules = sound_seq sound_attempt sound_basic sound_modify sound_if sound_option

lemma sound_files:
  "sound (\<lambda>_. True) (sys_read p)" "sound (\<lambda>_. True) (file_exists p)" "sound (\<lambda>_. True) (sys_open_trunc p)"
  "sound (\<lambda>_. True) (sys_write i k ys)"
  unfolding file_exists_def syscall_defs
  by (intro sound_syscall; simp split: option.splits prod.splits)+

lemma sound_streams:
  "sound (\<lambda>_. True) (ofstream_open p)" "sound (\<lambda>_. True) (ofstream_write os ys)"
  unfolding ofstream_open_def ofstream_write_def
  by (intro sound_rules sound_files | simp split: option.splits)+

lemma sound_on_fst: "sound (\<lambda>_. True) m \<Longrightarrow> sound (\<lambda>_. True) (on_fst m)" "sound (\<lambda>_. True) (upd_snd g)"
  by (auto simp: sound_def on_fst_run prog_simps)

lemma sound_cells:
  "sound (\<lambda>_. True) plf_get" "sound (\<lambda>_. True) (plf_set n)"
  "sound (\<lambda>_. True) belf_get" "sound (\<lambda>_. True) (belf_set n)"
proof -
  show "sound (\<lambda>_. True) plf_get" "sound (\<lambda>_. True) (plf_set n)"
    unfolding plf_get_def plf_set_def plf_readFile_def plf_writeFile_def
    by (intro sound_rules sound_on_fst sound_files sound_streams TrueI)+
  have "sound (\<lambda>_. True) belf_lazyOpen"
    unfolding belf_lazyOpen_def by (intro sound_rules sound_on_fst sound_files sound_streams TrueI)
  then show "sound (\<lambda>_. True) belf_get" "sound (\<lambda>_. True) (belf_set n)"
    unfolding belf_get_def belf_set_def by (intro sound_rules sound_on_fst sound_streams TrueI; assumption?)+
qed

section \<open>The checks of a request\<close>

lemma sound_promised:
  assumes "sound (\<lambda>_. True) m" "moves (\<lambda>s t. cells d s \<longrightarrow> cells d t) (on_promised m)"
  shows "sound (cells d) (on_promised m)"
proof (rule soundI)
  fix s r t
  assume s: "cells d s" and run: "on_promised m s = (r, t)"
  from s run obtain q g where "m (jfs s, q) = (r, g)" by (auto simp: on_promised_run cells_def)
  with soundD [OF assms(1) _ this] movesD [OF assms(2) run] s
  show "r \<noteq> Stop Undefined \<and> r \<noteq> Stop Diverged \<and> cells d t" by simp
qed

lemma sound_writer:
  assumes "sound (\<lambda>_. True) m" "moves (\<lambda>s t. cells d s \<longrightarrow> cells d t) (on_writer m)"
  shows "sound (cells d) (on_writer m)"
proof (rule soundI)
  fix s r t
  assume s: "cells d s" and run: "on_writer m s = (r, t)"
  from s run obtain q g where "m (jfs s, q) = (r, g)" by (auto simp: on_writer_run cells_def)
  with soundD [OF assms(1) _ this] movesD [OF assms(2) run] s
  show "r \<noteq> Stop Undefined \<and> r \<noteq> Stop Diverged \<and> cells d t" by simp
qed

lemma sound_committed:
  assumes "sound (\<lambda>_. True) m" "moves (\<lambda>s t. cells d s \<longrightarrow> cells d t) (on_committed m)"
  shows "sound (cells d) (on_committed m)"
proof (rule soundI)
  fix s r t
  assume s: "cells d s" and run: "on_committed m s = (r, t)"
  from s run obtain q g where "m (jfs s, q) = (r, g)" by (auto simp: on_committed_run cells_def)
  with soundD [OF assms(1) _ this] movesD [OF assms(2) run] s
  show "r \<noteq> Stop Undefined \<and> r \<noteq> Stop Diverged \<and> cells d t" by simp
qed

lemma cells_set_committed: "moves (\<lambda>s t. cells d s \<longrightarrow> cells d t) (on_committed (belf_set n))"
  by (intro movesI impI) (rule cells_committed [where m = "belf_set n"], assumption, rule belf_own(2))

lemma cells_set_promised: "moves (\<lambda>s t. cells d s \<longrightarrow> cells d t) (on_promised (plf_set n))"
  using cells_promised [where m = "plf_set n"] plf_set_beside plf_set_file by (blast intro: movesI)

lemma sound_checks:
  "sound (cells d) checkFormatted" "sound (cells d) getLastPromisedEpoch" "sound (cells d) getLastWriterEpoch"
  "sound (cells d) (updateLastPromisedEpoch n)"
proof -
  show f: "sound (cells d) checkFormatted"
    unfolding checkFormatted_def by (intro sound_rules)
  note get = sound_promised [OF sound_cells(1) cells.moves_cells(1)] sound_writer [OF sound_cells(1) cells.moves_cells(2)]
    sound_committed [OF sound_cells(3) cells.moves_cells(3)]
  show "sound (cells d) getLastPromisedEpoch" "sound (cells d) getLastWriterEpoch"
    unfolding getLastPromisedEpoch_def getLastWriterEpoch_def by (intro sound_rules f get)+
  show u: "sound (cells d) (updateLastPromisedEpoch n)" for n
    unfolding updateLastPromisedEpoch_def
    by (intro sound_rules sound_promised [OF sound_cells(2) cells_set_promised]) (simp add: cells_def)
qed

lemma sound_also:
  assumes "sound P m" "\<And>s r t. m s = (r, t) \<Longrightarrow> Q s \<Longrightarrow> Q t"
  shows "sound (\<lambda>s. P s \<and> Q s) m"
  using assms unfolding sound_def by blast

text \<open>
  The checks of a request. Up to the comparison of the serial numbers the last one either stays or
  becomes 0, and only a serial number that is not above it ends in undefined behaviour: the line that
  logs the refusal has \<^verbatim>\<open>%s\<close> for a number.
\<close>

lemma request_is_checked:
  assumes c: "cells d s" and run: "checkRequest q s = (r, t)"
  shows "r \<noteq> Stop Diverged \<and> cells d t \<and>
    (r = Stop Undefined \<longrightarrow> ri_ipcSerialNumber q \<le> max 0 (currentEpochIpcSerial s))"
proof -
  note get = sound_promised [OF sound_cells(1) cells.moves_cells(1)] sound_committed [OF sound_cells(3) cells.moves_cells(3)]
  define last where "last = max 0 (currentEpochIpcSerial s)"
  define P where "P s \<longleftrightarrow> cells d s \<and> currentEpochIpcSerial s \<le> last" for s
  define m where "m = seq (on_promised plf_get) (\<lambda>lpe. if ri_epoch q < lpe then err
    else if lpe < ri_epoch q then updateLastPromisedEpoch (ri_epoch q) else ret ())"
  define b where "b = (if hasCommittedTxId q then seq (on_committed belf_get) (\<lambda>cti.
    if ri_committedTxId q < cti then halt Aborted else on_committed (belf_set (ri_committedTxId q))) else ret ())"
  have raise: "updateLastPromisedEpoch x s = (r, t) \<Longrightarrow> currentEpochIpcSerial t \<in> {0, currentEpochIpcSerial s}" for x s r t
    by (cases rule: updateLastPromisedEpochE) (auto dest: on_promised_frame)
  have m: "sound P m"
    unfolding P_def m_def
    by (intro sound_rules sound_also [OF get(1)] sound_also [OF sound_checks(4)])
      (auto simp: last_def dest: on_promised_frame raise)
  have P: "P s" using c by (simp add: P_def last_def)
  have "checkRequest q = seq m (\<lambda>_. seq (gets currentEpochIpcSerial) (\<lambda>serial.
      if ri_ipcSerialNumber q \<le> serial then halt Undefined
      else seq (modify (\<lambda>j. j\<lparr>currentEpochIpcSerial := ri_ipcSerialNumber q\<rparr>)) (\<lambda>_. b)))"
    unfolding checkRequest_def m_def b_def seq_assoc by (intro arg_cong [of _ _ "seq (on_promised plf_get)"] ext) (simp add: prog_simps)
  with run have "seq m (\<lambda>_. seq (gets currentEpochIpcSerial) (\<lambda>serial.
      if ri_ipcSerialNumber q \<le> serial then halt Undefined
      else seq (modify (\<lambda>j. j\<lparr>currentEpochIpcSerial := ri_ipcSerialNumber q\<rparr>)) (\<lambda>_. b))) s = (r, t)" by simp
  then show ?thesis
  proof (cases rule: seq_casesE)
    case (Return x u)
    with soundD [OF m P] have u: "P u" by blast
    show ?thesis
    proof (cases "ri_ipcSerialNumber q \<le> currentEpochIpcSerial u")
      case True
      with Return(2) u show ?thesis by (auto simp: P_def last_def prog_simps)
    next
      case False
      with Return(2) have run': "b (u\<lparr>currentEpochIpcSerial := ri_ipcSerialNumber q\<rparr>) = (r, t)"
        by (simp add: prog_simps)
      have "sound (cells d) b"
        unfolding b_def by (intro sound_rules get sound_committed [OF sound_cells(4) cells_set_committed])
      from soundD [OF this _ run'] u show ?thesis by (simp add: P_def cells_def)
    qed
  qed (use soundD [OF m P] in \<open>auto simp: P_def\<close>)
qed

lemma write_request_is_checked:
  assumes c: "cells d s" and run: "checkWriteRequest q s = (r, t)"
  shows "r \<noteq> Stop Diverged \<and>
    (r = Stop Undefined \<longrightarrow> ri_ipcSerialNumber q \<le> max 0 (currentEpochIpcSerial s))"
proof -
  have w: "sound (cells d) (seq (on_writer plf_get) (\<lambda>lwe. if ri_epoch q \<noteq> lwe then err else ret ()))"
    by (intro sound_rules sound_writer [OF sound_cells(1) cells.moves_cells(2)])
  from run show ?thesis
    unfolding checkWriteRequest_def
    by (cases rule: seq_casesE) (use request_is_checked [OF c] soundD [OF w] in blast)+
qed

text \<open>
  C13. An open journal is well typed for its whole life. Whatever is on disk when it is opened,
  and whatever requests, failures, crashes and restarts follow: its three cached cells are there and have
  the files of its own directory, the file system is well formed, and a request for the promise ends
  neither in undefined behaviour nor in a loop. The check of a request's epoch and writer never
  loops, and it ends in undefined behaviour only where the serial number of the request is not above the
  last one, which a new epoch sets to 0: never at a cell that is null.
\<close>

theorem open_journal_is_well_typed:
  assumes "starts e f dir s" "wf_fs f" "life e ok s t"
  shows "cells (dir @ ''/current'') t \<and> wf_fs (jfs t) \<and>
    lastPromisedEpoch t \<noteq> None \<and> lastWriterEpoch t \<noteq> None \<and> committedTxnId t \<noteq> None \<and>
    fst (getLastPromisedEpoch t) \<notin> {Stop Undefined, Stop Diverged} \<and>
    fst (checkRequest q t) \<noteq> Stop Diverged \<and> fst (checkWriteRequest q t) \<noteq> Stop Diverged \<and>
    (fst (checkRequest q t) = Stop Undefined \<or> fst (checkWriteRequest q t) = Stop Undefined \<longrightarrow>
      ri_ipcSerialNumber q \<le> max 0 (currentEpochIpcSerial t))"
proof -
  have c: "cells (dir @ ''/current'') t"
    using life_cells [OF assms(3)] starts_cells [OF assms(1,2)] by blast
  have "fst (getLastPromisedEpoch t) \<notin> {Stop Undefined, Stop Diverged}"
    by (rule sound_run, rule sound_checks, rule c)
  moreover note request_is_checked [OF c, of q "fst (checkRequest q t)" "snd (checkRequest q t)"]
    write_request_is_checked [OF c, of q "fst (checkWriteRequest q t)" "snd (checkWriteRequest q t)"]
  moreover have "wf_fs (jfs t) \<and> lastPromisedEpoch t \<noteq> None \<and> lastWriterEpoch t \<noteq> None \<and> committedTxnId t \<noteq> None"
    using c by (auto simp: cells_def)
  ultimately show ?thesis using c by (intro conjI) simp_all
qed

theorem open_journal_is_well_typed_witness:
  "cells (ex_dir @ ''/current'') ex_promised \<and> wf_fs (jfs ex_promised) \<and>
    lastPromisedEpoch ex_promised \<noteq> None \<and> lastWriterEpoch ex_promised \<noteq> None \<and> committedTxnId ex_promised \<noteq> None \<and>
    fst (getLastPromisedEpoch ex_promised) \<notin> {Stop Undefined, Stop Diverged} \<and>
    fst (checkRequest (ex_req 2 1) ex_promised) \<notin> {Stop Undefined, Stop Diverged} \<and>
    fst (checkWriteRequest (ex_req 2 1) ex_promised) \<notin> {Stop Undefined, Stop Diverged}"
proof -
  have "step ex_env (\<lambda>_. True) ex_started ex_promised"
    by (rule served [where c = "New_Epoch ex_ns 2" and r = "Return (Segment None)"])
      (simp_all add: seq_def ex_promised_run prog_simps)
  then have "life ex_env (\<lambda>_. True) ex_started ex_promised" by (simp add: life_def)
  from open_journal_is_well_typed [OF ex_starts ex_wf this, of "ex_req 2 1"]
  have *: "cells (ex_dir @ ''/current'') ex_promised" "wf_fs (jfs ex_promised)"
    "lastPromisedEpoch ex_promised \<noteq> None" "lastWriterEpoch ex_promised \<noteq> None" "committedTxnId ex_promised \<noteq> None"
    "fst (getLastPromisedEpoch ex_promised) \<notin> {Stop Undefined, Stop Diverged}"
    "fst (checkRequest (ex_req 2 1) ex_promised) \<noteq> Stop Diverged"
    "fst (checkWriteRequest (ex_req 2 1) ex_promised) \<noteq> Stop Diverged"
    "fst (checkRequest (ex_req 2 1) ex_promised) = Stop Undefined \<or>
      fst (checkWriteRequest (ex_req 2 1) ex_promised) = Stop Undefined \<longrightarrow>
      ri_ipcSerialNumber (ex_req 2 1) \<le> max 0 (currentEpochIpcSerial ex_promised)" by blast+
  moreover have "\<not> ri_ipcSerialNumber (ex_req 2 1) \<le> max 0 (currentEpochIpcSerial ex_promised)" by code_simp
  ultimately show ?thesis by (intro conjI) blast+
qed

end
