(* ===== verification/Manifest.thy ===== *)
theory Manifest
  imports Recovery
begin

text \<open>
  \<open>getEditLogManifest\<close>: the list of segments that a name node reads the log from.
\<close>

section \<open>The order of the list\<close>

lemma set_elf_sort [simp]: "set (elf_sort xs) = set xs"
  by (simp add: elf_sort_def)






section \<open>What the list holds\<close>







end
