(* ===== verification/Formatting.thy ===== *)
theory Formatting
  imports Manifest
begin

text \<open>
  Formatting a journal's directory, and opening it again. The statements are total: where no
  system call fails, the journal is formatted, opens, and knows its namespace.
\<close>

section \<open>Programs that return\<close>

definition total :: "('s \<Rightarrow> bool) \<Rightarrow> ('s, 'a) prog \<Rightarrow> ('a \<Rightarrow> 's \<Rightarrow> bool) \<Rightarrow> bool" where
  "total P m Q \<longleftrightarrow> (\<forall>s. P s \<longrightarrow> (\<exists>x t. m s = (Return x, t) \<and> Q x t))"

lemma totalD: "total P m Q \<Longrightarrow> P s \<Longrightarrow> \<exists>x t. m s = (Return x, t) \<and> Q x t"
  by (simp add: total_def)

lemma total_seq:
  assumes m: "total P m Q'" and f: "\<And>x. total (Q' x) (f x) Q"
  shows "total P (seq m f) Q"
  unfolding total_def
proof (intro allI impI)
  fix s
  assume "P s"
  with m obtain x t where "m s = (Return x, t)" "Q' x t" unfolding total_def by blast
  with f [of x] show "\<exists>y u. seq m f s = (Return y, u) \<and> Q y u" by (auto simp: total_def seq_def)
qed

lemma total_ret: "(\<And>s. P s \<Longrightarrow> Q x s) \<Longrightarrow> total P (ret x) Q"
  by (simp add: total_def prog_simps)

lemma total_gets: "(\<And>s. P s \<Longrightarrow> Q (f s) s) \<Longrightarrow> total P (gets f) Q"
  by (simp add: total_def prog_simps)

lemma total_modify: "(\<And>s. P s \<Longrightarrow> Q () (f s)) \<Longrightarrow> total P (modify f) Q"
  by (simp add: total_def prog_simps)

lemma total_upd_snd: "(\<And>f x. P (f, x) \<Longrightarrow> Q () (f, g x)) \<Longrightarrow> total P (upd_snd g) Q"
  by (simp add: total_def prog_simps)

lemma total_on_fst: "(\<And>x. total (\<lambda>f. P (f, x)) m (\<lambda>y f. Q y (f, x))) \<Longrightarrow> total P (on_fst m) Q"
  unfolding total_def on_fst_def by (auto split: prod.splits) (metis old.prod.inject)

lemma total_attempt: "total P m (\<lambda>x. Q (Some x)) \<Longrightarrow> total P (attempt m) Q"
  unfolding total_def attempt_def by fastforce

lemma total_if: "(b \<Longrightarrow> total P m Q) \<Longrightarrow> (\<not> b \<Longrightarrow> total P n Q) \<Longrightarrow> total P (if b then m else n) Q"
  by simp

lemma total_conseq:
  "total P' m Q' \<Longrightarrow> (\<And>s. P s \<Longrightarrow> P' s) \<Longrightarrow> (\<And>x s. Q' x s \<Longrightarrow> Q x s) \<Longrightarrow> total P m Q"
  unfolding total_def by blast

lemma total_fact: "(b \<Longrightarrow> total P m Q) \<Longrightarrow> total (\<lambda>s. P s \<and> b) m Q"
  unfolding total_def by blast

section \<open>The directory\<close>

lemma parent_leaf: "CHR ''/'' \<notin> set n \<Longrightarrow> parent (d @ CHR ''/'' # n) = d"
proof -
  assume "CHR ''/'' \<notin> set n"
  then have "dropWhile (\<lambda>c. c \<noteq> CHR ''/'') (rev n @ CHR ''/'' # rev d) = CHR ''/'' # rev d"
    by (subst dropWhile_append2) auto
  then show ?thesis by (simp add: parent_def)
qed

text \<open>A journal's directory \<open>dir\<close>, in which no system call fails and the lock file can be opened.\<close>

definition homely :: "string \<Rightarrow> fs \<Rightarrow> bool" where
  "homely dir f \<longleftrightarrow> faults f = [] \<and> wf_fs f \<and> is_dir f dir \<and> \<not> is_dir f (dir @ ''/in_use.lock'') \<and>
     (let cur = dir @ ''/current'' in is_dir f cur \<or> is_file f cur \<or>
       (\<forall>p. under cur p \<longrightarrow> \<not> is_file f p \<and> \<not> is_dir f p))"

text \<open>Its current directory: empty, and with nothing but the version file and the paxos directory.\<close>

definition bare :: "string \<Rightarrow> fs \<Rightarrow> bool" where
  "bare cur f \<longleftrightarrow> is_dir f cur \<and> (\<forall>p. at_or_under cur p \<longrightarrow> \<not> is_file f p) \<and> (\<forall>p. under cur p \<longrightarrow> \<not> is_dir f p)"

definition versioned :: "string \<Rightarrow> string \<Rightarrow> fs \<Rightarrow> bool" where
  "versioned cur v f \<longleftrightarrow> is_dir f cur \<and> content f (cur @ ''/VERSION'') = Some v \<and>
     (\<forall>p. under cur p \<longrightarrow> is_file f p \<longrightarrow> p = cur @ ''/VERSION'')"

lemma take_not_under: "n \<le> length cur \<Longrightarrow> \<not> under cur (take n cur)"
  by (auto simp: under_def dest: arg_cong [of _ _ length])

lemma ancestors_not_under: "q \<in> set (ancestors cur) \<Longrightarrow> \<not> under cur q"
  unfolding ancestors_def using take_not_under by auto

lemma self_not_under: "\<not> under cur cur"
  by (simp add: under_def)

lemma is_dir_fields [simp]:
  "is_dir (f\<lparr>dents := x\<rparr>) p = is_dir f p" "is_dir (f\<lparr>data := y\<rparr>) p = is_dir f p" "is_dir (f\<lparr>fds := k\<rparr>) p = is_dir f p"
  "is_dir (f\<lparr>next_ino := n\<rparr>) p = is_dir f p" "is_dir (f\<lparr>dirs := ds\<rparr>) p = (p \<in> set ds)"
  "is_dir (f\<lparr>faults := u\<rparr>) p = is_dir f p"
  by (simp_all add: is_dir_def)

lemma is_file_fields [simp]:
  "is_file (f\<lparr>dents := x\<rparr>) p = (map_of x p \<noteq> None)" "is_file (f\<lparr>data := y\<rparr>) p = is_file f p"
  "is_file (f\<lparr>fds := k\<rparr>) p = is_file f p" "is_file (f\<lparr>next_ino := n\<rparr>) p = is_file f p"
  "is_file (f\<lparr>dirs := ds\<rparr>) p = is_file f p" "is_file (f\<lparr>faults := u\<rparr>) p = is_file f p"
  by (simp_all add: is_file_def ino_def)

lemma ancestorsE:
  assumes "q \<in> set (ancestors p)"
  obtains k where "k < length p" "p ! k = CHR ''/''" "q = take k p"
  using assms by (auto simp: ancestors_def)

lemma ancestors_short:
  assumes "q \<in> set (ancestors (d @ CHR ''/'' # n))" "CHR ''/'' \<notin> set n"
  shows "length q \<le> length d"
proof -
  from ancestorsE [OF assms(1)] obtain k where k: "k < length (d @ CHR ''/'' # n)"
      "(d @ CHR ''/'' # n) ! k = CHR ''/''" "q = take k (d @ CHR ''/'' # n)" .
  have "k \<le> length d"
  proof (rule ccontr)
    assume "\<not> k \<le> length d"
    then obtain j where "k = Suc (length d + j)" by (metis less_imp_Suc_add not_le)
    then have "(d @ CHR ''/'' # n) ! k = n ! j" "j < length n"
      using k(1) by (simp_all add: nth_append)
    with k(2) assms(2) show False by (metis nth_mem)
  qed
  with k(3) show ?thesis by simp
qed

lemma under_length: "under d p \<Longrightarrow> length d < length p"
  by (auto simp: under_def dest: arg_cong [of _ _ length])

lemma lock_apart: "\<not> at_or_under (dir @ ''/current'') (dir @ ''/in_use.lock'')"
  by (simp add: at_or_under_def under_def)

lemma dir_apart: "\<not> at_or_under (dir @ ''/current'') dir"
  using under_length [of "dir @ ''/current''" dir] by (auto simp: at_or_under_def)

lemma at_or_underI: "at_or_under d d" "under d p \<Longrightarrow> at_or_under d p"
  by (simp_all add: at_or_under_def)

lemma wf_filter: "wf_fs f \<Longrightarrow> wf_fs (f\<lparr>dents := filter (\<lambda>e. Q (fst e)) (dents f), dirs := ds\<rparr>)"
  by (auto simp: wf_fs_def distinct_map_filter)

lemma wf_dirs [simp]: "wf_fs (f\<lparr>dirs := ds\<rparr>) = wf_fs f" "wf_fs (f\<lparr>fds := k\<rparr>) = wf_fs f"
  by (simp_all add: wf_fs_def)

lemma total_clear:
  assumes cur: "cur = dir @ ''/current''"
  shows "total (homely dir) (seq (sys_exists cur) (\<lambda>dir_exists.
     seq (if dir_exists then sys_remove_all cur else ret ()) (\<lambda>_.
     seq (sys_exists dir) (\<lambda>dir_exists.
     seq (if \<not> dir_exists then seq (sys_create_directories dir) (\<lambda>_. ret ()) else ret ()) (\<lambda>_.
     seq (sys_create_directories cur) (\<lambda>_. ret ())))))) (\<lambda>_ f. homely dir f \<and> bare cur f)"
proof (rule total_seq)
  let ?empty = "\<lambda>f. homely dir f \<and> (\<forall>p. at_or_under cur p \<longrightarrow> \<not> is_file f p) \<and> (\<forall>p. at_or_under cur p \<longrightarrow> \<not> is_dir f p)"
  let ?Q1 = "\<lambda>e f. homely dir f \<and> e = (is_file f cur \<or> is_dir f cur)"
  show "total (homely dir) (sys_exists cur) ?Q1"
    by (auto simp: total_def sys_exists_def homely_def prog_simps)
  have clear: "total (?Q1 e) (if e then sys_remove_all cur else ret ()) (\<lambda>_. ?empty)" for e
  proof (rule total_if)
    have "homely dir (f\<lparr>dents := filter (\<lambda>e. \<not> at_or_under cur (fst e)) (dents f),
        dirs := filter (\<lambda>p. \<not> at_or_under cur p) (dirs f)\<rparr>)" (is "homely dir ?g") if "homely dir f" for f
    proof -
      have "wf_fs ?g" using that by (intro wf_filter) (simp add: homely_def)
      moreover have "\<not> is_file ?g p \<and> \<not> is_dir ?g p" if "under cur p" for p
        using at_or_underI(2) [OF that] by (simp add: filter_map_of_fst [of "\<lambda>p. \<not> at_or_under cur p"] is_dir_def)
      ultimately show ?thesis
        using that lock_apart [of dir] dir_apart [of dir] cur by (simp add: homely_def is_dir_def Let_def)
    qed
    then show "total (?Q1 e) (sys_remove_all cur) (\<lambda>_. ?empty)"
      by (auto simp: total_def sys_remove_all_def prog_simps homely_def filter_map_of_fst [of "\<lambda>p. \<not> at_or_under cur p"] is_dir_def)
    show "\<not> e \<Longrightarrow> total (?Q1 e) (ret ()) (\<lambda>_. ?empty)"
      by (rule total_ret) (auto simp: homely_def cur at_or_under_def Let_def)
  qed
  have make: "total ?empty (seq (sys_create_directories cur) (\<lambda>_. ret ())) (\<lambda>_ f. homely dir f \<and> bare cur f)"
  proof (rule total_seq [OF _ total_ret])
    show "total ?empty (sys_create_directories cur) (\<lambda>_ f. homely dir f \<and> bare cur f)"
      unfolding total_def
    proof (intro allI impI)
      fix f
      assume f: "?empty f"
      let ?g = "f\<lparr>dirs := dirs f @ filter (\<lambda>q. \<not> is_dir f q) (ancestors cur @ [cur])\<rparr>"
      have nf: "\<not> is_file f cur" "\<not> is_dir f cur" using f by (simp_all add: at_or_under_def)
      have lock: "dir @ ''/in_use.lock'' \<notin> set (ancestors cur)"
        using ancestors_short [of "dir @ ''/in_use.lock''" dir "''current''"] cur by auto
      have "homely dir ?g"
        using f nf lock lock_apart [of dir] cur by (auto simp: homely_def is_dir_def at_or_under_def)
      moreover have "bare cur ?g"
        using f nf ancestors_not_under [of _ cur] self_not_under [of cur]
        by (auto simp: bare_def is_dir_def at_or_under_def)
      moreover have "sys_create_directories cur f = (Return (\<not> is_dir f cur), ?g)"
        using f nf by (simp add: sys_create_directories_def syscall_quiet homely_def)
      ultimately show "\<exists>x t. sys_create_directories cur f = (Return x, t) \<and> homely dir t \<and> bare cur t" by blast
    qed
  qed
  have again: "total ?empty (sys_exists dir) (\<lambda>e f. ?empty f \<and> e)"
    by (auto simp: total_def sys_exists_def homely_def prog_simps)
  show "total (?Q1 e) (seq (if e then sys_remove_all cur else ret ()) (\<lambda>_.
     seq (sys_exists dir) (\<lambda>dir_exists.
     seq (if \<not> dir_exists then seq (sys_create_directories dir) (\<lambda>_. ret ()) else ret ()) (\<lambda>_.
     seq (sys_create_directories cur) (\<lambda>_. ret ()))))) (\<lambda>_ f. homely dir f \<and> bare cur f)" for e
    by (rule total_seq [OF clear], rule total_seq [OF again], rule total_fact) (use make in \<open>simp add: seq_ret\<close>)
qed

text \<open>The storage of that directory.\<close>

definition keeps_house :: "string \<Rightarrow> jnstorage \<Rightarrow> bool" where
  "keeps_house dir st \<longleftrightarrow> st_logDir st = dir \<and> st_currentDir st = dir @ ''/current''"

lemma version_not_slash: "CHR ''/'' \<notin> set ''VERSION''" "CHR ''/'' \<notin> set ''in_use.lock''" "CHR ''/'' \<notin> set ''paxos''"
  by simp_all

lemma total_write_version:
  assumes cur: "cur = dir @ ''/current''"
  shows "total (\<lambda>f. homely dir f \<and> bare cur f) (seq (ofstream_open (cur @ ''/VERSION'')) (\<lambda>os.
      if os_ino os = None then err else seq (ofstream_write os v) (\<lambda>_. ret ())))
    (\<lambda>_ f. homely dir f \<and> versioned cur v f)"
  unfolding total_def
proof (intro allI impI)
  fix f
  assume f: "homely dir f \<and> bare cur f"
  let ?p = "cur @ ''/VERSION''"
  let ?g = "f\<lparr>dents := dents f @ [(?p, next_ino f)], data := (data f)(next_ino f := []), next_ino := Suc (next_ino f)\<rparr>"
  let ?h = "store (next_ino f) 0 v ?g"
  have u: "under cur ?p" by (simp add: under_def)
  have p: "ino f ?p = None" "can_create f ?p"
    using f u at_or_underI(2) [OF u] parent_leaf [of "''VERSION''" cur]
    by (auto simp: bare_def is_file_def can_create_def)
  have c: "creat ?p f = (next_ino f, ?g)" using p(1) by (simp add: creat_def)
  have q: "faults f = []" "faults ?g = []" using f by (simp_all add: homely_def)
  have o: "ofstream_open ?p f = (Return \<lparr>os_ino = Some (next_ino f), os_pos = 0, os_fail = False\<rparr>, ?g)"
    using p(2) c q by (simp add: ofstream_open_def sys_open_trunc_def seq_def attempt_def ret_def syscall_quiet)
  have w: "ofstream_write \<lparr>os_ino = Some (next_ino f), os_pos = 0, os_fail = False\<rparr> v ?g =
      (Return \<lparr>os_ino = Some (next_ino f), os_pos = length v, os_fail = False\<rparr>, ?h)"
    using q by (simp add: ofstream_write_def sys_write_def seq_def attempt_def ret_def syscall_quiet)
  have wf: "wf_fs ?h"
    using wf_creat [OF _ c] f by (simp add: homely_def wf_fs_def store_def)
  have files: "is_file ?h p \<longleftrightarrow> is_file f p \<or> p = ?p" for p
    by (auto simp: store_def is_file_def ino_def map_add_def split: option.splits)
  have "homely dir ?h"
    using f wf cur by (auto simp: homely_def bare_def store_def Let_def)
  moreover have "versioned cur v ?h"
    using f p(1) files at_or_underI(2)
    by (auto simp: versioned_def bare_def store_def content_def ino_def overwrite_def map_add_def)
  ultimately show "\<exists>x t. seq (ofstream_open ?p) (\<lambda>os.
      if os_ino os = None then err else seq (ofstream_write os v) (\<lambda>_. ret ())) f = (Return x, t) \<and>
      homely dir t \<and> versioned cur v t"
    by (auto simp: seq_def o w ret_def)
qed

lemma total_make_paxos:
  assumes cur: "cur = dir @ ''/current''"
  shows "total (\<lambda>f. homely dir f \<and> versioned cur v f) (seq (sys_create_directories (cur @ ''/paxos'')) (\<lambda>_. ret ()))
    (\<lambda>_ f. homely dir f \<and> versioned cur v f)"
proof (rule total_seq [OF _ total_ret])
  show "total (\<lambda>f. homely dir f \<and> versioned cur v f) (sys_create_directories (cur @ ''/paxos''))
      (\<lambda>_ f. homely dir f \<and> versioned cur v f)"
    unfolding total_def
  proof (intro allI impI)
    fix f
    assume f: "homely dir f \<and> versioned cur v f"
    let ?p = "cur @ ''/paxos''"
    let ?g = "f\<lparr>dirs := dirs f @ filter (\<lambda>q. \<not> is_dir f q) (ancestors ?p @ [?p])\<rparr>"
    have "under cur ?p" by (simp add: under_def)
    then have "\<not> is_file f ?p" using f by (auto simp: versioned_def)
    moreover have "dir @ ''/in_use.lock'' \<notin> set (ancestors ?p)"
      using ancestors_short [of "dir @ ''/in_use.lock''" cur "''paxos''"] cur by auto
    moreover have "content ?g = content f" by (rule ext) (simp add: content_def ino_def)
    ultimately show "\<exists>x t. sys_create_directories ?p f = (Return x, t) \<and> homely dir t \<and> versioned cur v t"
      using f cur by (auto simp: sys_create_directories_def syscall_quiet homely_def versioned_def is_dir_def Let_def)
  qed
qed

section \<open>Reading it back\<close>

lemma c_str_show_int: "c_str (show_int i) = show_int i"
proof -
  have "list_all is_digit (show_nat n)" for n by (induction n rule: show_nat.induct) (subst show_nat.simps, auto)
  then have "list_all (\<lambda>c. c \<noteq> nul) (show_nat n)" for n by (fastforce simp: list_all_iff)
  then have "list_all (\<lambda>c. c \<noteq> nul) (show_int i)" by (simp add: show_int_def nul_def)
  then show ?thesis unfolding c_str_def by (rule takeWhile_all)
qed

lemma atoi_show_int: "- (2 ^ 31) \<le> i \<Longrightarrow> i < 2 ^ 31 \<Longrightarrow> atoi (show_int i) = i"
  using strtol_show_int [of i "[]"] by (simp add: atoi_def long_range_def s32_id)

lemma strtoul_show_int:
  assumes "long_range i"
  shows "strtoul (show_int i) = u64 i"
proof (cases "i < 0")
  case True
  have "list_all is_digit (show_nat (nat (- i)))" using show_int_digits [of "- i"] True by (simp add: show_int_def)
  then have t: "takeWhile is_digit (show_nat (nat (- i))) = show_nat (nat (- i))" by (rule takeWhile_all)
  have "strtoul (show_int i) = (let v = digits_value (takeWhile is_digit (show_nat (nat (- i))))
      in if ULONG_MAX < v then ULONG_MAX else u64 (- v))"
    using True by (simp add: show_int_def strtoul_def read_sign_def is_space_def code_def Let_def)
  then show ?thesis
    unfolding t using True assms by (simp add: ULONG_MAX_def long_range_def)
next
  case False
  have d: "list_all is_digit (show_int i)" "show_int i \<noteq> []" using False by (auto simp: show_int_digits show_int_def)
  have t: "takeWhile is_digit (show_int i) = show_int i" using d(1) by (rule takeWhile_all)
  have "strtoul (show_int i) = (let v = digits_value (show_int i) in if ULONG_MAX < v then ULONG_MAX else v)"
    unfolding strtoul_def using digits_no_sign [OF d, of "[]"] by (simp only: append_Nil2 prod.case t if_False)
  then show ?thesis using False assms by (simp add: show_int_def ULONG_MAX_def long_range_def)
qed

text \<open>
  The properties reader is not in the repository. That it reads a file of \<open>key=value\<close> lines
  is a hypothesis, for the one file that is written.
\<close>

definition reads_version :: "env \<Rightarrow> 'a storage_info_scheme \<Rightarrow> bool" where
  "reads_version e ns \<longleftrightarrow> (let get = load_properties e (version_text ns) in
     get ''layoutVersion'' = show_int (layoutVersion ns) \<and> get ''namespaceID'' = show_int (namespaceID ns) \<and>
     get ''clusterID'' = clusterID ns \<and> get ''cTime'' = show_int (getCTime ns))"

text \<open>The integers have the widths of the members.\<close>

definition storable :: "'a storage_info_scheme \<Rightarrow> bool" where
  "storable ns \<longleftrightarrow> - (2 ^ 31) \<le> layoutVersion ns \<and> layoutVersion ns < 2 ^ 31 \<and>
     - (2 ^ 31) \<le> namespaceID ns \<and> namespaceID ns < 2 ^ 31 \<and> 0 \<le> cTime ns \<and> cTime ns < 2 ^ 64 \<and> clusterID ns \<noteq> []"

lemma version_round_trip:
  assumes "reads_version e ns" "storable ns"
  shows "parse_properties (load_properties e (version_text ns)) st = Some (setStorageInfo st ns)"
proof -
  have "strtoul (show_int (getCTime ns)) = cTime ns"
    using assms(2) by (simp add: getCTime_def strtoul_show_int storable_def)
  with assms show ?thesis
    by (simp add: parse_properties_def reads_version_def storable_def Let_def c_str_show_int atoi_show_int
        setStorageInfo_def)
qed

section \<open>Looking at the directory\<close>

lemma total_lockfile:
  assumes cur: "cur = dir @ ''/current''"
  shows "total (\<lambda>f. homely dir f \<and> versioned cur v f) (try_to_acquire_lockfile (dir @ ''/in_use.lock''))
    (\<lambda>_ f. homely dir f \<and> versioned cur v f)"
proof -
  let ?P = "\<lambda>f. homely dir f \<and> versioned cur v f" and ?p = "dir @ ''/in_use.lock''"
  have fds: "?P (f\<lparr>fds := k\<rparr>) = ?P f" for f k
    by (simp add: homely_def versioned_def Let_def content_def ino_def)
  have creat: "?P (snd (creat ?p f))" if "?P f" "\<not> is_file f ?p" for f
  proof -
    let ?g = "snd (creat ?p f)"
    have wf: "wf_fs f" using that(1) by (simp add: homely_def)
    have g: "?g = f\<lparr>dents := dents f @ [(?p, next_ino f)], data := (data f)(next_ino f := []), next_ino := Suc (next_ino f)\<rparr>"
      using that(2) by (simp add: creat_def is_file_def)
    have "wf_fs ?g" using that(1) wf_creat [OF _ surjective_pairing] by (auto simp: homely_def)
    moreover have "is_file ?g p \<longleftrightarrow> is_file f p \<or> p = ?p" for p
      unfolding g by (auto simp: is_file_def ino_def map_add_def split: option.splits)
    moreover have "content ?g p = content f p" if p: "p \<noteq> ?p" "is_file f p" for p
    proof -
      obtain i where i: "ino f p = Some i" using p(2) by (auto simp: is_file_def)
      have "i < next_ino f" using ino_less [OF wf i] .
      with i show ?thesis unfolding g using p by (auto simp: content_def ino_def map_add_def split: option.splits)
    qed
    moreover have "is_dir ?g p = is_dir f p" "faults ?g = faults f" for p unfolding g by simp_all
    moreover have "cur @ ''/VERSION'' \<noteq> ?p" "\<not> under cur ?p" using cur lock_apart [of dir] at_or_underI(2) by auto
    moreover have "is_file f (cur @ ''/VERSION'')" using that(1) by (auto simp: versioned_def content_def is_file_def)
    ultimately show ?thesis using that(1) cur by (auto simp: homely_def versioned_def Let_def)
  qed
  have open_fd: "total ?P (sys_open_fd ?p) (\<lambda>_. ?P)"
    unfolding total_def
  proof (intro allI impI)
    fix f
    assume f: "?P f"
    have "is_file f ?p \<or> can_create f ?p"
      using f parent_leaf [of "''in_use.lock''" dir] by (auto simp: homely_def can_create_def)
    moreover have "?P (if is_file f ?p then f else snd (creat ?p f))" using f creat by simp
    moreover have "faults f = []" using f by (simp add: homely_def)
    ultimately show "\<exists>x t. sys_open_fd ?p f = (Return x, t) \<and> ?P t"
      using fds by (auto simp: sys_open_fd_def syscall_quiet Let_def)
  qed
  have lock: "total ?P (attempt (sys_setlk fd)) (\<lambda>r f. ?P f \<and> r \<noteq> None)" for fd
    by (rule total_attempt) (auto simp: total_def sys_setlk_def syscall_quiet homely_def)
  show ?thesis
    unfolding try_to_acquire_lockfile_def
    by (rule total_seq [OF open_fd], rule total_seq [OF lock], rule total_fact) (simp add: total_ret)
qed

lemma total_analyze:
  assumes cur: "cur = dir @ ''/current''" and e: "reads_version e ns" "storable ns"
  shows "total (\<lambda>(f, st). homely dir f \<and> versioned cur (version_text ns) f \<and> keeps_house dir st) (analyzeStorage e)
    (\<lambda>_ (f, st). homely dir f \<and> versioned cur (version_text ns) f \<and> keeps_house dir st \<and> isFormatted st \<and>
       setStorageInfo st ns = st)"
proof -
  let ?v = "version_text ns"
  let ?F = "\<lambda>f. homely dir f \<and> versioned cur ?v f"
  let ?P = "\<lambda>(f, st). homely dir f \<and> versioned cur ?v f \<and> keeps_house dir st"
  have st: "total ?P (gets snd) (\<lambda>st s. ?P s \<and> keeps_house dir st)"
    by (rule total_gets) auto
  have d: "total ?P (on_fst (dir_exists dir)) (\<lambda>b s. ?P s \<and> b)"
    by (rule total_on_fst) (auto simp: total_def dir_exists_def sys_is_directory_def syscall_quiet homely_def)
  have l: "total ?P (on_fst (try_to_acquire_lockfile (dir @ ''/in_use.lock''))) (\<lambda>_. ?P)"
    by (rule total_on_fst, unfold prod.case conj_assoc [symmetric], rule total_fact,
        rule total_conseq [OF total_lockfile [OF cur]]) auto
  have v: "total ?P (on_fst (file_exists (cur @ ''/VERSION''))) (\<lambda>b s. ?P s \<and> b)"
    by (rule total_on_fst)
      (auto simp: total_def file_exists_def sys_is_regular_def syscall_quiet homely_def versioned_def content_def is_file_def)
  have upd: "total ?P (upd_snd (\<lambda>st. st\<lparr>st_lockFileFD := n\<rparr>)) (\<lambda>_. ?P)"
    "total ?P (upd_snd (\<lambda>st. st\<lparr>st_state := Some NORMAL\<rparr>)) (\<lambda>_ s. ?P s \<and> isFormatted (snd s))" for n
    by (auto intro!: total_upd_snd simp: keeps_house_def isFormatted_def)
  have an: "total ?P analyzeStorageDirectory (\<lambda>_ s. ?P s \<and> isFormatted (snd s))"
    unfolding analyzeStorageDirectory_def
  proof (rule total_seq [OF st], rule total_fact)
    fix st
    assume "keeps_house dir st"
    then have names: "st_logDir st = dir" "getLockFile st = dir @ ''/in_use.lock''" "getVersionFile st = cur @ ''/VERSION''"
      by (simp_all add: keeps_house_def getLockFile_def getVersionFile_def cur)
    show "total ?P (seq (on_fst (dir_exists (st_logDir st))) (\<lambda>storagedir_exists.
       if \<not> storagedir_exists then upd_snd (\<lambda>st. st\<lparr>st_state := Some NON_EXISTENT\<rparr>)
       else seq (on_fst (try_to_acquire_lockfile (getLockFile st))) (\<lambda>fd.
         seq (upd_snd (\<lambda>st. st\<lparr>st_lockFileFD := int fd\<rparr>)) (\<lambda>_.
         seq (on_fst (file_exists (getVersionFile st))) (\<lambda>hasCurrent.
           if hasCurrent then upd_snd (\<lambda>st. st\<lparr>st_state := Some NORMAL\<rparr>)
           else upd_snd (\<lambda>st. st\<lparr>st_state := Some NOT_FORMATTED\<rparr>))))))
      (\<lambda>_ s. ?P s \<and> isFormatted (snd s))"
      unfolding names
      by (rule total_seq [OF d], rule total_fact, simp only: not_True_eq_False if_False,
          rule total_seq [OF l], rule total_seq [OF upd(1)], rule total_seq [OF v], rule total_fact,
          simp only: if_True, rule upd(2))
  qed
  have read: "total (\<lambda>s. ?P s \<and> isFormatted (snd s)) (readProperties e (cur @ ''/VERSION''))
      (\<lambda>_ (f, st). homely dir f \<and> versioned cur ?v f \<and> keeps_house dir st \<and> isFormatted st \<and> setStorageInfo st ns = st)"
    unfolding readProperties_def total_def
    by (auto simp: seq_def on_fst_def sys_read_def syscall_quiet homely_def versioned_def gets_def upd_snd_def
        version_round_trip [OF e] keeps_house_def isFormatted_def setStorageInfo_def)
  show ?thesis
    unfolding analyzeStorage_def
  proof (rule total_seq [OF an])
    show "total (\<lambda>s. ?P s \<and> isFormatted (snd s)) (seq (gets snd) (\<lambda>st.
        if st_state st = Some NORMAL then readProperties e (getVersionFile st) else ret ()))
      (\<lambda>_ (f, st). homely dir f \<and> versioned cur ?v f \<and> keeps_house dir st \<and> isFormatted st \<and> setStorageInfo st ns = st)"
      unfolding total_def
    proof (intro allI impI)
      fix s
      assume s: "?P s \<and> isFormatted (snd s)"
      then have "getVersionFile (snd s) = cur @ ''/VERSION''" "st_state (snd s) = Some NORMAL"
        by (auto simp: keeps_house_def getVersionFile_def cur isFormatted_def)
      with totalD [OF read s] show "\<exists>x t. seq (gets snd) (\<lambda>st.
          if st_state st = Some NORMAL then readProperties e (getVersionFile st) else ret ()) s = (Return x, t) \<and>
        (case t of (f, st) \<Rightarrow> homely dir f \<and> versioned cur ?v f \<and> keeps_house dir st \<and> isFormatted st \<and>
           setStorageInfo st ns = st)"
        by (simp add: seq_gets)
    qed
  qed
qed

section \<open>Formatting\<close>

lemma version_text_set: "setStorageInfo st ns = st \<Longrightarrow> version_text st = version_text ns"
proof -
  assume "setStorageInfo st ns = st"
  then have "version_text st = version_text (setStorageInfo st ns)" by simp
  then show ?thesis by (simp add: version_text_def setStorageInfo_def getCTime_def)
qed

lemma total_unlock:
  "(\<And>f k st. P (f, st) \<Longrightarrow> P (f\<lparr>fds := k\<rparr>, st)) \<Longrightarrow> total P storage_unlock (\<lambda>_. P)"
  unfolding storage_unlock_def total_def
  by (auto simp: seq_gets sys_close_def modify_def on_fst_def ret_def)

lemma total_format:
  assumes cur: "cur = dir @ ''/current''" and e: "reads_version e ns" "storable ns"
  shows "total (\<lambda>(f, st). homely dir f \<and> keeps_house dir st) (storage_format e ns)
    (\<lambda>_ (f, st). homely dir f \<and> versioned cur (version_text ns) f \<and> keeps_house dir st \<and> isFormatted st \<and>
       setStorageInfo st ns = st)"
proof -
  let ?v = "version_text ns"
  let ?S = "\<lambda>st. keeps_house dir st \<and> setStorageInfo st ns = st"
  let ?P = "\<lambda>(f, st). homely dir f \<and> ?S st"
  let ?B = "\<lambda>(f, st). (homely dir f \<and> bare cur f) \<and> ?S st"
  let ?V = "\<lambda>(f, st). (homely dir f \<and> versioned cur ?v f) \<and> ?S st"
  have set: "total (\<lambda>(f, st). homely dir f \<and> keeps_house dir st) (upd_snd (\<lambda>st. setStorageInfo st ns)) (\<lambda>_. ?P)"
    by (rule total_upd_snd) (auto simp: keeps_house_def setStorageInfo_def)
  have unlock: "total ?P storage_unlock (\<lambda>_. ?P)"
    by (rule total_unlock) (auto simp: homely_def)
  have clear: "total ?P clearLogDirectory (\<lambda>_. ?B)"
    unfolding clearLogDirectory_def total_def
  proof (intro allI impI)
    fix s
    assume s: "?P s"
    obtain f st where fs: "s = (f, st)" by (cases s)
    have n: "st_currentDir st = cur" "st_logDir st = dir" using s fs by (auto simp: keeps_house_def cur)
    from s fs totalD [OF total_clear [OF cur], of f] show "\<exists>x t. seq (gets snd) (\<lambda>st. on_fst (
     seq (sys_exists (st_currentDir st)) (\<lambda>dir_exists.
     seq (if dir_exists then sys_remove_all (st_currentDir st) else ret ()) (\<lambda>_.
     seq (sys_exists (st_logDir st)) (\<lambda>dir_exists.
     seq (if \<not> dir_exists then seq (sys_create_directories (st_logDir st)) (\<lambda>_. ret ()) else ret ()) (\<lambda>_.
     seq (sys_create_directories (st_currentDir st)) (\<lambda>_. ret ()))))))) s = (Return x, t) \<and> ?B t"
      unfolding fs seq_gets snd_conv n on_fst_def fst_conv by auto
  qed
  have version: "total (\<lambda>s. ?B s \<and> st = snd s) (attempt (writeProperties (getVersionFile st))) (\<lambda>_. ?V)" for st
    unfolding total_def
  proof (intro allI impI)
    fix s
    assume s: "?B s \<and> st = snd s"
    then obtain f where fs: "s = (f, st)" by (cases s) auto
    have n: "getVersionFile st = cur @ ''/VERSION''" "version_text st = ?v"
      using s fs by (auto simp: keeps_house_def getVersionFile_def cur version_text_set)
    from s fs totalD [OF total_write_version [OF cur, of ?v], of f]
    show "\<exists>x t. attempt (writeProperties (getVersionFile st)) s = (Return x, t) \<and> ?V t"
      unfolding n(1) writeProperties_def attempt_def fs seq_gets snd_conv n(2) on_fst_def fst_conv by auto
  qed
  have paxos: "total ?V createPaxosDir (\<lambda>_. ?V)"
    unfolding createPaxosDir_def total_def
  proof (intro allI impI)
    fix s
    assume s: "?V s"
    then have "getPaxosDir (snd s) = cur @ ''/paxos''" by (auto simp: keeps_house_def getPaxosDir_def cur)
    with s totalD [OF total_make_paxos [OF cur, of ?v], of "fst s"]
    show "\<exists>x t. seq (gets snd) (\<lambda>st. on_fst (seq (sys_create_directories (getPaxosDir st)) (\<lambda>_. ret ()))) s = (Return x, t) \<and> ?V t"
      by (auto simp: seq_gets on_fst_def split: prod.splits)
  qed
  have analyze: "total ?V (analyzeStorage e) (\<lambda>_ (f, st). homely dir f \<and> versioned cur ?v f \<and> keeps_house dir st \<and>
      isFormatted st \<and> setStorageInfo st ns = st)"
    by (rule total_conseq [OF total_analyze [OF cur e]]) auto
  have look: "total ?B (gets snd) (\<lambda>st s. ?B s \<and> st = snd s)" by (rule total_gets) auto
  show ?thesis
    unfolding storage_format_def
    by (rule total_seq [OF set], rule total_seq [OF unlock], rule total_seq [OF clear], rule total_seq [OF look],
        rule total_seq [OF version], rule total_seq [OF paxos], rule analyze)
qed

section \<open>Opening\<close>

lemma map_filter_none: "\<forall>x \<in> set xs. g x = None \<Longrightarrow> List.map_filter g xs = []"
  by (simp add: map_filter_def filter_empty_conv)

lemma total_list_bare:
  assumes "cur = dir @ ''/current''"
  shows "total (\<lambda>f. homely dir f \<and> versioned cur v f) (getLogFiles cur 0)
    (\<lambda>files f. (homely dir f \<and> versioned cur v f) \<and> files = [])"
  unfolding total_def
proof (intro allI impI)
  fix f
  assume f: "homely dir f \<and> versioned cur v f"
  let ?names = "List.map_filter (leaf cur) (map fst (dents f))"
  have "n = ''VERSION''" if "n \<in> set ?names" for n
  proof -
    from that have "\<exists>p \<in> set (map fst (dents f)). leaf cur p = Some n" by (force simp: map_filter_def)
    then obtain p where p: "p \<in> set (map fst (dents f))" "leaf cur p = Some n" ..
    have "is_file f p" using p(1) by (auto simp: is_file_def ino_def map_of_eq_None_iff)
    moreover have "under cur p" "n = drop (Suc (length cur)) p" using p(2) by (auto simp: leaf_def Let_def split: if_splits)
    ultimately have "p = cur @ ''/VERSION''" "n = drop (Suc (length cur)) p" using f by (auto simp: versioned_def)
    then show ?thesis by simp
  qed
  moreover have "matchEditLog cur ''VERSION'' = None"
    by (simp add: matchEditLog_def match_finalized_def match_inprogress_def Let_def)
  ultimately have "\<forall>n \<in> set ?names. matchEditLog cur n = None" by metis
  then have none: "List.map_filter (matchEditLog cur) ?names = []" by (rule map_filter_none)
  have "sys_list cur f = (Return ?names, f)"
    using f by (simp add: sys_list_def syscall_quiet homely_def versioned_def)
  then have "getLogFiles cur 0 f = (Return [], f)"
    using none by (simp add: getLogFiles_def matchEditLogs_def GetFilesInDirectory_def seq_def ret_def elf_sort_def)
  with f show "\<exists>x t. getLogFiles cur 0 f = (Return x, t) \<and> (homely dir t \<and> versioned cur v t) \<and> x = []" by blast
qed

text \<open>The journal that is opened.\<close>

lemma total_open:
  assumes f: "homely dir f" "versioned (dir @ ''/current'') (version_text ns) f" and e: "reads_version e ns" "storable ns"
  shows "\<exists>u. starts e f dir u \<and> isFormatted (storage u) \<and> setStorageInfo (storage u) ns = storage u"
proof -
  let ?cur = "dir @ ''/current''" and ?v = "version_text ns" and ?j = "new_journal f dir"
  have "case (f, new_storage dir) of (f, st) \<Rightarrow> homely dir f \<and> versioned ?cur ?v f \<and> keeps_house dir st"
    using f by (simp add: keeps_house_def new_storage_def)
  with total_analyze [OF refl e, of dir] obtain g st where
    a: "analyzeStorage e (f, new_storage dir) = (Return (), (g, st))" and
    st: "homely dir g" "versioned ?cur ?v g" "keeps_house dir st" "isFormatted st" "setStorageInfo st ns = st"
    unfolding total_def by fast
  let ?st = "st\<lparr>st_initialized := True\<rparr>"
  define k where "k = snd (refreshCachedData (?j\<lparr>jfs := g, storage := ?st\<rparr>))"
  have r: "refreshCachedData (?j\<lparr>jfs := g, storage := ?st\<rparr>) = (Return (), k)"
    by (simp add: k_def refreshCachedData_def modify_def)
  have 1: "on_storage (mk_JNStorage e) ?j = (Return (), ?j\<lparr>jfs := g, storage := ?st\<rparr>)"
    by (simp add: on_storage_def new_journal_def mk_JNStorage_def attempt_def a seq_def upd_snd_def)
  have k: "jfs k = g" "storage k = ?st" "currentDir k = ?cur"
    using st(3) by (simp_all add: k_def refreshCachedData_def modify_def currentDir_def keeps_house_def)
  have d: "dir_exists ?cur g = (Return True, g)"
    using st(1,2) by (simp add: dir_exists_def sys_is_directory_def syscall_quiet homely_def versioned_def)
  obtain h where h: "getLogFiles ?cur 0 g = (Return [], h)"
    using totalD [OF total_list_bare [OF refl], of dir g ?v] st(1,2) by blast
  have scan: "scanStorageForLatestEdits k = (Return no_EditLogFile, k\<lparr>jfs := h\<rparr>)"
    if "jfs k = g" "currentDir k = ?cur" for k
  proof -
    have "on_fs (dir_exists ?cur) k = (Return True, k\<lparr>jfs := g\<rparr>)"
      "on_fs (getLogFiles ?cur 0) (k\<lparr>jfs := g\<rparr>) = (Return [], k\<lparr>jfs := h\<rparr>)"
      by (simp_all add: on_fs_def that d h)
    then show ?thesis
      unfolding scanStorageForLatestEdits_def seq_gets that by (simp add: seq_def on_fs_def ret_def)
  qed
  note scan = scan [OF k(1,3)]
  have "mk_Journal e ?j = (Return (), k\<lparr>jfs := h, j_initialized := True\<rparr>)"
    unfolding mk_Journal_def
    by (simp add: seq_def 1 gets_def attempt_def r scan modify_def no_EditLogFile_def isInitialized_def mk_EditLogFile_def)
  moreover have "setStorageInfo ?st ns = (setStorageInfo st ns)\<lparr>st_initialized := True\<rparr>"
    by (simp add: setStorageInfo_def)
  then have "isFormatted ?st" "setStorageInfo ?st ns = ?st" using st(4,5) by (simp_all add: isFormatted_def)
  ultimately show ?thesis using k(2) by (auto simp: starts_def)
qed

text \<open>
  C12. A formatted journal opens, as the journal of its namespace. In a directory where no
  system call fails, formatting succeeds and writes the version file; the next process opens
  the directory, finds it formatted, reads back all four values, and takes exactly the
  namespace it was formatted for as its own.
\<close>

theorem formatted_journal_opens:
  fixes other :: namespace_info
  assumes s: "homely dir (jfs s)" "keeps_house dir (storage s)" and e: "reads_version e ns" "storable ns" "namespaceID ns \<noteq> 0"
  shows "\<exists>t u. format e ns s = (Return (), t) \<and>
    content (jfs t) (getVersionFile (storage t)) = Some (version_text ns) \<and>
    starts e ((jfs t)\<lparr>fds := []\<rparr>) dir u \<and> isFormatted (storage u) \<and> setStorageInfo (storage u) ns = storage u \<and>
    (checkConsistentNamespace other (storage u) \<longleftrightarrow> namespaceID other = namespaceID ns \<and> clusterID other = clusterID ns)"
proof -
  let ?cur = "dir @ ''/current''" and ?v = "version_text ns"
  have "case (jfs s, storage s) of (f, st) \<Rightarrow> homely dir f \<and> keeps_house dir st" using s by simp
  with total_format [OF refl e(1,2), of dir] obtain g st where
    f: "storage_format e ns (jfs s, storage s) = (Return (), (g, st))" and
    st: "homely dir g" "versioned ?cur ?v g" "keeps_house dir st"
    unfolding total_def by fast
  let ?t = "snd (refreshCachedData (s\<lparr>jfs := g, storage := st\<rparr>))"
  have t: "format e ns s = (Return (), ?t)"
    using e(3) f by (simp add: format_def seq_def on_storage_def refreshCachedData_def modify_def)
  have g: "jfs ?t = g" "storage ?t = st" by (simp_all add: refreshCachedData_def modify_def)
  have "homely dir (g\<lparr>fds := []\<rparr>)" "versioned ?cur ?v (g\<lparr>fds := []\<rparr>)"
    using st(1,2) by (simp_all add: homely_def versioned_def Let_def content_def ino_def)
  from total_open [OF this e(1,2)] obtain u where
    u: "starts e (g\<lparr>fds := []\<rparr>) dir u" "isFormatted (storage u)" "setStorageInfo (storage u) ns = storage u" by blast
  have "namespaceID (storage u) = namespaceID ns" "clusterID (storage u) = clusterID ns"
    using arg_cong [OF u(3), of namespaceID] arg_cong [OF u(3), of clusterID] by (simp_all add: setStorageInfo_def)
  then have "checkConsistentNamespace other (storage u) \<longleftrightarrow> namespaceID other = namespaceID ns \<and> clusterID other = clusterID ns"
    by (auto simp: checkConsistentNamespace_def)
  moreover have "content (jfs ?t) (getVersionFile (storage ?t)) = Some ?v"
    using st(2,3) unfolding g by (simp add: versioned_def keeps_house_def getVersionFile_def)
  ultimately show ?thesis using t u g by metis
qed

theorem formatted_journal_opens_witness:
  "\<exists>t u. format ex_env ex_ns ex_blank = (Return (), t) \<and>
    content (jfs t) (getVersionFile (storage t)) = Some (version_text ex_ns) \<and>
    starts ex_env ((jfs t)\<lparr>fds := []\<rparr>) ex_dir u \<and> isFormatted (storage u) \<and> setStorageInfo (storage u) ex_ns = storage u \<and>
    (checkConsistentNamespace ex_ns (storage u) \<longleftrightarrow> namespaceID ex_ns = namespaceID ex_ns \<and> clusterID ex_ns = clusterID ex_ns)"
proof (rule formatted_journal_opens)
  have "dents (jfs ex_blank) = [(''/j/in_use.lock'', 0)]" "next_ino (jfs ex_blank) = 1" "faults (jfs ex_blank) = []"
    "dirs (jfs ex_blank) = [''/j'']" by code_simp+
  then show "homely ex_dir (jfs ex_blank)"
    by (auto simp: homely_def wf_fs_def is_dir_def ex_dir_def is_file_def ino_def under_def)
  have "st_logDir (storage ex_blank) = ''/j''" "st_currentDir (storage ex_blank) = ''/j/current''" by code_simp+
  then show "keeps_house ex_dir (storage ex_blank)" by (simp add: keeps_house_def ex_dir_def)
  show "reads_version ex_env ex_ns" unfolding reads_version_def by code_simp
  show "storable ex_ns" "namespaceID ex_ns \<noteq> 0" by (simp_all add: storable_def ex_ns_def)
qed

end
