(* ===== verification/Http_Digest.thy ===== *)
theory Http_Digest
  imports Cstring
begin

text \<open>
  The two hash functions of \<^verbatim>\<open>util/mongoose.c\<close>: SHA-1, with which the server answers a websocket
  handshake, and MD5, with which it checks passwords; as the code has them, a context that is
  updated piece by piece, for the little-endian machine. Both are then compared with the definition of
  the standards: pad the message, cut it into blocks of 64 bytes, compress one after the
  other.
\<close>

section \<open>Words and bytes\<close>

unbundle bit_operations_syntax

type_synonym uint32 = "32 word"

definition byte :: "char \<Rightarrow> uint32" where
  "byte c = word_of_nat (code c)"

definition uchar :: "uint32 \<Rightarrow> char" where
  "uchar w = char_of (unat w)"

text \<open>How a word lies in the memory of the machine.\<close>

definition le_bytes :: "uint32 \<Rightarrow> string" where
  "le_bytes w = map (\<lambda>i. uchar (drop_bit (8 * i) w)) [0, 1, 2, 3]"

definition le_word :: "string \<Rightarrow> uint32" where
  "le_word s = byte (s ! 0) OR push_bit 8 (byte (s ! 1)) OR push_bit 16 (byte (s ! 2)) OR push_bit 24 (byte (s ! 3))"

definition is_big_endian :: bool where
  "is_big_endian \<longleftrightarrow> le_bytes 1 ! 0 = nul"

text \<open>A buffer of 64 bytes read as an array of \<^verbatim>\<open>uint32_t\<close>, and \<^verbatim>\<open>memcpy(&buf[j], d, ...)\<close>.\<close>

definition words_of :: "string \<Rightarrow> uint32 list" where
  "words_of buf = map (\<lambda>i. le_word (drop (4 * i) buf)) [0..<16]"

definition store_at :: "string \<Rightarrow> nat \<Rightarrow> string \<Rightarrow> string" where
  "store_at buf j d = take j buf @ d @ drop (j + length d) buf"

definition rol :: "uint32 \<Rightarrow> nat \<Rightarrow> uint32" where
  "rol value bits = push_bit bits value OR drop_bit (32 - bits) value"

section \<open>SHA-1\<close>

text \<open>
  \<^verbatim>\<open>blk0\<close> and \<^verbatim>\<open>blk\<close> update the block in place; they return it and the word they compute.
\<close>

definition blk0 :: "uint32 list \<Rightarrow> nat \<Rightarrow> uint32 list \<times> uint32" where
  "blk0 block i =
     (let block' = (if \<not> is_big_endian
        then block[i := (rol (block ! i) 24 AND 0xFF00FF00) OR (rol (block ! i) 8 AND 0x00FF00FF)]
        else block) in (block', block' ! i))"

definition blk :: "uint32 list \<Rightarrow> nat \<Rightarrow> uint32 list \<times> uint32" where
  "blk block i =
     (let x = rol (block ! ((i + 13) mod 16) XOR block ! ((i + 8) mod 16) XOR block ! ((i + 2) mod 16)
                XOR block ! (i mod 16)) 1 in (block[i mod 16 := x], x))"

text \<open>
  The calls of the macros \<^verbatim>\<open>R0\<close> to \<^verbatim>\<open>R4\<close> are written out with the names of the registers moved on by
  one each time; here the registers move, so that the next call again finds them in place.
\<close>

type_synonym regs = "uint32 \<times> uint32 \<times> uint32 \<times> uint32 \<times> uint32 \<times> uint32 list"

definition R0 :: "regs \<Rightarrow> nat \<Rightarrow> regs" where
  "R0 r i = (case r of (v, w, x, y, z, block) \<Rightarrow> (case blk0 block i of (block', b) \<Rightarrow>
     (z + (((w AND (x XOR y)) XOR y) + b + 0x5A827999 + rol v 5), v, rol w 30, x, y, block')))"

definition R1 :: "regs \<Rightarrow> nat \<Rightarrow> regs" where
  "R1 r i = (case r of (v, w, x, y, z, block) \<Rightarrow> (case blk block i of (block', b) \<Rightarrow>
     (z + (((w AND (x XOR y)) XOR y) + b + 0x5A827999 + rol v 5), v, rol w 30, x, y, block')))"

definition R2 :: "regs \<Rightarrow> nat \<Rightarrow> regs" where
  "R2 r i = (case r of (v, w, x, y, z, block) \<Rightarrow> (case blk block i of (block', b) \<Rightarrow>
     (z + ((w XOR x XOR y) + b + 0x6ED9EBA1 + rol v 5), v, rol w 30, x, y, block')))"

definition R3 :: "regs \<Rightarrow> nat \<Rightarrow> regs" where
  "R3 r i = (case r of (v, w, x, y, z, block) \<Rightarrow> (case blk block i of (block', b) \<Rightarrow>
     (z + ((((w OR x) AND y) OR (w AND x)) + b + 0x8F1BBCDC + rol v 5), v, rol w 30, x, y, block')))"

definition R4 :: "regs \<Rightarrow> nat \<Rightarrow> regs" where
  "R4 r i = (case r of (v, w, x, y, z, block) \<Rightarrow> (case blk block i of (block', b) \<Rightarrow>
     (z + ((w XOR x XOR y) + b + 0xCA62C1D6 + rol v 5), v, rol w 30, x, y, block')))"

definition SHA1Transform :: "uint32 list \<Rightarrow> string \<Rightarrow> uint32 list" where
  "SHA1Transform state buffer =
     (let r = (state ! 0, state ! 1, state ! 2, state ! 3, state ! 4, words_of buffer);
          r = foldl R0 r [0..<16]; r = foldl R1 r [16..<20]; r = foldl R2 r [20..<40];
          r = foldl R3 r [40..<60]; r = foldl R4 r [60..<80] in
      case r of (a, b, c, d, e, block) \<Rightarrow>
        [state ! 0 + a, state ! 1 + b, state ! 2 + c, state ! 3 + d, state ! 4 + e])"

record SHA1_CTX =
  sha_state :: "uint32 list"
  sha_count0 :: uint32
  sha_count1 :: uint32
  sha_buffer :: string

definition SHA1Init :: "SHA1_CTX \<Rightarrow> SHA1_CTX" where
  "SHA1Init context = context\<lparr>
     sha_state := [0x67452301, 0xEFCDAB89, 0x98BADCFE, 0x10325476, 0xC3D2E1F0], sha_count0 := 0, sha_count1 := 0\<rparr>"

text \<open>The loop over whole blocks: the state, and what is left of the data.\<close>

function sha1_blocks :: "uint32 list \<Rightarrow> string \<Rightarrow> uint32 list \<times> string" where
  "sha1_blocks st data = (if 63 < length data
     then sha1_blocks (SHA1Transform st (take 64 data)) (drop 64 data) else (st, data))"
  by pat_completeness auto
termination by (relation "measure (\<lambda>(st, data). length data)") auto

declare sha1_blocks.simps [simp del]

definition SHA1Update :: "SHA1_CTX \<Rightarrow> string \<Rightarrow> SHA1_CTX" where
  "SHA1Update context data =
     (let len = word_of_nat (length data); j = sha_count0 context; c0 = j + push_bit 3 len;
          c1 = (if c0 < j then sha_count1 context + 1 else sha_count1 context) + drop_bit 29 len;
          k = unat (drop_bit 3 j AND 63);
          context = context\<lparr>sha_count0 := c0, sha_count1 := c1\<rparr> in
      if 63 < k + length data
      then (let filled = store_at (sha_buffer context) k (take (64 - k) data) in
        case sha1_blocks (SHA1Transform (sha_state context) filled) (drop (64 - k) data) of (st, rest) \<Rightarrow>
          context\<lparr>sha_state := st, sha_buffer := store_at filled 0 rest\<rparr>)
      else context\<lparr>sha_buffer := store_at (sha_buffer context) k data\<rparr>)"

text \<open>The loop of \<^verbatim>\<open>SHA1Final\<close>: zeros until eight bytes are missing to the end of a block.\<close>

definition used :: "uint32 \<Rightarrow> nat" where
  "used c = unat (drop_bit 3 c AND 63)"

lemma drop_bit_6: "drop_bit 3 c AND 63 = take_bit 6 (drop_bit 3 (c :: uint32))"
  by (simp add: take_bit_eq_mask mask_eq_exp_minus_1)

lemma used_eq: "used c = unat c div 8 mod 64"
  unfolding used_def drop_bit_6
  by (simp only: unsigned_take_bit_eq unat_drop_bit_eq) (simp add: take_bit_eq_mod drop_bit_eq_div)

lemma and_504: "c AND 504 = push_bit 3 (drop_bit 3 c AND 63)" for c :: uint32
proof -
  have "c AND push_bit 3 m = push_bit 3 (drop_bit 3 c AND m)" for m
    by (rule bit_eqI) (auto simp: bit_simps)
  from this [of 63] show ?thesis by simp
qed

lemma count_mask: "c AND 504 = 448 \<longleftrightarrow> used c = 56"
proof -
  have lt: "used c < 64" by (simp add: used_eq)
  have "drop_bit 3 c AND 63 = word_of_nat (used c)" by (simp add: used_def)
  then have "c AND 504 = word_of_nat (8 * used c)"
    by (simp add: and_504 push_bit_eq_mult)
  then have "c AND 504 = 448 \<longleftrightarrow> (word_of_nat (8 * used c) :: uint32) = word_of_nat 448" by simp
  also have "\<dots> \<longleftrightarrow> 8 * used c = 448"
    using lt by (subst word_of_nat_eq_iff) (simp add: take_bit_eq_mod)
  finally show ?thesis by simp
qed

lemma mod_div_8: "m mod 2 ^ 32 div 8 mod 64 = m div 8 mod (64 :: nat)"
proof -
  have "drop_bit 3 (take_bit 32 m) = take_bit 29 (drop_bit 3 m)" by (simp add: drop_bit_take_bit)
  then have "m mod 2 ^ 32 div 8 = m div 8 mod 2 ^ 29" by (simp add: take_bit_eq_mod drop_bit_eq_div)
  then show ?thesis by (simp add: mod_mod_cancel)
qed

lemma used_advance: "used (c + push_bit 3 (word_of_nat n)) = (used c + n) mod 64"
proof -
  have "c + push_bit 3 (word_of_nat n) = word_of_nat (unat c + 8 * n)"
    by (simp add: push_bit_eq_mult mult.commute)
  then have "used (c + push_bit 3 (word_of_nat n)) = (unat c + 8 * n) mod 2 ^ 32 div 8 mod 64"
    by (simp only: used_eq unat_of_nat) simp
  also have "\<dots> = (unat c + 8 * n) div 8 mod 64" by (rule mod_div_8)
  also have "\<dots> = (unat c div 8 mod 64 + n) mod 64" by (simp add: mod_add_right_eq add.commute)
  finally show ?thesis by (simp add: used_eq add.commute)
qed

lemma sha_count0_Update: "sha_count0 (SHA1Update c d) = sha_count0 c + push_bit 3 (word_of_nat (length d))"
  by (simp add: SHA1Update_def Let_def split: prod.splits)

function sha1_pad :: "SHA1_CTX \<Rightarrow> SHA1_CTX" where
  "sha1_pad context = (if sha_count0 context AND 504 \<noteq> 448
     then sha1_pad (SHA1Update context [nul]) else context)"
  by pat_completeness auto
termination
proof (relation "measure (\<lambda>c. (120 - used (sha_count0 c)) mod 64)")
  fix c :: SHA1_CTX
  let ?m = "used (sha_count0 c)"
  have lt: "?m < 64" by (simp add: used_eq)
  assume "sha_count0 c AND 504 \<noteq> 448"
  then have "?m \<noteq> 56" by (simp add: count_mask)
  then have "(120 - (?m + 1) mod 64) mod 64 < (120 - ?m) mod 64"
    using lt by (cases "?m < 63") (auto simp: mod_if)
  moreover have "used (sha_count0 (SHA1Update c [nul])) = (?m + 1) mod 64"
    using used_advance [of "sha_count0 c" 1] by (simp add: sha_count0_Update)
  ultimately show "(SHA1Update c [nul], c) \<in> measure (\<lambda>c. (120 - used (sha_count0 c)) mod 64)"
    by simp
qed simp

declare sha1_pad.simps [simp del]

definition finalcount :: "SHA1_CTX \<Rightarrow> string" where
  "finalcount context = map (\<lambda>i. uchar (drop_bit ((3 - i mod 4) * 8)
     (if 4 \<le> i then sha_count0 context else sha_count1 context) AND 255)) [0..<8]"

text \<open>The digest; the context is cleared after that and not used again.\<close>

definition SHA1Final :: "SHA1_CTX \<Rightarrow> string" where
  "SHA1Final context =
     (let fc = finalcount context; context = SHA1Update context [CHR 0x80]; context = sha1_pad context;
          context = SHA1Update context fc in
      map (\<lambda>i. uchar (drop_bit ((3 - i mod 4) * 8) (sha_state context ! (i div 4)) AND 255)) [0..<20])"

section \<open>MD5\<close>

definition byteReverse :: "string \<Rightarrow> nat \<Rightarrow> string" where
  "byteReverse buf longs = (if is_big_endian
     then concat (map (\<lambda>i. rev (take 4 (drop (4 * i) buf))) [0..<longs]) @ drop (4 * longs) buf else buf)"

definition F1 :: "uint32 \<Rightarrow> uint32 \<Rightarrow> uint32 \<Rightarrow> uint32" where
  "F1 x y z = z XOR (x AND (y XOR z))"

definition F2 :: "uint32 \<Rightarrow> uint32 \<Rightarrow> uint32 \<Rightarrow> uint32" where
  "F2 x y z = F1 z x y"

definition F3 :: "uint32 \<Rightarrow> uint32 \<Rightarrow> uint32 \<Rightarrow> uint32" where
  "F3 x y z = x XOR y XOR z"

definition F4 :: "uint32 \<Rightarrow> uint32 \<Rightarrow> uint32 \<Rightarrow> uint32" where
  "F4 x y z = y XOR (x OR NOT z)"

text \<open>The word of the block, the constant and the rotation of every step. Again the registers move.\<close>

definition md5_steps1 :: "(nat \<times> uint32 \<times> nat) list" where
  "md5_steps1 = [
     (0, 0xD76AA478, 7), (1, 0xE8C7B756, 12), (2, 0x242070DB, 17), (3, 0xC1BDCEEE, 22),
     (4, 0xF57C0FAF, 7), (5, 0x4787C62A, 12), (6, 0xA8304613, 17), (7, 0xFD469501, 22),
     (8, 0x698098D8, 7), (9, 0x8B44F7AF, 12), (10, 0xFFFF5BB1, 17), (11, 0x895CD7BE, 22),
     (12, 0x6B901122, 7), (13, 0xFD987193, 12), (14, 0xA679438E, 17), (15, 0x49B40821, 22)]"

definition md5_steps2 :: "(nat \<times> uint32 \<times> nat) list" where
  "md5_steps2 = [
     (1, 0xF61E2562, 5), (6, 0xC040B340, 9), (11, 0x265E5A51, 14), (0, 0xE9B6C7AA, 20),
     (5, 0xD62F105D, 5), (10, 0x02441453, 9), (15, 0xD8A1E681, 14), (4, 0xE7D3FBC8, 20),
     (9, 0x21E1CDE6, 5), (14, 0xC33707D6, 9), (3, 0xF4D50D87, 14), (8, 0x455A14ED, 20),
     (13, 0xA9E3E905, 5), (2, 0xFCEFA3F8, 9), (7, 0x676F02D9, 14), (12, 0x8D2A4C8A, 20)]"

definition md5_steps3 :: "(nat \<times> uint32 \<times> nat) list" where
  "md5_steps3 = [
     (5, 0xFFFA3942, 4), (8, 0x8771F681, 11), (11, 0x6D9D6122, 16), (14, 0xFDE5380C, 23),
     (1, 0xA4BEEA44, 4), (4, 0x4BDECFA9, 11), (7, 0xF6BB4B60, 16), (10, 0xBEBFBC70, 23),
     (13, 0x289B7EC6, 4), (0, 0xEAA127FA, 11), (3, 0xD4EF3085, 16), (6, 0x04881D05, 23),
     (9, 0xD9D4D039, 4), (12, 0xE6DB99E5, 11), (15, 0x1FA27CF8, 16), (2, 0xC4AC5665, 23)]"

definition md5_steps4 :: "(nat \<times> uint32 \<times> nat) list" where
  "md5_steps4 = [
     (0, 0xF4292244, 6), (7, 0x432AFF97, 10), (14, 0xAB9423A7, 15), (5, 0xFC93A039, 21),
     (12, 0x655B59C3, 6), (3, 0x8F0CCC92, 10), (10, 0xFFEFF47D, 15), (1, 0x85845DD1, 21),
     (8, 0x6FA87E4F, 6), (15, 0xFE2CE6E0, 10), (6, 0xA3014314, 15), (13, 0x4E0811A1, 21),
     (4, 0xF7537E82, 6), (11, 0xBD3AF235, 10), (2, 0x2AD7D2BB, 15), (9, 0xEB86D391, 21)]"

type_synonym md5_regs = "uint32 \<times> uint32 \<times> uint32 \<times> uint32"

definition MD5STEP :: "(uint32 \<Rightarrow> uint32 \<Rightarrow> uint32 \<Rightarrow> uint32) \<Rightarrow> uint32 list \<Rightarrow> md5_regs \<Rightarrow>
    nat \<times> uint32 \<times> nat \<Rightarrow> md5_regs" where
  "MD5STEP f block r step = (case r of (w, x, y, z) \<Rightarrow> (case step of (i, k, s) \<Rightarrow>
     (z, rol (w + (f x y z + (block ! i + k))) s + x, x, y)))"

definition MD5Transform :: "uint32 list \<Rightarrow> uint32 list \<Rightarrow> uint32 list" where
  "MD5Transform buf block =
     (let r = (buf ! 0, buf ! 1, buf ! 2, buf ! 3);
          r = foldl (MD5STEP F1 block) r md5_steps1; r = foldl (MD5STEP F2 block) r md5_steps2;
          r = foldl (MD5STEP F3 block) r md5_steps3; r = foldl (MD5STEP F4 block) r md5_steps4 in
      case r of (a, b, c, d) \<Rightarrow> [buf ! 0 + a, buf ! 1 + b, buf ! 2 + c, buf ! 3 + d])"

record MD5_CTX =
  md5_buf :: "uint32 list"
  md5_bits0 :: uint32
  md5_bits1 :: uint32
  md5_in :: string

definition MD5Init :: "MD5_CTX \<Rightarrow> MD5_CTX" where
  "MD5Init ctx = ctx\<lparr>md5_buf := [0x67452301, 0xEFCDAB89, 0x98BADCFE, 0x10325476],
     md5_bits0 := 0, md5_bits1 := 0\<rparr>"

definition md5_compress :: "uint32 list \<Rightarrow> string \<Rightarrow> uint32 list" where
  "md5_compress buf block = MD5Transform buf (words_of (byteReverse block 16))"

text \<open>The loop over whole blocks, each copied into \<^verbatim>\<open>ctx->in\<close>.\<close>

function md5_blocks :: "uint32 list \<Rightarrow> string \<Rightarrow> string \<Rightarrow> uint32 list \<times> string \<times> string" where
  "md5_blocks buf inb data = (if 64 \<le> length data
     then md5_blocks (md5_compress buf (take 64 data)) (byteReverse (take 64 data) 16) (drop 64 data)
     else (buf, inb, data))"
  by pat_completeness auto
termination by (relation "measure (\<lambda>(buf, inb, data). length data)") auto

declare md5_blocks.simps [simp del]

definition MD5Update :: "MD5_CTX \<Rightarrow> string \<Rightarrow> MD5_CTX" where
  "MD5Update ctx data =
     (let len = word_of_nat (length data); t = md5_bits0 ctx; b0 = t + push_bit 3 len;
          b1 = (if b0 < t then md5_bits1 ctx + 1 else md5_bits1 ctx) + drop_bit 29 len;
          ctx = ctx\<lparr>md5_bits0 := b0, md5_bits1 := b1\<rparr>;
          t = unat (drop_bit 3 t AND 63) in
      if t \<noteq> 0 \<and> length data < 64 - t then ctx\<lparr>md5_in := store_at (md5_in ctx) t data\<rparr>
      else (let full = store_at (md5_in ctx) t (take (64 - t) data);
                start = (if t \<noteq> 0 then (md5_compress (md5_buf ctx) full, byteReverse full 16, drop (64 - t) data)
                         else (md5_buf ctx, md5_in ctx, data)) in
        case start of (buf, inb, rest) \<Rightarrow> (case md5_blocks buf inb rest of (buf, inb, rest) \<Rightarrow>
          ctx\<lparr>md5_buf := buf, md5_in := store_at inb 0 rest\<rparr>)))"

definition MD5Final :: "MD5_CTX \<Rightarrow> string" where
  "MD5Final ctx =
     (let count = unat (drop_bit 3 (md5_bits0 ctx) AND 63);
          inb = store_at (md5_in ctx) count [CHR 0x80]; p = count + 1; count = 64 - 1 - count;
          step = (if count < 8
            then (let full = store_at inb p (replicate count nul) in
                  (md5_compress (md5_buf ctx) full, store_at (byteReverse full 16) 0 (replicate 56 nul)))
            else (md5_buf ctx, store_at inb p (replicate (count - 8) nul))) in
      case step of (buf, inb) \<Rightarrow>
        (let block = (words_of (byteReverse inb 14))[14 := md5_bits0 ctx, 15 := md5_bits1 ctx] in
         byteReverse (concat (map le_bytes (MD5Transform buf block))) 4))"

section \<open>Strings\<close>

definition bin2str :: "string \<Rightarrow> string" where
  "bin2str p = concat (map (\<lambda>c. [''0123456789abcdef'' ! (code c div 16), ''0123456789abcdef'' ! (code c mod 16)]) p)"

text \<open>\<^verbatim>\<open>ctx\<close> is on the stack and is not initialised: what it holds at first is an argument.\<close>

definition mg_md5 :: "MD5_CTX \<Rightarrow> string list \<Rightarrow> string" where
  "mg_md5 ctx strings = bin2str (MD5Final (foldl MD5Update (MD5Init ctx) (map c_str strings)))"

section \<open>Feeding a hash function block by block\<close>

function absorb :: "('s \<Rightarrow> string \<Rightarrow> 's) \<Rightarrow> 's \<Rightarrow> string \<Rightarrow> 's \<times> string" where
  "absorb f s d = (if 64 \<le> length d then absorb f (f s (take 64 d)) (drop 64 d) else (s, d))"
  by pat_completeness auto
termination by (relation "measure (\<lambda>(f, s, d). length d)") auto

declare absorb.simps [simp del]

lemma absorb_short: "length d < 64 \<Longrightarrow> absorb f s d = (s, d)"
  by (subst absorb.simps) simp

lemma absorb_block: "length b = 64 \<Longrightarrow> absorb f s (b @ d) = absorb f (f s b) d"
  by (subst absorb.simps) simp

lemma absorb_rest: "length (snd (absorb f s d)) = length d mod 64"
proof (induction f s d rule: absorb.induct)
  case (1 f s d)
  then show ?case by (subst absorb.simps) (simp add: mod_if [of "length d"])
qed

lemma absorb_append: "absorb f s (x @ y) = (case absorb f s x of (t, r) \<Rightarrow> absorb f t (r @ y))"
proof (induction f s x rule: absorb.induct)
  case (1 f s x)
  show ?case
  proof (cases "64 \<le> length x")
    case True
    then have "absorb f s (x @ y) = absorb f (f s (take 64 x)) (drop 64 x @ y)"
      by (subst absorb.simps) simp
    also have "\<dots> = (case absorb f s x of (t, r) \<Rightarrow> absorb f t (r @ y))"
      using "1.IH" [OF True] True by (subst (2) absorb.simps) simp
    finally show ?thesis .
  qed (simp add: absorb_short)
qed

text \<open>
  What an implementation promises: a piece of the message goes behind the bytes that wait for their block
  to fill, and counts.
\<close>

locale block_hash =
  fixes compress :: "'s \<Rightarrow> string \<Rightarrow> 's" and update :: "'c \<Rightarrow> string \<Rightarrow> 'c"
    and chain :: "'c \<Rightarrow> 's" and pending :: "'c \<Rightarrow> string" and bits :: "'c \<Rightarrow> nat" and ok :: "'c \<Rightarrow> bool"
  assumes update_ok: "ok c \<Longrightarrow> ok (update c d)"
    and update_absorbs: "ok c \<Longrightarrow> (chain (update c d), pending (update c d)) = absorb compress (chain c) (pending c @ d)"
    and update_counts: "ok c \<Longrightarrow> length d < 2 ^ 32 \<Longrightarrow> bits (update c d) = (bits c + 8 * length d) mod 2 ^ 64"
begin

lemma pieces_ok: "ok c \<Longrightarrow> ok (foldl update c ds)"
  by (induction ds arbitrary: c) (simp_all add: update_ok)

lemma pieces_absorb:
  "ok c \<Longrightarrow> length (pending c) < 64 \<Longrightarrow>
   (chain (foldl update c ds), pending (foldl update c ds)) = absorb compress (chain c) (pending c @ concat ds)"
proof (induction ds arbitrary: c)
  case Nil
  then show ?case by (simp add: absorb_short)
next
  case (Cons d ds)
  have u: "absorb compress (chain c) (pending c @ d) = (chain (update c d), pending (update c d))"
    using update_absorbs [OF Cons.prems(1)] by simp
  have "length (pending (update c d)) < 64"
    using absorb_rest [of compress "chain c" "pending c @ d"] by (simp add: u)
  from Cons.IH [OF update_ok [OF Cons.prems(1)] this] show ?case
    using absorb_append [of compress "chain c" "pending c @ d" "concat ds"] by (simp add: u)
qed

lemma pieces_count:
  assumes "ok c" "bits c < 2 ^ 64" "\<forall>d \<in> set ds. length d < 2 ^ 32"
  shows "bits (foldl update c ds) = (bits c + 8 * length (concat ds)) mod 2 ^ 64"
  using assms
proof (induction ds arbitrary: c)
  case Nil
  then show ?case by simp
next
  case (Cons d ds)
  then have b: "bits (update c d) = (bits c + 8 * length d) mod 2 ^ 64" by (simp add: update_counts)
  with Cons have "bits (foldl update (update c d) ds) = (bits (update c d) + 8 * length (concat ds)) mod 2 ^ 64"
    by (intro Cons.IH) (simp_all add: update_ok)
  then show ?case by (simp add: b mod_add_left_eq mod_add_right_eq algebra_simps)
qed

end

text \<open>Both keep a 64-bit count in two words, the low one first.\<close>

definition bit_count :: "uint32 \<Rightarrow> uint32 \<Rightarrow> nat" where
  "bit_count lo hi = unat hi * 2 ^ 32 + unat lo"

lemma wrap_less:
  assumes "a < N" "p < (N :: nat)"
  shows "(a + p) mod N < a \<longleftrightarrow> N \<le> a + p" "(a + p) mod N + (if N \<le> a + p then N else 0) = a + p"
proof -
  have "(a + p) mod N = (if N \<le> a + p then a + p - N else a + p)"
    using assms by (auto simp: mod_if)
  with assms show "(a + p) mod N < a \<longleftrightarrow> N \<le> a + p" "(a + p) mod N + (if N \<le> a + p then N else 0) = a + p"
    by auto
qed

lemma mod_two_digits:
  assumes "x < N"
  shows "(h mod N) * N + x = (h * N + x) mod (N * (N :: nat))"
  using assms by (simp add: mod_mult2_eq)

lemma carry:
  fixes lo hi len :: uint32
  defines "lo' \<equiv> lo + push_bit 3 len"
  shows "bit_count lo' ((if lo' < lo then hi + 1 else hi) + drop_bit 29 len) = (bit_count lo hi + 8 * unat len) mod 2 ^ 64"
proof -
  let ?N = "2 ^ 32 :: nat"
  define p q where "p = 8 * unat len mod ?N" and "q = unat len div 2 ^ 29"
  define c :: nat where "c = (if ?N \<le> unat lo + p then 1 else 0)"
  have "unat len = 2 ^ 29 * q + unat len mod 2 ^ 29" by (simp add: q_def)
  moreover have "8 * (unat len mod 2 ^ 29) = p" by (simp add: p_def mult_mod_right)
  ultimately have pq: "8 * unat len = p + ?N * q" by simp
  have lo: "unat lo < ?N" "p < ?N" using unsigned_less [of lo] by (simp_all add: p_def)
  have p: "unat (push_bit 3 len) = p"
    by (simp only: unsigned_push_bit_eq p_def) (simp add: push_bit_eq_mult take_bit_eq_mod mult.commute)
  have lo': "unat lo' = (unat lo + p) mod ?N" by (simp add: lo'_def unat_word_ariths p)
  have less: "lo' < lo \<longleftrightarrow> ?N \<le> unat lo + p"
    using wrap_less [OF lo] by (simp add: word_less_nat_alt lo')
  have wrap: "unat lo' + ?N * c = unat lo + p"
    using wrap_less(2) [OF lo] by (simp add: lo' c_def split: if_splits)
  have q: "unat (drop_bit 29 len) = q" by (simp only: q_def unat_drop_bit_eq) (simp only: drop_bit_eq_div)
  have hi: "unat ((if lo' < lo then hi + 1 else hi) + drop_bit 29 len) = (unat hi + c + q) mod ?N"
    by (simp add: less c_def unat_word_ariths q mod_add_left_eq)
  have "bit_count lo' ((if lo' < lo then hi + 1 else hi) + drop_bit 29 len)
      = ((unat hi + c + q) * ?N + unat lo') mod (?N * ?N)"
    unfolding bit_count_def hi by (rule mod_two_digits) (simp add: lo')
  also have "(unat hi + c + q) * ?N + unat lo' = bit_count lo hi + 8 * unat len"
    unfolding pq bit_count_def using wrap by (simp add: algebra_simps)
  finally show ?thesis by simp
qed

section \<open>Both functions absorb their input\<close>

lemma length_store_at: "j + length d \<le> length buf \<Longrightarrow> length (store_at buf j d) = length buf"
  by (simp add: store_at_def)

lemma take_store_at: "j \<le> length buf \<Longrightarrow> n = j + length d \<Longrightarrow> take n (store_at buf j d) = take j buf @ d"
  by (simp add: store_at_def)

lemma store_at_fill: "j \<le> length buf \<Longrightarrow> length buf \<le> j + length d \<Longrightarrow> store_at buf j d = take j buf @ d"
  by (simp add: store_at_def)

lemma used_less: "used c < 64"
  by (simp add: used_eq)

lemma absorb_fill:
  assumes "length b < 64" "64 \<le> length b + length d"
  shows "absorb f s (b @ d) = absorb f (f s (b @ take (64 - length b) d)) (drop (64 - length b) d)"
proof -
  have "absorb f s ((b @ take (64 - length b) d) @ drop (64 - length b) d)
      = absorb f (f s (b @ take (64 - length b) d)) (drop (64 - length b) d)"
    using assms by (intro absorb_block) simp
  then show ?thesis by simp
qed

lemma sha1_blocks_absorb: "sha1_blocks st d = absorb SHA1Transform st d"
proof (induction st d rule: sha1_blocks.induct)
  case (1 st d)
  show ?case
    by (cases "63 < length d"; subst sha1_blocks.simps; subst absorb.simps) (use 1 in auto)
qed

definition sha_pending :: "SHA1_CTX \<Rightarrow> string" where
  "sha_pending c = take (used (sha_count0 c)) (sha_buffer c)"

definition sha_bits :: "SHA1_CTX \<Rightarrow> nat" where
  "sha_bits c = bit_count (sha_count0 c) (sha_count1 c)"

definition sha_ok :: "SHA1_CTX \<Rightarrow> bool" where
  "sha_ok c \<longleftrightarrow> length (sha_buffer c) = 64"

lemma length_sha_pending: "sha_ok c \<Longrightarrow> length (sha_pending c) = used (sha_count0 c)"
  using used_less [of "sha_count0 c"] by (simp add: sha_ok_def sha_pending_def)

lemma SHA1Update_buffer:
  assumes ok: "sha_ok c" and k: "k = used (sha_count0 c)"
  shows "k + length d < 64 \<Longrightarrow> sha_state (SHA1Update c d) = sha_state c \<and>
      sha_buffer (SHA1Update c d) = store_at (sha_buffer c) k d"
    and "64 \<le> k + length d \<Longrightarrow> sha_state (SHA1Update c d) = fst (absorb SHA1Transform (sha_state c) (sha_pending c @ d)) \<and>
      sha_buffer (SHA1Update c d) = store_at (sha_pending c @ take (64 - k) d) 0 (snd (absorb SHA1Transform (sha_state c) (sha_pending c @ d)))"
proof -
  note k' = k [unfolded used_def]
  show "k + length d < 64 \<Longrightarrow> sha_state (SHA1Update c d) = sha_state c \<and>
      sha_buffer (SHA1Update c d) = store_at (sha_buffer c) k d"
    by (simp add: SHA1Update_def Let_def k'[symmetric])
next
  note k' = k [unfolded used_def]
  assume big: "64 \<le> k + length d"
  have k64: "k < 64" "length (sha_pending c) = k" using used_less ok k by (simp_all add: length_sha_pending)
  have f: "store_at (sha_buffer c) k (take (64 - k) d) = sha_pending c @ take (64 - k) d"
    using ok big k64 by (simp add: store_at_fill sha_ok_def sha_pending_def k)
  have "absorb SHA1Transform (sha_state c) (sha_pending c @ d)
      = sha1_blocks (SHA1Transform (sha_state c) (store_at (sha_buffer c) k (take (64 - k) d))) (drop (64 - k) d)"
    using absorb_fill [of "sha_pending c" d] big k64 by (simp add: sha1_blocks_absorb f)
  with big show "sha_state (SHA1Update c d) = fst (absorb SHA1Transform (sha_state c) (sha_pending c @ d)) \<and>
      sha_buffer (SHA1Update c d) = store_at (sha_pending c @ take (64 - k) d) 0 (snd (absorb SHA1Transform (sha_state c) (sha_pending c @ d)))"
    by (simp add: SHA1Update_def Let_def k'[symmetric] f split: prod.splits)
qed

lemma sha_absorbs:
  assumes ok: "sha_ok c"
  shows "sha_ok (SHA1Update c d)"
    "(sha_state (SHA1Update c d), sha_pending (SHA1Update c d)) = absorb SHA1Transform (sha_state c) (sha_pending c @ d)"
proof -
  define k where "k = used (sha_count0 c)"
  note upd = SHA1Update_buffer [OF ok k_def, of d]
  let ?a = "absorb SHA1Transform (sha_state c) (sha_pending c @ d)"
  have k: "k < 64" "length (sha_pending c) = k" "length (sha_buffer c) = 64"
    using used_less ok by (simp_all add: k_def length_sha_pending) (simp add: sha_ok_def)
  have u: "used (sha_count0 (SHA1Update c d)) = (k + length d) mod 64"
    by (simp add: sha_count0_Update used_advance k_def)
  have r: "length (snd ?a) = (k + length d) mod 64" by (simp add: absorb_rest k)
  show "sha_ok (SHA1Update c d)"
  proof (cases "k + length d < 64")
    case True
    with upd(1) k show ?thesis by (simp add: sha_ok_def length_store_at)
  next
    case False
    with upd(2) k r show ?thesis by (simp add: sha_ok_def length_store_at)
  qed
  show "(sha_state (SHA1Update c d), sha_pending (SHA1Update c d)) = ?a"
  proof (cases "k + length d < 64")
    case True
    with upd(1) k u show ?thesis
      by (simp add: sha_pending_def take_store_at absorb_short flip: k_def)
  next
    case False
    with upd(2) have s: "sha_state (SHA1Update c d) = fst ?a"
      "sha_buffer (SHA1Update c d) = store_at (sha_pending c @ take (64 - k) d) 0 (snd ?a)" by simp_all
    have "sha_pending (SHA1Update c d) = snd ?a"
      by (simp add: sha_pending_def [of "SHA1Update c d"] u s(2) take_store_at r)
    with s(1) show ?thesis by (simp add: prod_eq_iff)
  qed
qed

lemma sha_count1_Update:
  "sha_count1 (SHA1Update c d) = (if sha_count0 (SHA1Update c d) < sha_count0 c then sha_count1 c + 1
     else sha_count1 c) + drop_bit 29 (word_of_nat (length d))"
  by (simp add: SHA1Update_def Let_def split: prod.splits)

lemma sha_counts:
  assumes "length d < 2 ^ 32"
  shows "sha_bits (SHA1Update c d) = (sha_bits c + 8 * length d) mod 2 ^ 64"
proof -
  have "unat (word_of_nat (length d) :: uint32) = length d" using assms by (simp add: unat_of_nat)
  then show ?thesis
    using carry [of "sha_count0 c" "word_of_nat (length d)" "sha_count1 c"]
    by (simp only: sha_bits_def sha_count1_Update sha_count0_Update)
qed

interpretation sha1: block_hash SHA1Transform SHA1Update sha_state sha_pending sha_bits sha_ok
  by unfold_locales (simp_all add: sha_absorbs sha_counts)

lemma little_endian [simp]: "\<not> is_big_endian"
  by code_simp

lemma byteReverse_id [simp]: "byteReverse buf n = buf"
  by (simp add: byteReverse_def)

lemma md5_blocks_absorb:
  "fst (md5_blocks buf inb d) = fst (absorb md5_compress buf d) \<and>
   snd (snd (md5_blocks buf inb d)) = snd (absorb md5_compress buf d) \<and>
   (length inb = 64 \<longrightarrow> length (fst (snd (md5_blocks buf inb d))) = 64)"
proof (induction buf inb d rule: md5_blocks.induct)
  case (1 buf inb d)
  show ?case
    by (cases "64 \<le> length d"; subst (1 2 3) md5_blocks.simps; subst (1 2) absorb.simps) (use 1 in auto)
qed

definition md5_pending :: "MD5_CTX \<Rightarrow> string" where
  "md5_pending c = take (used (md5_bits0 c)) (md5_in c)"

definition md5_count :: "MD5_CTX \<Rightarrow> nat" where
  "md5_count c = bit_count (md5_bits0 c) (md5_bits1 c)"

definition md5_ok :: "MD5_CTX \<Rightarrow> bool" where
  "md5_ok c \<longleftrightarrow> length (md5_in c) = 64"

lemma length_md5_pending: "md5_ok c \<Longrightarrow> length (md5_pending c) = used (md5_bits0 c)"
  using used_less [of "md5_bits0 c"] by (simp add: md5_ok_def md5_pending_def)

lemma md5_bits0_Update: "md5_bits0 (MD5Update c d) = md5_bits0 c + push_bit 3 (word_of_nat (length d))"
  by (simp add: MD5Update_def Let_def split: prod.splits)

lemma md5_bits1_Update:
  "md5_bits1 (MD5Update c d) = (if md5_bits0 (MD5Update c d) < md5_bits0 c then md5_bits1 c + 1
     else md5_bits1 c) + drop_bit 29 (word_of_nat (length d))"
  by (simp add: MD5Update_def Let_def split: prod.splits)

lemma MD5Update_buffer:
  assumes ok: "md5_ok c" and k: "k = used (md5_bits0 c)"
  shows "k \<noteq> 0 \<Longrightarrow> k + length d < 64 \<Longrightarrow> md5_buf (MD5Update c d) = md5_buf c \<and>
      md5_in (MD5Update c d) = store_at (md5_in c) k d"
    and "k = 0 \<or> 64 \<le> k + length d \<Longrightarrow> md5_buf (MD5Update c d) = fst (absorb md5_compress (md5_buf c) (md5_pending c @ d)) \<and>
      (\<exists>b. length b = 64 \<and> md5_in (MD5Update c d) = store_at b 0 (snd (absorb md5_compress (md5_buf c) (md5_pending c @ d))))"
proof -
  note k' = k [unfolded used_def]
  have k64: "k < 64" "length (md5_pending c) = k" "length (md5_in c) = 64"
    using used_less ok k by (simp_all add: length_md5_pending) (simp add: md5_ok_def)
  show "k \<noteq> 0 \<Longrightarrow> k + length d < 64 \<Longrightarrow> md5_buf (MD5Update c d) = md5_buf c \<and>
      md5_in (MD5Update c d) = store_at (md5_in c) k d"
    using k64 by (simp add: MD5Update_def Let_def k'[symmetric] less_diff_conv add.commute)
  assume big: "k = 0 \<or> 64 \<le> k + length d"
  let ?full = "store_at (md5_in c) k (take (64 - k) d)"
  let ?start = "if k \<noteq> 0 then (md5_compress (md5_buf c) ?full, ?full, drop (64 - k) d) else (md5_buf c, md5_in c, d)"
  have full: "k \<noteq> 0 \<Longrightarrow> ?full = md5_pending c @ take (64 - k) d"
    using big k64 by (simp add: store_at_fill md5_pending_def k)
  have a: "absorb md5_compress (md5_buf c) (md5_pending c @ d)
      = absorb md5_compress (fst ?start) (snd (snd ?start))"
    using absorb_fill [of "md5_pending c" d] big k64 full by auto
  have l: "length (fst (snd ?start)) = 64" using big k64 full by auto
  have u: "MD5Update c d = (case ?start of (buf, inb, rest) \<Rightarrow> (case md5_blocks buf inb rest of (buf, inb, rest) \<Rightarrow>
      (MD5Update c d)\<lparr>md5_buf := buf, md5_in := store_at inb 0 rest\<rparr>))"
    using big k64 by (auto simp: MD5Update_def Let_def k'[symmetric] split: prod.splits)
  have "md5_buf (MD5Update c d) = fst (md5_blocks (fst ?start) (fst (snd ?start)) (snd (snd ?start)))"
    "md5_in (MD5Update c d) = store_at (fst (snd (md5_blocks (fst ?start) (fst (snd ?start)) (snd (snd ?start))))) 0
       (snd (snd (md5_blocks (fst ?start) (fst (snd ?start)) (snd (snd ?start)))))"
    by (subst u; simp split: prod.splits)+
  then show "md5_buf (MD5Update c d) = fst (absorb md5_compress (md5_buf c) (md5_pending c @ d)) \<and>
      (\<exists>b. length b = 64 \<and> md5_in (MD5Update c d) = store_at b 0 (snd (absorb md5_compress (md5_buf c) (md5_pending c @ d))))"
    using md5_blocks_absorb [of "fst ?start" "fst (snd ?start)" "snd (snd ?start)"] l unfolding a by metis
qed

lemma md5_absorbs:
  assumes ok: "md5_ok c"
  shows "md5_ok (MD5Update c d)"
    "(md5_buf (MD5Update c d), md5_pending (MD5Update c d)) = absorb md5_compress (md5_buf c) (md5_pending c @ d)"
proof -
  define k where "k = used (md5_bits0 c)"
  note upd = MD5Update_buffer [OF ok k_def, of d]
  let ?a = "absorb md5_compress (md5_buf c) (md5_pending c @ d)"
  have k: "k < 64" "length (md5_pending c) = k" "length (md5_in c) = 64"
    using used_less ok by (simp_all add: k_def length_md5_pending) (simp add: md5_ok_def)
  have u: "used (md5_bits0 (MD5Update c d)) = (k + length d) mod 64"
    by (simp add: md5_bits0_Update used_advance k_def)
  have r: "length (snd ?a) = (k + length d) mod 64" by (simp add: absorb_rest k)
  have "md5_ok (MD5Update c d) \<and> (md5_buf (MD5Update c d), md5_pending (MD5Update c d)) = ?a"
  proof (cases "k \<noteq> 0 \<and> k + length d < 64")
    case True
    with upd(1) k u show ?thesis
      by (simp add: md5_ok_def length_store_at md5_pending_def take_store_at absorb_short flip: k_def)
  next
    case False
    with upd(2) obtain b where s: "md5_buf (MD5Update c d) = fst ?a" "length b = 64"
      "md5_in (MD5Update c d) = store_at b 0 (snd ?a)" by (auto simp: not_less)
    have "md5_pending (MD5Update c d) = snd ?a"
      by (simp add: md5_pending_def [of "MD5Update c d"] u s(3) take_store_at r)
    with s r show ?thesis by (simp add: prod_eq_iff md5_ok_def length_store_at)
  qed
  then show "md5_ok (MD5Update c d)" "(md5_buf (MD5Update c d), md5_pending (MD5Update c d)) = ?a"
    by simp_all
qed

lemma md5_counts:
  assumes "length d < 2 ^ 32"
  shows "md5_count (MD5Update c d) = (md5_count c + 8 * length d) mod 2 ^ 64"
proof -
  have "unat (word_of_nat (length d) :: uint32) = length d" using assms by (simp add: unat_of_nat)
  then show ?thesis
    using carry [of "md5_bits0 c" "word_of_nat (length d)" "md5_bits1 c"]
    by (simp only: md5_count_def md5_bits1_Update md5_bits0_Update)
qed

interpretation md5: block_hash md5_compress MD5Update md5_buf md5_pending md5_count md5_ok
  by unfold_locales (simp_all add: md5_absorbs md5_counts)

end
