(* ===== verification/Digest_Spec.thy ===== *)
theory Digest_Spec
  imports Http_Digest
begin

text \<open>
  The standards: FIPS 180 for SHA-1 and RFC 1321 for MD5, on whole messages, and the proof that
  the contexts of \<^verbatim>\<open>util/mongoose.c\<close> compute them, whatever pieces the message comes in.
\<close>

unbundle bit_operations_syntax

section \<open>Messages\<close>

definition padding :: "nat \<Rightarrow> string" where
  "padding n = CHR 0x80 # replicate ((119 - n mod 64) mod 64) nul"

definition be_bytes :: "uint32 \<Rightarrow> string" where
  "be_bytes w = rev (le_bytes w)"

definition be_word :: "string \<Rightarrow> uint32" where
  "be_word s = le_word (rev (take 4 s))"

definition low_word :: "nat \<Rightarrow> uint32" where "low_word n = word_of_nat n"
definition high_word :: "nat \<Rightarrow> uint32" where "high_word n = word_of_nat (n div 2 ^ 32)"

section \<open>SHA-1\<close>

fun schedule :: "string \<Rightarrow> nat \<Rightarrow> uint32" where
  "schedule b t = (if t < 16 then be_word (drop (4 * t) b)
     else rol (schedule b (t - 3) XOR schedule b (t - 8) XOR schedule b (t - 14) XOR schedule b (t - 16)) 1)"

declare schedule.simps [simp del]

definition fips_f :: "nat \<Rightarrow> uint32 \<Rightarrow> uint32 \<Rightarrow> uint32 \<Rightarrow> uint32" where
  "fips_f t x y z = (if t < 20 then (x AND y) OR (NOT x AND z) else if t < 40 then x XOR y XOR z
     else if t < 60 then (x AND y) OR (x AND z) OR (y AND z) else x XOR y XOR z)"

definition fips_k :: "nat \<Rightarrow> uint32" where
  "fips_k t = (if t < 20 then 0x5A827999 else if t < 40 then 0x6ED9EBA1 else if t < 60 then 0x8F1BBCDC
     else 0xCA62C1D6)"

definition fips_round :: "string \<Rightarrow> uint32 \<times> uint32 \<times> uint32 \<times> uint32 \<times> uint32 \<Rightarrow> nat
    \<Rightarrow> uint32 \<times> uint32 \<times> uint32 \<times> uint32 \<times> uint32" where
  "fips_round block r t = (case r of (a, b, c, d, e) \<Rightarrow>
     (rol a 5 + fips_f t b c d + e + fips_k t + schedule block t, a, rol b 30, c, d))"

definition fips_compress :: "uint32 list \<Rightarrow> string \<Rightarrow> uint32 list" where
  "fips_compress h block =
     (case foldl (fips_round block) (h ! 0, h ! 1, h ! 2, h ! 3, h ! 4) [0..<80] of (a, b, c, d, e) \<Rightarrow>
        [h ! 0 + a, h ! 1 + b, h ! 2 + c, h ! 3 + d, h ! 4 + e])"

definition sha1_iv :: "uint32 list" where
  "sha1_iv = [0x67452301, 0xEFCDAB89, 0x98BADCFE, 0x10325476, 0xC3D2E1F0]"

definition sha1_standard :: "string \<Rightarrow> string" where
  "sha1_standard m = (let n = 8 * length m in concat (map be_bytes (fst (absorb fips_compress sha1_iv
     (m @ padding (length m) @ be_bytes (high_word n) @ be_bytes (low_word n))))))"

subsection \<open>The compression function\<close>

lemma bit_byte: "bit (byte c) n \<longleftrightarrow> n < 8 \<and> bit (code c) n"
proof -
  have "code c < 2 ^ 8" by (simp add: code_def)
  then have "code c = take_bit 8 (code c)" by (simp add: take_bit_nat_eq_self)
  then have "bit (code c) n \<longleftrightarrow> n < 8 \<and> bit (code c) n" by (metis bit_take_bit_iff)
  then show ?thesis by (auto simp: byte_def bit_of_nat_iff)
qed

lemma bit_le_word:
  assumes "q < 4" "r < 8"
  shows "bit (le_word s) (8 * q + r) \<longleftrightarrow> bit (code (s ! q)) r"
proof -
  from \<open>q < 4\<close> consider "q = 0" | "q = 1" | "q = 2" | "q = 3" by linarith
  then show ?thesis
    by cases (use \<open>r < 8\<close> in \<open>simp_all add: le_word_def bit_simps bit_byte\<close>)
qed

lemma bit_rol:
  assumes "n < 32" "0 < k" "k < 32"
  shows "bit (rol x k) n \<longleftrightarrow> (if k \<le> n then bit x (n - k) else bit x (n + 32 - k))"
  using assms by (auto simp: rol_def bit_simps add.commute dest: bit_imp_le_length)

lemma masks:
  "list_all (\<lambda>n. bit (0xFF00FF00 :: uint32) n = odd (n div 8)) [0..<32]"
  "list_all (\<lambda>n. bit (0x00FF00FF :: uint32) n = even (n div 8)) [0..<32]"
  by code_simp+

lemma bit_masks:
  assumes "n < 32"
  shows "bit (0xFF00FF00 :: uint32) n \<longleftrightarrow> odd (n div 8)" "bit (0x00FF00FF :: uint32) n \<longleftrightarrow> even (n div 8)"
  using masks assms by (auto simp: list_all_iff)

lemma word32_eqI:
  assumes "\<And>q r. q < 4 \<Longrightarrow> r < 8 \<Longrightarrow> bit x (8 * q + r) = bit y (8 * q + r)"
  shows "x = (y :: uint32)"
proof (rule bit_word_eqI)
  fix n assume "n < LENGTH(32)"
  then have "bit x (8 * (n div 8) + n mod 8) = bit y (8 * (n div 8) + n mod 8)" by (intro assms) simp_all
  then show "bit x n = bit y n" by simp
qed

lemma swap_bytes:
  assumes "4 \<le> length s"
  shows "(rol (le_word s) 24 AND 0xFF00FF00) OR (rol (le_word s) 8 AND 0x00FF00FF) = be_word s"
proof (rule word32_eqI)
  fix q r :: nat assume q: "q < 4" and r: "r < 8"
  then have n: "8 * q + r < 32" by simp
  have d: "(8 * q + r) div 8 = q" using r by simp
  have *: "rev (take 4 s) ! q = s ! (3 - q)" using assms q by (simp add: rev_nth)
  from q consider "q = 0" | "q = 1" | "q = 2" | "q = 3" by linarith
  then show "bit ((rol (le_word s) 24 AND 0xFF00FF00) OR (rol (le_word s) 8 AND 0x00FF00FF)) (8 * q + r)
      = bit (be_word s) (8 * q + r)"
    unfolding be_word_def bit_le_word [OF q r] * bit_or_iff bit_and_iff bit_masks [OF n] d
    using r bit_le_word [of 0 r s] bit_le_word [of 1 r s] bit_le_word [of 2 r s] bit_le_word [of 3 r s]
    by cases (simp_all add: bit_rol)
qed

lemma le_word_bytes: "le_word (le_bytes w) = w"
proof (rule word32_eqI)
  fix q r :: nat assume q: "q < 4" and r: "r < 8"
  have c: "code (uchar x) = take_bit 8 (unat x)" for x :: uint32
    by (simp add: code_def uchar_def take_bit_eq_mod)
  from q consider "q = 0" | "q = 1" | "q = 2" | "q = 3" by linarith
  then have "le_bytes w ! q = uchar (drop_bit (8 * q) w)"
    by cases (simp_all add: le_bytes_def)
  with q r show "bit (le_word (le_bytes w)) (8 * q + r) = bit w (8 * q + r)"
    by (simp add: bit_le_word c bit_simps)
qed

lemma fips_choose: "((x AND (y XOR z)) XOR z) = (x AND y) OR (NOT x AND z)" for x :: uint32
  by (rule bit_word_eqI) (auto simp: bit_simps)

lemma fips_majority: "((x OR y) AND z) OR (x AND y) = (x AND y) OR (x AND z) OR (y AND z)" for x :: uint32
  by (rule bit_word_eqI) (auto simp: bit_simps)

text \<open>
  Before round \<open>t\<close> the block of the code holds the last sixteen words of the schedule, each at its number
  modulo 16; in the first rounds the words that \<^verbatim>\<open>blk0\<close> has not turned yet are as they were read.
\<close>

definition window :: "string \<Rightarrow> nat \<Rightarrow> uint32 list \<Rightarrow> bool" where
  "window b t block \<longleftrightarrow> length block = 16 \<and> (\<forall>u < t. t \<le> u + 16 \<longrightarrow> block ! (u mod 16) = schedule b u) \<and>
     (\<forall>u < 16. t \<le> u \<longrightarrow> block ! u = le_word (drop (4 * u) b))"

definition in_step :: "string \<Rightarrow> nat \<Rightarrow> regs \<Rightarrow> uint32 \<times> uint32 \<times> uint32 \<times> uint32 \<times> uint32 \<Rightarrow> bool" where
  "in_step b t r s \<longleftrightarrow> (case r of (v, w, x, y, z, block) \<Rightarrow> s = (v, w, x, y, z) \<and> window b t block)"

lemma window_next:
  assumes "window b t block" "16 \<le> t"
  shows "window b (Suc t) (block[t mod 16 := schedule b t])"
proof -
  have "t mod 16 \<noteq> u mod 16" if "u < t" "Suc t \<le> u + 16" for u
  proof
    assume "t mod 16 = u mod 16"
    then have "16 dvd t - u" using that(1) by (metis less_imp_le mod_eq_dvd_iff_nat)
    with that show False by (auto dest: dvd_imp_le)
  qed
  with assms show ?thesis by (auto simp: window_def less_Suc_eq)
qed

lemma blk_window:
  assumes w: "window b t block" and t: "16 \<le> t"
  shows "blk block t = (block[t mod 16 := schedule b t], schedule b t)"
proof -
  have at: "block ! (u mod 16) = schedule b u" if "u < t" "t \<le> u + 16" for u
    using w that by (simp add: window_def)
  have m: "(t + 13) mod 16 = (t - 3) mod 16" "(t + 8) mod 16 = (t - 8) mod 16" "(t + 2) mod 16 = (t - 14) mod 16"
    "t mod 16 = (t - 16) mod 16"
    using t mod_add_self2 [of "t - 3" 16] mod_add_self2 [of "t - 8" 16] mod_add_self2 [of "t - 14" 16]
      mod_add_self2 [of "t - 16" 16] by (simp_all add: add.commute)
  have l: "block ! ((t + 13) mod 16) = schedule b (t - 3)" "block ! ((t + 8) mod 16) = schedule b (t - 8)"
    "block ! ((t + 2) mod 16) = schedule b (t - 14)" "block ! (t mod 16) = schedule b (t - 16)"
    unfolding m using t by (simp_all add: at)
  have "schedule b t = rol (schedule b (t - 3) XOR schedule b (t - 8) XOR schedule b (t - 14) XOR schedule b (t - 16)) 1"
    using t by (subst schedule.simps) simp
  then show ?thesis by (simp only: blk_def Let_def l)
qed

lemma blk0_window:
  assumes w: "window b t block" and t: "t < 16" and b: "length b = 64"
  shows "blk0 block t = (block[t := schedule b t], schedule b t)" "window b (Suc t) (block[t := schedule b t])"
proof -
  have "block ! t = le_word (drop (4 * t) b)" "length block = 16" using w t by (simp_all add: window_def)
  moreover have "schedule b t = be_word (drop (4 * t) b)" using t by (subst schedule.simps) simp
  ultimately show "blk0 block t = (block[t := schedule b t], schedule b t)"
    using swap_bytes [of "drop (4 * t) b"] t b by (simp add: blk0_def Let_def)
  show "window b (Suc t) (block[t := schedule b t])"
    using w t by (auto simp: window_def less_Suc_eq)
qed

lemmas round_defs = in_step_def fips_round_def fips_f_def fips_k_def

lemma R0_step: "length b = 64 \<Longrightarrow> t < 16 \<Longrightarrow> in_step b t r s \<Longrightarrow> in_step b (Suc t) (R0 r t) (fips_round b s t)"
  by (auto simp: R0_def round_defs blk0_window fips_choose add_ac)

lemma R1_step: "16 \<le> t \<Longrightarrow> t < 20 \<Longrightarrow> in_step b t r s \<Longrightarrow> in_step b (Suc t) (R1 r t) (fips_round b s t)"
  by (auto simp: R1_def round_defs blk_window window_next fips_choose add_ac)

lemma R2_step: "20 \<le> t \<Longrightarrow> t < 40 \<Longrightarrow> in_step b t r s \<Longrightarrow> in_step b (Suc t) (R2 r t) (fips_round b s t)"
  by (auto simp: R2_def round_defs blk_window window_next add_ac)

lemma R3_step: "40 \<le> t \<Longrightarrow> t < 60 \<Longrightarrow> in_step b t r s \<Longrightarrow> in_step b (Suc t) (R3 r t) (fips_round b s t)"
  by (auto simp: R3_def round_defs blk_window window_next fips_majority add_ac)

lemma R4_step: "60 \<le> t \<Longrightarrow> t < 80 \<Longrightarrow> in_step b t r s \<Longrightarrow> in_step b (Suc t) (R4 r t) (fips_round b s t)"
  by (auto simp: R4_def round_defs blk_window window_next add_ac)

lemma foldl_upt_rel:
  assumes "m \<le> n" "\<And>t r s. m \<le> t \<Longrightarrow> t < n \<Longrightarrow> rel t r s \<Longrightarrow> rel (Suc t) (f r t) (g s t)" "rel m r s"
  shows "rel n (foldl f r [m..<n]) (foldl g s [m..<n])"
  using assms
proof (induction rule: dec_induct)
  case base
  then show ?case by simp
next
  case (step n)
  from step.prems step.IH [OF _ step.prems(2)] step.hyps show ?case by simp
qed

lemma SHA1Transform_fips:
  assumes b: "length b = 64"
  shows "SHA1Transform h b = fips_compress h b"
proof -
  define r0 s0 where "r0 = (h ! 0, h ! 1, h ! 2, h ! 3, h ! 4, words_of b)"
    and "s0 = (h ! 0, h ! 1, h ! 2, h ! 3, h ! 4)"
  define r1 s1 where "r1 = foldl R0 r0 [0..<16]" and "s1 = foldl (fips_round b) s0 [0..<16]"
  define r2 s2 where "r2 = foldl R1 r1 [16..<20]" and "s2 = foldl (fips_round b) s1 [16..<20]"
  define r3 s3 where "r3 = foldl R2 r2 [20..<40]" and "s3 = foldl (fips_round b) s2 [20..<40]"
  define r4 s4 where "r4 = foldl R3 r3 [40..<60]" and "s4 = foldl (fips_round b) s3 [40..<60]"
  define r5 s5 where "r5 = foldl R4 r4 [60..<80]" and "s5 = foldl (fips_round b) s4 [60..<80]"
  note rel = foldl_upt_rel [where rel = "in_step b"]
  have "in_step b 0 r0 s0"
    by (auto simp: in_step_def window_def words_of_def r0_def s0_def)
  then have "in_step b 16 r1 s1" unfolding r1_def s1_def by (intro rel R0_step [OF b]) simp_all
  then have "in_step b 20 r2 s2" unfolding r2_def s2_def by (intro rel R1_step) simp_all
  then have "in_step b 40 r3 s3" unfolding r3_def s3_def by (intro rel R2_step) simp_all
  then have "in_step b 60 r4 s4" unfolding r4_def s4_def by (intro rel R3_step) simp_all
  then have last: "in_step b 80 r5 s5" unfolding r5_def s5_def by (intro rel R4_step) simp_all
  have "[0..<80] = [0..<16] @ [16..<20] @ [20..<40] @ [40..<60] @ [60..<80::nat]"
    by code_simp
  then have "foldl (fips_round b) s0 [0..<80] = s5"
    by (simp only: foldl_append s1_def s2_def s3_def s4_def s5_def)
  with last show ?thesis
    unfolding SHA1Transform_def fips_compress_def Let_def r0_def [symmetric] s0_def [symmetric]
      r1_def [symmetric] r2_def [symmetric] r3_def [symmetric] r4_def [symmetric] r5_def [symmetric]
    by (auto simp: in_step_def split: prod.splits)
qed

lemma absorb_cong:
  assumes "\<And>h b. length b = 64 \<Longrightarrow> f h b = g h b"
  shows "absorb f h d = absorb g h d"
proof (induction "length d" arbitrary: h d rule: less_induct)
  case less
  then show ?case by (subst (1 2) absorb.simps) (simp add: assms)
qed

subsection \<open>The whole message\<close>

lemma uchar_mask: "uchar (w AND 255) = uchar w"
proof -
  have "w AND 255 = take_bit 8 w" by (simp add: take_bit_eq_mask mask_eq_exp_minus_1)
  then have "unat (w AND 255) = unat w mod 256"
    by (simp only: unsigned_take_bit_eq) (simp add: take_bit_eq_mod)
  then show ?thesis by (simp add: uchar_def)
qed

lemma map_be_bytes:
  "map (\<lambda>i. uchar (drop_bit ((3 - i mod 4) * 8) (f (i div 4)) AND 255)) [0..<4 * n] = concat (map (\<lambda>j. be_bytes (f j)) [0..<n])"
proof (induction n)
  case 0
  then show ?case by simp
next
  case (Suc n)
  have "[0..<4 * Suc n] = [0..<4 * n] @ [4 * n, 4 * n + 1, 4 * n + 2, 4 * n + 3]"
    using upt_add_eq_append [of 0 "4 * n" 4] by (simp add: upt_conv_Cons add.commute)
  moreover have *: "Suc (4 * n) div 4 = n" "Suc (Suc (4 * n)) div 4 = n" "Suc (Suc (4 * n)) mod 4 = 2"
    by presburger+
  ultimately show ?case
    by (simp only: map_append Suc.IH upt_Suc_append concat_append)
      (simp add: be_bytes_def le_bytes_def uchar_mask *)
qed

lemma map_nth_length: "length xs = n \<Longrightarrow> map (\<lambda>i. f (xs ! i)) [0..<n] = map f xs"
  by (simp add: list_eq_iff_nth_eq)

lemma length_SHA1Transform [simp]: "length (SHA1Transform h b) = 5"
  by (simp add: SHA1Transform_def Let_def split: prod.splits)

lemma length_absorb: "length h = n \<Longrightarrow> (\<And>h b. length (f h b) = n) \<Longrightarrow> length (fst (absorb f h d)) = n"
  by (induction f h d rule: absorb.induct) (subst absorb.simps, simp)

lemma sha1_pad_pieces:
  assumes "sha_ok c"
  shows "sha1_pad c = foldl SHA1Update c (replicate ((120 - used (sha_count0 c)) mod 64) [nul])"
  using assms
proof (induction c rule: sha1_pad.induct)
  case (1 c)
  let ?m = "used (sha_count0 c)"
  have lt: "?m < 64" by (rule used_less)
  have u: "used (sha_count0 (SHA1Update c [nul])) = (?m + 1) mod 64"
    using used_advance [of "sha_count0 c" 1] by (simp add: sha_count0_Update)
  show ?case
  proof (cases "?m = 56")
    case True
    then show ?thesis by (subst sha1_pad.simps) (simp add: count_mask)
  next
    case False
    then have "(120 - ?m) mod 64 = Suc ((120 - (?m + 1) mod 64) mod 64)"
      using lt by (cases "?m < 63") (auto simp: mod_if)
    with False 1 show ?thesis
      by (subst sha1_pad.simps) (simp add: count_mask u sha1.update_ok)
  qed
qed

lemma pieces_used:
  "used (sha_count0 (foldl SHA1Update c ds)) = (used (sha_count0 c) + length (concat ds)) mod 64"
proof (induction ds arbitrary: c)
  case Nil
  then show ?case using used_less by simp
next
  case (Cons d ds)
  then show ?case
    by (simp add: sha_count0_Update used_advance mod_add_left_eq add.assoc)
qed

lemma pad_length: "(119 - n mod 64) mod 64 = (120 - (n + 1) mod 64) mod (64 :: nat)"
proof -
  have "n mod 64 < 64" by simp
  then show ?thesis by (cases "n mod 64 < 63") (auto simp: mod_Suc)
qed

lemma bit_count_words:
  assumes "bit_count lo hi = n mod 2 ^ 64"
  shows "lo = low_word n" "hi = high_word n"
proof -
  have "unat lo < 2 ^ 32" "unat hi < 2 ^ 32" using unsigned_less [of lo] unsigned_less [of hi] by simp_all
  then have "unat lo = bit_count lo hi mod 2 ^ 32" "unat hi = bit_count lo hi div 2 ^ 32"
    by (simp_all add: bit_count_def)
  then have "unat lo = n mod 2 ^ 32" "unat hi = n div 2 ^ 32 mod 2 ^ 32"
    using mod_mult2_eq [of n "2 ^ 32" "2 ^ 32"] by (simp_all add: assms mod_mod_cancel)
  then show "lo = low_word n" "hi = high_word n"
    by (simp_all add: low_word_def high_word_def word_unat_eq_iff unat_of_nat)
qed

lemma finalcount_bytes: "finalcount c = be_bytes (sha_count1 c) @ be_bytes (sha_count0 c)"
proof -
  let ?f = "\<lambda>j. if j = 1 then sha_count0 c else sha_count1 c"
  have "finalcount c = map (\<lambda>i. uchar (drop_bit ((3 - i mod 4) * 8) (?f (i div 4)) AND 255)) [0..<4 * 2]"
    unfolding finalcount_def by (rule map_cong) auto
  also have "\<dots> = concat (map (\<lambda>j. be_bytes (?f j)) [0..<2])" by (rule map_be_bytes)
  also have "[0..<2] = [0, 1 :: nat]" by (simp add: upt_rec)
  finally show ?thesis by simp
qed

text \<open>The padding that the code adds piece by piece is that of the standard.\<close>

theorem sha1_standard_pieces:
  assumes ok: "sha_ok c" and short: "\<forall>d \<in> set ds. length d < 2 ^ 32"
  shows "SHA1Final (foldl SHA1Update (SHA1Init c) ds) = sha1_standard (concat ds)"
proof -
  define m where "m = concat ds"
  define n where "n = 8 * length m"
  define c0 where "c0 = SHA1Init c"
  have c0: "sha_ok c0" "sha_pending c0 = []" "sha_bits c0 = 0" "sha_state c0 = sha1_iv" "used (sha_count0 c0) = 0"
    using ok by (simp_all add: c0_def SHA1Init_def sha_ok_def sha_pending_def sha_bits_def bit_count_def
        used_eq sha1_iv_def)
  define c1 where "c1 = foldl SHA1Update c0 ds"
  have c1: "sha_ok c1" unfolding c1_def by (rule sha1.pieces_ok [OF c0(1)])
  define z where "z = replicate ((119 - length m mod 64) mod 64) [nul]"
  have pad: "sha1_pad (SHA1Update c1 [CHR 0x80]) = foldl SHA1Update c1 ([CHR 0x80] # z)"
  proof -
    have "used (sha_count0 (SHA1Update c1 [CHR 0x80])) = (length m + 1) mod 64"
      using pieces_used [of c0 "ds @ [[CHR 0x80]]"] by (simp add: c1_def c0 m_def)
    with sha1_pad_pieces [OF sha1.update_ok [OF c1], of "[CHR 0x80]"] show ?thesis
      by (simp add: z_def pad_length)
  qed
  have count: "sha_bits c1 = n mod 2 ^ 64"
    using sha1.pieces_count [OF c0(1) _ short] c0(3) by (simp add: c1_def n_def m_def)
  have words: "sha_count0 c1 = low_word n" "sha_count1 c1 = high_word n"
    using bit_count_words [OF count [unfolded sha_bits_def]] by simp_all
  have fc: "finalcount c1 = be_bytes (high_word n) @ be_bytes (low_word n)"
    by (simp add: finalcount_bytes words)
  let ?all = "m @ padding (length m) @ be_bytes (high_word n) @ be_bytes (low_word n)"
  define c2 where "c2 = SHA1Update (sha1_pad (SHA1Update c1 [CHR 0x80])) (finalcount c1)"
  have "c2 = foldl SHA1Update c0 (ds @ [[CHR 0x80]] @ z @ [finalcount c1])"
    unfolding c2_def pad by (simp add: c1_def)
  moreover have "concat (ds @ [[CHR 0x80]] @ z @ [finalcount c1]) = ?all"
    by (simp add: m_def z_def padding_def fc)
  ultimately have "sha_state c2 = fst (absorb SHA1Transform sha1_iv ?all)"
    using sha1.pieces_absorb [OF c0(1), of "ds @ [[CHR 0x80]] @ z @ [finalcount c1]"]
    by (simp add: c0 prod_eq_iff)
  moreover have "length (fst (absorb SHA1Transform sha1_iv ?all)) = 5"
    by (rule length_absorb) (simp_all add: sha1_iv_def)
  moreover have "SHA1Final c1 = concat (map (\<lambda>j. be_bytes (sha_state c2 ! j)) [0..<5])"
    using map_be_bytes [of "\<lambda>j. sha_state c2 ! j" 5] by (simp add: SHA1Final_def Let_def c2_def)
  ultimately have "SHA1Final c1 = concat (map be_bytes (fst (absorb SHA1Transform sha1_iv ?all)))"
    by (simp add: map_nth_length)
  then show ?thesis
    using absorb_cong [OF SHA1Transform_fips, where h = sha1_iv and d = ?all]
    by (simp add: c1_def c0_def m_def n_def sha1_standard_def Let_def)
qed

section \<open>MD5\<close>

text \<open>
  The constants are the table \<open>T\<close> of RFC 1321, the integer parts of \<open>2 ^ 32 * \<bar>sin i\<bar>\<close>, written out; order, shifts and
  functions are by formula.
\<close>

definition rfc_k :: "uint32 list" where
  "rfc_k =
    [0xd76aa478, 0xe8c7b756, 0x242070db, 0xc1bdceee, 0xf57c0faf, 0x4787c62a, 0xa8304613, 0xfd469501,
     0x698098d8, 0x8b44f7af, 0xffff5bb1, 0x895cd7be, 0x6b901122, 0xfd987193, 0xa679438e, 0x49b40821,
     0xf61e2562, 0xc040b340, 0x265e5a51, 0xe9b6c7aa, 0xd62f105d, 0x02441453, 0xd8a1e681, 0xe7d3fbc8,
     0x21e1cde6, 0xc33707d6, 0xf4d50d87, 0x455a14ed, 0xa9e3e905, 0xfcefa3f8, 0x676f02d9, 0x8d2a4c8a,
     0xfffa3942, 0x8771f681, 0x6d9d6122, 0xfde5380c, 0xa4beea44, 0x4bdecfa9, 0xf6bb4b60, 0xbebfbc70,
     0x289b7ec6, 0xeaa127fa, 0xd4ef3085, 0x04881d05, 0xd9d4d039, 0xe6db99e5, 0x1fa27cf8, 0xc4ac5665,
     0xf4292244, 0x432aff97, 0xab9423a7, 0xfc93a039, 0x655b59c3, 0x8f0ccc92, 0xffeff47d, 0x85845dd1,
     0x6fa87e4f, 0xfe2ce6e0, 0xa3014314, 0x4e0811a1, 0xf7537e82, 0xbd3af235, 0x2ad7d2bb, 0xeb86d391]"

definition rfc_shift :: "nat \<Rightarrow> nat" where
  "rfc_shift i = [[7, 12, 17, 22], [5, 9, 14, 20], [4, 11, 16, 23], [6, 10, 15, 21]] ! (i div 16) ! (i mod 4)"

definition rfc_index :: "nat \<Rightarrow> nat" where
  "rfc_index i = (if i < 16 then i else if i < 32 then (5 * i + 1) mod 16
     else if i < 48 then (3 * i + 5) mod 16 else 7 * i mod 16)"

definition rfc_f :: "nat \<Rightarrow> uint32 \<Rightarrow> uint32 \<Rightarrow> uint32 \<Rightarrow> uint32" where
  "rfc_f i x y z = (if i < 16 then (x AND y) OR (NOT x AND z) else if i < 32 then (x AND z) OR (y AND NOT z)
     else if i < 48 then x XOR y XOR z else y XOR (x OR NOT z))"

definition rfc_round :: "uint32 list \<Rightarrow> md5_regs \<Rightarrow> nat \<Rightarrow> md5_regs" where
  "rfc_round m r i = (case r of (a, b, c, d) \<Rightarrow>
     (d, b + rol (a + rfc_f i b c d + m ! rfc_index i + rfc_k ! i) (rfc_shift i), b, c))"

definition rfc_compress :: "uint32 list \<Rightarrow> string \<Rightarrow> uint32 list" where
  "rfc_compress h block =
     (case foldl (rfc_round (words_of block)) (h ! 0, h ! 1, h ! 2, h ! 3) [0..<64] of (a, b, c, d) \<Rightarrow>
        [h ! 0 + a, h ! 1 + b, h ! 2 + c, h ! 3 + d])"

definition md5_iv :: "uint32 list" where
  "md5_iv = [0x67452301, 0xEFCDAB89, 0x98BADCFE, 0x10325476]"

definition md5_standard :: "string \<Rightarrow> string" where
  "md5_standard m = (let n = 8 * length m in concat (map le_bytes (fst (absorb rfc_compress md5_iv
     (m @ padding (length m) @ le_bytes (low_word n) @ le_bytes (high_word n))))))"

subsection \<open>The compression function\<close>

definition rfc_steps :: "nat \<Rightarrow> nat \<Rightarrow> (nat \<times> uint32 \<times> nat) list" where
  "rfc_steps i j = map (\<lambda>i. (rfc_index i, rfc_k ! i, rfc_shift i)) [i..<j]"

lemma md5_tables:
  "md5_steps1 = rfc_steps 0 16" "md5_steps2 = rfc_steps 16 32"
  "md5_steps3 = rfc_steps 32 48" "md5_steps4 = rfc_steps 48 64"
  by code_simp+

lemma md5_functions:
  "t < 16 \<Longrightarrow> F1 x y z = rfc_f t x y z" "16 \<le> t \<Longrightarrow> t < 32 \<Longrightarrow> F2 x y z = rfc_f t x y z"
  "32 \<le> t \<Longrightarrow> t < 48 \<Longrightarrow> F3 x y z = rfc_f t x y z" "48 \<le> t \<Longrightarrow> F4 x y z = rfc_f t x y z"
  by (rule bit_word_eqI, auto simp: F1_def F2_def F3_def F4_def rfc_f_def bit_simps)+

lemma foldl_steps:
  assumes f: "\<And>t x y z. i \<le> t \<Longrightarrow> t < j \<Longrightarrow> f x y z = rfc_f t x y z"
  shows "foldl (MD5STEP f m) r (rfc_steps i j) = foldl (rfc_round m) r [i..<j]"
proof -
  have "foldl (MD5STEP f m) r (map (\<lambda>i. (rfc_index i, rfc_k ! i, rfc_shift i)) ts) = foldl (rfc_round m) r ts"
    if "\<forall>t \<in> set ts. i \<le> t \<and> t < j" for ts
    using that
  proof (induction ts arbitrary: r)
    case (Cons t ts)
    then have "MD5STEP f m r (rfc_index t, rfc_k ! t, rfc_shift t) = rfc_round m r t"
      by (auto simp: MD5STEP_def rfc_round_def f [of t] add_ac split: prod.splits)
    with Cons show ?case by simp
  qed simp
  then show ?thesis by (simp add: rfc_steps_def)
qed

lemma md5_compress_rfc: "md5_compress h b = rfc_compress h b"
proof -
  have *: "[0..<64] = [0..<16] @ [16..<32] @ [32..<48] @ [48..<64::nat]" by code_simp
  have "foldl (MD5STEP F1 m) r md5_steps1 = foldl (rfc_round m) r [0..<16]"
    "foldl (MD5STEP F2 m) r md5_steps2 = foldl (rfc_round m) r [16..<32]"
    "foldl (MD5STEP F3 m) r md5_steps3 = foldl (rfc_round m) r [32..<48]"
    "foldl (MD5STEP F4 m) r md5_steps4 = foldl (rfc_round m) r [48..<64]" for m r
    unfolding md5_tables by (rule foldl_steps; simp add: md5_functions)+
  then show ?thesis
    unfolding md5_compress_def MD5Transform_def rfc_compress_def * by (simp only: foldl_append Let_def byteReverse_id)
qed

subsection \<open>The whole message\<close>

lemma le_word_append: "4 \<le> length s \<Longrightarrow> le_word (s @ t) = le_word s"
proof -
  assume "4 \<le> length s"
  then have "(s @ t) ! i = s ! i" if "i < 4" for i using that by (simp add: nth_append)
  then show ?thesis by (simp add: le_word_def del: nth_append)
qed

lemma length_le_bytes [simp]: "length (le_bytes w) = 4"
  by (simp add: le_bytes_def)

lemma words_of_length_bytes:
  assumes b: "length b = 56"
  shows "(words_of (b @ t))[14 := x, 15 := y] = words_of (b @ le_bytes x @ le_bytes y)"
proof (rule nth_equalityI)
  fix i assume "i < length ((words_of (b @ t))[14 := x, 15 := y])"
  then have i: "i < 16" by (simp add: words_of_def)
  consider "i < 14" | "i = 14" | "i = 15" using i by linarith
  then show "(words_of (b @ t))[14 := x, 15 := y] ! i = words_of (b @ le_bytes x @ le_bytes y) ! i"
  proof cases
    case 1
    with b show ?thesis by (simp add: words_of_def le_word_append)
  qed (use b in \<open>simp_all add: words_of_def le_word_append le_word_bytes\<close>)
qed (simp add: words_of_def)

text \<open>\<^verbatim>\<open>MD5Final\<close>: the last one or two blocks.\<close>

lemma MD5Final_absorb:
  assumes ok: "md5_ok c" and n: "used (md5_bits0 c) = n mod 64"
  shows "MD5Final c = concat (map le_bytes (fst (absorb md5_compress (md5_buf c)
    (md5_pending c @ padding n @ le_bytes (md5_bits0 c) @ le_bytes (md5_bits1 c)))))"
proof -
  define k where "k = n mod 64"
  define p where "p = md5_pending c @ [CHR 0x80]"
  define l where "l = le_bytes (md5_bits0 c) @ le_bytes (md5_bits1 c)"
  have k: "k < 64" "unat (drop_bit 3 (md5_bits0 c) AND 63) = k" using n by (simp_all add: k_def used_def)
  have len: "length (md5_in c) = 64" "length (md5_pending c) = k" "length p = Suc k" "length l = 8"
    using ok by (simp_all add: length_md5_pending n k_def p_def l_def) (simp add: md5_ok_def)
  have in1: "store_at (md5_in c) k [CHR 0x80] = p @ drop (Suc k) (md5_in c)"
    by (simp add: store_at_def p_def md5_pending_def n k_def)
  have zeros: "store_at (p @ drop (Suc k) (md5_in c)) (Suc k) (replicate j nul)
      = p @ replicate j nul @ drop (Suc k + j) (md5_in c)" for j
    using len by (simp add: store_at_def add.commute)
  have start: "store_at b 0 d = d @ drop (length d) b" for b d by (simp add: store_at_def)
  have last: "MD5Transform h ((words_of (b @ t))[14 := md5_bits0 c, 15 := md5_bits1 c]) = md5_compress h (b @ l)"
    if "length b = 56" for h b t
    using words_of_length_bytes [OF that] by (simp add: md5_compress_def l_def)
  have one: "absorb md5_compress h b = (md5_compress h b, [])" if "length b = 64" for h b
    using absorb_block [OF that, of md5_compress h "[]"] by (simp add: absorb_short)
  have "md5_pending c @ padding n @ l = p @ replicate ((119 - k) mod 64) nul @ l"
    by (simp add: padding_def p_def k_def)
  moreover have "MD5Final c = concat (map le_bytes (fst (absorb md5_compress (md5_buf c) (p @ replicate ((119 - k) mod 64) nul @ l))))"
  proof (cases "63 - k < 8")
    case True
    then have "(119 - k) mod 64 = (63 - k) + 56" using k by (simp add: mod_if)
    then have "p @ replicate ((119 - k) mod 64) nul @ l = (p @ replicate (63 - k) nul) @ (replicate 56 nul @ l)"
      by (simp only: replicate_add append_assoc)
    then have "absorb md5_compress (md5_buf c) (p @ replicate ((119 - k) mod 64) nul @ l)
        = (md5_compress (md5_compress (md5_buf c) (p @ replicate (63 - k) nul)) (replicate 56 nul @ l), [])"
      using k len by (simp only:) (subst absorb_block, simp_all add: one)
    with True k len show ?thesis
      by (simp add: MD5Final_def Let_def in1 zeros start last)
  next
    case False
    then have z: "(119 - k) mod 64 = 55 - k" using k by (simp add: mod_if)
    then have "absorb md5_compress (md5_buf c) (p @ replicate ((119 - k) mod 64) nul @ l)
        = (md5_compress (md5_buf c) (p @ replicate (55 - k) nul @ l), [])"
      using False k len by (simp add: one)
    with False k len last [of "p @ replicate (55 - k) nul"] show ?thesis
      by (simp add: MD5Final_def Let_def in1 zeros)
  qed
  ultimately show ?thesis unfolding l_def by (simp only:)
qed

theorem md5_standard_pieces:
  assumes ok: "md5_ok c" and short: "\<forall>d \<in> set ds. length d < 2 ^ 32"
  shows "MD5Final (foldl MD5Update (MD5Init c) ds) = md5_standard (concat ds)"
proof -
  define m where "m = concat ds"
  define n where "n = 8 * length m"
  define c0 where "c0 = MD5Init c"
  have c0: "md5_ok c0" "md5_pending c0 = []" "md5_count c0 = 0" "md5_buf c0 = md5_iv"
    using ok by (simp_all add: c0_def MD5Init_def md5_ok_def md5_pending_def md5_count_def bit_count_def
        used_eq md5_iv_def)
  define c1 where "c1 = foldl MD5Update c0 ds"
  have c1: "md5_ok c1" unfolding c1_def by (rule md5.pieces_ok [OF c0(1)])
  have "md5_count c1 = n mod 2 ^ 64"
    using md5.pieces_count [OF c0(1) _ short] c0(3) by (simp add: c1_def n_def m_def)
  then have words: "md5_bits0 c1 = low_word n" "md5_bits1 c1 = high_word n"
    using bit_count_words [of "md5_bits0 c1" "md5_bits1 c1" n] by (simp_all add: md5_count_def)
  have a: "(md5_buf c1, md5_pending c1) = absorb md5_compress md5_iv m"
    using md5.pieces_absorb [OF c0(1), of ds] by (simp add: c0 c1_def m_def)
  then have "length (md5_pending c1) = length m mod 64"
    using absorb_rest [of md5_compress md5_iv m] by (metis snd_conv)
  then have u: "used (md5_bits0 c1) = length m mod 64" by (simp add: length_md5_pending [OF c1])
  let ?pad = "padding (length m) @ le_bytes (low_word n) @ le_bytes (high_word n)"
  have "absorb md5_compress (md5_buf c1) (md5_pending c1 @ ?pad) = absorb md5_compress md5_iv (m @ ?pad)"
    using absorb_append [of md5_compress md5_iv m ?pad] by (simp flip: a)
  then have "MD5Final c1 = concat (map le_bytes (fst (absorb md5_compress md5_iv (m @ ?pad))))"
    using MD5Final_absorb [OF c1 u] by (simp add: words)
  then show ?thesis
    using absorb_cong [of md5_compress rfc_compress md5_iv "m @ ?pad"]
    by (simp add: md5_compress_rfc md5_standard_def Let_def n_def m_def c1_def c0_def)
qed

section \<open>Passwords\<close>

text \<open>The first test of the suite of RFC 1321: the one block, the registers after its rounds, and the digest.\<close>

lemma md5_abc_block:
  "words_of (''abc'' @ CHR 0x80 # replicate 52 nul @ [CHR 0x18] @ replicate 7 nul) = [0x80636261, 0, 0, 0, 0, 0, 0, 0, 0, 0, 0, 0, 0, 0, 24, 0]"
  by (simp add: words_of_def le_word_def byte_def code_def upt_rec nul_def numeral_eq_Suc)

lemma md5_abc_rounds:
  "foldl (rfc_round [0x80636261, 0, 0, 0, 0, 0, 0, 0, 0, 0, 0, 0, 0, 0, 24, 0]) (0x67452301, 0xEFCDAB89, 0x98BADCFE, 0x10325476) [0..<64] =
    (0x310ADE8F, 0xC08226B3, 0xE484B9D8, 0x624D8CB2)"
  by code_simp

lemma md5_abc: "bin2str (md5_standard ''abc'') = ''900150983cd24fb0d6963f7d28e17f72''"
proof -
  let ?b = "''abc'' @ CHR 0x80 # replicate 52 nul @ [CHR 0x18] @ replicate 7 nul"
  have "padding 3 = CHR 0x80 # replicate 52 nul" by (simp add: padding_def)
  moreover have "le_bytes (low_word 24) = [CHR 0x18, nul, nul, nul]" "le_bytes (high_word 24) = [nul, nul, nul, nul]"
    by (simp_all add: low_word_def high_word_def le_bytes_def uchar_def nul_def char_of_def bit_Suc_0_iff)
  moreover have "replicate 7 nul = [nul, nul, nul] @ [nul, nul, nul, nul]" "length ''abc'' = 3" "(8 :: nat) * 3 = 24"
    by (simp_all add: eval_nat_numeral)
  ultimately have p: "''abc'' @ padding (length ''abc'') @ le_bytes (low_word (8 * length ''abc'')) @
      le_bytes (high_word (8 * length ''abc'')) = ?b"
    by (simp only: append.simps append_assoc)
  have "absorb rfc_compress md5_iv ?b = absorb rfc_compress (rfc_compress md5_iv ?b) []"
    by (subst absorb.simps) simp
  then have "fst (absorb rfc_compress md5_iv ?b) = rfc_compress md5_iv ?b" by (simp add: absorb_short)
  also have "\<dots> = [0x98500190, 0xB04FD23C, 0x7D3F96D6, 0x727FE128]"
    unfolding rfc_compress_def md5_abc_block by (simp add: md5_iv_def md5_abc_rounds)
  finally have "md5_standard ''abc'' = concat (map le_bytes [0x98500190, 0xB04FD23C, 0x7D3F96D6, 0x727FE128])"
    unfolding md5_standard_def Let_def p by simp
  then show ?thesis by (simp add: bin2str_def le_bytes_def uchar_def code_def)
qed

lemma mg_md5_standard:
  assumes "length (md5_in ctx) = 64" "\<forall>s \<in> set strings. strlen s < 2 ^ 32"
  shows "mg_md5 ctx strings = bin2str (md5_standard (concat (map c_str strings)))"
  using assms by (simp add: mg_md5_def md5_standard_pieces md5_ok_def strlen_def)

text \<open>
  C34. \<^verbatim>\<open>mg_md5\<close> of a list of strings is the MD5 of RFC 1321 of their concatenation, whatever the
  lengths of the pieces and whatever the uninitialised context on the stack holds: the
  buffering of partial blocks, the 64-bit count with its carry, the padding into one or two final
  blocks and the unrolled rounds are all as in the standard.
\<close>

theorem mg_md5_is_the_standard:
  assumes "length (md5_in ctx) = 64" "\<forall>s \<in> set strings. strlen s < 2 ^ 32"
  shows "mg_md5 ctx strings = bin2str (md5_standard (concat (map c_str strings)))"
  using assms by (rule mg_md5_standard)

theorem mg_md5_is_the_standard_witness:
  "mg_md5 \<lparr>md5_buf = [], md5_bits0 = 5, md5_bits1 = 7, md5_in = replicate 64 CHR ''x''\<rparr> [''a'', [], ''bc'']
     = ''900150983cd24fb0d6963f7d28e17f72''"
proof -
  have "concat (map c_str [''a'', [], ''bc'']) = ''abc''" by (simp add: c_str_def nul_def)
  then show ?thesis
    by (subst mg_md5_is_the_standard) (simp_all add: strlen_def c_str_def nul_def md5_abc)
qed

end
