(* ===== verification/Query_Vars.thy ===== *)
theory Query_Vars
  imports Cstring
begin

text \<open>
  How the HTTP server gets its request variables: \<^verbatim>\<open>mg_url_decode\<close>, \<^verbatim>\<open>mg_url_encode\<close>,
  \<^verbatim>\<open>mg_strncasecmp\<close>, \<^verbatim>\<open>get_var\<close> and \<^verbatim>\<open>mg_get_var\<close> of \<^verbatim>\<open>util/mongoose.c\<close>. A character array with
  its length is a list; the characters behind the end of a string read as NUL.
\<close>

section \<open>Characters\<close>

definition tolower :: "char \<Rightarrow> nat" where
  "tolower c = (if 65 \<le> code c \<and> code c \<le> 90 then code c + 32 else code c)"

definition isxdigit :: "char \<Rightarrow> bool" where
  "isxdigit c \<longleftrightarrow> is_digit c \<or> (65 \<le> code c \<and> code c \<le> 70) \<or> (97 \<le> code c \<and> code c \<le> 102)"

definition isalnum :: "char \<Rightarrow> bool" where
  "isalnum c \<longleftrightarrow> is_digit c \<or> (65 \<le> code c \<and> code c \<le> 90) \<or> (97 \<le> code c \<and> code c \<le> 122)"

text \<open>\<^verbatim>\<open>HEXTOI(tolower(c))\<close>, where \<^verbatim>\<open>'W'\<close> is 87.\<close>

definition hextoi :: "char \<Rightarrow> nat" where
  "hextoi c = (let x = tolower c in if 48 \<le> x \<and> x \<le> 57 then x - 48 else x - 87)"

definition char_at :: "string \<Rightarrow> char" where
  "char_at s = (case s of [] \<Rightarrow> nul | c # _ \<Rightarrow> c)"

fun mg_strncasecmp :: "string \<Rightarrow> string \<Rightarrow> nat \<Rightarrow> int" where
  "mg_strncasecmp s1 s2 0 = 0"
| "mg_strncasecmp s1 s2 (Suc len) =
     (let diff = int (tolower (char_at s1)) - int (tolower (char_at s2)) in
      if diff = 0 \<and> char_at s1 \<noteq> nul \<and> 0 < len then mg_strncasecmp (tl s1) (tl s2) len else diff)"

section \<open>Decoding and encoding\<close>

text \<open>
  The loop of \<^verbatim>\<open>mg_url_decode\<close> on what is left of the source, with the room that is left in
  the destination: the decoded text, and whether all of the source was consumed.
\<close>

fun url_decode :: "bool \<Rightarrow> string \<Rightarrow> nat \<Rightarrow> string \<times> bool" where
  "url_decode form [] room = ([], True)"
| "url_decode form (c # cs) 0 = ([], False)"
| "url_decode form (c # cs) (Suc room) =
     (if c = CHR ''%'' \<and> 2 \<le> length cs \<and> isxdigit (cs ! 0) \<and> isxdigit (cs ! 1)
      then (case url_decode form (drop 2 cs) room of
              (d, b) \<Rightarrow> (char_of (16 * hextoi (cs ! 0) + hextoi (cs ! 1)) # d, b))
      else (case url_decode form cs room of
              (d, b) \<Rightarrow> ((if form \<and> c = CHR ''+'' then CHR '' '' else c) # d, b)))"

text \<open>The return value, and the destination up to its terminator; \<open>dst_len\<close> is positive.\<close>

definition mg_url_decode :: "string \<Rightarrow> nat \<Rightarrow> bool \<Rightarrow> int \<times> string" where
  "mg_url_decode src dst_len form = (case url_decode form src (dst_len - 1) of
     (d, complete) \<Rightarrow> (if complete then int (length d) else -1, d))"

definition dont_escape :: string where "dont_escape = ''._-$,;~()''"
definition hex :: string where "hex = ''0123456789abcdef''"

text \<open>\<^verbatim>\<open>strchr\<close> also finds the terminator, so a NUL is not escaped.\<close>

definition unescaped :: "char \<Rightarrow> bool" where
  "unescaped c \<longleftrightarrow> isalnum c \<or> c \<in> set dont_escape \<or> c = nul"

text \<open>
  The loop of \<^verbatim>\<open>mg_url_encode\<close> at destination position \<open>j\<close>; where an escape no longer fits
  the loop goes on, and \<open>j\<close> moves over a byte that is not written (the \<open>nul\<close> here).
\<close>

fun url_encode :: "string \<Rightarrow> nat \<Rightarrow> nat \<Rightarrow> string" where
  "url_encode [] j dst_len = []"
| "url_encode (c # cs) j dst_len =
     (if 0 < dst_len \<and> j + 2 < dst_len - 1
      then (if unescaped c then c # url_encode cs (Suc j) dst_len
            else if j + 3 < dst_len
            then [CHR ''%'', hex ! (code c div 16), hex ! (code c mod 16)] @ url_encode cs (j + 3) dst_len
            else nul # url_encode cs (Suc j) dst_len)
      else [])"

definition mg_url_encode :: "string \<Rightarrow> nat \<Rightarrow> string" where
  "mg_url_encode src dst_len = url_encode src 0 dst_len"

section \<open>Variables\<close>

text \<open>The search loop of \<^verbatim>\<open>get_var\<close>: the text behind \<^verbatim>\<open>name=\<close>.\<close>

fun find_var :: "bool \<Rightarrow> string \<Rightarrow> string \<Rightarrow> string option" where
  "find_var at_start name [] = None"
| "find_var at_start name (c # cs) =
     (if length name < Suc (length cs)
      then (if at_start \<and> (c # cs) ! length name = CHR ''='' \<and>
               mg_strncasecmp name (c # cs) (length name) = 0
            then Some (drop (Suc (length name)) (c # cs))
            else find_var (c = CHR ''&'') name cs)
      else None)"

text \<open>\<open>None\<close> is a NULL pointer. The result is the length or error, and the destination.\<close>

definition get_var :: "string option \<Rightarrow> string \<Rightarrow> nat \<Rightarrow> int \<times> string" where
  "get_var data name dst_len = (case data of
      None \<Rightarrow> (-1, [])
    | Some d \<Rightarrow> if d = [] then (-1, []) else (case find_var True name d of
        None \<Rightarrow> (-1, [])
      | Some p \<Rightarrow> (case mg_url_decode (takeWhile (\<lambda>c. c \<noteq> CHR ''&'') p) dst_len True of
          (len, dst) \<Rightarrow> (if len = -1 then -2 else len, dst))))"

definition mg_get_var :: "string option \<Rightarrow> string option \<Rightarrow> string \<Rightarrow> nat \<Rightarrow> int \<times> string" where
  "mg_get_var query_string content name dst_len =
     (case get_var query_string name dst_len of (len, dst) \<Rightarrow>
        if len < 0 then get_var content name dst_len else (len, dst))"

section \<open>Facts\<close>

lemma url_decode_length: "length (fst (url_decode form src room)) \<le> room"
  by (induction form src room rule: url_decode.induct) (auto split: prod.splits)

lemma less_16_cases: "n < 16 \<Longrightarrow> n \<in> {0,1,2,3,4,5,6,7,8,9,10,11,12,13,14,15::nat}"
  by (simp add: less_Suc_eq numeral_eq_Suc)

lemma hex_digit:
  assumes "n < 16"
  shows "isxdigit (hex ! n)" "hextoi (hex ! n) = n"
  using less_16_cases [OF assms]
  by (auto simp: hex_def isxdigit_def hextoi_def tolower_def is_digit_def code_def)

lemma code_less: "code c < 256"
  by (simp add: code_def)

lemma char_of_code [simp]: "char_of (code c) = c"
  by (simp add: code_def)

lemma unescaped_plain: "unescaped c \<Longrightarrow> c \<noteq> CHR ''%'' \<and> c \<noteq> CHR ''+''"
  by (auto simp: unescaped_def isalnum_def is_digit_def code_def dont_escape_def nul_def)

lemma url_decode_encode:
  assumes "j + 3 * length s + 1 < dst_len" "length s \<le> room"
  shows "url_decode form (url_encode s j dst_len) room = (s, True)"
  using assms
proof (induction s arbitrary: j room)
  case Nil
  then show ?case by simp
next
  case (Cons c cs)
  then obtain r where r: "room = Suc r" "length cs \<le> r" by (cases room) auto
  have room: "0 < dst_len \<and> j + 2 < dst_len - 1" using Cons.prems(1) by simp
  show ?case
  proof (cases "unescaped c")
    case True
    have "url_decode form (url_encode cs (Suc j) dst_len) r = (cs, True)"
      using Cons.prems r by (intro Cons.IH) auto
    with True room r unescaped_plain [OF True] show ?thesis by simp
  next
    case False
    have "url_decode form (url_encode cs (j + 3) dst_len) r = (cs, True)"
      using Cons.prems r by (intro Cons.IH) auto
    moreover have "code c div 16 < 16" "code c mod 16 < 16" using code_less [of c] by auto
    moreover have "j + 3 < dst_len" using Cons.prems(1) by simp
    ultimately show ?thesis using False room r by (simp add: hex_digit)
  qed
qed

end
