(* ===== verification/Http_Message.thy ===== *)
theory Http_Message
  imports Query_Vars
begin

text \<open>
  The request side of \<^verbatim>\<open>util/mongoose.c\<close>: where a request ends in the bytes received so far,
  its method, URI, version and headers, the clean-up of the URI, and pattern matching. A C
  string is the list of its characters up to the NUL. A pointer into the buffer behind which
  the parser writes a NUL is the word it then points to.
\<close>

section \<open>The end of a request\<close>

definition CR :: char where "CR = CHR 0x0D"

definition isprint :: "char \<Rightarrow> bool" where
  "isprint c \<longleftrightarrow> 32 \<le> code c \<and> code c \<le> 126"

definition malformed :: "char \<Rightarrow> bool" where
  "malformed c \<longleftrightarrow> \<not> isprint c \<and> c \<noteq> CR \<and> c \<noteq> newline \<and> code c < 128"

text \<open>The loop of \<^verbatim>\<open>get_request_len\<close> from position \<open>i\<close>, on what is left of the buffer.\<close>

fun request_end :: "nat \<Rightarrow> string \<Rightarrow> int" where
  "request_end i [] = 0"
| "request_end i (c # cs) =
     (if malformed c then -1
      else if c = newline \<and> take 1 cs = [newline] then int i + 2
      else if c = newline \<and> take 2 cs = [CR, newline] then int i + 3
      else request_end (Suc i) cs)"

definition get_request_len :: "string \<Rightarrow> int" where
  "get_request_len buf = request_end 0 buf"

section \<open>Words and headers\<close>

definition skip :: "string \<Rightarrow> string \<Rightarrow> string \<times> string" where
  "skip delimiters buf = (takeWhile (\<lambda>c. c \<notin> set delimiters) buf,
     dropWhile (\<lambda>c. c \<in> set delimiters) (dropWhile (\<lambda>c. c \<notin> set delimiters) buf))"

fun parse_http_headers :: "nat \<Rightarrow> string \<Rightarrow> (string \<times> string) list" where
  "parse_http_headers 0 buf = []"
| "parse_http_headers (Suc n) buf =
     (case skip '': '' buf of (name, b1) \<Rightarrow> (case skip [CR, newline] b1 of (val, b2) \<Rightarrow>
        if name = [] then [] else (name, val) # parse_http_headers n b2))"

text \<open>\<open>None\<close> is a NULL pointer. \<^verbatim>\<open>num_headers\<close> is the length of the list.\<close>

record mg_connection =
  mc_request_method :: "string option"
  mc_uri :: "string option"
  mc_http_version :: "string option"
  mc_query_string :: "string option"
  mc_headers :: "(string \<times> string) list"
  mc_content_len :: int
  mc_is_websocket :: bool
  mc_wsbits :: int
  mc_status_code :: int

definition reset_mg :: mg_connection where
  "reset_mg = \<lparr>mc_request_method = None, mc_uri = None, mc_http_version = None,
     mc_query_string = None, mc_headers = [], mc_content_len = 0, mc_is_websocket = False,
     mc_wsbits = 0, mc_status_code = 0\<rparr>"

definition is_valid_http_method :: "string \<Rightarrow> bool" where
  "is_valid_http_method s \<longleftrightarrow> s = ''GET'' \<or> s = ''POST'' \<or> s = ''HEAD'' \<or> s = ''CONNECT'' \<or>
     s = ''PUT'' \<or> s = ''DELETE'' \<or> s = ''OPTIONS'' \<or> s = ''PROPFIND'' \<or> s = ''MKCOL''"

section \<open>Cleaning the path\<close>

definition slash :: "char \<Rightarrow> bool" where
  "slash c \<longleftrightarrow> c = CHR ''/'' \<or> c = CHR 0x5C"

text \<open>The inner loop: skip slashes, backslashes and double dots.\<close>

function skip_dots :: "string \<Rightarrow> string" where
  "skip_dots [] = []"
| "skip_dots (c # cs) =
     (if slash c then skip_dots cs
      else if c = CHR ''.'' \<and> take 1 cs = ''.'' then skip_dots (drop 1 cs)
      else c # cs)"
  by pat_completeness auto
termination by (relation "measure length") auto

lemma length_skip_dots: "length (skip_dots s) \<le> length s"
  by (induction s rule: skip_dots.induct) auto

function remove_double_dots_and_double_slashes :: "string \<Rightarrow> string" where
  "remove_double_dots_and_double_slashes [] = []"
| "remove_double_dots_and_double_slashes (c # cs) =
     c # remove_double_dots_and_double_slashes (if slash c then skip_dots cs else cs)"
  by pat_completeness auto
termination
  by (relation "measure length") (auto simp: less_Suc_eq_le length_skip_dots)

section \<open>The message\<close>

text \<open>
  The result is the new \<^verbatim>\<open>request_len\<close> and the parsed fields. Comparing the first five bytes
  never gets behind the terminator of a shorter word.
\<close>

definition parse_http_message :: "string \<Rightarrow> int \<times> mg_connection" where
  "parse_http_message buf =
     (let s = dropWhile is_space (c_str (take (length buf - 1) buf)) in
      case skip '' '' s of (request_method, b1) \<Rightarrow>
      (case skip '' '' b1 of (uri, b2) \<Rightarrow>
      (case skip [CR, newline] b2 of (http_version, b3) \<Rightarrow>
      (let is_request = is_valid_http_method request_method;
           ri = reset_mg\<lparr>mc_request_method := Some request_method, mc_uri := Some uri,
                         mc_http_version := Some http_version\<rparr> in
       if (is_request \<and> take 5 http_version \<noteq> ''HTTP/'') \<or>
          (\<not> is_request \<and> take 5 request_method \<noteq> ''HTTP/'') then (-1, ri)
       else
        (let path = takeWhile (\<lambda>c. c \<noteq> CHR ''?'') uri;
             decoded = c_str (snd (mg_url_decode path (length path + 1) False)) in
         (int (length buf), ri\<lparr>
            mc_http_version := Some (if is_request then drop 5 http_version else http_version),
            mc_headers := parse_http_headers 30 b3,
            mc_query_string := (if CHR ''?'' \<in> set uri then Some (drop (Suc (length path)) uri) else None),
            mc_uri := Some (if take 1 decoded = ''/'' \<or> take 1 decoded = ''.''
                            then remove_double_dots_and_double_slashes decoded else decoded)\<rparr>))))))"

section \<open>Looking at a parsed message\<close>

definition lowercase :: "char \<Rightarrow> nat" where
  "lowercase c = tolower c"

fun mg_strcasecmp :: "string \<Rightarrow> string \<Rightarrow> int" where
  "mg_strcasecmp [] s2 = 0 - int (lowercase (char_at s2))"
| "mg_strcasecmp (c # s1) s2 =
     (let diff = int (lowercase c) - int (lowercase (char_at s2)) in
      if diff = 0 then mg_strcasecmp s1 (tl s2) else diff)"

definition mg_get_header :: "mg_connection \<Rightarrow> string \<Rightarrow> string option" where
  "mg_get_header ri s = map_option snd (find (\<lambda>(name, val). mg_strcasecmp s name = 0) (mc_headers ri))"

text \<open>\<^verbatim>\<open>sscanf(uri, "%*[^ :]:%hu", &n) > 0\<close>\<close>

definition scan_host_port :: "string \<Rightarrow> bool" where
  "scan_host_port uri \<longleftrightarrow>
     (let r = dropWhile (\<lambda>c. c \<noteq> CHR '' '' \<and> c \<noteq> CHR '':'') uri in
      length r < length uri \<and> take 1 r = '':'' \<and>
      takeWhile is_digit (snd (read_sign (dropWhile is_space (drop 1 r)))) \<noteq> [])"

definition is_valid_uri :: "string \<Rightarrow> bool" where
  "is_valid_uri uri \<longleftrightarrow> char_at uri = CHR ''/'' \<or> uri = ''*'' \<or>
     mg_strncasecmp uri ''http'' 4 = 0 \<or> scan_host_port uri"

section \<open>Patterns\<close>

text \<open>
  The alternatives of a pattern are tried from left to right. \<open>match_from j\<close> is the loop on what
  is left of the pattern and of the string; behind a star the lengths from \<open>len\<close> down to 0
  are tried. What stands behind a pattern in memory is a NUL or the \<^verbatim>\<open>|\<close> it was cut at.
\<close>

function match_from :: "int \<Rightarrow> string \<Rightarrow> string \<Rightarrow> int" where
  "match_from j [] s = j"
| "match_from j (p # ps) s =
     (if p = CHR ''?'' \<and> s \<noteq> [] then match_from (j + 1) ps (tl s)
      else if p = CHR ''$'' then (if s = [] then j else -1)
      else if p = CHR ''*''
      then (let double = (take 1 ps = ''*'');
                ps' = (if double then drop 1 ps else ps);
                len = length (if double then s else takeWhile (\<lambda>c. c \<noteq> CHR ''/'') s) in
            if ps' = [] then j + int len
            else (case find (\<lambda>(l, r). r \<noteq> -1)
                         (map (\<lambda>l. (l, match_from 0 ps' (drop l s))) (rev [0..<Suc len])) of
                    None \<Rightarrow> -1 | Some (l, r) \<Rightarrow> j + r + int l))
      else if lowercase p \<noteq> lowercase (char_at s) then -1
      else match_from (j + 1) ps (tl s))"
  by pat_completeness auto
termination by (relation "measure (\<lambda>(j, p, s). length p)") (auto split: if_splits)

function mg_match_prefix :: "string \<Rightarrow> string \<Rightarrow> int" where
  "mg_match_prefix pattern str =
     (if CHR ''|'' \<in> set pattern
      then (let a = takeWhile (\<lambda>c. c \<noteq> CHR ''|'') pattern; res = match_from 0 a str in
            if 0 < res then res else mg_match_prefix (drop (Suc (length a)) pattern) str)
      else match_from 0 pattern str)"
  by pat_completeness auto
termination
  by (relation "measure (\<lambda>(p, s). length p)") (auto dest: length_pos_if_in_set)

declare mg_match_prefix.simps [simp del]

end
