(* ===== verification/Http_Tables.thy ===== *)
theory Http_Tables
  imports Http_Message
begin

text \<open>
  The tables of \<^verbatim>\<open>util/mongoose.c\<close>: reason phrases, MIME types and the options with their
  defaults, which the journal node leaves alone but for the port; and the dates of the
  conditional requests.
\<close>

section \<open>Status codes\<close>

definition status_codes :: "(int \<times> string) list" where
  "status_codes = [
     (100, ''Continue''), (101, ''Switching Protocols''), (102, ''Processing''), (200, ''OK''),
     (201, ''Created''), (202, ''Accepted''), (203, ''Non-Authoritative Information''),
     (204, ''No Content''), (205, ''Reset Content''), (206, ''Partial Content''),
     (207, ''Multi-Status''), (208, ''Already Reported''), (226, ''IM Used''),
     (300, ''Multiple Choices''), (301, ''Moved Permanently''), (302, ''Found''),
     (303, ''See Other''), (304, ''Not Modified''), (305, ''Use Proxy''),
     (306, ''Switch Proxy''), (307, ''Temporary Redirect''), (308, ''Permanent Redirect''),
     (400, ''Bad Request''), (401, ''Unauthorized''), (402, ''Payment Required''),
     (403, ''Forbidden''), (404, ''Not Found''), (405, ''Method Not Allowed''),
     (406, ''Not Acceptable''), (407, ''Proxy Authentication Required''),
     (408, ''Request Timeout''), (409, ''Conflict''), (410, ''Gone''),
     (411, ''Length Required''), (412, ''Precondition Failed''), (413, ''Payload Too Large''),
     (414, ''URI Too Long''), (415, ''Unsupported Media Type''),
     (416, ''Requested Range Not Satisfiable''), (417, ''Expectation Failed''),
     (418, ''I'' @ [CHR 0x27] @ ''m a teapot''), (422, ''Unprocessable Entity''),
     (423, ''Locked''), (424, ''Failed Dependency''), (426, ''Upgrade Required''),
     (428, ''Precondition Required''), (429, ''Too Many Requests''),
     (431, ''Request Header Fields Too Large''), (451, ''Unavailable For Legal Reasons''),
     (500, ''Internal Server Error''), (501, ''Not Implemented''), (502, ''Bad Gateway''),
     (503, ''Service Unavailable''), (504, ''Gateway Timeout''),
     (505, ''HTTP Version Not Supported''), (506, ''Variant Also Negotiates''),
     (507, ''Insufficient Storage''), (508, ''Loop Detected''), (510, ''Not Extended''),
     (511, ''Network Authentication Required'')]"

definition status_code_to_str :: "int \<Rightarrow> string" where
  "status_code_to_str status_code = (case map_of status_codes status_code of
      Some message \<Rightarrow> message | None \<Rightarrow> ''Server Error'')"

section \<open>Options\<close>

text \<open>A comma separated list of options, each \<^verbatim>\<open>x\<close> or \<^verbatim>\<open>x=y\<close>.\<close>

definition next_option :: "string \<Rightarrow> ((string \<times> string option) \<times> string) option" where
  "next_option list = (if list = [] then None
     else (let val = takeWhile (\<lambda>c. c \<noteq> CHR '','') list;
               x = takeWhile (\<lambda>c. c \<noteq> CHR ''='') val in
       Some ((if CHR ''='' \<in> set val then (x, Some (drop (Suc (length x)) val)) else (val, None)),
             drop (Suc (length val)) list)))"

function all_options :: "string \<Rightarrow> (string \<times> string option) list" where
  "all_options list = (case next_option list of None \<Rightarrow> [] | Some (v, rest) \<Rightarrow> v # all_options rest)"
  by pat_completeness auto
termination
  by (relation "measure length") (auto simp: next_option_def Let_def split: if_splits)

declare all_options.simps [simp del]

definition DEFAULT_CGI_PATTERN :: string where
  "DEFAULT_CGI_PATTERN = ''**.cgi$|**.pl$|**.php$''"

definition static_config_options :: "(string \<times> string option) list" where
  "static_config_options = [
     (''access_control_list'', None), (''access_log_file'', None),
     (''auth_domain'', Some ''mydomain.com''), (''cgi_interpreter'', None),
     (''cgi_pattern'', Some DEFAULT_CGI_PATTERN), (''dav_auth_file'', None),
     (''document_root'', None), (''enable_directory_listing'', Some ''yes''),
     (''enable_proxy'', None), (''extra_mime_types'', None), (''global_auth_file'', None),
     (''hide_files_patterns'', None), (''hexdump_file'', None),
     (''index_files'', Some ''index.html,index.htm,index.shtml,index.cgi,index.php''),
     (''listening_port'', None), (''run_as_user'', None),
     (''ssi_pattern'', Some ''**.shtml$|**.shtm$''), (''url_rewrites'', None)]"

text \<open>\<^verbatim>\<open>config_options[...]\<close> of a server whose options are the defaults.\<close>

definition config_option :: "string \<Rightarrow> string option" where
  "config_option name = (case map_of static_config_options name of Some v \<Rightarrow> v | None \<Rightarrow> None)"

section \<open>MIME types\<close>

definition static_builtin_mime_types :: "(string \<times> nat \<times> string) list" where
  "static_builtin_mime_types = [
     (''.html'', 5, ''text/html''), (''.htm'', 4, ''text/html''), (''.shtm'', 5, ''text/html''),
     (''.shtml'', 6, ''text/html''), (''.css'', 4, ''text/css''),
     (''.js'', 3, ''application/x-javascript''), (''.ico'', 4, ''image/x-icon''),
     (''.gif'', 4, ''image/gif''), (''.jpg'', 4, ''image/jpeg''), (''.jpeg'', 5, ''image/jpeg''),
     (''.png'', 4, ''image/png''), (''.svg'', 4, ''image/svg+xml''),
     (''.txt'', 4, ''text/plain''), (''.torrent'', 8, ''application/x-bittorrent''),
     (''.wav'', 4, ''audio/x-wav''), (''.mp3'', 4, ''audio/x-mp3''),
     (''.mid'', 4, ''audio/mid''), (''.m3u'', 4, ''audio/x-mpegurl''),
     (''.ogg'', 4, ''application/ogg''), (''.ram'', 4, ''audio/x-pn-realaudio''),
     (''.xml'', 4, ''text/xml''), (''.json'', 5, ''application/json''),
     (''.xslt'', 5, ''application/xml''), (''.xsl'', 4, ''application/xml''),
     (''.ra'', 3, ''audio/x-pn-realaudio''), (''.doc'', 4, ''application/msword''),
     (''.exe'', 4, ''application/octet-stream''),
     (''.zip'', 4, ''application/x-zip-compressed''), (''.xls'', 4, ''application/excel''),
     (''.tgz'', 4, ''application/x-tar-gz''), (''.tar'', 4, ''application/x-tar''),
     (''.gz'', 3, ''application/x-gunzip''), (''.arj'', 4, ''application/x-arj-compressed''),
     (''.rar'', 4, ''application/x-rar-compressed''), (''.rtf'', 4, ''application/rtf''),
     (''.pdf'', 4, ''application/pdf''), (''.swf'', 4, ''application/x-shockwave-flash''),
     (''.mpg'', 4, ''video/mpeg''), (''.webm'', 5, ''video/webm''),
     (''.mpeg'', 5, ''video/mpeg''), (''.mov'', 4, ''video/quicktime''),
     (''.mp4'', 4, ''video/mp4''), (''.m4v'', 4, ''video/x-m4v''),
     (''.asf'', 4, ''video/x-ms-asf''), (''.avi'', 4, ''video/x-msvideo''),
     (''.bmp'', 4, ''image/bmp''), (''.ttf'', 4, ''application/x-font-ttf'')]"

definition mg_get_mime_type :: "string \<Rightarrow> string \<Rightarrow> string" where
  "mg_get_mime_type path default_mime_type =
     (case find (\<lambda>(extension, ext_len, mime). ext_len < length path \<and>
                  mg_strcasecmp (drop (length path - ext_len) path) extension = 0)
             static_builtin_mime_types of
        Some (extension, ext_len, mime) \<Rightarrow> mime | None \<Rightarrow> default_mime_type)"

end
