(* ===== verification/Http_Dates.thy ===== *)
theory Http_Dates
  imports Http_Tables
begin

text \<open>
  Dates, entity tags and ranges of \<^verbatim>\<open>util/mongoose.c\<close>: what decides whether a segment that is
  asked for is sent, and which part of it. \<^verbatim>\<open>sscanf\<close>, \<^verbatim>\<open>gmtime\<close> and \<^verbatim>\<open>strftime\<close> are the C library's.
\<close>

section \<open>Scanning and printing\<close>

datatype directive =
    Dec              \<comment> \<open>\<^verbatim>\<open>%d\<close>\<close>
  | Word nat         \<comment> \<open>\<^verbatim>\<open>%3s\<close>\<close>
  | Skip_Word nat    \<comment> \<open>\<^verbatim>\<open>%*3s\<close>\<close>
  | Lit char
  | White            \<comment> \<open>a blank of the format\<close>

definition scan_word :: "nat \<Rightarrow> string \<Rightarrow> string \<times> string" where
  "scan_word n s = (let t = dropWhile is_space s; w = take n (takeWhile (\<lambda>c. \<not> is_space c) t) in
     (w, drop (length w) t))"

text \<open>The integers and the words, where every directive succeeds.\<close>

fun sscanf :: "directive list \<Rightarrow> string \<Rightarrow> (int list \<times> string list) option" where
  "sscanf [] s = Some ([], [])"
| "sscanf (Dec # ds) s = (case strtol s of (v, r) \<Rightarrow>
     if r = s then None else map_option (\<lambda>(vs, ws). (s32 v # vs, ws)) (sscanf ds r))"
| "sscanf (Word n # ds) s = (case scan_word n s of (w, r) \<Rightarrow>
     if w = [] then None else map_option (\<lambda>(vs, ws). (vs, w # ws)) (sscanf ds r))"
| "sscanf (Skip_Word n # ds) s = (case scan_word n s of (w, r) \<Rightarrow>
     if w = [] then None else sscanf ds r)"
| "sscanf (Lit c # ds) s = (if take 1 s = [c] then sscanf ds (drop 1 s) else None)"
| "sscanf (White # ds) s = sscanf ds (dropWhile is_space s)"

definition mg_snprintf :: "nat \<Rightarrow> string \<Rightarrow> string" where
  "mg_snprintf buflen s = take (buflen - 1) s"

function show_base16 :: "string \<Rightarrow> int \<Rightarrow> string" where
  "show_base16 digits n = (if n < 16 then [digits ! nat n]
     else show_base16 digits (n div 16) @ [digits ! nat (n mod 16)])"
  by pat_completeness auto
termination by (relation "measure (\<lambda>(d, n). nat n)") auto

declare show_base16.simps [simp del]

section \<open>Dates\<close>

definition month_names :: "string list" where
  "month_names = [''Jan'', ''Feb'', ''Mar'', ''Apr'', ''May'', ''Jun'',
     ''Jul'', ''Aug'', ''Sep'', ''Oct'', ''Nov'', ''Dec'']"

definition get_month_index :: "string \<Rightarrow> nat option" where
  "get_month_index s = (let i = length (takeWhile (\<lambda>m. m \<noteq> s) month_names) in
     if i < length month_names then Some i else None)"

definition num_leap_years :: "int \<Rightarrow> int" where
  "num_leap_years year = year div 4 - year div 100 + year div 400"

definition days_before_month :: "int list" where
  "days_before_month = [0, 31, 59, 90, 120, 151, 181, 212, 243, 273, 304, 334]"

text \<open>The four formats, in the order they are tried.\<close>

definition time_of_day :: "directive list" where
  "time_of_day = [Dec, Lit CHR '':'', Dec, Lit CHR '':'', Dec]"

definition date_formats :: "directive list list" where
  "date_formats = [
     [Dec, Lit CHR ''/'', Word 3, Lit CHR ''/'', Dec, White] @ time_of_day,
     [Dec, White, Word 3, White, Dec, White] @ time_of_day,
     [Skip_Word 3, Lit CHR '','', White, Dec, White, Word 3, White, Dec, White] @ time_of_day,
     [Dec, Lit CHR ''-'', Word 3, Lit CHR ''-'', Dec, White] @ time_of_day]"

fun try_formats :: "directive list list \<Rightarrow> string \<Rightarrow> (int list \<times> string list) option" where
  "try_formats [] s = None"
| "try_formats (d # ds) s = (case sscanf d s of None \<Rightarrow> try_formats ds s | r \<Rightarrow> r)"

text \<open>The sum is computed in \<^verbatim>\<open>int\<close>, which wraps on the target.\<close>

definition seconds_since :: "int \<Rightarrow> nat \<Rightarrow> int \<Rightarrow> int \<Rightarrow> int \<Rightarrow> int \<Rightarrow> int" where
  "seconds_since year month day hour minute second =
     (let leap_days = num_leap_years year - num_leap_years 1970;
          days = (year - 1970) * 365 + days_before_month ! month + (day - 1) + leap_days in
      s32 (days * 24 * 3600 + hour * 3600 + minute * 60 + second))"

definition parse_date_string :: "string \<Rightarrow> int" where
  "parse_date_string datetime = (case try_formats date_formats datetime of
      Some ([day, year, hour, minute, second], [month_str]) \<Rightarrow>
        (case get_month_index month_str of
           Some month \<Rightarrow> if year > 1970 then seconds_since year month day hour minute second else 0
         | None \<Rightarrow> 0)
    | _ \<Rightarrow> 0)"

text \<open>\<^verbatim>\<open>gmtime\<close>: year, month (from 0) and day of a number of days since 1970.\<close>

definition civil :: "int \<Rightarrow> int \<times> nat \<times> int" where
  "civil days =
     (let z = days + 719468; era = z div 146097; doe = z mod 146097;
          yoe = (doe - doe div 1460 + doe div 36524 - doe div 146096) div 365;
          doy = doe - (365 * yoe + yoe div 4 - yoe div 100);
          mp = (5 * doy + 2) div 153;
          day = doy - (153 * mp + 2) div 5 + 1;
          month = (if mp < 10 then mp + 2 else mp - 10);
          year = yoe + era * 400 + (if month \<le> 1 then 1 else 0) in
      (year, nat month, day))"

definition day_names :: "string list" where
  "day_names = [''Sun'', ''Mon'', ''Tue'', ''Wed'', ''Thu'', ''Fri'', ''Sat'']"

text \<open>\<^verbatim>\<open>strftime(buf, len, "%a, %d %b %Y %H:%M:%S GMT", gmtime(t))\<close>\<close>

definition gmt_time_string :: "int \<Rightarrow> string" where
  "gmt_time_string t =
     (let days = t div 86400; sec = t mod 86400 in
      case civil days of (year, month, day) \<Rightarrow>
        day_names ! nat ((days + 4) mod 7) @ '', '' @ setw0 2 (show_int day) @ '' '' @
        month_names ! month @ '' '' @ show_int year @ '' '' @
        setw0 2 (show_int (sec div 3600)) @ '':'' @ setw0 2 (show_int (sec div 60 mod 60)) @ '':'' @
        setw0 2 (show_int (sec mod 60)) @ '' GMT'')"

section \<open>Entity tags and ranges\<close>

definition construct_etag :: "int \<Rightarrow> nat \<Rightarrow> string" where
  "construct_etag st_mtime st_size = mg_snprintf 64
     ([CHR 0x22] @ show_base16 hex (u64 st_mtime) @ ''.'' @ show_int (int st_size) @ [CHR 0x22])"

text \<open>The number of conversions and the two values, from \<^verbatim>\<open>r1 = r2 = 0\<close>.\<close>

definition parse_range_header :: "string \<Rightarrow> nat \<times> int \<times> int" where
  "parse_range_header header =
     (if take 6 header \<noteq> ''bytes='' then (0, 0, 0)
      else (case strtol (drop 6 header) of (a, r) \<Rightarrow>
        if r = drop 6 header then (0, 0, 0)
        else if take 1 r \<noteq> ''-'' then (1, a, 0)
        else (case strtol (drop 1 r) of (b, r') \<Rightarrow>
          if r' = drop 1 r then (1, a, 0) else (2, a, b))))"

end
