(* ===== verification/Http_Frames.thy ===== *)
theory Http_Frames
  imports Digest_Spec Http_Dates
begin

text \<open>
  The byte formats of websockets in \<^verbatim>\<open>util/mongoose.c\<close>: the answer to the handshake with its base64
  digest, the frames that the server writes, and the layout of a frame in the receive buffer. The calls of
  the handler around them are in \<^verbatim>\<open>Http_Server\<close>.
\<close>

unbundle bit_operations_syntax

section \<open>Base64\<close>

definition b64 :: string where
  "b64 = ''ABCDEFGHIJKLMNOPQRSTUVWXYZabcdefghijklmnopqrstuvwxyz0123456789+/''"

text \<open>The loop, three bytes at a time; bytes behind the end count as 0.\<close>

function base64_loop :: "string \<Rightarrow> string" where
  "base64_loop src = (if src = [] then []
     else (let a = code (src ! 0); b = (if 1 < length src then code (src ! 1) else 0);
               c = (if 2 < length src then code (src ! 2) else 0) in
       [b64 ! (drop_bit 2 a), b64 ! (push_bit 4 (a AND 3) OR drop_bit 4 b)] @
       (if 1 < length src then [b64 ! (push_bit 2 (b AND 15) OR drop_bit 6 c)] else []) @
       (if 2 < length src then [b64 ! (c AND 63)] else []) @ base64_loop (drop 3 src)))"
  by pat_completeness auto
termination by (relation "measure length") auto

declare base64_loop.simps [simp del]

definition base64_encode :: "string \<Rightarrow> string" where
  "base64_encode src = (let dst = base64_loop src in dst @ replicate ((4 - length dst mod 4) mod 4) CHR ''='')"

section \<open>The handshake\<close>

definition magic :: string where "magic = ''258EAFA5-E914-47DA-95CA-C5AB0DC85B11''"

text \<open>The context on the stack is not initialised: what it holds at first is an argument.\<close>

definition websocket_handshake :: "SHA1_CTX \<Rightarrow> string \<Rightarrow> string" where
  "websocket_handshake ctx key =
     (let buf = mg_snprintf 500 (key @ magic);
          sha = SHA1Final (SHA1Update (SHA1Init ctx) buf);
          b64_sha = base64_encode sha in
      mg_snprintf 500 (''HTTP/1.1 101 Switching Protocols'' @ [CR, newline] @
        ''Upgrade: websocket'' @ [CR, newline] @ ''Connection: Upgrade'' @ [CR, newline] @
        ''Sec-WebSocket-Accept: '' @ b64_sha @ [CR, newline, CR, newline]))"

section \<open>Frames\<close>

definition WEBSOCKET_OPCODE_CONNECTION_CLOSE :: int where "WEBSOCKET_OPCODE_CONNECTION_CLOSE = 8"
definition WEBSOCKET_OPCODE_PING :: int where "WEBSOCKET_OPCODE_PING = 9"

definition byte_of :: "nat \<Rightarrow> char" where
  "byte_of n = char_of n"

text \<open>\<^verbatim>\<open>htons\<close> and \<^verbatim>\<open>htonl\<close>: the bytes of a number, the high one first.\<close>

definition be16 :: "nat \<Rightarrow> string" where
  "be16 n = [byte_of (n div 256), byte_of n]"

definition be32 :: "nat \<Rightarrow> string" where
  "be32 n = be16 (n div 65536) @ be16 n"

definition read_be :: "string \<Rightarrow> nat" where
  "read_be s = foldl (\<lambda>a c. 256 * a + code c) 0 s"

text \<open>What \<^verbatim>\<open>mg_websocket_write\<close> puts on the wire.\<close>

definition websocket_frame :: "int \<Rightarrow> string \<Rightarrow> string" where
  "websocket_frame opcode data =
     (let data_len = length data; first = char_of (0x80 + nat (opcode AND 15)) in
      if data_len < 126 then first # byte_of data_len # data
      else if data_len \<le> 0xFFFF then first # byte_of 126 # be16 data_len @ data
      else first # byte_of 127 # be32 (data_len div 2 ^ 32) @ be32 (data_len mod 2 ^ 32) @ data)"

text \<open>
  The lengths that \<^verbatim>\<open>deliver_websocket_frame\<close> reads out of the buffer: mask, header, data. In the 64-bit
  form only the low half reaches \<^verbatim>\<open>data_len\<close>, an \<^verbatim>\<open>int\<close>: the cast of the expression binds to the shifted
  high half alone.
\<close>

definition frame_layout :: "string \<Rightarrow> int \<times> int \<times> int" where
  "frame_layout buf =
     (let buf_len = int (length buf) in
      if 2 \<le> buf_len
      then (let len = code (buf ! 1) AND 127; mask_len = (if code (buf ! 1) AND 128 \<noteq> 0 then 4 else 0) in
        if len < 126 \<and> mask_len \<le> buf_len then (mask_len, 2 + mask_len, int len)
        else if len = 126 \<and> 4 + mask_len \<le> buf_len
        then (mask_len, 4 + mask_len, int (256 * code (buf ! 2) + code (buf ! 3)))
        else if 10 + mask_len \<le> buf_len
        then (mask_len, 10 + mask_len,
          s32 (s32 (int (read_be (take 4 (drop 2 buf))) * 2 ^ 32) + int (read_be (take 4 (drop 6 buf)))))
        else (mask_len, 0, 0))
      else (0, 0, 0))"

text \<open>\<^verbatim>\<open>frame_len\<close> is an \<^verbatim>\<open>int\<close> too.\<close>

definition buffered_frame :: "string \<Rightarrow> (int \<times> int \<times> int) option" where
  "buffered_frame buf = (case frame_layout buf of (mask_len, header_len, data_len) \<Rightarrow>
     (let frame_len = s32 (header_len + data_len) in
      if 0 < frame_len \<and> frame_len \<le> int (length buf) then Some (mask_len, header_len, data_len) else None))"

definition xor_char :: "char \<Rightarrow> char \<Rightarrow> char" where
  "xor_char a b = char_of (code a XOR code b)"

text \<open>The loop that applies the mask, in the buffer.\<close>

definition unmask :: "string \<Rightarrow> int \<Rightarrow> int \<Rightarrow> int \<Rightarrow> string" where
  "unmask buf mask_len header_len data_len = (if 0 < mask_len
     then take (nat header_len) buf @
       map (\<lambda>i. xor_char (buf ! (i + nat header_len)) (buf ! (nat (header_len - mask_len) + i mod 4))) [0..<nat data_len] @
       drop (nat header_len + nat data_len) buf
     else buf)"

section \<open>Facts\<close>

subsection \<open>The encoding of RFC 4648\<close>

text \<open>
  The standard by its own words: a group of three bytes is a number of 24 bits, written as four digits of 6 bits; one or two
  bytes at the end are filled up with zero bits and marked by the padding.
\<close>

definition rfc4648_digit :: "nat \<Rightarrow> char" where
  "rfc4648_digit k = (if k < 26 then char_of (code CHR ''A'' + k) else if k < 52 then char_of (code CHR ''a'' + (k - 26))
     else if k < 62 then char_of (code CHR ''0'' + (k - 52)) else if k = 62 then CHR ''+'' else CHR ''/'')"

definition rfc4648_group :: "nat \<Rightarrow> nat \<Rightarrow> string" where
  "rfc4648_group k n = map rfc4648_digit (take k [n div 2 ^ 18, n div 2 ^ 12 mod 64, n div 2 ^ 6 mod 64, n mod 64])"

fun rfc4648 :: "string \<Rightarrow> string" where
  "rfc4648 (a # b # c # s) = rfc4648_group 4 (2 ^ 16 * code a + 2 ^ 8 * code b + code c) @ rfc4648 s"
| "rfc4648 [a, b] = rfc4648_group 3 (2 ^ 16 * code a + 2 ^ 8 * code b) @ ''=''"
| "rfc4648 [a] = rfc4648_group 2 (2 ^ 16 * code a) @ ''==''"
| "rfc4648 [] = []"

lemma b64_digit: "k < 64 \<Longrightarrow> b64 ! k = rfc4648_digit k"
proof -
  have "list_all (\<lambda>k. b64 ! k = rfc4648_digit k) [0..<64]" by code_simp
  then show "k < 64 \<Longrightarrow> b64 ! k = rfc4648_digit k" by (auto simp: list_all_iff)
qed

lemma rfc4648_examples:
  "rfc4648 ''f'' = ''Zg==''" "rfc4648 ''fo'' = ''Zm8=''" "rfc4648 ''foob'' = ''Zm9vYg==''" "rfc4648 ''foobar'' = ''Zm9vYmFy''"
  by (simp_all add: rfc4648_group_def code_def b64_digit [symmetric]) (simp_all add: b64_def)

text \<open>The shifts and masks of the code are the digits of the number.\<close>

lemma or_add:
  assumes "y < 2 ^ k"
  shows "push_bit k x OR y = 2 ^ k * x + (y :: nat)"
proof -
  have "take_bit k y = y" using assms by (simp add: take_bit_nat_eq_self)
  then have "n < k" if "bit y n" for n using that by (metis bit_take_bit_iff)
  then have "push_bit k x OR y = push_bit k x + y"
    by (intro disjunctive_add [symmetric]) (auto simp: bit_simps dest: leD)
  then show ?thesis by (simp add: push_bit_eq_mult mult.commute)
qed

lemma six_bits:
  assumes "a < 256" "b < 256" "c < 256"
  shows "drop_bit 2 a = (2 ^ 16 * a + 2 ^ 8 * b + c) div 2 ^ 18"
    "push_bit 4 (a AND 3) OR drop_bit 4 b = (2 ^ 16 * a + 2 ^ 8 * b + c) div 2 ^ 12 mod 64"
    "push_bit 2 (b AND 15) OR drop_bit 6 c = (2 ^ 16 * a + 2 ^ 8 * b + c) div 2 ^ 6 mod 64"
    "c AND 63 = (2 ^ 16 * a + 2 ^ 8 * b + c) mod (64 :: nat)"
proof -
  have m: "x AND 3 = x mod 4" "x AND 15 = x mod 16" "x AND 63 = x mod 64" for x :: nat
    using take_bit_eq_mask [of 2 x] take_bit_eq_mask [of 4 x] take_bit_eq_mask [of 6 x]
    by (simp_all add: take_bit_eq_mod mask_eq_exp_minus_1)
  show "drop_bit 2 a = (2 ^ 16 * a + 2 ^ 8 * b + c) div 2 ^ 18" using assms by (simp add: drop_bit_eq_div)
  obtain p q where a: "a = 4 * p + q" "q < 4" by (metis mod_less_divisor mult_div_mod_eq zero_less_numeral)
  obtain e f where b: "b = 16 * e + f" "f < 16" by (metis mod_less_divisor mult_div_mod_eq zero_less_numeral)
  obtain g h where c: "c = 64 * g + h" "h < 64" by (metis mod_less_divisor mult_div_mod_eq zero_less_numeral)
  have parts: "a mod 4 = q" "b div 16 = e" "b mod 16 = f" "c div 64 = g" "e < 16" "g < 4"
    using a b c assms by auto
  have "(2 ^ 16 * a + 2 ^ 8 * b + c) div 2 ^ 12 = 64 * p + (16 * q + e)"
    using a b c assms(3) by (intro div_nat_eqI) simp_all
  then have "(2 ^ 16 * a + 2 ^ 8 * b + c) div 2 ^ 12 mod 64 = 16 * q + e"
    using a(2) parts(5) by simp
  then show "push_bit 4 (a AND 3) OR drop_bit 4 b = (2 ^ 16 * a + 2 ^ 8 * b + c) div 2 ^ 12 mod 64"
    using parts by (subst or_add) (simp_all add: drop_bit_eq_div m)
  have "(2 ^ 16 * a + 2 ^ 8 * b + c) div 2 ^ 6 = 64 * (16 * a + e) + (4 * f + g)"
    using b c by (intro div_nat_eqI) simp_all
  moreover have "4 * f + g < 64" using b(2) parts(6) by simp
  ultimately have "(2 ^ 16 * a + 2 ^ 8 * b + c) div 2 ^ 6 mod 64 = 4 * f + g"
    by (simp only: mod_mult_self4 mod_less)
  then show "push_bit 2 (b AND 15) OR drop_bit 6 c = (2 ^ 16 * a + 2 ^ 8 * b + c) div 2 ^ 6 mod 64"
    using parts by (subst or_add) (simp_all add: drop_bit_eq_div m)
  show "c AND 63 = (2 ^ 16 * a + 2 ^ 8 * b + c) mod (64 :: nat)" proof -
    have "2 ^ 16 * a + 2 ^ 8 * b + c = 64 * (1024 * a + 4 * b) + c" by simp
    then show ?thesis by (simp only: m mod_mult_self4)
  qed
qed

text \<open>The four characters of the code, for the bytes of a group with 0 for those that are not there.\<close>

definition four_chars :: "nat \<Rightarrow> nat \<Rightarrow> nat \<Rightarrow> string" where
  "four_chars a b c = [b64 ! drop_bit 2 a, b64 ! (push_bit 4 (a AND 3) OR drop_bit 4 b),
     b64 ! (push_bit 2 (b AND 15) OR drop_bit 6 c), b64 ! (c AND 63)]"

lemma four_chars_group:
  assumes "a < 256" "b < 256" "c < 256"
  shows "take k (four_chars a b c) = rfc4648_group k (2 ^ 16 * a + 2 ^ 8 * b + c)"
proof -
  have "(2 ^ 16 * a + 2 ^ 8 * b + c) div 2 ^ 18 < 64" using assms by simp
  then show ?thesis
    unfolding four_chars_def rfc4648_group_def six_bits [OF assms] by (simp only: take_map [symmetric]) (simp add: b64_digit)
qed

lemma base64_step:
  "base64_loop [] = []" "base64_loop [a] = take 2 (four_chars (code a) 0 0)"
  "base64_loop [a, b] = take 3 (four_chars (code a) (code b) 0)"
  "base64_loop (a # b # c # s) = four_chars (code a) (code b) (code c) @ base64_loop s"
proof -
  show e: "base64_loop [] = []" by (subst base64_loop.simps) simp
  show "base64_loop [a] = take 2 (four_chars (code a) 0 0)" "base64_loop [a, b] = take 3 (four_chars (code a) (code b) 0)"
    "base64_loop (a # b # c # s) = four_chars (code a) (code b) (code c) @ base64_loop s"
    by (subst base64_loop.simps, simp add: four_chars_def Let_def e numeral_eq_Suc)+
qed

lemma length_group: "length (rfc4648_group k n) = min 4 k"
  by (simp add: rfc4648_group_def)

lemma base64_encode_rfc: "base64_encode s = rfc4648 s"
proof -
  note group = four_chars_group [OF code_less code_less code_less, of 4] four_chars_group [OF code_less code_less, of 0 3]
    four_chars_group [OF code_less, of 0 0 2]
  have "base64_loop s @ replicate ((4 - length (base64_loop s) mod 4) mod 4) CHR ''='' = rfc4648 s"
  proof (induction s rule: rfc4648.induct)
    case (1 a b c s)
    have "take 4 (four_chars x y z) = four_chars x y z" for x y z by (simp add: four_chars_def)
    with 1 group(1) [of a b c] show ?case by (simp add: base64_step length_group)
  next
    case (2 a b)
    with group(2) [of a b] show ?case by (simp add: base64_step length_group)
  next
    case (3 a)
    have "replicate 2 CHR ''='' = ''==''" by (simp add: numeral_2_eq_2)
    with group(3) [of a] show ?case by (simp add: base64_step length_group)
  qed (simp add: base64_step)
  then show ?thesis by (simp add: base64_encode_def Let_def)
qed

subsection \<open>Lengths\<close>

lemma base64_loop_short:
  "base64_loop [] = []" "length (base64_loop [a]) = 2" "length (base64_loop [a, b]) = 3"
proof -
  show nil: "base64_loop [] = []" by (subst base64_loop.simps) simp
  show "length (base64_loop [a]) = 2" "length (base64_loop [a, b]) = 3"
    by (subst base64_loop.simps; simp add: nil Let_def)+
qed

lemma length_base64_loop: "length (base64_loop s) = 4 * (length s div 3) + (case length s mod 3 of 0 \<Rightarrow> 0 | Suc k \<Rightarrow> k + 2)"
proof (induction s rule: base64_loop.induct)
  case (1 s)
  show ?case
  proof (cases "length s < 3")
    case True
    then consider "s = []" | a where "s = [a]" | a b where "s = [a, b]"
      by (cases s; cases "tl s"; cases "tl (tl s)") auto
    then show ?thesis by cases (simp_all add: base64_loop_short)
  next
    case False
    then have "length (base64_loop s) = 4 + length (base64_loop (drop 3 s))"
      by (subst base64_loop.simps) (auto simp: Let_def)
    moreover have "s \<noteq> []" using False by auto
    note 1 [OF this refl refl refl]
    ultimately show ?thesis using False by (simp add: le_div_geq le_mod_geq)
  qed
qed

lemma length_base64: "length (base64_encode s) = 4 * ((length s + 2) div 3)"
proof -
  have "length s mod 3 < 3" by simp
  then consider "length s mod 3 = 0" | "length s mod 3 = 1" | "length s mod 3 = 2" by linarith
  then show ?thesis
  proof cases
    case 1
    then obtain q where "length s = 3 * q" by (metis mod_0_imp_dvd dvdE)
    then show ?thesis by (simp add: base64_encode_def Let_def length_base64_loop)
  next
    case 2
    then have "length s = 3 * (length s div 3) + 1" using mult_div_mod_eq [of 3 "length s"] by linarith
    then obtain q where "length s = 3 * q + 1" by blast
    then show ?thesis by (simp add: base64_encode_def Let_def length_base64_loop mod_Suc div_Suc)
  next
    case 3
    then have "length s = 3 * (length s div 3) + 2" using mult_div_mod_eq [of 3 "length s"] by linarith
    then obtain q where "length s = 3 * q + 2" by blast
    then show ?thesis by (simp add: base64_encode_def Let_def length_base64_loop mod_Suc div_Suc)
  qed
qed

lemma length_SHA1Final: "length (SHA1Final c) = 20"
  by (simp add: SHA1Final_def Let_def)

text \<open>
  C35. A websocket handshake with a key of at most 463 characters is answered as RFC 6455 asks: with the base64 form (as
  RFC 4648 defines it) of the SHA-1 (as FIPS 180 defines it) of the key and the magic text. The digest takes 28 characters
  and its terminator of the 40 that the buffer \<^verbatim>\<open>b64_sha\<close> has, and neither \<^verbatim>\<open>mg_snprintf\<close> cuts anything off. (From 464
  characters on the first one does.)
\<close>

theorem websocket_handshake_answers_the_key:
  assumes "length (sha_buffer ctx) = 64" "length key \<le> 463"
  shows "websocket_handshake ctx key =
      ''HTTP/1.1 101 Switching Protocols'' @ [CR, newline] @ ''Upgrade: websocket'' @ [CR, newline] @
      ''Connection: Upgrade'' @ [CR, newline] @ ''Sec-WebSocket-Accept: '' @
      rfc4648 (sha1_standard (key @ ''258EAFA5-E914-47DA-95CA-C5AB0DC85B11'')) @ [CR, newline, CR, newline] \<and>
    length (rfc4648 (sha1_standard (key @ ''258EAFA5-E914-47DA-95CA-C5AB0DC85B11''))) = 28"
proof -
  have "SHA1Final (SHA1Update (SHA1Init ctx) (key @ magic)) = sha1_standard (key @ magic)"
    using sha1_standard_pieces [of ctx "[key @ magic]"] assms by (simp add: sha_ok_def magic_def)
  moreover have "length (base64_encode (SHA1Final (SHA1Update (SHA1Init ctx) (key @ magic)))) = 28"
    by (simp add: length_base64 length_SHA1Final)
  moreover have "mg_snprintf 500 (key @ magic) = key @ magic"
    using assms by (simp add: mg_snprintf_def magic_def)
  ultimately show ?thesis
    unfolding base64_encode_rfc [symmetric] magic_def [symmetric]
    by (simp add: websocket_handshake_def Let_def) (simp add: mg_snprintf_def)
qed

theorem websocket_handshake_answers_the_key_witness:
  "websocket_handshake \<lparr>sha_state = [], sha_count0 = 3, sha_count1 = 4, sha_buffer = replicate 64 nul\<rparr> ''dGhlIHNhbXBsZSBub25jZQ=='' =
      ''HTTP/1.1 101 Switching Protocols'' @ [CR, newline] @ ''Upgrade: websocket'' @ [CR, newline] @
      ''Connection: Upgrade'' @ [CR, newline] @ ''Sec-WebSocket-Accept: '' @
      rfc4648 (sha1_standard (''dGhlIHNhbXBsZSBub25jZQ=='' @ ''258EAFA5-E914-47DA-95CA-C5AB0DC85B11'')) @ [CR, newline, CR, newline]"
  by (rule conjunct1 [OF websocket_handshake_answers_the_key]) simp_all

lemma code_byte_of: "code (byte_of n) = n mod 256"
  by (simp add: code_def byte_of_def)

lemma read_be32: "n < 2 ^ 32 \<Longrightarrow> read_be (be32 n) = n"
proof -
  assume "n < 2 ^ 32"
  moreover have "n div 65536 = n div 256 div 256" by (simp add: div_mult2_eq)
  then have "65536 * (n div 65536) + 256 * (n div 256 mod 256) + n mod 256 = n"
    using mult_div_mod_eq [of 256 "n div 256"] mult_div_mod_eq [of 256 n] by linarith
  ultimately show ?thesis
    by (simp add: read_be_def be32_def be16_def code_byte_of div_mult2_eq)
qed

lemma and_127: "n AND 127 = n mod (128 :: nat)" "n < 256 \<Longrightarrow> n AND 128 = (if 128 \<le> n then 128 else 0)"
proof -
  show "n AND 127 = n mod 128"
    using take_bit_eq_mask [of 7 n] by (simp add: take_bit_eq_mod mask_eq_exp_minus_1)
  assume n: "n < 256"
  have "n AND push_bit 7 m = push_bit 7 (drop_bit 7 n AND m)" for m
    by (rule bit_eqI) (auto simp: bit_simps)
  from this [of 1] have "n AND 128 = push_bit 7 (drop_bit 7 n AND 1)" by simp
  then show "n AND 128 = (if 128 \<le> n then 128 else 0)"
    using n by (auto simp: drop_bit_eq_div push_bit_eq_mult and_one_eq)
qed

text \<open>How long the header of a frame of so many bytes is, and the frame of a client, with a mask.\<close>

definition header_size :: "nat \<Rightarrow> nat" where
  "header_size n = (if n < 126 then 2 else if n \<le> 0xFFFF then 4 else 10)"

definition masked_frame :: "string \<Rightarrow> int \<Rightarrow> string \<Rightarrow> string" where
  "masked_frame key opcode data =
     (let frame = websocket_frame opcode data; h = header_size (length data) in
      take 1 frame @ [byte_of (code (frame ! 1) + 128)] @ take (h - 2) (drop 2 frame) @ key @
      map (\<lambda>i. xor_char (data ! i) (key ! (i mod 4))) [0..<length data])"

lemma s32_small: "0 \<le> x \<Longrightarrow> x < 2 ^ 31 \<Longrightarrow> s32 x = x"
  by (rule s32_id) auto

lemma be16_value: "(n :: nat) \<le> 0xFFFF \<Longrightarrow> 256 * (n div 256 mod 256) + n mod 256 = n"
  using mult_div_mod_eq [of 256 n] by simp

lemma s32_high: "s32 (int n * 2 ^ 32) = 0"
proof -
  have "s32 (int n * 2 ^ 32) = signed_take_bit 31 (push_bit 32 (int n))"
    by (simp add: s32_def push_bit_eq_mult)
  also have "\<dots> = 0"
    by (rule bit_eqI) (auto simp: bit_simps min_def)
  finally show ?thesis .
qed

lemma frame_lengths:
  assumes n: "n + 14 < 2 ^ 31"
    and head: "length head = header_size n" "code (head ! 1) = (if n < 126 then n else if n \<le> 0xFFFF then 126 else 127) + (if m then 128 else 0)"
      "126 \<le> n \<Longrightarrow> n \<le> 0xFFFF \<Longrightarrow> drop 2 head = be16 n" "0xFFFF < n \<Longrightarrow> drop 2 head = be32 (n div 2 ^ 32) @ be32 (n mod 2 ^ 32)"
    and rest: "(if m then 4 else 0) + n \<le> length rest"
  shows "buffered_frame (head @ rest) = Some (if m then 4 else 0, int (header_size n) + (if m then 4 else 0), int n)"
proof -
  have h: "2 \<le> length head" "length head \<le> 10" using head(1) by (auto simp: header_size_def)
  have c: "code (head ! 1) AND 127 = (if n < 126 then n else if n \<le> 0xFFFF then 126 else 127)"
    "code (head ! 1) AND 128 \<noteq> 0 \<longleftrightarrow> m"
    unfolding head(2) by (simp_all add: and_127)
  have "frame_layout (head @ rest) = (if m then 4 else 0, int (header_size n) + (if m then 4 else 0), int n)"
  proof -
    consider "n < 126" | "126 \<le> n" "n \<le> 0xFFFF" | "0xFFFF < n" by linarith
    then show ?thesis
    proof cases
      case 1
      then obtain a b where "head = [a, b]" using head(1)
        by (cases head; cases "tl head") (auto simp: header_size_def)
      with 1 c rest show ?thesis by (cases m) (simp_all add: frame_layout_def Let_def header_size_def)
    next
      case 2
      then obtain a b where "head = [a, b] @ be16 n" using head(1,3)
        by (cases head; cases "tl head") (auto simp: header_size_def)
      then show ?thesis using 2 c rest
        by (simp add: frame_layout_def Let_def header_size_def be16_def code_byte_of be16_value)
    next
      case 3
      then obtain a b where ab: "head = [a, b] @ be32 (n div 2 ^ 32) @ be32 (n mod 2 ^ 32)" using head(1,4)
        by (cases head; cases "tl head") (auto simp: header_size_def)
      have l: "length (be32 x) = 4" for x by (simp add: be32_def be16_def)
      have "n mod 2 ^ 32 = n" using n by simp
      then have "read_be (take 4 (drop 6 (head @ rest))) = n" using n
        by (simp add: ab l read_be32)
      then show ?thesis using 3 c rest n ab
        by (simp add: frame_layout_def Let_def header_size_def l s32_high [simplified] s32_small)
    qed
  qed
  moreover have "header_size n \<le> 10" by (simp add: header_size_def)
  ultimately show ?thesis using n rest head(1)
    by (simp add: buffered_frame_def Let_def s32_small) (auto simp: s32_small header_size_def)
qed

lemma xor_twice: "xor_char (xor_char a b) b = a"
proof -
  have "code (xor_char a b) = code a XOR code b"
  proof -
    have "take_bit 8 (code a XOR code b) = code a XOR code b"
      using take_bit_nat_eq_self [of "code a" 8] take_bit_nat_eq_self [of "code b" 8] code_less
      by (simp add: take_bit_xor)
    then show ?thesis by (simp add: xor_char_def code_def take_bit_eq_mod)
  qed
  then show ?thesis by (simp add: xor_char_def [of "xor_char a b"] xor.assoc)
qed

text \<open>What the handler is shown of a frame, and what follows it in the buffer.\<close>

definition frame_content :: "string \<Rightarrow> (string \<times> string) option" where
  "frame_content buf = (case buffered_frame buf of None \<Rightarrow> None
     | Some (mask_len, header_len, data_len) \<Rightarrow>
         Some (take (nat data_len) (drop (nat header_len) (unmask buf mask_len header_len data_len)),
           drop (nat (header_len + data_len)) buf))"

lemma websocket_frame_content:
  assumes "length data + 14 < 2 ^ 31"
  shows "frame_content (websocket_frame opcode data @ rest) = Some (data, rest)"
proof -
  define head where "head = take (header_size (length data)) (websocket_frame opcode data)"
  have split: "websocket_frame opcode data = head @ data"
    by (auto simp: head_def websocket_frame_def header_size_def be16_def be32_def Let_def)
  have l: "length head = header_size (length data)"
    by (auto simp: head_def websocket_frame_def header_size_def be16_def be32_def Let_def)
  have "buffered_frame (head @ (data @ rest)) = Some (if False then 4 else 0,
      int (header_size (length data)) + (if False then 4 else 0), int (length data))"
  proof (rule frame_lengths [OF assms l])
    show "code (head ! 1) = (if length data < 126 then length data else if length data \<le> 0xFFFF then 126 else 127) +
        (if False then 128 else 0)"
      by (auto simp: head_def websocket_frame_def header_size_def Let_def code_byte_of)
  qed (auto simp: head_def websocket_frame_def header_size_def Let_def be16_def be32_def)
  then show ?thesis
    by (simp add: frame_content_def split unmask_def l)
qed

lemma masked_frame_content:
  assumes n: "length data + 14 < 2 ^ 31" and key: "length key = 4"
  shows "frame_content (masked_frame key opcode data @ rest) = Some (data, rest)"
proof -
  define n where "n = length data"
  define h where "h = header_size n"
  define head where "head = take 1 (websocket_frame opcode data) @ [byte_of (code (websocket_frame opcode data ! 1) + 128)] @
    take (h - 2) (drop 2 (websocket_frame opcode data))"
  define body where "body = map (\<lambda>i. xor_char (data ! i) (key ! (i mod 4))) [0..<n]"
  have split: "masked_frame key opcode data = head @ key @ body"
    by (simp add: masked_frame_def Let_def head_def body_def h_def n_def)
  have l: "length head = h" "2 \<le> h"
    by (auto simp: head_def h_def n_def websocket_frame_def header_size_def be16_def be32_def Let_def)
  have b: "buffered_frame (head @ (key @ body @ rest)) = Some (if True then 4 else 0,
      int h + (if True then 4 else 0), int n)"
    unfolding h_def
  proof (rule frame_lengths)
    show "code (head ! 1) = (if n < 126 then n else if n \<le> 0xFFFF then 126 else 127) + (if True then 128 else 0)"
      by (auto simp: head_def n_def websocket_frame_def header_size_def Let_def code_byte_of)
  qed (use n key l in \<open>auto simp: n_def h_def head_def websocket_frame_def header_size_def Let_def be16_def be32_def body_def\<close>)
  have "unmask (head @ key @ body @ rest) 4 (int h + 4) (int n) = head @ key @ data @ rest"
  proof -
    have "nat (int h + 4) = h + 4" "nat (int h + 4 - 4) = h" by simp_all
    moreover have "map (\<lambda>i. xor_char ((head @ key @ body @ rest) ! (i + (h + 4))) ((head @ key @ body @ rest) ! (h + i mod 4)))
        [0..<n] = data"
    proof (rule nth_equalityI)
      fix i assume "i < length (map (\<lambda>i. xor_char ((head @ key @ body @ rest) ! (i + (h + 4))) ((head @ key @ body @ rest) ! (h + i mod 4))) [0..<n])"
      then have i: "i < n" by simp
      have "(head @ key @ body @ rest) ! (i + (h + 4)) = xor_char (data ! i) (key ! (i mod 4))"
        using i key l by (simp add: nth_append body_def)
      moreover have "(head @ key @ body @ rest) ! (h + i mod 4) = key ! (i mod 4)"
        using key l by (simp add: nth_append)
      ultimately show "map (\<lambda>i. xor_char ((head @ key @ body @ rest) ! (i + (h + 4))) ((head @ key @ body @ rest) ! (h + i mod 4))) [0..<n] ! i = data ! i"
        using i by (simp add: xor_twice)
    qed (simp add: n_def)
    ultimately show ?thesis using l key by (simp add: unmask_def body_def)
  qed
  then show ?thesis
    using b l key by (simp add: frame_content_def split body_def n_def nat_add_distrib)
qed

text \<open>
  C36. What a websocket peer sends is what the handler is shown: a frame written by \<^verbatim>\<open>mg_websocket_write\<close>,
  in any of the three length forms, with or without the mask that a client puts on it and whatever follows it in the buffer, is
  recognised as complete, its data come out unmasked, and the rest of the buffer is kept.
\<close>

theorem websocket_frame_round_trip:
  assumes "length data + 14 < 2 ^ 31" "length key = 4"
  shows "frame_content (websocket_frame opcode data @ rest) = Some (data, rest) \<and>
    frame_content (masked_frame key opcode data @ rest) = Some (data, rest)"
  using assms by (simp add: websocket_frame_content masked_frame_content)

lemma websocket_frame_round_trip_witness:
  "frame_content (masked_frame ''k3y!'' 1 ''hello'' @ ''more'') = Some (''hello'', ''more'')"
  using websocket_frame_round_trip [of "''hello''" "''k3y!''" 1 "''more''"] by simp

lemma s32_sum:
  assumes "- (2 ^ 31) \<le> x" "x < 2 ^ 31" "0 \<le> h" "h < 2 ^ 31" "0 < s32 (h + x)"
  shows "s32 (h + x) = h + x"
proof (cases "h + x < 2 ^ 31")
  case True
  with assms show ?thesis by (intro s32_id) simp_all
next
  case False
  have "s32 (h + x) = (h + x + 2 ^ 31) mod 2 ^ 32 - 2 ^ 31"
    using signed_take_bit_eq_take_bit_shift [of 31 "h + x"] by (simp add: s32_def take_bit_eq_mod)
  also have "(h + x + 2 ^ 31) mod 2 ^ 32 = h + x + 2 ^ 31 - 2 ^ 32"
    using False assms(1-4) by (subst mod_pos_geq) simp_all
  finally show ?thesis using assms(2,4,5) by simp
qed

lemma s32_range: "- (2 ^ 31) \<le> s32 x" "s32 x < 2 ^ 31"
  using signed_take_bit_int_greater_eq_minus_exp [of 31 x] signed_take_bit_int_less_exp [of 31 x]
  by (simp_all add: s32_def)

lemma layout_range:
  fixes bl mk d m h n :: int and len w :: nat
  assumes "(if 2 \<le> bl then if len < 126 \<and> mk \<le> bl then (mk, 2 + mk, int len)
       else if len = 126 \<and> 4 + mk \<le> bl then (mk, 4 + mk, int w)
       else if 10 + mk \<le> bl then (mk, 10 + mk, d) else (mk, 0, 0) else (0, 0, 0)) = (m, h, n)"
    and "h \<noteq> 0" "mk = 0 \<or> mk = 4" "len < 128" "w < 65536" "- (2 ^ 31) \<le> d" "d < 2 ^ 31"
  shows "2 \<le> h \<and> h \<le> 14 \<and> - (2 ^ 31) \<le> n \<and> n < 2 ^ 31 \<and> (0 \<le> n \<or> len = 127 \<and> h \<le> bl)"
  using assms by (simp split: if_split_asm) linarith+

lemma frame_layout_range:
  assumes "frame_layout buf = (m, h, n)" "h \<noteq> 0"
  shows "2 \<le> h \<and> h \<le> 14 \<and> - (2 ^ 31) \<le> n \<and> n < 2 ^ 31 \<and> (0 \<le> n \<or> code (buf ! 1) AND 127 = 127 \<and> h \<le> int (length buf))"
proof (rule layout_range [OF assms(1) [unfolded frame_layout_def Let_def] assms(2)])
  show "256 * code (buf ! 2) + code (buf ! 3) < 65536" using code_less [of "buf ! 2"] code_less [of "buf ! 3"] by simp
  let ?d = "s32 (s32 (int (read_be (take 4 (drop 2 buf))) * 2 ^ 32) + int (read_be (take 4 (drop 6 buf))))"
  show "- (2 ^ 31) \<le> ?d" "?d < 2 ^ 31" by (rule s32_range)+
qed (simp_all add: and_127)

lemma buffered_frame_bounds:
  assumes "buffered_frame buf = Some (mask_len, header_len, data_len)"
  shows "2 \<le> header_len \<and> 0 < header_len + data_len \<and> header_len + data_len \<le> int (length buf) \<and> header_len \<le> int (length buf) \<and>
    (0 \<le> data_len \<or> code (buf ! 1) AND 127 = 127 \<and> - 14 < data_len)"
proof -
  from assms have l: "frame_layout buf = (mask_len, header_len, data_len)"
    and s: "0 < s32 (header_len + data_len)" "s32 (header_len + data_len) \<le> int (length buf)"
    by (auto simp: buffered_frame_def Let_def split: prod.splits if_splits)
  have "header_len \<noteq> 0"
  proof
    assume "header_len = 0"
    with l have "data_len = 0"
      by (auto simp: frame_layout_def Let_def split: if_splits)
    with s(1) \<open>header_len = 0\<close> show False by (simp add: s32_def)
  qed
  note r = frame_layout_range [OF l this]
  then have "s32 (header_len + data_len) = header_len + data_len"
    using s(1) by (intro s32_sum) auto
  with r s show ?thesis by auto
qed

text \<open>
  C37. A frame that \<^verbatim>\<open>deliver_websocket_frame\<close> takes lies within what was received, header and data: but for one
  case. A 64-bit length whose low half, read as an \<^verbatim>\<open>int\<close>, is a little below zero (no further than the
  header is long) is taken too, and then the handler gets that negative number as its \<^verbatim>\<open>content_len\<close>.
\<close>

theorem accepted_frame_bounds:
  assumes "buffered_frame buf = Some (mask_len, header_len, data_len)"
  shows "2 \<le> header_len \<and> 0 < header_len + data_len \<and> header_len + data_len \<le> int (length buf) \<and> header_len \<le> int (length buf) \<and>
    (0 \<le> data_len \<or> code (buf ! 1) AND 127 = 127 \<and> - 14 < data_len)"
  using assms by (rule buffered_frame_bounds)

text \<open>Such a frame: ten bytes, of which seven are taken, with the data length -3.\<close>

definition bad_frame :: string where
  "bad_frame = [CHR 0x82, CHR 0x7F, nul, nul, nul, nul, CHR 0xFF, CHR 0xFF, CHR 0xFF, CHR 0xFD]"

lemma bad_frame_taken: "buffered_frame bad_frame = Some (0, 10, -3)"
  by (simp add: buffered_frame_def frame_layout_def bad_frame_def Let_def read_be_def code_def nul_def s32_def)

lemma accepted_frame_bounds_witness: "(0 :: int) < 10 + -3 \<and> (10 :: int) \<le> int (length bad_frame)"
  using accepted_frame_bounds [OF bad_frame_taken] by simp

end
