(* ===== verification/Journal_Node.thy ===== *)
theory Journal_Node
  imports Journal Query_Vars
begin

text \<open>
  The node around the journals: \<^verbatim>\<open>JournalNode\<close>, the RPC server, the translator of protocol
  messages, the HTTP server that hands segments to other nodes, and \<^verbatim>\<open>icerpc::Server\<close>.
\<close>

section \<open>JournalNode\<close>

text \<open>\<open>conf key\<close> is \<^verbatim>\<open>conf->getProperty(key)\<close>, the empty string for a missing key.\<close>

record node =
  n_fs :: fs
  journalsById :: "(string \<times> journal) list"
  conf :: "string \<Rightarrow> string"
  httpServerURI :: string
  localDir :: string
  httpPort :: int

definition mk_JournalNode :: "fs \<Rightarrow> (string \<Rightarrow> string) \<Rightarrow> node" where
  "mk_JournalNode f cnf =
     (let editsDir = cnf DFS_JOURNALNODE_EDITS_DIR_KEY;
          httpsAddrString = cnf DFS_JOURNALNODE_HTTP_ADDRESS_KEY;
          uri = (if httpsAddrString = [] then DFS_JOURNALNODE_HTTP_ADDRESS_DEFAULT else httpsAddrString) in
      \<lparr>n_fs = f, journalsById = [], conf = cnf, httpServerURI = uri,
       localDir = (if editsDir = [] then DFS_JOURNALNODE_EDITS_DIR_DEFAULT else editsDir),
       httpPort = u32 (port (mk_HostPortPair uri))\<rparr>)"

definition getLogDir :: "string \<Rightarrow> (node, string) prog" where
  "getLogDir jid = (if jid = [] then halt Aborted
     else seq (gets (\<lambda>n. conf n DFS_JOURNALNODE_EDITS_DIR_KEY)) (\<lambda>dir.
       (let dir = (if dir = [] then DFS_JOURNALNODE_EDITS_DIR_DEFAULT else dir) in
        ret (dir @ ''/'' @ jid))))"

text \<open>Running a method of the journal \<open>jid\<close>: it sees the file system of the node.\<close>

fun put_journal :: "string \<Rightarrow> journal \<Rightarrow> (string \<times> journal) list \<Rightarrow> (string \<times> journal) list" where
  "put_journal k j [] = [(k, j)]"
| "put_journal k j ((l, i) # js) = (if k = l then (k, j) # js else (l, i) # put_journal k j js)"

definition on_journal :: "string \<Rightarrow> (journal, 'a) prog \<Rightarrow> (node, 'a) prog" where
  "on_journal jid m n = (case map_of (journalsById n) jid of
      None \<Rightarrow> (Stop Undefined, n)
    | Some j \<Rightarrow> (case m (j\<lparr>jfs := n_fs n\<rparr>) of
        (r, j') \<Rightarrow> (r, n\<lparr>n_fs := jfs j', journalsById := put_journal jid j' (journalsById n)\<rparr>)))"

definition getOrCreateJournal :: "env \<Rightarrow> string \<Rightarrow> (node, unit) prog" where
  "getOrCreateJournal e jid = seq (gets (\<lambda>n. map_of (journalsById n) jid)) (\<lambda>pos.
     case pos of
       Some _ \<Rightarrow> ret ()
     | None \<Rightarrow> seq (getLogDir jid) (\<lambda>logDir. (\<lambda>n.
         case mk_Journal e (new_journal (n_fs n) logDir) of
           (Return _, j) \<Rightarrow>
             if \<not> j_initialized j then (Error, n\<lparr>n_fs := jfs j\<rparr>)
             else (Return (), n\<lparr>n_fs := jfs j, journalsById := put_journal jid j (journalsById n)\<rparr>)
         | (Error, j) \<Rightarrow> (Error, n\<lparr>n_fs := jfs j\<rparr>)
         | (Stop k, j) \<Rightarrow> (Stop k, n\<lparr>n_fs := jfs j\<rparr>))))"

definition validateAndCreateJournalDir :: "string \<Rightarrow> (fs, unit) prog" where
  "validateAndCreateJournalDir dir =
     (if \<not> is_absolute_path dir then halt Aborted
      else seq (attempt (dir_exists dir)) (\<lambda>r. case r of
          None \<Rightarrow> halt Aborted
        | Some journal_dir_exists_flag \<Rightarrow>
            if \<not> journal_dir_exists_flag
            then seq (attempt (sys_create_directories dir)) (\<lambda>r. case r of
                None \<Rightarrow> halt Aborted
              | Some is_created \<Rightarrow> if \<not> is_created then halt Aborted else ret ())
            else ret ()))"

text \<open>The destructor closes every journal.\<close>

fun close_journals :: "string list \<Rightarrow> (node, unit) prog" where
  "close_journals [] = ret ()"
| "close_journals (k # ks) = seq (on_journal k close) (\<lambda>_. close_journals ks)"

definition destroy_JournalNode :: "(node, unit) prog" where
  "destroy_JournalNode = seq (gets (\<lambda>n. map fst (journalsById n))) close_journals"

section \<open>JournalNodeRpcServer\<close>

definition rpc_address :: "(string \<Rightarrow> string) \<Rightarrow> HostPortPair" where
  "rpc_address cnf = (let rpcaddress = cnf DFS_JOURNALNODE_RPC_ADDRESS_KEY in
     if rpcaddress \<noteq> [] then mk_HostPortPair rpcaddress
     else mk_HostPortPair DFS_JOURNALNODE_RPC_ADDRESS_DEFAULT)"

definition with_journal :: "env \<Rightarrow> string \<Rightarrow> (journal, 'a) prog \<Rightarrow> (node, 'a) prog" where
  "with_journal e jid m = seq (getOrCreateJournal e jid) (\<lambda>_. on_journal jid m)"

definition rpc_isFormatted :: "env \<Rightarrow> string \<Rightarrow> (node, bool) prog" where
  "rpc_isFormatted e journalId = with_journal e journalId (gets (\<lambda>j. isFormatted (storage j)))"

record JournalState =
  js_lastPromisedEpoch :: int
  js_httpPort :: int
  js_fromURL :: string

definition rpc_getJournalState :: "env \<Rightarrow> string \<Rightarrow> (node, JournalState) prog" where
  "rpc_getJournalState e journalId = seq (with_journal e journalId getLastPromisedEpoch) (\<lambda>epoch.
     gets (\<lambda>jn. \<lparr>js_lastPromisedEpoch = u64 epoch, js_httpPort = httpPort jn,
                 js_fromURL = httpServerURI jn\<rparr>))"

definition rpc_newEpoch :: "env \<Rightarrow> string \<Rightarrow> namespace_info \<Rightarrow> int \<Rightarrow> (node, int option) prog" where
  "rpc_newEpoch e journalId nsInfo epoch = with_journal e journalId (newEpoch nsInfo (s64 epoch))"

definition rpc_format :: "env \<Rightarrow> string \<Rightarrow> namespace_info \<Rightarrow> (node, unit) prog" where
  "rpc_format e journalId nsInfo = with_journal e journalId (format e nsInfo)"

definition rpc_journal :: "env \<Rightarrow> request_info \<Rightarrow> int \<Rightarrow> int \<Rightarrow> int \<Rightarrow> string \<Rightarrow> (node, unit) prog" where
  "rpc_journal e reqInfo segmentTxId firstTxnId numTxns records =
     with_journal e (ri_jid reqInfo) (journal_edits reqInfo segmentTxId firstTxnId numTxns records)"

definition rpc_startLogSegment :: "env \<Rightarrow> request_info \<Rightarrow> int \<Rightarrow> int \<Rightarrow> (node, unit) prog" where
  "rpc_startLogSegment e reqInfo txid layoutV =
     with_journal e (ri_jid reqInfo) (startLogSegment reqInfo txid layoutV)"

definition rpc_finalizeLogSegment :: "env \<Rightarrow> request_info \<Rightarrow> int \<Rightarrow> int \<Rightarrow> (node, unit) prog" where
  "rpc_finalizeLogSegment e reqInfo startTxId endTxId =
     with_journal e (ri_jid reqInfo) (finalizeLogSegment reqInfo startTxId endTxId)"

record RemoteEditLog =
  rl_startTxId :: int
  rl_endTxId :: int
  rl_isInProgress :: bool

record Manifest =
  m_logs :: "RemoteEditLog list"
  m_httpPort :: int
  m_fromURL :: string

definition rpc_getEditLogManifest :: "env \<Rightarrow> string \<Rightarrow> int \<Rightarrow> bool \<Rightarrow> (node, Manifest) prog" where
  "rpc_getEditLogManifest e jid sinceTxId inProgressOk =
     seq (with_journal e jid (getEditLogManifest sinceTxId inProgressOk)) (\<lambda>elfv.
     gets (\<lambda>jn. \<lparr>m_logs = map (\<lambda>it. \<lparr>rl_startTxId = u64 (firstTxId it),
                   rl_endTxId = u64 (lastTxId it), rl_isInProgress = inProgress it\<rparr>) elfv,
                 m_httpPort = httpPort jn, m_fromURL = httpServerURI jn\<rparr>))"

definition rpc_prepareRecovery :: "env \<Rightarrow> request_info \<Rightarrow> int \<Rightarrow> (node, PrepareRecoveryResponse) prog" where
  "rpc_prepareRecovery e reqInfo segmentTxId =
     with_journal e (ri_jid reqInfo) (prepareRecovery e reqInfo segmentTxId)"

definition rpc_acceptRecovery :: "env \<Rightarrow> request_info \<Rightarrow> SegmentState \<Rightarrow> string \<Rightarrow> (node, unit) prog" where
  "rpc_acceptRecovery e reqInfo stateToAccept fromUrl =
     with_journal e (ri_jid reqInfo) (acceptRecovery e reqInfo stateToAccept fromUrl)"

section \<open>The translator of protocol messages\<close>

datatype 'a reply = Reply 'a | ServiceException

text \<open>\<^verbatim>\<open>throwExceptionOnError\<close>, and the response behind it.\<close>

definition throwExceptionOnError :: "(node, 'a) prog \<Rightarrow> (node, 'a reply) prog" where
  "throwExceptionOnError m = seq (attempt m) (\<lambda>r. ret (case r of None \<Rightarrow> ServiceException | Some x \<Rightarrow> Reply x))"

definition pb_isFormatted :: "env \<Rightarrow> string \<Rightarrow> (node, bool reply) prog" where
  "pb_isFormatted e jid = throwExceptionOnError (rpc_isFormatted e jid)"

definition pb_getJournalState :: "env \<Rightarrow> string \<Rightarrow> (node, JournalState reply) prog" where
  "pb_getJournalState e jid = throwExceptionOnError (rpc_getJournalState e jid)"

definition pb_newEpoch :: "env \<Rightarrow> string \<Rightarrow> NamespaceInfoProto \<Rightarrow> int \<Rightarrow> (node, int option reply) prog" where
  "pb_newEpoch e jid nsInfo epoch = throwExceptionOnError (rpc_newEpoch e jid (mk_NamespaceInfo nsInfo) epoch)"

definition pb_format :: "env \<Rightarrow> string \<Rightarrow> NamespaceInfoProto \<Rightarrow> (node, unit reply) prog" where
  "pb_format e jid nsInfo = throwExceptionOnError (rpc_format e jid (mk_NamespaceInfo nsInfo))"

definition pb_journal :: "env \<Rightarrow> RequestInfoProto \<Rightarrow> int \<Rightarrow> int \<Rightarrow> int \<Rightarrow> string \<Rightarrow> (node, unit reply) prog" where
  "pb_journal e reqInfo segmentTxnId firstTxnId numTxns records = throwExceptionOnError
     (rpc_journal e (mk_RequestInfo reqInfo) (s64 segmentTxnId) (s64 firstTxnId) (s32 numTxns) records)"

definition pb_startLogSegment :: "env \<Rightarrow> RequestInfoProto \<Rightarrow> int \<Rightarrow> int \<Rightarrow> (node, unit reply) prog" where
  "pb_startLogSegment e reqInfo txid layoutV = throwExceptionOnError
     (rpc_startLogSegment e (mk_RequestInfo reqInfo) (s64 txid) layoutV)"

definition pb_finalizeLogSegment :: "env \<Rightarrow> RequestInfoProto \<Rightarrow> int \<Rightarrow> int \<Rightarrow> (node, unit reply) prog" where
  "pb_finalizeLogSegment e reqInfo startTxId endTxId = throwExceptionOnError
     (rpc_finalizeLogSegment e (mk_RequestInfo reqInfo) (s64 startTxId) (s64 endTxId))"

definition pb_getEditLogManifest :: "env \<Rightarrow> string \<Rightarrow> int \<Rightarrow> bool \<Rightarrow> (node, Manifest reply) prog" where
  "pb_getEditLogManifest e jid sinceTxId inProgressOk = throwExceptionOnError
     (rpc_getEditLogManifest e jid (s64 sinceTxId) inProgressOk)"

definition pb_prepareRecovery ::
    "env \<Rightarrow> RequestInfoProto \<Rightarrow> int \<Rightarrow> (node, PrepareRecoveryResponse reply) prog" where
  "pb_prepareRecovery e reqInfo segmentTxId = throwExceptionOnError
     (rpc_prepareRecovery e (mk_RequestInfo reqInfo) (s64 segmentTxId))"

definition pb_acceptRecovery ::
    "env \<Rightarrow> RequestInfoProto \<Rightarrow> SegmentState \<Rightarrow> string \<Rightarrow> (node, unit reply) prog" where
  "pb_acceptRecovery e reqInfo stateToAccept fromURL = throwExceptionOnError
     (rpc_acceptRecovery e (mk_RequestInfo reqInfo) stateToAccept fromURL)"

section \<open>JournalNodeHttpServer\<close>

text \<open>The buffer ends at its NUL; \<^verbatim>\<open>strtok\<close> cuts it into its non-empty pieces.\<close>

definition checkStorageInfo :: "'a storage_info_scheme \<Rightarrow> string \<Rightarrow> bool" where
  "checkStorageInfo st storageInfo =
     (let storageInfoTokens = strtok_all CHR '':'' (c_str storageInfo) in
      length storageInfoTokens = 4 \<and>
      \<not> (namespaceID st \<noteq> atoi (storageInfoTokens ! 1) \<or> clusterID st \<noteq> storageInfoTokens ! 3))"

record http_request =
  hr_uri :: string
  hr_query_string :: "string option"
  hr_content :: "string option"

datatype http_reply = Status int | SendFile string

text \<open>
  The return value of \<^verbatim>\<open>getOrCreateJournal\<close> is not looked at: where it fails, the pointer is
  not that of a journal.
\<close>

definition send_reply :: "env \<Rightarrow> http_request \<Rightarrow> (node, http_reply) prog" where
  "send_reply e conn =
     (let var = (\<lambda>name len. c_str (snd (mg_get_var (hr_query_string conn) (hr_content conn) name len)));
          jid = var ''jid'' 100; segmentTxIdArr = var ''segmentTxId'' 100;
          storageInfo = var ''storageInfo'' 500 in
      seq (attempt (getOrCreateJournal e jid)) (\<lambda>r.
        if r = None then halt Undefined
        else on_journal jid (seq (gets storage) (\<lambda>st.
          if \<not> checkStorageInfo st storageInfo then ret (Status 412)
          else seq (attempt (on_fs (getLogFile (st_currentDir st) (fst (strtol segmentTxIdArr))))) (\<lambda>elf.
            case elf of
              None \<Rightarrow> ret (Status 404)
            | Some elf \<Rightarrow> if \<not> isInitialized elf then ret (Status 404)
                else ret (SendFile (fullFileName elf)))))))"

datatype mg_event = MG_POLL | MG_CONNECT | MG_AUTH | MG_REQUEST | MG_REPLY | MG_RECV | MG_CLOSE
  | MG_WS_HANDSHAKE | MG_WS_CONNECT | MG_HTTP_ERROR
datatype mg_result = MG_FALSE | MG_TRUE | MG_MORE

definition ev_handler :: "env \<Rightarrow> http_request \<Rightarrow> mg_event \<Rightarrow> (node, mg_result \<times> http_reply option) prog" where
  "ev_handler e conn ev =
     (if ev = MG_AUTH then ret (MG_TRUE, None)
      else if ev = MG_REQUEST \<and> hr_uri conn = ''/getJournal''
      then seq (send_reply e conn) (\<lambda>r. ret (case r of
          Status s \<Rightarrow> (MG_TRUE, Some r)
        | SendFile p \<Rightarrow> (MG_MORE, Some r)))
      else ret (MG_FALSE, None))"

section \<open>icerpc::Server\<close>

record ice_server =
  is_protocol :: string
  is_bind_address :: string
  is_port :: int
  is_num_handlers :: int
  is_running :: bool

definition server_config :: string where "server_config = ''/tmp/config.server''"

definition mk_Server :: "(string \<Rightarrow> string) \<Rightarrow> ice_server" where
  "mk_Server cnf = \<lparr>is_protocol = ''QJournalProtocolPB'', is_bind_address = hostname (rpc_address cnf),
     is_port = port (rpc_address cnf), is_num_handlers = 1, is_running = False\<rparr>"

definition config_text :: "ice_server \<Rightarrow> string" where
  "config_text s = is_protocol s @ ''.Endpoints=tcp -h '' @ is_bind_address s @ '' -p '' @
     show_int (is_port s) @ [newline] @
     ''Ice.ThreadPool.Server.Size='' @ show_int (is_num_handlers s) @ [newline]"

text \<open>The status is \<open>1\<close> where the file cannot be opened.\<close>

definition createConfigFile :: "ice_server \<Rightarrow> (fs, int) prog" where
  "createConfigFile s = seq (ofstream_open server_config) (\<lambda>myfile.
     if os_ino myfile = None then ret 1
     else seq (ofstream_write myfile (config_text s)) (\<lambda>_. ret 0))"

text \<open>The \<^verbatim>\<open>int\<close> of \<^verbatim>\<open>file_delete\<close> becomes the \<^verbatim>\<open>bool\<close>: true is a failure.\<close>

definition deleteConfigFile :: "(fs, bool) prog" where
  "deleteConfigFile = seq (attempt (file_delete server_config)) (\<lambda>r. ret (r = None))"

definition server_stop :: "(fs \<times> ice_server, unit) prog" where
  "server_stop = seq (gets (\<lambda>s. is_running (snd s))) (\<lambda>running.
     if running then seq (upd_snd (\<lambda>s. s\<lparr>is_running := False\<rparr>)) (\<lambda>_.
       seq (on_fst deleteConfigFile) (\<lambda>_. ret ()))
     else ret ())"

end
