(* ===== verification/Http_Server.thy ===== *)
theory Http_Server
  imports Http_Frames Journal_Node
begin

text \<open>
  One connection of the web server \<^verbatim>\<open>util/mongoose.c\<close> as the journal node sets it up: bytes
  come in, a request is parsed, the handler of \<^verbatim>\<open>src/JournalNodeHttpServer.cpp\<close> is called, and a
  segment is sent part by part as the poll loop turns. The options are the defaults. Where
  control leaves for what these options turn off (CGI, SSI, proxies, uploads, static files), \<open>elsewhere\<close>
  records it and nothing more happens; theories \<^verbatim>\<open>Http_Files\<close> and \<^verbatim>\<open>Http_Gateway\<close> have that code for any options.
\<close>

section \<open>State\<close>

datatype endpoint_type = EP_NONE | EP_FILE | EP_CGI | EP_USER | EP_PUT | EP_CLIENT | EP_PROXY

datatype handler = Proxy | Static_File | Directory | Cgi | Ssi | Upload | Datagram

text \<open>
  \<open>endpoint\<close> is the open file: its inode and the position of its descriptor. The last three
  are bits of \<^verbatim>\<open>flags\<close>; \<open>wire\<close> is what the socket has taken from \<open>send_iobuf\<close>.
\<close>

record connection =
  recv_iobuf :: string
  send_iobuf :: string
  wire :: string
  mg_conn :: mg_connection
  endpoint_type :: endpoint_type
  endpoint :: "nat \<times> nat"
  num_bytes_recv :: int
  cl :: int
  request_len :: int
  headers_sent :: bool
  finished_sending :: bool
  close_immediately :: bool
  c_elsewhere :: "handler option"

definition new_connection :: connection where
  "new_connection = \<lparr>recv_iobuf = [], send_iobuf = [], wire = [], mg_conn = reset_mg,
     endpoint_type = EP_NONE, endpoint = (0, 0), num_bytes_recv = 0, cl = 0, request_len = 0,
     headers_sent = False, finished_sending = False, close_immediately = False, c_elsewhere = None\<rparr>"

type_synonym 'a http = "(node \<times> connection, 'a) prog"

text \<open>
  The time, the modification times that the file system of the model does not keep, and what the memory holds
  in which \<^verbatim>\<open>send_websocket_handshake\<close> has its context.
\<close>

record clock =
  now :: int
  st_mtime :: "string \<Rightarrow> int"
  stack :: SHA1_CTX

definition elsewhere :: "handler \<Rightarrow> unit http" where
  "elsewhere h = upd_snd (\<lambda>c. c\<lparr>c_elsewhere := Some h\<rparr>)"

definition conn :: "connection http" where
  "conn = gets snd"

section \<open>Buffers\<close>

definition iobuf_append :: "string \<Rightarrow> string \<Rightarrow> string" where
  "iobuf_append io buf = io @ buf"

definition iobuf_remove :: "string \<Rightarrow> nat \<Rightarrow> string" where
  "iobuf_remove io n = (if 0 < n \<and> n \<le> length io then drop n io else io)"

definition ns_send :: "string \<Rightarrow> unit http" where
  "ns_send buf = upd_snd (\<lambda>c. c\<lparr>send_iobuf := iobuf_append (send_iobuf c) buf\<rparr>)"

text \<open>
  A formatted text. A buffer of \<open>sz\<close> characters is on the stack, and one on the heap is used for a text that is
  longer. A text of exactly \<open>sz\<close> characters is cut by \<^verbatim>\<open>vsnprintf\<close> to make room for the terminator, but its
  length says that all of it is there: what is sent ends in the terminator. There is always memory.
\<close>

definition ns_avprintf :: "nat \<Rightarrow> string \<Rightarrow> string" where
  "ns_avprintf sz text = (if sz < length text then text
     else if length text = sz then take (sz - 1) text @ [nul] else text)"

definition ns_vprintf :: "string \<Rightarrow> unit http" where
  "ns_vprintf text = (let b = ns_avprintf 500 text in if 0 < length b then ns_send b else ret ())"

definition mg_printf :: "string \<Rightarrow> unit http" where
  "mg_printf text = ns_vprintf text"

definition crlf :: string where "crlf = [CR, newline]"

definition write_chunk :: "string \<Rightarrow> unit http" where
  "write_chunk buf = seq (ns_send (mg_snprintf 50 (show_base16 ''0123456789ABCDEF'' (int (length buf)) @ crlf)))
     (\<lambda>_. seq (ns_send buf) (\<lambda>_. ns_send crlf))"

definition write_terminating_chunk :: "unit http" where
  "write_terminating_chunk = ns_send (''0'' @ crlf @ crlf)"

definition status_line :: "int \<Rightarrow> string" where
  "status_line status = ''HTTP/1.1 '' @ show_int status @ '' '' @ status_code_to_str status @ crlf"

definition set_status :: "int \<Rightarrow> unit http" where
  "set_status status = upd_snd (\<lambda>c. c\<lparr>mg_conn := (mg_conn c)\<lparr>mc_status_code := status\<rparr>\<rparr>)"

definition mg_send_status :: "int \<Rightarrow> unit http" where
  "mg_send_status status = seq conn (\<lambda>c. if mc_status_code (mg_conn c) = 0
     then seq (set_status status) (\<lambda>_. mg_printf (status_line status)) else ret ())"

definition mg_send_header :: "string \<Rightarrow> string \<Rightarrow> unit http" where
  "mg_send_header name v = seq conn (\<lambda>c. seq (if mc_status_code (mg_conn c) = 0
       then seq (set_status 200) (\<lambda>_. mg_printf (status_line 200)) else ret ())
     (\<lambda>_. mg_printf (name @ '': '' @ v @ crlf)))"

definition terminate_headers :: "unit http" where
  "terminate_headers = seq conn (\<lambda>c. if headers_sent c then ret ()
     else seq (mg_send_header ''Transfer-Encoding'' ''chunked'') (\<lambda>_. seq (ns_send crlf) (\<lambda>_.
       upd_snd (\<lambda>c. c\<lparr>headers_sent := True\<rparr>))))"

definition mg_send_data :: "string \<Rightarrow> unit http" where
  "mg_send_data d = seq terminate_headers (\<lambda>_. write_chunk d)"

section \<open>Files\<close>

text \<open>\<^verbatim>\<open>stat\<close>: whether it is a directory, and the size.\<close>

definition sys_stat :: "string \<Rightarrow> (fs, bool \<times> nat) prog" where
  "sys_stat p = syscall (\<lambda>f. case content f p of
      Some c \<Rightarrow> (Return (False, length c), f)
    | None \<Rightarrow> if is_dir f p then (Return (True, 0), f) else (Error, f)) no_effect"

definition sys_open_read :: "string \<Rightarrow> (fs, nat) prog" where
  "sys_open_read p = syscall
     (\<lambda>f. case ino f p of Some i \<Rightarrow> (Return i, f) | None \<Rightarrow> (Error, f)) no_effect"

text \<open>\<^verbatim>\<open>read\<close>: at most \<open>n\<close> bytes at a position; \<open>None\<close> is a \<^verbatim>\<open>size_t\<close> beyond any file.\<close>

definition sys_read_at :: "nat \<Rightarrow> nat \<Rightarrow> nat option \<Rightarrow> (fs, string) prog" where
  "sys_read_at i off n = syscall (\<lambda>f. (Return (case n of
      Some k \<Rightarrow> take k (drop off (data f i)) | None \<Rightarrow> drop off (data f i)), f)) no_effect"

definition on_node_fs :: "(fs, 'a) prog \<Rightarrow> 'a http" where
  "on_node_fs m s = (case m (n_fs (fst s)) of (r, f) \<Rightarrow> (r, ((fst s)\<lparr>n_fs := f\<rparr>, snd s)))"

section \<open>Calling the handler\<close>

text \<open>\<^verbatim>\<open>uri\<close> is set whenever a request is handled; the body is what is left in the buffer.\<close>

definition request_of :: "connection \<Rightarrow> http_request" where
  "request_of c = \<lparr>hr_uri = (case mc_uri (mg_conn c) of Some u \<Rightarrow> u | None \<Rightarrow> []),
     hr_query_string = mc_query_string (mg_conn c), hr_content = Some (recv_iobuf c)\<rparr>"

definition call_user :: "env \<Rightarrow> mg_event \<Rightarrow> (mg_result \<times> http_reply option) http" where
  "call_user e ev = seq conn (\<lambda>c. on_fst (ev_handler e (request_of c) ev))"

text \<open>The handler called for a frame: \<^verbatim>\<open>content\<close> points to its data.\<close>

definition call_user_with :: "env \<Rightarrow> string \<Rightarrow> mg_event \<Rightarrow> (mg_result \<times> http_reply option) http" where
  "call_user_with e body ev =
     seq conn (\<lambda>c. on_fst (ev_handler e ((request_of c)\<lparr>hr_content := Some body\<rparr>) ev))"

section \<open>Headers of a reply\<close>

definition should_keep_alive :: "connection \<Rightarrow> bool" where
  "should_keep_alive c \<longleftrightarrow> mc_request_method (mg_conn c) \<noteq> None \<and>
     (mc_request_method (mg_conn c) = Some ''GET'' \<or> endpoint_type c = EP_USER) \<and>
     (case mg_get_header (mg_conn c) ''Connection'' of
        Some h \<Rightarrow> mg_strcasecmp h ''keep-alive'' = 0
      | None \<Rightarrow> mc_http_version (mg_conn c) = Some ''1.1'')"

definition suggest_connection_header :: "connection \<Rightarrow> string" where
  "suggest_connection_header c = (if should_keep_alive c then ''keep-alive'' else ''close'')"

definition options_of :: "string \<Rightarrow> (string \<times> string option) list" where
  "options_of name = (case config_option name of None \<Rightarrow> [] | Some v \<Rightarrow> all_options v)"

definition get_mime_type :: "string \<Rightarrow> string" where
  "get_mime_type path =
     (case find (\<lambda>(ext, mime). mg_strncasecmp (drop (length path - length ext) path) ext (length ext) = 0)
             (options_of ''extra_mime_types'') of
        Some (ext, mime) \<Rightarrow> (case mime of Some m \<Rightarrow> m | None \<Rightarrow> [])
      | None \<Rightarrow> mg_get_mime_type path ''text/plain'')"

definition is_not_modified :: "connection \<Rightarrow> int \<Rightarrow> nat \<Rightarrow> bool" where
  "is_not_modified c mtime sz \<longleftrightarrow>
     (case mg_get_header (mg_conn c) ''If-None-Match'' of
        Some inm \<Rightarrow> mg_strcasecmp (construct_etag mtime sz) inm = 0 | None \<Rightarrow> False) \<or>
     (case mg_get_header (mg_conn c) ''If-Modified-Since'' of
        Some ims \<Rightarrow> mtime \<le> parse_date_string ims | None \<Rightarrow> False)"

definition must_hide_file :: "string \<Rightarrow> bool" where
  "must_hide_file path \<longleftrightarrow> 0 < mg_match_prefix ''**.htpasswd$'' path \<or>
     (case config_option ''hide_files_patterns'' of
        Some pattern \<Rightarrow> 0 < mg_match_prefix pattern path | None \<Rightarrow> False)"

section \<open>Closing the endpoint\<close>

text \<open>
  \<open>again\<close> is \<^verbatim>\<open>on_recv_data\<close>, which a connection that is kept alive calls for the next request.
  There is no access log, and the model has no descriptor of the file to close.
\<close>

definition reset_connection :: "connection \<Rightarrow> connection" where
  "reset_connection c = c\<lparr>recv_iobuf := [], endpoint_type := EP_NONE, cl := 0, num_bytes_recv := 0,
     request_len := 0, finished_sending := False, close_immediately := False,
     headers_sent := False, mg_conn := reset_mg\<rparr>"

definition close_local_endpoint :: "unit http \<Rightarrow> unit http" where
  "close_local_endpoint again = seq conn (\<lambda>c.
     (let keep_alive = should_keep_alive c \<and> (endpoint_type c = EP_FILE \<or> endpoint_type c = EP_USER) in
      seq (upd_snd reset_connection) (\<lambda>_.
        if keep_alive then again
        else upd_snd (\<lambda>c. if send_iobuf c = [] then c\<lparr>close_immediately := True\<rparr>
                          else c\<lparr>finished_sending := True\<rparr>))))"

definition or_null :: "string option \<Rightarrow> string" where
  "or_null s = (case s of Some t \<Rightarrow> t | None \<Rightarrow> ''(null)'')"

text \<open>No caller gives a format for a longer body.\<close>

definition send_http_error :: "env \<Rightarrow> unit http \<Rightarrow> int \<Rightarrow> unit http" where
  "send_http_error e again err_code =
     (let message = status_code_to_str err_code in
      seq (set_status err_code) (\<lambda>_. seq (call_user e MG_HTTP_ERROR) (\<lambda>(r, _).
        if r = MG_TRUE then close_local_endpoint again
        else (case find (\<lambda>(a, b). 0 < atoi a \<and> atoi a = err_code) (options_of ''url_rewrites'') of
            Some (a, b) \<Rightarrow> seq (set_status 302) (\<lambda>_. seq conn (\<lambda>c.
              seq (mg_printf (''HTTP/1.1 302 Moved'' @ crlf @ ''Location: '' @
                     (case b of Some u \<Rightarrow> u | None \<Rightarrow> []) @ ''?code='' @ show_int err_code @
                     ''&orig_uri='' @ or_null (mc_uri (mg_conn c)) @ ''&query_string='' @
                     (case mc_query_string (mg_conn c) of Some q \<Rightarrow> q | None \<Rightarrow> []) @ crlf @ crlf))
                (\<lambda>_. close_local_endpoint again)))
          | None \<Rightarrow>
              (let body = (if (300 \<le> err_code \<and> err_code \<le> 399) \<or> err_code = 204 then []
                           else mg_snprintf 200 (show_int err_code @ '' '' @ message @ [newline]));
                   headers = mg_snprintf 200 (status_line err_code @ ''Content-Length: '' @
                     show_int (int (length body)) @ crlf @ ''Content-Type: text/plain'' @ crlf @ crlf) in
               seq (ns_send headers) (\<lambda>_. seq (ns_send body) (\<lambda>_. close_local_endpoint again)))))))"

section \<open>Sending a file\<close>

definition file_headers :: "clock \<Rightarrow> string \<Rightarrow> nat \<Rightarrow> string \<Rightarrow> string \<Rightarrow> connection \<Rightarrow> string" where
  "file_headers ck path sz msg rng c = mg_snprintf 500 (
     ''HTTP/1.1 '' @ show_int (mc_status_code (mg_conn c)) @ '' '' @ msg @ crlf @
     ''Date: '' @ gmt_time_string (now ck) @ crlf @
     ''Last-Modified: '' @ gmt_time_string (st_mtime ck path) @ crlf @
     ''Etag: '' @ construct_etag (st_mtime ck path) sz @ crlf @
     ''Content-Type: '' @ get_mime_type path @ crlf @
     ''Content-Length: '' @ show_int (cl c) @ crlf @
     ''Connection: '' @ suggest_connection_header c @ crlf @
     ''Accept-Ranges: bytes'' @ crlf @ rng @ crlf)"

text \<open>The range that is sent: the content length and the position it starts from.\<close>

definition range_of :: "nat \<Rightarrow> string option \<Rightarrow> (int \<times> int) option" where
  "range_of sz hdr = (case hdr of None \<Rightarrow> None
    | Some h \<Rightarrow> (case parse_range_header h of (n, r1, r2) \<Rightarrow>
        if 0 < n \<and> 0 \<le> r1 \<and> 0 \<le> r2
        then Some (if n = 2 then (if int sz < r2 then int sz else r2) - r1 + 1 else int sz - r1, r1)
        else None))"

definition open_file_endpoint :: "clock \<Rightarrow> string \<Rightarrow> nat \<Rightarrow> nat \<Rightarrow> unit http" where
  "open_file_endpoint ck path sz i =
     seq (upd_snd (\<lambda>c. c\<lparr>endpoint_type := EP_FILE, endpoint := (i, 0), cl := int sz\<rparr>)) (\<lambda>_.
     seq (set_status 200) (\<lambda>_. seq conn (\<lambda>c.
     seq (case range_of sz (mg_get_header (mg_conn c) ''Range'') of
            None \<Rightarrow> ret (''OK'', [])
          | Some (len, r1) \<Rightarrow> seq (set_status 206) (\<lambda>_.
              seq (upd_snd (\<lambda>c. c\<lparr>cl := len, endpoint := (i, nat r1)\<rparr>)) (\<lambda>_.
                ret (''Partial Content'', mg_snprintf 64 (''Content-Range: bytes '' @ show_int r1 @ ''-'' @
                  show_int (r1 + len - 1) @ ''/'' @ show_int (int sz) @ crlf))))) (\<lambda>(msg, rng).
     seq conn (\<lambda>c. seq (ns_send (file_headers ck path sz msg rng c)) (\<lambda>_.
       if mc_request_method (mg_conn c) = Some ''HEAD''
       then upd_snd (\<lambda>c. c\<lparr>finished_sending := True, endpoint_type := EP_NONE\<rparr>)
       else ret ()))))))"

definition mg_send_file_internal ::
    "env \<Rightarrow> clock \<Rightarrow> unit http \<Rightarrow> string \<Rightarrow> (bool \<times> nat) option \<Rightarrow> unit http" where
  "mg_send_file_internal e ck again file_name st =
     (let path = mg_snprintf 8192 file_name in seq conn (\<lambda>c. case st of
        None \<Rightarrow> send_http_error e again 404
      | Some (is_directory, sz) \<Rightarrow>
          if must_hide_file path then send_http_error e again 404
          else if is_directory then
            (case mc_uri (mg_conn c) of
               Some u \<Rightarrow> if u = [] then halt Undefined
                 else if last u \<noteq> CHR ''/''
                 then seq (set_status 301) (\<lambda>_. seq (mg_printf (''HTTP/1.1 301 Moved Permanently'' @ crlf @
                        ''Location: '' @ u @ ''/'' @ crlf @ crlf)) (\<lambda>_. close_local_endpoint again))
                 else elsewhere Directory
             | None \<Rightarrow> halt Undefined)
          else if 0 < mg_match_prefix (or_null (config_option ''cgi_pattern'')) path then elsewhere Cgi
          else if 0 < mg_match_prefix (or_null (config_option ''ssi_pattern'')) path then elsewhere Ssi
          else if is_not_modified c (st_mtime ck path) sz then send_http_error e again 304
          else seq (attempt (on_node_fs (sys_open_read path))) (\<lambda>fd. case fd of
              Some i \<Rightarrow> open_file_endpoint ck path sz i
            | None \<Rightarrow> send_http_error e again 404)))"

definition mg_send_file :: "env \<Rightarrow> clock \<Rightarrow> unit http \<Rightarrow> string \<Rightarrow> unit http" where
  "mg_send_file e ck again file_name = seq (attempt (on_node_fs (sys_stat file_name)))
     (\<lambda>st. mg_send_file_internal e ck again file_name st)"

text \<open>
  A negative \<^verbatim>\<open>cl\<close> becomes a huge count: all that is left is read into the 8192 bytes.
\<close>

definition transfer_file_data :: "unit http \<Rightarrow> unit http" where
  "transfer_file_data again = seq conn (\<lambda>c. if 8192 * 2 < length (send_iobuf c) then ret ()
     else (let count = (if cl c < 8192 then s32 (cl c) else 8192); (i, off) = endpoint c in
       seq (attempt (on_node_fs (sys_read_at i off (if count < 0 then None else Some (nat count))))) (\<lambda>r.
         (let bytes = (case r of Some b \<Rightarrow> b | None \<Rightarrow> []); n = length bytes in
          if 8192 < n then halt Undefined
          else if n = 0 then close_local_endpoint again
          else seq (upd_snd (\<lambda>c. c\<lparr>cl := cl c - int n, endpoint := (i, off + n)\<rparr>)) (\<lambda>_.
            seq (ns_send bytes) (\<lambda>_. seq conn (\<lambda>c.
              if cl c \<le> 0 then close_local_endpoint again else ret ())))))))"

section \<open>Requests\<close>

text \<open>What the handler sends, it sends through the functions above.\<close>

definition perform :: "env \<Rightarrow> clock \<Rightarrow> unit http \<Rightarrow> http_reply option \<Rightarrow> unit http" where
  "perform e ck again reply = (case reply of
      None \<Rightarrow> ret ()
    | Some (Status s) \<Rightarrow> seq (mg_send_status s) (\<lambda>_. mg_send_data [])
    | Some (SendFile p) \<Rightarrow> mg_send_file e ck again p)"

definition call_request_handler :: "env \<Rightarrow> clock \<Rightarrow> unit http \<Rightarrow> mg_result http" where
  "call_request_handler e ck again = seq (call_user e MG_REQUEST) (\<lambda>(res, reply).
     seq (perform e ck again reply) (\<lambda>_.
     seq (if res = MG_TRUE
          then seq conn (\<lambda>c. seq (if headers_sent c then write_terminating_chunk else ret ())
                 (\<lambda>_. close_local_endpoint again))
          else ret ()) (\<lambda>_. ret res)))"

definition send_options :: "unit http \<Rightarrow> unit http" where
  "send_options again = seq (set_status 200) (\<lambda>_. seq (mg_printf (''HTTP/1.1 200 OK'' @ crlf @
     ''Allow: GET, POST, HEAD, CONNECT, PUT, '' @ ''DELETE, OPTIONS, PROPFIND, MKCOL'' @ crlf @
     ''DAV: 1'' @ crlf @ crlf)) (\<lambda>_. close_local_endpoint again))"

text \<open>\<^verbatim>\<open>(unsigned long) time(NULL)\<close> is the nonce.\<close>

definition mg_send_digest_auth_request :: "clock \<Rightarrow> unit http \<Rightarrow> unit http" where
  "mg_send_digest_auth_request ck again = seq (set_status 401) (\<lambda>_.
     seq (mg_printf (''HTTP/1.1 401 Unauthorized'' @ crlf @ ''WWW-Authenticate: Digest qop='' @ [CHR 0x22] @ ''auth'' @
       [CHR 0x22] @ '', realm='' @ [CHR 0x22] @ or_null (config_option ''auth_domain'') @ [CHR 0x22] @ '', nonce='' @
       [CHR 0x22] @ show_int (u64 (now ck)) @ [CHR 0x22] @ crlf @ crlf)) (\<lambda>_. close_local_endpoint again))"

text \<open>Without a document root, \<^verbatim>\<open>convert_uri_to_file_name\<close> finds nothing and 404 is the reply.\<close>

definition open_local_endpoint :: "env \<Rightarrow> clock \<Rightarrow> unit http \<Rightarrow> bool \<Rightarrow> unit http" where
  "open_local_endpoint e ck again skip_user =
     seq (upd_snd (\<lambda>c. c\<lparr>endpoint_type := EP_NONE\<rparr>)) (\<lambda>_. seq (call_user e MG_AUTH) (\<lambda>(auth, _).
       if auth = MG_FALSE then mg_send_digest_auth_request ck again
       else if \<not> skip_user then upd_snd (\<lambda>c. c\<lparr>endpoint_type := EP_USER\<rparr>)
       else seq conn (\<lambda>c.
         if mc_request_method (mg_conn c) = Some ''CONNECT'' \<or>
            mg_strncasecmp (or_null (mc_uri (mg_conn c))) ''http'' 4 = 0
         then (if config_option ''enable_proxy'' \<noteq> Some ''yes'' then send_http_error e again 405
               else elsewhere Proxy)
         else if mc_request_method (mg_conn c) = Some ''OPTIONS'' then send_options again
         else if config_option ''document_root'' = None then send_http_error e again 404
         else elsewhere Static_File)))"

section \<open>Websockets\<close>

definition mg_websocket_write :: "int \<Rightarrow> string \<Rightarrow> unit http" where
  "mg_websocket_write opcode d = seq (ns_send (websocket_frame opcode d)) (\<lambda>_.
     if opcode = WEBSOCKET_OPCODE_CONNECTION_CLOSE then upd_snd (\<lambda>c. c\<lparr>finished_sending := True\<rparr>) else ret ())"

definition send_websocket_handshake :: "clock \<Rightarrow> string \<Rightarrow> unit http" where
  "send_websocket_handshake ck key = ns_send (websocket_handshake (stack ck) key)"

text \<open>
  The end of negative data lies before their start: the search of \<^verbatim>\<open>get_var\<close> then ends at once, as in
  no data.
\<close>

definition deliver_websocket_frame :: "env \<Rightarrow> clock \<Rightarrow> unit http \<Rightarrow> bool http" where
  "deliver_websocket_frame e ck again = seq conn (\<lambda>c. case buffered_frame (recv_iobuf c) of
      None \<Rightarrow> ret False
    | Some (mask_len, header_len, data_len) \<Rightarrow>
        (let buf = unmask (recv_iobuf c) mask_len header_len data_len in
         seq (upd_snd (\<lambda>c. c\<lparr>recv_iobuf := buf, mg_conn := (mg_conn c)\<lparr>mc_content_len := u64 data_len,
                            mc_wsbits := int (code (recv_iobuf c ! 0))\<rparr>\<rparr>)) (\<lambda>_.
         seq (call_user_with e (take (nat data_len) (drop (nat header_len) buf)) MG_REQUEST) (\<lambda>(res, reply).
         seq (perform e ck again reply) (\<lambda>_.
         seq (if res = MG_FALSE then upd_snd (\<lambda>c. c\<lparr>finished_sending := True\<rparr>) else ret ()) (\<lambda>_.
         seq (upd_snd (\<lambda>c. c\<lparr>recv_iobuf := iobuf_remove (recv_iobuf c) (nat (header_len + data_len))\<rparr>)) (\<lambda>_.
           ret True)))))))"

text \<open>
  \<^verbatim>\<open>do { } while (deliver_websocket_frame(conn))\<close>. Every frame takes at least one byte out of the
  buffer, so one turn more than it has bytes is enough.
\<close>

fun deliver_frames :: "nat \<Rightarrow> env \<Rightarrow> clock \<Rightarrow> unit http \<Rightarrow> unit http" where
  "deliver_frames 0 e ck again = halt Diverged"
| "deliver_frames (Suc n) e ck again = seq (deliver_websocket_frame e ck again)
     (\<lambda>delivered. if delivered then deliver_frames n e ck again else ret ())"

definition call_request_handler_if_data_is_buffered :: "env \<Rightarrow> clock \<Rightarrow> unit http \<Rightarrow> unit http" where
  "call_request_handler_if_data_is_buffered e ck again = seq conn (\<lambda>c.
     if mc_is_websocket (mg_conn c) then deliver_frames (Suc (length (recv_iobuf c))) e ck again
     else if cl c + request_len c \<le> num_bytes_recv c
     then seq (call_request_handler e ck again) (\<lambda>res.
       if res = MG_FALSE then open_local_endpoint e ck again True else ret ())
     else ret ())"

definition send_continue_if_expected :: "unit http" where
  "send_continue_if_expected = seq conn (\<lambda>c. case mg_get_header (mg_conn c) ''Expect'' of
      Some h \<Rightarrow> if mg_strcasecmp h ''100-continue'' = 0
        then ns_send (''HTTP/1.1 100 Continue'' @ crlf @ crlf) else ret ()
    | None \<Rightarrow> ret ())"

definition send_websocket_handshake_if_requested :: "env \<Rightarrow> clock \<Rightarrow> unit http" where
  "send_websocket_handshake_if_requested e ck = seq conn (\<lambda>c.
     case (mg_get_header (mg_conn c) ''Sec-WebSocket-Version'', mg_get_header (mg_conn c) ''Sec-WebSocket-Key'') of
       (Some ver, Some key) \<Rightarrow>
         seq (upd_snd (\<lambda>c. c\<lparr>mg_conn := (mg_conn c)\<lparr>mc_is_websocket := True\<rparr>\<rparr>)) (\<lambda>_.
         seq (call_user e MG_WS_HANDSHAKE) (\<lambda>(r, _).
         seq (if r = MG_FALSE then send_websocket_handshake ck key else ret ()) (\<lambda>_.
         seq (call_user e MG_WS_CONNECT) (\<lambda>_. ret ()))))
     | _ \<Rightarrow> ret ())"

section \<open>Receiving\<close>

text \<open>
  The request is taken out of the buffer as soon as all of it is there; \<^verbatim>\<open>cl\<close> is then the length
  of the body it announces.
\<close>

definition try_parse :: "unit http" where
  "try_parse = upd_snd (\<lambda>c. if request_len c \<noteq> 0 then c
     else (let n = get_request_len (recv_iobuf c) in
       if n \<le> 0 then c\<lparr>request_len := n\<rparr>
       else (case parse_http_message (take (nat n) (recv_iobuf c)) of (len, ri) \<Rightarrow>
         (let c' = c\<lparr>recv_iobuf := iobuf_remove (recv_iobuf c) (nat n), request_len := len, mg_conn := ri\<rparr> in
          if 0 < len
          then (let body = (case mg_get_header ri ''Content-Length'' of None \<Rightarrow> 0 | Some h \<Rightarrow> fst (strtol h)) in
            c'\<lparr>cl := body, mg_conn := ri\<lparr>mc_content_len := u64 body\<rparr>\<rparr>)
          else c'))))"

definition mg_result_int :: "mg_result \<Rightarrow> int" where
  "mg_result_int r = (case r of MG_FALSE \<Rightarrow> 0 | MG_TRUE \<Rightarrow> 1 | MG_MORE \<Rightarrow> 2)"

definition user_data :: "env \<Rightarrow> clock \<Rightarrow> unit http \<Rightarrow> unit http" where
  "user_data e ck again =
     seq (upd_snd (\<lambda>c. c\<lparr>mg_conn := (mg_conn c)\<lparr>mc_content_len := int (length (recv_iobuf c))\<rparr>\<rparr>)) (\<lambda>_.
     seq (call_user e MG_RECV) (\<lambda>(r, _).
     seq (upd_snd (\<lambda>c. if mg_result_int r < 0 then c\<lparr>finished_sending := True\<rparr>
            else c\<lparr>recv_iobuf := iobuf_remove (recv_iobuf c) (nat (mg_result_int r))\<rparr>)) (\<lambda>_.
       call_request_handler_if_data_is_buffered e ck again)))"

definition on_recv_step :: "env \<Rightarrow> clock \<Rightarrow> unit http \<Rightarrow> unit http" where
  "on_recv_step e ck again = seq conn (\<lambda>c. if endpoint_type c = EP_PROXY then elsewhere Proxy
     else seq try_parse (\<lambda>_. seq conn (\<lambda>c.
       seq (if request_len c < 0 \<or> (0 < request_len c \<and> \<not> is_valid_uri (or_null (mc_uri (mg_conn c))))
            then send_http_error e again 400
            else if request_len c = 0 \<and> 16384 < length (recv_iobuf c) then send_http_error e again 413
            else if 0 < request_len c \<and> mc_http_version (mg_conn c) \<noteq> Some ''1.0'' \<and>
                    mc_http_version (mg_conn c) \<noteq> Some ''1.1'' then send_http_error e again 505
            else if 0 < request_len c \<and> endpoint_type c = EP_NONE
            then seq (send_websocket_handshake_if_requested e ck) (\<lambda>_. seq send_continue_if_expected (\<lambda>_.
                   open_local_endpoint e ck again False))
            else ret ()) (\<lambda>_. seq conn (\<lambda>c.
       if endpoint_type c = EP_CGI then elsewhere Cgi
       else if endpoint_type c = EP_USER then user_data e ck again
       else if endpoint_type c = EP_PUT \<and> recv_iobuf c \<noteq> [] then elsewhere Upload
       else ret ())))))"

text \<open>
  The recursion through \<^verbatim>\<open>close_local_endpoint\<close>. When it comes back the buffer is empty, so the
  second turn does nothing and two turns are enough (see \<open>again_is_idle\<close>).
\<close>

fun on_recv_turns :: "nat \<Rightarrow> env \<Rightarrow> clock \<Rightarrow> unit http" where
  "on_recv_turns 0 e ck = halt Diverged"
| "on_recv_turns (Suc n) e ck = on_recv_step e ck (on_recv_turns n e ck)"

definition on_recv_data :: "env \<Rightarrow> clock \<Rightarrow> unit http" where
  "on_recv_data e ck = on_recv_turns 2 e ck"

section \<open>Events\<close>

text \<open>Bytes arrive, the poll loop turns, the socket takes bytes. The time-out of idle connections and the pings are in theory \<^verbatim>\<open>Event_Loop\<close>.\<close>

datatype net_event = NS_RECV string | NS_POLL | NS_SEND nat

definition mg_ev_handler :: "env \<Rightarrow> clock \<Rightarrow> net_event \<Rightarrow> unit http" where
  "mg_ev_handler e ck ev = (case ev of
      NS_RECV bytes \<Rightarrow>
        seq (upd_snd (\<lambda>c. c\<lparr>recv_iobuf := iobuf_append (recv_iobuf c) bytes,
                           num_bytes_recv := num_bytes_recv c + int (length bytes)\<rparr>))
          (\<lambda>_. on_recv_data e ck)
    | NS_POLL \<Rightarrow> seq (call_user e MG_POLL) (\<lambda>(r, _).
        seq (if r = MG_TRUE
             then seq conn (\<lambda>c. seq (if headers_sent c then write_terminating_chunk else ret ())
                    (\<lambda>_. close_local_endpoint (on_recv_data e ck)))
             else ret ()) (\<lambda>_. seq conn (\<lambda>c.
          if endpoint_type c = EP_FILE then transfer_file_data (on_recv_data e ck) else ret ())))
    | NS_SEND n \<Rightarrow> upd_snd (\<lambda>c. c\<lparr>send_iobuf := iobuf_remove (send_iobuf c) n,
        wire := wire c @ take (length (send_iobuf c) - length (iobuf_remove (send_iobuf c) n)) (send_iobuf c)\<rparr>))"

fun run_events :: "env \<Rightarrow> clock \<Rightarrow> net_event list \<Rightarrow> unit http" where
  "run_events e ck [] = ret ()"
| "run_events e ck (ev # evs) = seq (mg_ev_handler e ck ev) (\<lambda>_. run_events e ck evs)"

end
