(* ===== verification/Http_Facts.thy ===== *)
theory Http_Facts
  imports Http_Dates
begin

text \<open>
  Facts about the parsing side of \<^verbatim>\<open>util/mongoose.c\<close>: where a request ends, what a path looks like
  after it is cleaned, requests and variables that are printed and parsed, dates.
\<close>

section \<open>The end of a request\<close>

lemma request_end_bounds:
  "request_end i s = n \<Longrightarrow> n \<noteq> 0 \<Longrightarrow> n \<noteq> -1 \<Longrightarrow> int i + 2 \<le> n \<and> n \<le> int i + int (length s)"
proof (induction i s rule: request_end.induct)
  case (2 i c cs)
  have l: "take 1 cs = [newline] \<Longrightarrow> 1 \<le> length cs" "take 2 cs = [CR, newline] \<Longrightarrow> 2 \<le> length cs"
    by (cases cs; simp) (drule arg_cong [where f = length], simp)
  show ?case using 2 l by (auto split: if_splits)
qed simp

text \<open>Cutting the buffer at \<open>k\<close> bytes cuts off the request, or leaves its length alone.\<close>

lemma request_end_take:
  "request_end i s = n \<Longrightarrow> int i < n \<Longrightarrow> request_end i (take k s) = (if n \<le> int i + int k then n else 0)"
proof (induction i s arbitrary: k rule: request_end.induct)
  case (2 i c cs)
  show ?case
  proof (cases k)
    case 0
    then show ?thesis using "2.prems" by simp
  next
    case (Suc j)
    have nm: "\<not> malformed c" using "2.prems" by (auto split: if_splits)
    have t1: "take 1 (take j cs) = [newline] \<longleftrightarrow> take 1 cs = [newline] \<and> 1 \<le> j"
      by (cases j; cases cs) auto
    have t2: "take 2 (take j cs) = [CR, newline] \<longleftrightarrow> take 2 cs = [CR, newline] \<and> 2 \<le> j"
    proof (cases "2 \<le> j")
      case True
      then show ?thesis by (simp add: min_def)
    next
      case False
      then have "length (take 2 (take j cs)) \<noteq> length [CR, newline]" by simp
      then have "take 2 (take j cs) \<noteq> [CR, newline]" by metis
      then show ?thesis using False by simp
    qed
    have crn: "take 1 cs = [newline] \<Longrightarrow> take 2 cs \<noteq> [CR, newline]"
      by (cases cs) (auto simp: CR_def newline_def)
    consider (a) "c = newline" "take 1 cs = [newline]" | (b) "c = newline" "take 1 cs \<noteq> [newline]" "take 2 cs = [CR, newline]"
      | (c) "\<not> (c = newline \<and> take 1 cs = [newline])" "\<not> (c = newline \<and> take 2 cs = [CR, newline])"
      by blast
    then show ?thesis
    proof cases
      case a
      have n: "n = int i + 2" using "2.prems" nm a by simp
      show ?thesis
      proof (cases "1 \<le> j")
        case True
        with a t1 nm n Suc show ?thesis by simp
      next
        case False
        then have "j = 0" by simp
        with Suc n nm show ?thesis by simp
      qed
    next
      case b
      have n: "n = int i + 3" using "2.prems" nm b by simp
      show ?thesis
      proof (cases "2 \<le> j")
        case True
        with b t1 t2 nm n Suc show ?thesis by simp
      next
        case False
        from b obtain r where cs: "cs = CR # newline # r" by (cases cs; cases "tl cs") auto
        have "\<not> malformed CR" "CR \<noteq> newline" by (simp_all add: malformed_def CR_def newline_def)
        moreover have "j = 0 \<or> j = 1" using False by linarith
        ultimately show ?thesis using Suc n nm b cs by auto
      qed
    next
      case c
      have e: "request_end (Suc i) cs = n" using "2.prems" nm c by (auto split: if_splits)
      have "int (Suc i) < n"
        using request_end_bounds [OF e] "2.prems"(2) by auto
      then have "request_end (Suc i) (take j cs) = (if n \<le> int (Suc i) + int j then n else 0)"
        using "2.IH" [OF nm c e] by simp
      moreover have "request_end i (take (Suc j) (c # cs)) = request_end (Suc i) (take j cs)"
        using nm c t1 t2 by auto
      ultimately show ?thesis by (simp only: Suc) simp
    qed
  qed
qed simp

text \<open>
  Where a request ends does not depend on how the network cuts it up. If the bytes of a
  connection hold a request of \<open>n\<close> bytes, then with fewer than \<open>n\<close> of them the server waits,
  with \<open>n\<close> or more it finds the same \<open>n\<close>, and \<open>n\<close> never exceeds what has arrived.
\<close>

theorem request_length_independent_of_packets:
  assumes "get_request_len (s @ rest) = n" "0 < n"
  shows "get_request_len s = (if n \<le> int (length s) then n else 0) \<and> n \<le> int (length (s @ rest))"
  using request_end_take [of 0 "s @ rest" n "length s"] request_end_bounds [of 0 "s @ rest" n] assms
  by (simp add: get_request_len_def)

theorem request_length_independent_of_packets_witness:
  "get_request_len (''GET / HTTP/1.1'' @ [CR, newline, CR]) = 0"
  using request_length_independent_of_packets [of "''GET / HTTP/1.1'' @ [CR, newline, CR]" "newline # ''x''" 18]
  by (simp add: get_request_len_def malformed_def isprint_def CR_def newline_def code_def)

section \<open>Clean paths\<close>

text \<open>\<open>clean s\<close>: behind a slash comes no slash, no backslash and no double dot.\<close>

fun clean :: "string \<Rightarrow> bool" where
  "clean [] \<longleftrightarrow> True"
| "clean (c # cs) \<longleftrightarrow> (slash c \<longrightarrow> \<not> (cs \<noteq> [] \<and> slash (hd cs)) \<and> take 2 cs \<noteq> ''..'') \<and> clean cs"

lemma skip_dots_stops: "s = skip_dots r \<Longrightarrow> \<not> (s \<noteq> [] \<and> slash (hd s)) \<and> take 2 s \<noteq> ''..''"
proof (induction r arbitrary: s rule: skip_dots.induct)
  case (2 c cs)
  then show ?case
    by (cases "slash c"; cases "c = CHR ''.'' \<and> take 1 cs = ''.''") (auto simp: slash_def take_Suc_conv_app_nth numeral_2_eq_2)
qed simp

lemma skip_dots_same: "\<not> (s \<noteq> [] \<and> slash (hd s)) \<Longrightarrow> take 2 s \<noteq> ''..'' \<Longrightarrow> skip_dots s = s"
  by (cases s; cases "tl s") auto

lemma cleaned_hd: "remove_double_dots_and_double_slashes s = [] \<longleftrightarrow> s = []"
  "hd (remove_double_dots_and_double_slashes (c # cs)) = c"
  by (cases s) simp_all

lemma cleaned_dots: "take 2 (remove_double_dots_and_double_slashes s) = ''..'' \<longleftrightarrow> take 2 s = ''..''"
  by (cases s; cases "tl s") (auto simp: slash_def)

lemma clean_cleaned: "clean (remove_double_dots_and_double_slashes s)"
proof (induction s rule: remove_double_dots_and_double_slashes.induct)
  case (2 c cs)
  let ?x = "if slash c then skip_dots cs else cs"
  have "\<not> (?x \<noteq> [] \<and> slash (hd ?x)) \<and> take 2 ?x \<noteq> ''..''" if "slash c"
    using skip_dots_stops [OF refl, of cs] that by simp
  then have "\<not> (remove_double_dots_and_double_slashes ?x \<noteq> [] \<and> slash (hd (remove_double_dots_and_double_slashes ?x)))
      \<and> take 2 (remove_double_dots_and_double_slashes ?x) \<noteq> ''..''" if "slash c"
    using that cleaned_dots [of ?x] by (cases ?x) (simp_all only: cleaned_hd list.sel, auto)
  with 2 show ?case by simp
qed simp

lemma cleaned_clean: "clean s \<Longrightarrow> remove_double_dots_and_double_slashes s = s"
  by (induction s) (auto simp: skip_dots_same)

lemma clean_append: "clean (a @ c # b) \<Longrightarrow> slash c \<Longrightarrow> take 2 b \<noteq> ''..'' \<and> (b = [] \<or> \<not> slash (hd b))"
  by (induction a) auto

text \<open>
  C31. A cleaned path cannot climb. In the result no slash or backslash is followed by another one
  or by a double dot; a path for which that holds is left as it is, so cleaning twice changes
  nothing more.
\<close>

theorem cleaned_path_cannot_climb:
  assumes "remove_double_dots_and_double_slashes s = a @ c # b" "slash c"
  shows "take 2 b \<noteq> ''..'' \<and> (b = [] \<or> \<not> slash (hd b)) \<and>
    remove_double_dots_and_double_slashes (a @ c # b) = a @ c # b"
  using clean_append [OF _ assms(2)] clean_cleaned [of s] cleaned_clean [OF clean_cleaned [of s]] assms(1)
  by simp

theorem cleaned_path_cannot_climb_witness:
  "remove_double_dots_and_double_slashes ''/a//../../b'' = ''/a'' @ CHR ''/'' # ''b'' \<and> take 2 ''b'' \<noteq> ''..''"
proof -
  have run: "remove_double_dots_and_double_slashes ''/a//../../b'' = ''/a'' @ CHR ''/'' # ''b''"
    by (simp add: slash_def)
  from cleaned_path_cannot_climb [OF this] run show ?thesis by (simp add: slash_def)
qed

section \<open>Variables\<close>

text \<open>What \<^verbatim>\<open>mg_url_encode\<close> leaves as it is and what it makes is free of separators.\<close>

lemma encode_chars:
  assumes "c \<in> set (url_encode s j n)"
  shows "unescaped c \<or> c = CHR ''%'' \<or> c \<in> set hex"
  using assms
proof (induction s j n rule: url_encode.induct)
  case (2 c' cs j n)
  have "code c' div 16 < length hex" "code c' mod 16 < length hex"
    using code_less [of c'] by (auto simp: hex_def)
  then have "hex ! (code c' div 16) \<in> set hex" "hex ! (code c' mod 16) \<in> set hex" by simp_all
  with 2 show ?case by (auto simp: unescaped_def split: if_splits)
qed simp

lemma encode_no_separator:
  "CHR ''&'' \<notin> set (url_encode s j n)" "CHR ''='' \<notin> set (url_encode s j n)" "CHR '' '' \<notin> set (url_encode s j n)"
proof -
  have "\<not> (unescaped c \<or> c = CHR ''%'' \<or> c \<in> set hex)" if "c \<in> {CHR ''&'', CHR ''='', CHR '' ''}" for c
    using that by (auto simp: unescaped_def isalnum_def is_digit_def code_def dont_escape_def nul_def hex_def)
  then show "CHR ''&'' \<notin> set (url_encode s j n)" "CHR ''='' \<notin> set (url_encode s j n)" "CHR '' '' \<notin> set (url_encode s j n)"
    using encode_chars [of _ s j n] by blast+
qed

lemma strncasecmp_same: "mg_strncasecmp s (s @ t) (length s) = 0"
  by (induction s) (simp_all add: char_at_def)

lemma tolower_eqs: "tolower c = 0 \<longleftrightarrow> c = nul" "tolower c = 61 \<longleftrightarrow> c = CHR ''=''"
proof -
  have "code nul = 0" "code CHR ''='' = 61" by (simp_all add: code_def nul_def)
  then show "tolower c = 0 \<longleftrightarrow> c = nul" "tolower c = 61 \<longleftrightarrow> c = CHR ''=''"
    using code_eqI [of c nul] code_eqI [of c "CHR ''=''"] by (auto simp: tolower_def)
qed

lemma strncasecmp_zero:
  "mg_strncasecmp s t (length s) = 0 \<Longrightarrow> nul \<notin> set s \<Longrightarrow> length s \<le> length t \<Longrightarrow>
   map tolower (take (length s) t) = map tolower s"
proof (induction s arbitrary: t)
  case (Cons c s)
  then obtain d t' where t: "t = d # t'" by (cases t) auto
  show ?case
  proof (cases "s = []")
    case True
    with Cons.prems t show ?thesis by (simp add: char_at_def)
  next
    case False
    with Cons.prems t have "tolower c = tolower d" "mg_strncasecmp s t' (length s) = 0"
      by (auto simp: char_at_def Let_def split: if_splits)
    with Cons.IH [of t'] Cons.prems t show ?thesis by simp
  qed
qed simp

text \<open>A query: names, which hold no separator, with the encoded values.\<close>

definition var_name :: "string \<Rightarrow> bool" where
  "var_name s \<longleftrightarrow> CHR ''&'' \<notin> set s \<and> CHR ''='' \<notin> set s \<and> nul \<notin> set s"

fun query_text :: "nat \<Rightarrow> (string \<times> string) list \<Rightarrow> string" where
  "query_text n [] = []"
| "query_text n ((x, v) # vars) = x @ ''='' @ mg_url_encode v n @
     (if vars = [] then [] else CHR ''&'' # query_text n vars)"

lemma find_var_none: "length s \<le> length name \<Longrightarrow> find_var b name s = None"
  by (cases s) simp_all

lemma find_var_skip:
  "CHR ''&'' \<notin> set a \<Longrightarrow> find_var False name (a @ CHR ''&'' # b) = find_var True name b"
  by (induction a) (auto simp: find_var_none)

lemma find_var_here: "find_var True name (name @ CHR ''='' # v) = Some v"
  using strncasecmp_same [of name "CHR ''='' # v"] by (cases name) simp_all

lemma find_var_other:
  assumes "var_name name" "var_name x" "map tolower name \<noteq> map tolower x" "CHR ''&'' \<notin> set v"
  shows "find_var True name (x @ CHR ''='' # v @ CHR ''&'' # r) = find_var True name r"
proof -
  let ?s = "x @ CHR ''='' # v @ CHR ''&'' # r"
  have "\<not> (?s ! length name = CHR ''='' \<and> mg_strncasecmp name ?s (length name) = 0)" if l: "length name < length ?s"
  proof
    assume m: "?s ! length name = CHR ''='' \<and> mg_strncasecmp name ?s (length name) = 0"
    then have t: "map tolower (take (length name) ?s) = map tolower name"
      using strncasecmp_zero [of name ?s] l assms(1) by (simp add: var_name_def)
    consider "length x < length name" | "length name < length x" | "length name = length x" by linarith
    then show False
    proof cases
      case 1
      then have "map tolower (take (length name) ?s) ! length x = 61" using l
        by (simp add: tolower_def code_def nth_append)
      with t 1 have "name ! length x = CHR ''=''" by (simp add: tolower_eqs)
      with 1 assms(1) show False by (metis nth_mem var_name_def)
    next
      case 2
      with m have "x ! length name = CHR ''=''" by (simp add: nth_append)
      with 2 assms(2) show False by (metis nth_mem var_name_def)
    next
      case 3
      with t assms(3) show False by simp
    qed
  qed
  moreover obtain c cs where s: "?s = c # cs" by (cases ?s) auto
  ultimately have "find_var True name ?s = find_var (c = CHR ''&'') name cs"
    by (cases "length name < length ?s") (auto simp: find_var_none)
  moreover have "find_var (c = CHR ''&'') name cs = find_var True name r"
  proof (cases x)
    case Nil
    with s assms(4) show ?thesis using find_var_skip [of v name r] by auto
  next
    case (Cons y ys)
    with s assms(2) have c: "c \<noteq> CHR ''&''" "cs = (ys @ CHR ''='' # v) @ CHR ''&'' # r" "CHR ''&'' \<notin> set ys"
      by (auto simp: var_name_def)
    then show ?thesis using find_var_skip [of "ys @ CHR ''='' # v" name r] assms(4) by simp
  qed
  ultimately show ?thesis by simp
qed

lemma query_variable:
  assumes "list_all (\<lambda>(x, v). var_name x \<and> 3 * length v + 1 < n) vars"
    and "distinct (map (\<lambda>(x, v). map tolower x) vars)" "(name, v) \<in> set vars" "length v < dst_len"
  shows "mg_get_var (Some (query_text n vars)) body name dst_len = (int (length v), v)"
proof -
  have "\<exists>t. find_var True name (query_text n vars) = Some (mg_url_encode v n @ t) \<and> (t = [] \<or> hd t = CHR ''&'')"
    using assms(1-3)
  proof (induction vars)
    case (Cons xw vars)
    obtain x w where xw: "xw = (x, w)" by fastforce
    show ?case
    proof (cases "(name, v) = xw")
      case True
      then show ?thesis using xw find_var_here [of name] by auto
    next
      case False
      with Cons.prems(3) have m: "(name, v) \<in> set vars" by auto
      then have ne: "vars \<noteq> []" "var_name name" "map tolower name \<noteq> map tolower x"
        using Cons.prems xw by (force simp: list_all_iff)+
      have "CHR ''&'' \<notin> set (mg_url_encode w n)" by (simp add: mg_url_encode_def encode_no_separator)
      then have "find_var True name (query_text n (xw # vars)) = find_var True name (query_text n vars)"
        using find_var_other [OF ne(2) _ ne(3)] Cons.prems(1) ne(1) xw by simp
      with Cons.IH m Cons.prems show ?thesis by simp
    qed
  qed simp
  then obtain t where f: "find_var True name (query_text n vars) = Some (mg_url_encode v n @ t)"
    and t: "t = [] \<or> hd t = CHR ''&''" by blast
  have "takeWhile (\<lambda>c. c \<noteq> CHR ''&'') (mg_url_encode v n @ t) = mg_url_encode v n"
    using t encode_no_separator(1) [of v 0 n]
    by (intro takeWhile_prefix) (auto simp: mg_url_encode_def list_all_iff)
  moreover have "3 * length v + 1 < n" using assms(1,3) by (auto simp: list_all_iff)
  then have "url_decode True (mg_url_encode v n) (dst_len - 1) = (v, True)"
    using url_decode_encode [of 0 v n "dst_len - 1" True] assms(4) by (simp add: mg_url_encode_def)
  moreover have "query_text n vars \<noteq> []" using f by auto
  ultimately show ?thesis by (simp add: mg_get_var_def get_var_def f mg_url_decode_def)
qed

text \<open>
  C28. The variables of a request are read as they were sent. A query made of names and encoded
  values, whatever characters the values hold, gives back the value of every name, as long as
  it fits the buffer, wherever in the query it stands and whatever the body holds.
\<close>

theorem query_variables_round_trip:
  assumes "list_all (\<lambda>(x, v). var_name x \<and> 3 * length v + 1 < n) vars"
    and "distinct (map (\<lambda>(x, v). map tolower x) vars)" "(name, v) \<in> set vars" "length v < dst_len"
  shows "mg_get_var (Some (query_text n vars)) body name dst_len = (int (length v), v)"
  using assms by (rule query_variable)

theorem query_variables_round_trip_witness:
  "mg_get_var (Some (query_text 100 [(''jid'', ''my journal/1''), (''segmentTxId'', ''42'')])) None ''segmentTxId'' 100 = (2, ''42'')"
  using query_variables_round_trip [of 100 "[(''jid'', ''my journal/1''), (''segmentTxId'', ''42'')]" "''segmentTxId''" "''42''" 100 None]
  by (simp add: var_name_def nul_def)

section \<open>Requests\<close>

definition header_lines :: "(string \<times> string) list \<Rightarrow> string" where
  "header_lines hs = concat (map (\<lambda>(x, v). x @ '': '' @ v @ [CR, newline]) hs)"

text \<open>A request as a client prints it.\<close>

definition request_text :: "string \<Rightarrow> string \<Rightarrow> string option \<Rightarrow> string \<Rightarrow> (string \<times> string) list \<Rightarrow> string" where
  "request_text method path query version hs = method @ '' '' @ path @
     (case query of None \<Rightarrow> [] | Some q \<Rightarrow> CHR ''?'' # q) @ '' HTTP/'' @ version @ [CR, newline] @
     header_lines hs @ [CR, newline]"

definition good_header :: "string \<times> string \<Rightarrow> bool" where
  "good_header = (\<lambda>(x, v). x \<noteq> [] \<and> list_all isprint x \<and> list_all (\<lambda>c. c \<noteq> CHR '':'' \<and> c \<noteq> CHR '' '') x \<and>
     list_all isprint v \<and> (v = [] \<or> hd v \<noteq> CHR '':'' \<and> hd v \<noteq> CHR '' ''))"

definition word :: "string \<Rightarrow> bool" where
  "word s \<longleftrightarrow> s \<noteq> [] \<and> list_all (\<lambda>c. isprint c \<and> c \<noteq> CHR '' '') s"

lemma word_print: "word s \<Longrightarrow> list_all isprint s"
  by (simp add: word_def list_all_iff)

lemma isprint_plain: "isprint c \<Longrightarrow> c \<noteq> CR \<and> c \<noteq> newline \<and> c \<noteq> nul \<and> \<not> malformed c"
  by (auto simp: isprint_def malformed_def CR_def newline_def nul_def code_def)

lemma print_chars [simp]: "isprint CHR '' ''" "isprint CHR ''/''" "isprint CHR '':''" "isprint CHR ''?''"
  "isprint CHR ''H''" "isprint CHR ''T''" "isprint CHR ''P''" "\<not> isprint CR" "\<not> isprint newline" "\<not> isprint nul"
  by (simp_all add: isprint_def code_def CR_def newline_def nul_def)

lemma control_chars [simp]:
  "CR \<noteq> newline" "newline \<noteq> CR" "nul \<noteq> CR" "nul \<noteq> newline" "CR \<noteq> nul" "newline \<noteq> nul"
  "nul \<noteq> CHR '':''" "nul \<noteq> CHR '' ''" "nul \<noteq> CHR ''?''" "nul \<noteq> CHR ''H''" "nul \<noteq> CHR ''T''"
  "nul \<noteq> CHR ''P''" "nul \<noteq> CHR ''/''" "\<not> malformed CR" "\<not> malformed newline"
  by (simp_all add: CR_def newline_def nul_def malformed_def)

lemma skip_word:
  assumes "list_all (\<lambda>c. c \<notin> set ds) w" "list_all (\<lambda>c. c \<in> set ds) d" "d \<noteq> []" "r = [] \<or> hd r \<notin> set ds"
  shows "skip ds (w @ d @ r) = (w, r)"
proof -
  have "d @ r = [] \<or> \<not> hd (d @ r) \<notin> set ds" using assms(2,3) by (cases d) auto
  then have "takeWhile (\<lambda>c. c \<notin> set ds) (w @ d @ r) = w" "dropWhile (\<lambda>c. c \<notin> set ds) (w @ d @ r) = d @ r"
    by (intro takeWhile_prefix dropWhile_prefix assms(1); simp)+
  moreover have "dropWhile (\<lambda>c. c \<in> set ds) (d @ r) = r"
    using assms(4) by (intro dropWhile_prefix assms(2)) auto
  ultimately show ?thesis by (simp add: skip_def)
qed

text \<open>What is left for \<open>parse_http_headers\<close> when the last newline is cut off.\<close>

definition rest_lines :: "(string \<times> string) list \<Rightarrow> string" where
  "rest_lines hs = (if hs = [] then [] else header_lines hs @ [CR])"

lemma header_lines_simps [simp]:
  "header_lines [] = []" "header_lines ((x, v) # hs) = x @ '': '' @ v @ [CR, newline] @ header_lines hs"
  by (simp_all add: header_lines_def)

lemma rest_lines_hd: "list_all good_header hs \<Longrightarrow> rest_lines hs = [] \<or> isprint (hd (rest_lines hs))"
  by (cases hs) (auto simp: rest_lines_def good_header_def hd_append neq_Nil_conv)

lemma rest_lines_break: "\<exists>d. [CR, newline] @ header_lines hs @ [CR] = d @ rest_lines hs \<and> d \<noteq> [] \<and> set d \<subseteq> {CR, newline}"
  by (cases "hs = []") (auto simp: rest_lines_def intro: exI [of _ "[CR, newline]"] exI [of _ "[CR, newline, CR]"])

lemma skip_line:
  assumes "list_all isprint w" "list_all good_header hs"
  shows "skip [CR, newline] (w @ [CR, newline] @ header_lines hs @ [CR]) = (w, rest_lines hs)"
proof -
  obtain d where d: "[CR, newline] @ header_lines hs @ [CR] = d @ rest_lines hs" "d \<noteq> []" "set d \<subseteq> {CR, newline}"
    using rest_lines_break by blast
  have "skip [CR, newline] (w @ d @ rest_lines hs) = (w, rest_lines hs)"
    using assms d rest_lines_hd [OF assms(2)]
    by (intro skip_word) (auto simp: list_all_iff isprint_plain)
  then show ?thesis by (simp only: d(1))
qed

lemma parse_header_lines:
  assumes "list_all good_header hs" "length hs \<le> n"
  shows "parse_http_headers n (rest_lines hs) = hs"
  using assms
proof (induction hs arbitrary: n)
  case Nil
  then show ?case by (cases n) (simp_all add: rest_lines_def skip_def)
next
  case (Cons h hs)
  obtain x v where h: "h = (x, v)" by fastforce
  obtain m where n: "n = Suc m" "length hs \<le> m" using Cons.prems(2) by (cases n) auto
  have g: "good_header (x, v)" "list_all good_header hs" using Cons.prems(1) h by simp_all
  have r: "rest_lines (h # hs) = x @ '': '' @ (v @ [CR, newline] @ header_lines hs @ [CR])"
    by (simp add: rest_lines_def h)
  have "skip '': '' (x @ '': '' @ (v @ [CR, newline] @ header_lines hs @ [CR])) = (x, v @ [CR, newline] @ header_lines hs @ [CR])"
    using g(1) by (intro skip_word) (auto simp: good_header_def list_all_iff hd_append CR_def)
  moreover have "skip [CR, newline] (v @ [CR, newline] @ header_lines hs @ [CR]) = (v, rest_lines hs)"
    using g by (intro skip_line) (auto simp: good_header_def)
  ultimately show ?case
    using g(1) Cons.IH [OF g(2) n(2)] unfolding r n(1) by (simp add: h good_header_def)
qed

lemma url_decode_plain: "CHR ''%'' \<notin> set s \<Longrightarrow> url_decode False s (length s) = (s, True)"
  by (induction s) auto

lemma list_all_print_nul: "list_all isprint s \<Longrightarrow> nul \<notin> set s"
  by (auto simp: list_all_iff)

lemma header_lines_no_nul: "list_all good_header hs \<Longrightarrow> nul \<notin> set (header_lines hs)"
  by (induction hs) (auto simp: good_header_def list_all_print_nul)

definition good_request :: "string \<Rightarrow> string \<Rightarrow> string option \<Rightarrow> string \<Rightarrow> (string \<times> string) list \<Rightarrow> bool" where
  "good_request method path query version hs \<longleftrightarrow> is_valid_http_method method \<and>
     word path \<and> take 1 path = ''/'' \<and> CHR ''?'' \<notin> set path \<and> CHR ''%'' \<notin> set path \<and>
     (case query of None \<Rightarrow> True | Some q \<Rightarrow> q = [] \<or> word q) \<and> list_all isprint version \<and>
     list_all good_header hs \<and> length hs \<le> 30"

lemma method_word: "is_valid_http_method m \<Longrightarrow> word m \<and> \<not> is_space (hd m)"
  by (auto simp: is_valid_http_method_def word_def isprint_def is_space_def code_def)

lemma parse_request_text:
  assumes g: "good_request method path query version hs"
  shows "parse_http_message (request_text method path query version hs) =
    (int (length (request_text method path query version hs)),
     reset_mg\<lparr>mc_request_method := Some method,
       mc_uri := Some (remove_double_dots_and_double_slashes path),
       mc_http_version := Some version, mc_query_string := query, mc_headers := hs\<rparr>)"
proof -
  define uri where "uri = path @ (case query of None \<Rightarrow> [] | Some q \<Rightarrow> CHR ''?'' # q)"
  let ?rest = "[CR, newline] @ header_lines hs @ [CR]"
  let ?v = "''HTTP/'' @ version"
  define T where "T = method @ '' '' @ (uri @ '' '' @ (?v @ ?rest))"
  have p: "is_valid_http_method method" "word path" "take 1 path = ''/''" "CHR ''?'' \<notin> set path" "CHR ''%'' \<notin> set path"
    "list_all isprint version" "list_all good_header hs" "length hs \<le> 30"
    using g by (simp_all add: good_request_def)
  have m: "word method" "\<not> is_space (hd method)" using method_word [OF p(1)] by simp_all
  have u: "list_all (\<lambda>c. isprint c \<and> c \<noteq> CHR '' '') uri" "uri \<noteq> []" "hd uri \<noteq> CHR '' ''"
    using g p(2) by (auto simp: good_request_def uri_def word_def hd_append neq_Nil_conv split: option.splits)
  have buf: "request_text method path query version hs = T @ [newline]"
    by (simp add: request_text_def T_def uri_def)
  have "list_all isprint method" using m(1) by (rule word_print)
  moreover have "list_all isprint uri" using u(1) by (simp add: list_all_iff)
  ultimately have "nul \<notin> set method" "nul \<notin> set uri" "nul \<notin> set version" "nul \<notin> set (header_lines hs)"
    using p(6,7) by (simp_all add: list_all_print_nul header_lines_no_nul)
  then have "nul \<notin> set T" by (simp add: T_def)
  then have c: "c_str T = T" by (auto simp: c_str_def takeWhile_eq_all_conv)
  have s: "dropWhile is_space T = T"
    using m by (intro dropWhile_none) (auto simp: T_def word_def hd_append)
  have 1: "skip '' '' T = (method, uri @ '' '' @ (?v @ ?rest))"
    unfolding T_def using m(1) u(2,3)
    by (intro skip_word) (auto simp: word_def list_all_iff hd_append)
  have 2: "skip '' '' (uri @ '' '' @ (?v @ ?rest)) = (uri, ?v @ ?rest)"
    using u(1) by (intro skip_word) (auto simp: list_all_iff)
  have 3: "skip [CR, newline] (?v @ ?rest) = (?v, rest_lines hs)"
    using p(6,7) by (intro skip_line) simp_all
  have path: "takeWhile (\<lambda>c. c \<noteq> CHR ''?'') uri = path"
    unfolding uri_def using p(4) by (intro takeWhile_prefix) (auto simp: list_all_iff split: option.splits)
  have dec: "mg_url_decode path (length path + 1) False = (int (length path), path)"
    using url_decode_plain [OF p(5)] by (simp add: mg_url_decode_def)
  have "nul \<notin> set path" using p(2) by (intro list_all_print_nul word_print)
  then have cp: "c_str path = path" by (auto simp: c_str_def takeWhile_eq_all_conv)
  have q: "(if CHR ''?'' \<in> set uri then Some (drop (Suc (length path)) uri) else None) = query"
    using p(4) by (auto simp: uri_def split: option.splits)
  have h: "parse_http_headers 30 (rest_lines hs) = hs" by (rule parse_header_lines [OF p(7,8)])
  have "take (length (request_text method path query version hs) - 1) (request_text method path query version hs) = T"
    by (simp add: buf)
  then show ?thesis
    unfolding parse_http_message_def Let_def
    by (simp only: c s 1 2 3 prod.case path dec q h cp snd_conv p(1,3)) simp
qed

lemma request_end_line:
  "list_all (\<lambda>c. \<not> malformed c \<and> c \<noteq> newline) w \<Longrightarrow> request_end i (w @ r) = request_end (i + length w) r"
  by (induction w arbitrary: i) auto

lemma request_end_newline:
  "hd r \<noteq> newline \<Longrightarrow> hd r \<noteq> CR \<Longrightarrow> r \<noteq> [] \<Longrightarrow> request_end i (newline # r) = request_end (Suc i) r"
  by (cases r) (simp_all add: malformed_def)

lemma request_end_header_lines:
  assumes "list_all good_header hs" "list_all isprint w"
  shows "request_end i (w @ [CR, newline] @ header_lines hs @ [CR, newline] @ r)
    = int i + int (length (w @ [CR, newline] @ header_lines hs @ [CR, newline]))"
  using assms
proof (induction hs arbitrary: i w)
  case Nil
  have "list_all (\<lambda>c. \<not> malformed c \<and> c \<noteq> newline) (w @ [CR])"
    using Nil.prems(2) by (auto simp: list_all_iff isprint_plain)
  from request_end_line [OF this, of i "newline # CR # newline # r"] show ?case
    by simp
next
  case (Cons h hs)
  obtain x v where h: "h = (x, v)" by fastforce
  have g: "list_all good_header hs" "x \<noteq> []" "list_all isprint (x @ '': '' @ v)"
    using Cons.prems(1) h by (auto simp: good_header_def)
  have l: "list_all (\<lambda>c. \<not> malformed c \<and> c \<noteq> newline) (w @ [CR])"
    using Cons.prems(2) by (auto simp: list_all_iff isprint_plain)
  let ?r = "(x @ '': '' @ v) @ [CR, newline] @ header_lines hs @ [CR, newline] @ r"
  have "isprint (hd ?r)" "?r \<noteq> []" using g(2,3) by (cases x; simp)+
  then have "request_end i ((w @ [CR]) @ newline # ?r) = request_end (Suc (i + length (w @ [CR]))) ?r"
    using request_end_line [OF l] request_end_newline [of ?r] isprint_plain by metis
  with Cons.IH [OF g(1,3), of "Suc (i + length (w @ [CR]))"] show ?case by (simp add: h)
qed

lemma request_end_header_lines_text:
  assumes g: "good_request method path query version hs"
  shows "get_request_len (request_text method path query version hs @ rest)
    = int (length (request_text method path query version hs))"
proof -
  let ?w = "method @ '' '' @ path @ (case query of None \<Rightarrow> [] | Some q \<Rightarrow> CHR ''?'' # q) @ '' HTTP/'' @ version"
  have p: "list_all good_header hs" using g by (simp add: good_request_def)
  have "word method" using g method_word by (simp add: good_request_def)
  then have "list_all isprint ?w"
    using g word_print by (cases query) (auto simp: good_request_def)
  from request_end_header_lines [OF p this, of 0 rest] show ?thesis
    by (simp add: get_request_len_def request_text_def)
qed

text \<open>
  C27. A printed request is found and parsed as what it was. Whatever follows it in the buffer, the
  server takes exactly its bytes, and reads the method, the path (cleaned), the query, the version
  and up to thirty headers in order.
\<close>

theorem request_round_trip:
  assumes g: "good_request method path query version hs"
  shows "get_request_len (request_text method path query version hs @ rest)
      = int (length (request_text method path query version hs)) \<and>
    parse_http_message (request_text method path query version hs) =
      (int (length (request_text method path query version hs)),
       reset_mg\<lparr>mc_request_method := Some method,
         mc_uri := Some (remove_double_dots_and_double_slashes path),
         mc_http_version := Some version, mc_query_string := query, mc_headers := hs\<rparr>)"
  using request_end_header_lines_text [OF g] parse_request_text [OF g] by blast

theorem request_round_trip_witness:
  "snd (parse_http_message (request_text ''GET'' ''/getJournal'' (Some ''jid=j'') ''1.1'' [(''Host'', ''n1''), (''Accept'', ''*/*'')])) =
    reset_mg\<lparr>mc_request_method := Some ''GET'', mc_uri := Some (remove_double_dots_and_double_slashes ''/getJournal''),
      mc_http_version := Some ''1.1'', mc_query_string := Some ''jid=j'', mc_headers := [(''Host'', ''n1''), (''Accept'', ''*/*'')]\<rparr>"
proof -
  have "good_request ''GET'' ''/getJournal'' (Some ''jid=j'') ''1.1'' [(''Host'', ''n1''), (''Accept'', ''*/*'')]"
    by code_simp
  from request_round_trip [OF this, of "[]"] show ?thesis by (simp only: snd_conv)
qed

section \<open>Dates\<close>

definition leap_year :: "int \<Rightarrow> bool" where
  "leap_year y \<longleftrightarrow> 4 dvd y \<and> (\<not> 100 dvd y \<or> 400 dvd y)"

text \<open>The first day of the year \<open>1970 + n\<close>, counted year by year.\<close>

fun year_start :: "nat \<Rightarrow> int" where
  "year_start 0 = 0"
| "year_start (Suc n) = year_start n + (if leap_year (1970 + int n) then 366 else 365)"

definition day_number :: "nat \<Rightarrow> nat \<Rightarrow> int \<Rightarrow> int" where
  "day_number n month day = year_start n + days_before_month ! month + (day - 1) +
     (if leap_year (1970 + int n) \<and> 2 \<le> month then 1 else 0)"

lemma div_step:
  assumes k: "1 < (k::int)"
  shows "(y + 1) div k = y div k + (if k dvd y + 1 then 1 else 0)"
proof -
  let ?m = "y mod k"
  have m: "0 \<le> ?m" "?m < k" using k by simp_all
  have "(?m + 1) div k = (if k dvd ?m + 1 then 1 else 0)"
  proof (cases "?m + 1 = k")
    case False
    with m have "0 < ?m + 1" "?m + 1 < k" by simp_all
    then show ?thesis using zdvd_not_zless by auto
  qed (use k in simp)
  moreover have "k dvd ?m + 1 \<longleftrightarrow> k dvd y + 1" by (simp add: dvd_eq_mod_eq_0 mod_add_left_eq)
  moreover have "(y + 1) div k = y div k + (?m + 1) div k"
    using k div_add1_eq [of y 1 k] by simp
  ultimately show ?thesis by simp
qed

lemma leap_rule:
  "(B \<Longrightarrow> A) \<Longrightarrow> (C \<Longrightarrow> B) \<Longrightarrow> (x + (if A then 1 else 0)) - (y + (if B then 1 else 0)) + (z + (if C then 1 else 0))
     = x - y + z + (if A \<and> (\<not> B \<or> C) then 1 else (0 :: int))"
  by (cases A; cases B; cases C) simp_all

lemma num_leap_years_step:
  "num_leap_years (y + 1) = num_leap_years y + (if leap_year (y + 1) then 1 else 0)"
proof -
  have d: "(y + 1) div 4 = y div 4 + (if 4 dvd y + 1 then 1 else 0)"
    "(y + 1) div 100 = y div 100 + (if 100 dvd y + 1 then 1 else 0)"
    "(y + 1) div 400 = y div 400 + (if 400 dvd y + 1 then 1 else 0)"
    by (rule div_step, simp)+
  have "100 dvd y + 1 \<Longrightarrow> 4 dvd y + 1" "400 dvd y + 1 \<Longrightarrow> 100 dvd y + 1"
    by (rule dvd_trans [rotated], assumption, simp)+
  then show ?thesis unfolding num_leap_years_def leap_year_def d by (rule leap_rule)
qed

lemma year_start_leaps:
  "year_start n = int n * 365 + num_leap_years (1970 + int n) - num_leap_years 1970
     - (if leap_year (1970 + int n) then 1 else 0)"
proof (induction n)
  case 0
  then show ?case by (simp add: leap_year_def)
next
  case (Suc n)
  have "1970 + int (Suc n) = (1970 + int n) + 1" by simp
  then show ?case
    using Suc num_leap_years_step [of "1970 + int n"] by (simp only: year_start.simps) (auto simp: algebra_simps)
qed

text \<open>
  A date of a request header is counted in seconds since 1970 exactly, for every date that fits
  32 bits, except that in January and February of a leap year it is a whole day late: the extra
  day of the year is counted before it has passed.
\<close>

theorem dates_in_leap_years_are_late:
  fixes n month :: nat and day hour minute second :: int
  defines "exact \<equiv> day_number n month day * 86400 + hour * 3600 + minute * 60 + second"
  assumes "0 \<le> exact" "exact < 2 ^ 31 - 86400"
  shows "seconds_since (1970 + int n) month day hour minute second
    = exact + (if leap_year (1970 + int n) \<and> month < 2 then 86400 else 0)"
proof -
  let ?e = "if leap_year (1970 + int n) \<and> month < 2 then 86400 else 0"
  have "seconds_since (1970 + int n) month day hour minute second = s32 (exact + ?e)"
    unfolding seconds_since_def exact_def day_number_def year_start_leaps Let_def
    by (rule arg_cong [where f = s32]) (auto simp: algebra_simps)
  with assms(2,3) show ?thesis by (simp add: s32_id)
qed

theorem dates_in_leap_years_are_late_witness:
  "seconds_since 1976 0 1 0 0 0 = day_number 6 0 1 * 86400 + 86400"
proof -
  have "day_number 6 0 1 = 2191" by code_simp
  then show ?thesis
    using dates_in_leap_years_are_late [of 6 0 1 0 0 0] by (simp add: leap_year_def)
qed

end
