(* ===== verification/Http_Download.thy ===== *)
theory Http_Download
  imports Http_Server Http_Facts
begin

text \<open>
  Connections of the web server: the recursion through \<^verbatim>\<open>close_local_endpoint\<close> ends, and a segment
  that is asked for is sent to its last byte.
\<close>

section \<open>Closing an endpoint\<close>

lemma reset_fields [simp]:
  "recv_iobuf (reset_connection c) = []" "endpoint_type (reset_connection c) = EP_NONE"
  "request_len (reset_connection c) = 0" "send_iobuf (reset_connection c) = send_iobuf c"
  "wire (reset_connection c) = wire c" "(reset_connection c)\<lparr>request_len := 0\<rparr> = reset_connection c"
  by (simp_all add: reset_connection_def)

lemma on_recv_step_idle: "on_recv_step e ck A (n, reset_connection c) = (Return (), (n, reset_connection c))"
  by (simp add: on_recv_step_def conn_def try_parse_def get_request_len_def prog_simps)

lemma on_recv_turns_idle:
  "on_recv_turns (Suc k) e ck (n, reset_connection c) = (Return (), (n, reset_connection c))"
  by (simp add: on_recv_step_idle)

definition keeps_alive :: "connection \<Rightarrow> bool" where
  "keeps_alive c \<longleftrightarrow> should_keep_alive c \<and> (endpoint_type c = EP_FILE \<or> endpoint_type c = EP_USER)"

definition closed_endpoint :: "connection \<Rightarrow> connection" where
  "closed_endpoint c = (let r = reset_connection c in
     if keeps_alive c then r
     else if send_iobuf c = [] then r\<lparr>close_immediately := True\<rparr> else r\<lparr>finished_sending := True\<rparr>)"

lemma close_local_endpoint_run:
  assumes "\<And>n c. A (n, reset_connection c) = (Return (), (n, reset_connection c))"
  shows "close_local_endpoint A (n, c) = (Return (), (n, closed_endpoint c))"
  using assms
  by (auto simp: close_local_endpoint_def conn_def prog_simps closed_endpoint_def keeps_alive_def Let_def)

lemma close_local_endpoint_same:
  assumes "\<And>n c. A (n, reset_connection c) = (Return (), (n, reset_connection c))"
    and "\<And>n c. B (n, reset_connection c) = (Return (), (n, reset_connection c))"
  shows "close_local_endpoint A = close_local_endpoint B"
  by (rule ext) (use assms in \<open>auto simp: close_local_endpoint_run\<close>)

text \<open>Nothing else uses the recursion, so it can be replaced in every function that gets it.\<close>

lemma again_does_not_matter:
  assumes "close_local_endpoint A = close_local_endpoint B"
  shows "on_recv_step e ck A = on_recv_step e ck B"
proof -
  have er: "send_http_error e A = send_http_error e B" for e
    by (rule ext) (simp only: send_http_error_def assms)
  have fi: "mg_send_file e ck A = mg_send_file e ck B"
    by (rule ext)+ (simp only: mg_send_file_def mg_send_file_internal_def assms er)
  have pe: "perform e ck A = perform e ck B"
    by (rule ext) (simp only: perform_def fi)
  have ha: "call_request_handler e ck A = call_request_handler e ck B"
    by (simp only: call_request_handler_def pe assms)
  have op: "open_local_endpoint e ck A b = open_local_endpoint e ck B b" for b
    by (simp only: open_local_endpoint_def send_options_def mg_send_digest_auth_request_def er assms)
  have fr: "deliver_frames k e ck A = deliver_frames k e ck B" for k
    by (induction k) (simp_all only: deliver_frames.simps deliver_websocket_frame_def pe)
  have us: "user_data e ck A = user_data e ck B"
    by (simp only: user_data_def call_request_handler_if_data_is_buffered_def ha op fr)
  show ?thesis by (simp only: on_recv_step_def er op us)
qed

text \<open>
  C33. \<^verbatim>\<open>on_recv_data\<close> and \<^verbatim>\<open>close_local_endpoint\<close> call each other, and the recursion ends: with any
  number of turns from two on the result is the same. Closing an endpoint empties the buffer before
  it looks for the next request, so what a client had sent behind the first request is dropped.
\<close>

theorem on_recv_data_terminates:
  "on_recv_turns (k + 2) e ck = on_recv_data e ck \<and>
   close_local_endpoint (on_recv_data e ck) (n, c) = (Return (), (n, closed_endpoint c)) \<and>
   recv_iobuf (closed_endpoint c) = []"
proof -
  have "close_local_endpoint (on_recv_turns (Suc k) e ck) = close_local_endpoint (on_recv_turns (Suc 0) e ck)"
    by (rule close_local_endpoint_same; rule on_recv_turns_idle)
  from again_does_not_matter [OF this] have "on_recv_turns (k + 2) e ck = on_recv_data e ck"
    by (simp add: on_recv_data_def numeral_2_eq_2)
  moreover have "close_local_endpoint (on_recv_data e ck) (n, c) = (Return (), (n, closed_endpoint c))"
    unfolding on_recv_data_def numeral_2_eq_2 by (rule close_local_endpoint_run) (rule on_recv_turns_idle)
  ultimately show ?thesis by (simp add: closed_endpoint_def Let_def)
qed

section \<open>Names that no pattern matches\<close>

definition literal :: "string \<Rightarrow> bool" where
  "literal = list_all (\<lambda>c. c \<noteq> CHR ''?'' \<and> c \<noteq> CHR ''$'' \<and> c \<noteq> CHR ''*'' \<and> lowercase c \<noteq> 0)"

lemma lowercase_nul: "lowercase nul = 0"
  by (simp add: lowercase_def tolower_def code_def nul_def)

lemma match_literal:
  "literal x \<Longrightarrow> 0 \<le> j \<Longrightarrow> match_from j (x @ ''$'') s \<noteq> -1 \<Longrightarrow> map lowercase s = map lowercase x"
proof (induction x arbitrary: j s)
  case (Cons c x)
  then have c: "c \<noteq> CHR ''?''" "c \<noteq> CHR ''$''" "c \<noteq> CHR ''*''" "lowercase c \<noteq> 0" "literal x"
    by (auto simp: literal_def)
  with Cons.prems have "lowercase c = lowercase (char_at s)" "match_from (j + 1) (x @ ''$'') (tl s) \<noteq> -1"
    by (auto split: if_splits)
  moreover from this c(4) obtain d t where "s = d # t" by (cases s) (auto simp: char_at_def lowercase_nul)
  ultimately show ?case using Cons.IH [OF c(5), of "j + 1" t] Cons.prems(2) by (simp add: char_at_def)
qed (auto split: if_splits)

text \<open>A name that ends in a digit does not match a pattern for names that end in a letter.\<close>

lemma match_suffix:
  assumes "literal x" "x \<noteq> []" "s \<noteq> []" "lowercase (last s) \<noteq> lowercase (last x)"
  shows "match_from 0 (''**'' @ x @ ''$'') s = -1"
proof -
  have e: "match_from 0 (x @ ''$'') (drop l s) = -1" for l
  proof (rule ccontr)
    assume "match_from 0 (x @ ''$'') (drop l s) \<noteq> -1"
    then have m: "map lowercase (drop l s) = map lowercase x" using assms(1) by (intro match_literal) simp_all
    then have ne: "drop l s \<noteq> []" using assms(2) by auto
    then have "lowercase (last (drop l s)) = lowercase (last x)"
      using m assms(2) by (metis last_map)
    with ne assms(4) show False by (simp add: last_drop)
  qed
  then have "find (\<lambda>(l, r). r \<noteq> -1) (map (\<lambda>l. (l, match_from 0 (x @ ''$'') (drop l s))) ls) = None" for ls
    by (induction ls) (simp_all add: e)
  then show ?thesis using e [of "length s"] by (simp del: match_from.simps add: match_from.simps(2) Let_def)
qed

lemma digit_not_letter: "is_digit d \<Longrightarrow> lowercase d \<noteq> lowercase CHR ''d'' \<and> lowercase d \<noteq> lowercase CHR ''i'' \<and>
    lowercase d \<noteq> lowercase CHR ''l'' \<and> lowercase d \<noteq> lowercase CHR ''p'' \<and> lowercase d \<noteq> lowercase CHR ''m''"
  by (auto simp: lowercase_def tolower_def is_digit_def code_def)

lemma plain_name_patterns:
  assumes "s \<noteq> []" "is_digit (last s)"
  shows "mg_match_prefix ''**.htpasswd$'' s = -1"
    "mg_match_prefix (or_null (config_option ''cgi_pattern'')) s = -1"
    "mg_match_prefix (or_null (config_option ''ssi_pattern'')) s = -1"
proof -
  have m: "match_from 0 (CHR ''*'' # CHR ''*'' # (x @ [CHR ''$''])) s = -1"
    if "literal x" "x \<noteq> []" "last x \<in> {CHR ''d'', CHR ''i'', CHR ''l'', CHR ''p'', CHR ''m''}" for x
    using match_suffix [OF that(1,2) assms(1)] digit_not_letter [OF assms(2)] that(3) by auto
  have lit: "literal ''.htpasswd''" "literal ''.cgi''" "literal ''.pl''" "literal ''.php''" "literal ''.shtml''" "literal ''.shtm''"
    by (simp_all add: literal_def lowercase_def tolower_def code_def)
  show "mg_match_prefix ''**.htpasswd$'' s = -1"
    using m [OF lit(1)] by (simp add: mg_match_prefix.simps)
  have "or_null (config_option ''cgi_pattern'') = ''**.cgi$|**.pl$|**.php$''"
    "or_null (config_option ''ssi_pattern'') = ''**.shtml$|**.shtm$''" by code_simp+
  then show "mg_match_prefix (or_null (config_option ''cgi_pattern'')) s = -1"
    "mg_match_prefix (or_null (config_option ''ssi_pattern'')) s = -1"
    using m [OF lit(2)] m [OF lit(3)] m [OF lit(4)] m [OF lit(5)] m [OF lit(6)]
    by (simp_all add: mg_match_prefix.simps del: match_from.simps)
qed

section \<open>The transfer\<close>

text \<open>
  The connection is sending \<open>bytes\<close> from inode \<open>i\<close> behind the headers \<open>h\<close>: up to some position
  they are on the wire or in the buffer, and the endpoint stands there; without the endpoint
  they are all there.
\<close>

definition delivering :: "nat \<Rightarrow> string \<Rightarrow> string \<Rightarrow> nat \<Rightarrow> node \<times> connection \<Rightarrow> bool" where
  "delivering i bytes h off = (\<lambda>(n, c). data (n_fs n) i = bytes \<and> faults (n_fs n) = [] \<and> off \<le> length bytes \<and>
     wire c @ send_iobuf c = h @ take off bytes \<and>
     (if endpoint_type c = EP_FILE then endpoint c = (i, off) \<and> cl c = int (length bytes) - int off
      else off = length bytes))"

lemma call_user_quiet:
  "call_user e MG_POLL s = (Return (MG_FALSE, None), s)" "call_user e MG_AUTH s = (Return (MG_TRUE, None), s)"
  "call_user e MG_RECV s = (Return (MG_FALSE, None), s)"
  by (cases s; simp add: call_user_def conn_def ev_handler_def on_fst_def prog_simps)+

lemma poll_run: "mg_ev_handler e ck NS_POLL (n, c) =
    (if endpoint_type c = EP_FILE then transfer_file_data (on_recv_data e ck) (n, c) else (Return (), (n, c)))"
  by (simp add: mg_ev_handler_def seq_def call_user_quiet conn_def prog_simps)

lemma send_run: "mg_ev_handler e ck (NS_SEND m) (n, c) = (Return (), (n, c\<lparr>send_iobuf := iobuf_remove (send_iobuf c) m,
    wire := wire c @ take (length (send_iobuf c) - length (iobuf_remove (send_iobuf c) m)) (send_iobuf c)\<rparr>))"
  by (simp add: mg_ev_handler_def prog_simps)

lemma iobuf_remove_split:
  "take (length s - length (iobuf_remove s m)) s @ iobuf_remove s m = s"
  by (simp add: iobuf_remove_def)

lemma delivering_send:
  "delivering i bytes h off (n, c) \<Longrightarrow> mg_ev_handler e ck (NS_SEND m) (n, c) = (r, s) \<Longrightarrow>
   r = Return () \<and> delivering i bytes h off s"
  using iobuf_remove_split [of "send_iobuf c" m] by (auto simp: send_run delivering_def)

lemma read_quiet: "faults (n_fs n) = [] \<Longrightarrow> attempt (on_node_fs (sys_read_at i off (Some k))) (n, c)
    = (Return (Some (take k (drop off (data (n_fs n) i)))), (n, c))"
  by (simp add: attempt_def on_node_fs_def sys_read_at_def prog_simps)

lemma take_more: "take off xs @ take k (drop off xs) = take (off + k) xs"
  by (simp add: take_add)

lemma transfer_run:
  assumes "(if cl c < 8192 then s32 (cl c) else 8192) = int m" "m \<le> 8192" "faults (n_fs n) = []"
    "endpoint c = (i, off)" "length (send_iobuf c) \<le> 8192 * 2"
    and b: "b = take m (drop off (data (n_fs n) i))"
    and c': "c' = c\<lparr>cl := cl c - int (length b), endpoint := (i, off + length b), send_iobuf := send_iobuf c @ b\<rparr>"
  shows "transfer_file_data A (n, c) = (if b = [] then close_local_endpoint A (n, c)
    else if cl c' \<le> 0 then close_local_endpoint A (n, c') else (Return (), (n, c')))"
proof -
  have "length b \<le> 8192" using assms(2) b by simp
  then show ?thesis
    using assms(1-5) read_quiet [OF assms(3), of i off m c]
    by (simp add: transfer_file_data_def conn_def prog_simps seq_def ns_send_def iobuf_append_def b [symmetric] c' Let_def)
qed

text \<open>One turn of the poll loop sends the next part, and closes the endpoint behind the last.\<close>

lemma delivering_poll:
  assumes d: "delivering i bytes h off (n, c)" and f: "endpoint_type c = EP_FILE" and s: "length (send_iobuf c) \<le> 8192 * 2"
  defines "off' \<equiv> min (off + 8192) (length bytes)"
  shows "\<exists>c'. mg_ev_handler e ck NS_POLL (n, c) = (Return (), (n, c')) \<and> delivering i bytes h off' (n, c') \<and>
    (endpoint_type c' = EP_FILE \<longleftrightarrow> off' < length bytes)"
proof -
  let ?k = "if cl c < 8192 then nat (cl c) else 8192"
  let ?b = "take ?k (drop off bytes)"
  let ?c = "c\<lparr>cl := cl c - int (length ?b), endpoint := (i, off + length ?b), send_iobuf := send_iobuf c @ ?b\<rparr>"
  have st: "data (n_fs n) i = bytes" "faults (n_fs n) = []" "off \<le> length bytes" "wire c @ send_iobuf c = h @ take off bytes"
    "endpoint c = (i, off)" "cl c = int (length bytes) - int off"
    using d f by (simp_all add: delivering_def)
  have k: "(if cl c < 8192 then s32 (cl c) else 8192) = int ?k" using st(3,6) by (simp add: s32_id)
  have lb: "off + length ?b = off'" using st(3,6) by (auto simp: off'_def min_def)
  have "take (off + ?k) bytes = take off' bytes" using st(3,6) by (auto simp: off'_def min_def)
  then have all: "wire c @ send_iobuf c @ ?b = h @ take off' bytes"
    using st(4) take_more [of off bytes ?k] by (metis append_assoc)
  have again: "close_local_endpoint (on_recv_data e ck) (n, c) = (Return (), (n, closed_endpoint c))" for c
    unfolding on_recv_data_def numeral_2_eq_2 by (rule close_local_endpoint_run) (rule on_recv_turns_idle)
  have closed: "endpoint_type (closed_endpoint x) = EP_NONE" "wire (closed_endpoint x) = wire x"
    "send_iobuf (closed_endpoint x) = send_iobuf x" for x
    by (simp_all add: closed_endpoint_def Let_def)
  have run: "mg_ev_handler e ck NS_POLL (n, c) = (if ?b = [] then (Return (), (n, closed_endpoint c))
      else (Return (), (n, if cl ?c \<le> 0 then closed_endpoint ?c else ?c)))"
    using transfer_run [OF k _ st(2,5) s refl refl, of "on_recv_data e ck"] f st(1) by (simp add: poll_run again)
  show ?thesis
  proof (cases "?b = []")
    case True
    with lb st(3,6) have "off' = length bytes" "off = length bytes" by (auto simp: off'_def min_def split: if_splits)
    with True run st show ?thesis by (auto simp: delivering_def closed)
  next
    case False
    show ?thesis
    proof (cases "cl ?c \<le> 0")
      case True
      with lb st(3,6) have "off' = length bytes" by (auto simp: off'_def min_def)
      with False True run st all show ?thesis by (auto simp: delivering_def closed)
    next
      case False': False
      with lb st(3,6) have "off' < length bytes" by (auto simp: off'_def min_def)
      with False False' run st all lb f show ?thesis by (auto simp: delivering_def)
    qed
  qed
qed

lemma delivering_idle:
  assumes "delivering i bytes h off (n, c)" "endpoint_type c \<noteq> EP_FILE \<or> 8192 * 2 < length (send_iobuf c)"
  shows "mg_ev_handler e ck NS_POLL (n, c) = (Return (), (n, c))"
  using assms(2) by (auto simp: poll_run transfer_file_data_def conn_def prog_simps)

definition no_receive :: "net_event \<Rightarrow> bool" where
  "no_receive ev \<longleftrightarrow> (case ev of NS_RECV _ \<Rightarrow> False | _ \<Rightarrow> True)"

lemma delivering_event:
  assumes d: "delivering i bytes h off (n, c)" and ev: "no_receive ev"
  shows "\<exists>c' off'. mg_ev_handler e ck ev (n, c) = (Return (), (n, c')) \<and> delivering i bytes h off' (n, c')"
proof (cases ev)
  case NS_POLL
  show ?thesis
  proof (cases "endpoint_type c = EP_FILE \<and> length (send_iobuf c) \<le> 8192 * 2")
    case True
    then show ?thesis using delivering_poll [OF d] NS_POLL by blast
  next
    case False
    then show ?thesis using delivering_idle [OF d] d NS_POLL by auto
  qed
next
  case (NS_SEND m)
  then show ?thesis using delivering_send [OF d send_run] by (auto simp: send_run)
qed (use ev in \<open>simp add: no_receive_def\<close>)

lemma delivering_events:
  assumes "delivering i bytes h off (n, c)" "list_all no_receive evs"
  shows "\<exists>c' off'. run_events e ck evs (n, c) = (Return (), (n, c')) \<and> delivering i bytes h off' (n, c')"
  using assms
proof (induction evs arbitrary: c off)
  case (Cons ev evs)
  then obtain c1 off1 where "mg_ev_handler e ck ev (n, c) = (Return (), (n, c1))" "delivering i bytes h off1 (n, c1)"
    using delivering_event [OF Cons.prems(1), of ev e ck] by auto
  with Cons.IH [of off1 c1] Cons.prems(2) show ?case by (auto simp: seq_Return)
qed (auto simp: prog_simps)

text \<open>A round: the poll loop turns, and the socket takes all that is buffered.\<close>

fun rounds :: "env \<Rightarrow> clock \<Rightarrow> nat \<Rightarrow> unit http" where
  "rounds e ck 0 = ret ()"
| "rounds e ck (Suc k) = seq (mg_ev_handler e ck NS_POLL) (\<lambda>_. seq conn (\<lambda>c.
     seq (mg_ev_handler e ck (NS_SEND (length (send_iobuf c)))) (\<lambda>_. rounds e ck k)))"

lemma drain_run: "mg_ev_handler e ck (NS_SEND (length (send_iobuf c))) (n, c)
    = (Return (), (n, c\<lparr>send_iobuf := [], wire := wire c @ send_iobuf c\<rparr>))"
  by (cases "send_iobuf c") (simp_all add: send_run iobuf_remove_def)

lemma rounds_deliver:
  assumes "delivering i bytes h off (n, c)" "length (send_iobuf c) \<le> 8192 * 2"
    and "length bytes < off + 8192 * k \<or> (length bytes = off + 8192 * k \<and> 0 < k)"
  shows "\<exists>c'. rounds e ck k (n, c) = (Return (), (n, c')) \<and> wire c' = h @ bytes \<and> send_iobuf c' = [] \<and> endpoint_type c' \<noteq> EP_FILE"
proof -
  have "\<exists>c'. rounds e ck k (n, c) = (Return (), (n, c')) \<and> (0 < k \<longrightarrow> send_iobuf c' = []) \<and>
      (\<exists>off'. delivering i bytes h off' (n, c') \<and> (off' = length bytes \<or> off + 8192 * k \<le> off') \<and>
        (endpoint_type c' = EP_FILE \<longrightarrow> off' < length bytes \<or> k = 0))"
    using assms(1,2)
  proof (induction k arbitrary: c off)
    case (Suc k)
    obtain c1 off1 where p: "mg_ev_handler e ck NS_POLL (n, c) = (Return (), (n, c1))" "delivering i bytes h off1 (n, c1)"
      "off1 = length bytes \<or> off + 8192 \<le> off1" "endpoint_type c1 = EP_FILE \<longrightarrow> off1 < length bytes"
    proof (cases "endpoint_type c = EP_FILE")
      case True
      with that delivering_poll [OF Suc.prems(1) True Suc.prems(2), of e ck] show thesis by (auto simp: min_def split: if_splits)
    next
      case False
      with that delivering_idle [OF Suc.prems(1), of e ck] Suc.prems(1) show thesis by (auto simp: delivering_def)
    qed
    let ?c = "c1\<lparr>send_iobuf := [], wire := wire c1 @ send_iobuf c1\<rparr>"
    have d: "delivering i bytes h off1 (n, ?c)" using p(2) by (simp add: delivering_def)
    have r: "rounds e ck (Suc k) (n, c) = rounds e ck k (n, ?c)"
      by (simp add: seq_def p(1) drain_run conn_def prog_simps)
    show ?case
    proof (cases "k = 0")
      case True
      with r d p(3,4) show ?thesis by (auto simp: prog_simps)
    next
      case False
      from Suc.IH [OF d] obtain c2 off2 where "rounds e ck k (n, ?c) = (Return (), (n, c2))" "send_iobuf c2 = []"
        "delivering i bytes h off2 (n, c2)" "off2 = length bytes \<or> off1 + 8192 * k \<le> off2"
        "endpoint_type c2 = EP_FILE \<longrightarrow> off2 < length bytes"
        using False by auto
      moreover from this(3) have "off2 \<le> length bytes" by (simp add: delivering_def)
      ultimately show ?thesis using r p(3) by auto
    qed
  qed (auto simp: prog_simps)
  then obtain c' off' where c': "rounds e ck k (n, c) = (Return (), (n, c'))" "0 < k \<longrightarrow> send_iobuf c' = []"
    "delivering i bytes h off' (n, c')" "off' = length bytes \<or> off + 8192 * k \<le> off'"
    "endpoint_type c' = EP_FILE \<longrightarrow> off' < length bytes \<or> k = 0" by auto
  have "off' \<le> length bytes" "off \<le> length bytes" using c'(3) assms(1) by (simp_all add: delivering_def)
  with assms(3) c'(4) have "off' = length bytes" "0 < k" by auto
  with c' show ?thesis by (auto simp: delivering_def)
qed

section \<open>The request for a segment\<close>

text \<open>The journal \<open>jid\<close> is registered, and its segment \<open>a\<close> is the file with these bytes.\<close>

definition has_segment :: "string \<Rightarrow> journal \<Rightarrow> int \<Rightarrow> string \<Rightarrow> string \<Rightarrow> node \<Rightarrow> bool" where
  "has_segment jid j a path bytes n \<longleftrightarrow> map_of (journalsById n) jid = Some j \<and> faults (n_fs n) = [] \<and>
     content (n_fs n) path = Some bytes \<and> path \<noteq> [] \<and> is_digit (last path) \<and> length path < 8192 \<and>
     (\<exists>elf. getLogFile (st_currentDir (storage j)) a (n_fs n) = (Return elf, n_fs n) \<and> fullFileName elf = path)"

text \<open>The node afterwards: the journal has seen the file system.\<close>

definition looked_at :: "string \<Rightarrow> journal \<Rightarrow> node \<Rightarrow> node" where
  "looked_at jid j n = n\<lparr>journalsById := put_journal jid (j\<lparr>jfs := n_fs n\<rparr>) (journalsById n)\<rparr>"

lemma map_of_put: "map_of (put_journal k j js) l = (if l = k then Some j else map_of js l)"
  by (induction k j js rule: put_journal.induct) auto

lemma send_reply_finds:
  assumes s: "has_segment jid j a path bytes n"
    and v: "mg_get_var (hr_query_string q) (hr_content q) ''jid'' 100 = (l1, jid)"
      "mg_get_var (hr_query_string q) (hr_content q) ''segmentTxId'' 100 = (l2, show_int a)"
      "mg_get_var (hr_query_string q) (hr_content q) ''storageInfo'' 500 = (l3, si)"
    and ok: "checkStorageInfo (storage j) si" "long_range a" "nul \<notin> set jid" "nul \<notin> set si"
  shows "send_reply e q n = (Return (SendFile path), looked_at jid j n)"
proof -
  from s obtain elf where elf: "getLogFile (st_currentDir (storage j)) a (n_fs n) = (Return elf, n_fs n)" "fullFileName elf = path"
    and n: "map_of (journalsById n) jid = Some j" "path \<noteq> []" by (auto simp: has_segment_def)
  have c: "c_str t = t" if "nul \<notin> set t" for t using that by (auto simp: c_str_def takeWhile_eq_all_conv)
  have "nul \<notin> set (show_int a)"
    using list_all_show_nat [of "nat a"] list_all_show_nat [of "nat (- a)"]
    by (auto simp: show_int_def list_all_iff nul_def is_digit_def code_def)
  note cs = c [OF this] c [OF ok(3)] c [OF ok(4)]
  have tx: "fst (strtol (show_int a)) = a" using strtol_show_int [OF ok(2), of "[]"] by simp
  have g: "getOrCreateJournal e jid n = (Return (), n)"
    by (simp add: getOrCreateJournal_def prog_simps n(1))
  show ?thesis
    unfolding send_reply_def Let_def v snd_conv cs tx
    using elf ok(1) n
    by (simp add: seq_def g on_journal_def prog_simps attempt_def on_fs_def isInitialized_def looked_at_def)
qed

text \<open>Headers that make no difference to a download.\<close>

definition plain_headers :: "(string \<times> string) list \<Rightarrow> bool" where
  "plain_headers hs \<longleftrightarrow> list_all (\<lambda>s. list_all (\<lambda>(x, v). mg_strcasecmp s x \<noteq> 0) hs)
     [''Range'', ''If-None-Match'', ''If-Modified-Since'', ''Expect'', ''Content-Length'', ''Sec-WebSocket-Version'']"

lemma get_header_none: "list_all (\<lambda>(x, v). mg_strcasecmp s x \<noteq> 0) (mc_headers c) \<Longrightarrow> mg_get_header c s = None"
  by (auto simp: mg_get_header_def list_all_iff find_None_iff)

lemma mg_send_file_opens:
  assumes s: "has_segment jid j a path bytes n" and h: "plain_headers (mc_headers (mg_conn c))"
    and i: "ino (n_fs n) path = Some i" and get: "mc_request_method (mg_conn c) = Some ''GET''"
  shows "\<exists>c'. mc_status_code (mg_conn c') = 200 \<and> cl c' = int (length bytes) \<and>
    mg_send_file e ck A path (n, c) = (Return (), (n, c\<lparr>endpoint_type := EP_FILE, endpoint := (i, 0),
      cl := int (length bytes), mg_conn := (mg_conn c)\<lparr>mc_status_code := 200\<rparr>,
      send_iobuf := send_iobuf c @ file_headers ck path (length bytes) ''OK'' [] c'\<rparr>))"
proof -
  let ?c = "c\<lparr>endpoint_type := EP_FILE, endpoint := (i, 0), cl := int (length bytes),
    mg_conn := (mg_conn c)\<lparr>mc_status_code := 200\<rparr>\<rparr>"
  have p: "faults (n_fs n) = []" "content (n_fs n) path = Some bytes" "path \<noteq> []" "is_digit (last path)" "length path < 8192"
    using s by (simp_all add: has_segment_def)
  have pat: "mg_match_prefix ''**.htpasswd$'' path = -1" "mg_match_prefix (or_null (config_option ''cgi_pattern'')) path = -1"
    "mg_match_prefix (or_null (config_option ''ssi_pattern'')) path = -1" by (rule plain_name_patterns [OF p(3,4)])+
  have "config_option ''hide_files_patterns'' = None" by code_simp
  then have hide: "\<not> must_hide_file path" using pat(1) by (simp add: must_hide_file_def)
  have path: "mg_snprintf 8192 path = path" using p(5) by (simp add: mg_snprintf_def)
  have nh: "mg_get_header (mg_conn c) ''If-None-Match'' = None" "mg_get_header (mg_conn c) ''If-Modified-Since'' = None"
    "mg_get_header (mg_conn ?c) ''Range'' = None"
    using h by (auto simp: plain_headers_def intro!: get_header_none)
  have st: "attempt (on_node_fs (sys_stat path)) (n, c) = (Return (Some (False, length bytes)), (n, c))"
    using p(1,2) by (simp add: attempt_def on_node_fs_def sys_stat_def prog_simps)
  have op: "attempt (on_node_fs (sys_open_read path)) (n, c) = (Return (Some i), (n, c))"
    using p(1) i by (simp add: attempt_def on_node_fs_def sys_open_read_def prog_simps)
  have oe: "open_file_endpoint ck path (length bytes) i (n, c) = (Return (), (n, ?c\<lparr>send_iobuf := send_iobuf c @
      file_headers ck path (length bytes) ''OK'' [] ?c\<rparr>))"
    using nh(3) get by (simp add: open_file_endpoint_def set_status_def conn_def prog_simps seq_def range_of_def
        ns_send_def iobuf_append_def)
  have nm: "\<not> is_not_modified c (st_mtime ck path) (length bytes)" by (simp add: is_not_modified_def nh)
  have "mg_send_file e ck A path (n, c) = open_file_endpoint ck path (length bytes) i (n, c)"
    unfolding mg_send_file_def mg_send_file_internal_def Let_def path conn_def
    by (simp add: prog_simps hide pat nm seq_Return st op)
  with oe show ?thesis by (intro exI [of _ ?c]) simp
qed

text \<open>What \<^verbatim>\<open>try_parse\<close> makes of one whole request in the buffer of a new connection.\<close>

definition parsed :: "string \<Rightarrow> string \<Rightarrow> string \<Rightarrow> string option \<Rightarrow> string \<Rightarrow> (string \<times> string) list \<Rightarrow> connection" where
  "parsed r method path q version hs = new_connection\<lparr>num_bytes_recv := int (length r), request_len := int (length r),
     mg_conn := reset_mg\<lparr>mc_request_method := Some method, mc_uri := Some (remove_double_dots_and_double_slashes path),
       mc_http_version := Some version, mc_query_string := q, mc_headers := hs\<rparr>\<rparr>"

lemma clean_getJournal: "remove_double_dots_and_double_slashes ''/getJournal'' = ''/getJournal''"
  by (rule cleaned_clean) (simp add: slash_def)

lemma try_parse_request:
  assumes g: "good_request method path q version hs" and h: "plain_headers hs"
    and r: "r = request_text method path q version hs"
  shows "try_parse (n, new_connection\<lparr>recv_iobuf := r, num_bytes_recv := int (length r)\<rparr>) = (Return (), (n, parsed r method path q version hs))"
proof -
  let ?ri = "reset_mg\<lparr>mc_request_method := Some method, mc_uri := Some (remove_double_dots_and_double_slashes path),
       mc_http_version := Some version, mc_query_string := q, mc_headers := hs\<rparr>"
  have len: "get_request_len r = int (length r)"
    using request_end_header_lines_text [OF g, of "[]"] r by simp
  have p: "parse_http_message r = (int (length r), ?ri)"
    unfolding r parse_request_text [OF g] ..
  have pos: "0 < length r" by (simp add: r request_text_def)
  have "mg_get_header ?ri ''Content-Length'' = None"
    using h by (intro get_header_none) (simp add: plain_headers_def)
  moreover have "iobuf_remove r (length r) = []" by (simp add: iobuf_remove_def pos)
  moreover have "u64 0 = 0" by simp
  ultimately show ?thesis
    using pos by (simp add: try_parse_def prog_simps new_connection_def len p parsed_def Let_def del: u64_id) (simp add: reset_mg_def)
qed

text \<open>A whole request in one packet goes to the user's endpoint.\<close>

lemma receive_any:
  assumes g: "good_request method path q version hs" "version = ''1.0'' \<or> version = ''1.1''" and h: "plain_headers hs"
    and r: "r = request_text method path q version hs"
  shows "mg_ev_handler e ck (NS_RECV r) (n, new_connection)
    = user_data e ck (on_recv_turns (Suc 0) e ck) (n, (parsed r method path q version hs)\<lparr>endpoint_type := EP_USER\<rparr>)"
proof -
  let ?p = "parsed r method path q version hs"
  let ?A = "on_recv_turns (Suc 0) e ck"
  have nh: "mg_get_header (mg_conn ?p) ''Expect'' = None" "mg_get_header (mg_conn ?p) ''Sec-WebSocket-Version'' = None"
    using h by (auto simp: plain_headers_def parsed_def intro!: get_header_none)
  have pos: "0 < length r" by (simp add: r request_text_def)
  have fields: "endpoint_type ?p = EP_NONE" "0 < request_len ?p"
    "mc_uri (mg_conn ?p) = Some (remove_double_dots_and_double_slashes path)"
    "mc_http_version (mg_conn ?p) = Some version"
    using pos by (simp_all add: parsed_def new_connection_def)
  have none: "?p\<lparr>endpoint_type := EP_NONE\<rparr> = ?p" by (simp add: parsed_def new_connection_def)
  have "take 1 path = ''/''" using g(1) by (simp add: good_request_def)
  then have uri: "is_valid_uri (remove_double_dots_and_double_slashes path)"
    by (cases path) (simp_all add: is_valid_uri_def char_at_def)
  have ex: "send_websocket_handshake_if_requested e ck (n, ?p) = (Return (), (n, ?p))"
    "send_continue_if_expected (n, ?p) = (Return (), (n, ?p))"
    by (simp_all add: send_websocket_handshake_if_requested_def send_continue_if_expected_def conn_def prog_simps nh)
  have ep: "open_local_endpoint e ck ?A False (n, ?p) = (Return (), (n, ?p\<lparr>endpoint_type := EP_USER\<rparr>))"
    unfolding open_local_endpoint_def by (simp add: prog_simps seq_Return call_user_quiet none)
  have v0: "(version \<noteq> ''1.0'' \<and> version \<noteq> ''1.1'') = False" using g(2) by blast
  have rl: "\<not> request_len ?p < 0" "request_len ?p \<noteq> 0" using fields(2) by simp_all
  have st: "seq (send_websocket_handshake_if_requested e ck) (\<lambda>_. seq send_continue_if_expected (\<lambda>_. open_local_endpoint e ck ?A False)) (n, ?p)
      = (Return (), (n, ?p\<lparr>endpoint_type := EP_USER\<rparr>))"
    by (simp add: seq_Return ex ep del: on_recv_turns.simps)
  have "mg_ev_handler e ck (NS_RECV r) (n, new_connection)
      = on_recv_step e ck ?A (n, new_connection\<lparr>recv_iobuf := r, num_bytes_recv := int (length r)\<rparr>)"
    by (simp add: mg_ev_handler_def prog_simps iobuf_append_def on_recv_data_def numeral_2_eq_2 new_connection_def del: on_recv_turns.simps(2))
      (simp add: prog_simps)
  also have "\<dots> = user_data e ck ?A (n, ?p\<lparr>endpoint_type := EP_USER\<rparr>)"
    unfolding on_recv_step_def conn_def
    by (simp add: prog_simps seq_Return try_parse_request [OF g(1) h r] fields uri or_null_def v0 rl st
        new_connection_def [THEN arg_cong, of endpoint_type] del: on_recv_turns.simps)
  finally show ?thesis .
qed

text \<open>Behind it stands the handler: the length of the body and the buffer stay as they are.\<close>

lemma user_data_parsed:
  "user_data e ck A (n, (parsed r method path q version hs)\<lparr>endpoint_type := EP_USER\<rparr>)
    = seq (call_request_handler e ck A) (\<lambda>res. if res = MG_FALSE then open_local_endpoint e ck A True else ret ())
        (n, (parsed r method path q version hs)\<lparr>endpoint_type := EP_USER\<rparr>)"
proof -
  let ?c = "(parsed r method path q version hs)\<lparr>endpoint_type := EP_USER\<rparr>"
  have z: "?c\<lparr>mg_conn := (mg_conn ?c)\<lparr>mc_content_len := int (length (recv_iobuf ?c))\<rparr>\<rparr> = ?c"
    by (simp add: parsed_def new_connection_def reset_mg_def)
  have rb: "iobuf_remove [] 0 = []" by (simp add: iobuf_remove_def)
  have "user_data e ck A (n, ?c) = call_request_handler_if_data_is_buffered e ck A (n, ?c)"
    unfolding user_data_def
    by (simp add: seq_upd_snd z seq_Return call_user_quiet mg_result_int_def) (simp add: parsed_def new_connection_def rb reset_mg_def)
  moreover have "\<not> mc_is_websocket (mg_conn ?c)" "cl ?c + request_len ?c \<le> num_bytes_recv ?c"
    by (simp_all add: parsed_def reset_mg_def new_connection_def)
  ultimately show ?thesis
    by (simp add: call_request_handler_if_data_is_buffered_def conn_def prog_simps)
qed

lemma request_of_parsed:
  "request_of ((parsed r method path q version hs)\<lparr>endpoint_type := EP_USER\<rparr>) =
    \<lparr>hr_uri = remove_double_dots_and_double_slashes path, hr_query_string = q, hr_content = Some []\<rparr>"
  by (simp add: request_of_def parsed_def new_connection_def)

lemma call_user_getJournal:
  assumes "send_reply e \<lparr>hr_uri = ''/getJournal'', hr_query_string = q, hr_content = Some []\<rparr> n = (Return rep, n')"
  shows "call_user e MG_REQUEST (n, (parsed r method ''/getJournal'' q version hs)\<lparr>endpoint_type := EP_USER\<rparr>)
    = (Return (case rep of Status _ \<Rightarrow> MG_TRUE | SendFile _ \<Rightarrow> MG_MORE, Some rep),
       (n', (parsed r method ''/getJournal'' q version hs)\<lparr>endpoint_type := EP_USER\<rparr>))"
  using assms
  by (simp add: call_user_def conn_def prog_simps on_fst_def ev_handler_def request_of_parsed clean_getJournal seq_Return
      del: remove_double_dots_and_double_slashes.simps split: http_reply.splits)

lemma receive_request:
  assumes g: "good_request ''GET'' ''/getJournal'' (Some q) version hs" "version = ''1.0'' \<or> version = ''1.1''"
    and s: "has_segment jid j a path bytes n" and h: "plain_headers hs" and i: "ino (n_fs n) path = Some i"
    and v: "mg_get_var (Some q) (Some []) ''jid'' 100 = (l1, jid)"
      "mg_get_var (Some q) (Some []) ''segmentTxId'' 100 = (l2, show_int a)"
      "mg_get_var (Some q) (Some []) ''storageInfo'' 500 = (l3, si)"
    and ok: "checkStorageInfo (storage j) si" "long_range a" "nul \<notin> set jid" "nul \<notin> set si"
    and r: "r = request_text ''GET'' ''/getJournal'' (Some q) version hs"
  shows "\<exists>c c'. mc_status_code (mg_conn c') = 200 \<and> cl c' = int (length bytes) \<and>
    mg_ev_handler e ck (NS_RECV r) (n, new_connection) = (Return (), (looked_at jid j n, c)) \<and>
    delivering i bytes (file_headers ck path (length bytes) ''OK'' [] c') 0 (looked_at jid j n, c) \<and>
    endpoint_type c = EP_FILE \<and> length (send_iobuf c) < 500 \<and>
    \<not> finished_sending c \<and> \<not> close_immediately c \<and> \<not> mc_is_websocket (mg_conn c)"
proof -
  let ?c = "(parsed r ''GET'' ''/getJournal'' (Some q) version hs)\<lparr>endpoint_type := EP_USER\<rparr>"
  let ?A = "on_recv_turns (Suc 0) e ck"
  have "send_reply e \<lparr>hr_uri = ''/getJournal'', hr_query_string = Some q, hr_content = Some []\<rparr> n
      = (Return (SendFile path), looked_at jid j n)"
    by (rule send_reply_finds [OF s _ _ _ ok]) (simp_all add: v)
  from call_user_getJournal [OF this]
  have u: "call_user e MG_REQUEST (n, ?c) = (Return (MG_MORE, Some (SendFile path)), (looked_at jid j n, ?c))" by simp
  have s': "has_segment jid (j\<lparr>jfs := n_fs n\<rparr>) a path bytes (looked_at jid j n)" "ino (n_fs (looked_at jid j n)) path = Some i"
    using s i by (auto simp: has_segment_def looked_at_def map_of_put)
  let ?c2 = "\<lambda>c'. ?c\<lparr>endpoint_type := EP_FILE, endpoint := (i, 0),
      cl := int (length bytes), mg_conn := (mg_conn ?c)\<lparr>mc_status_code := 200\<rparr>,
      send_iobuf := send_iobuf ?c @ file_headers ck path (length bytes) ''OK'' [] c'\<rparr>"
  obtain c' where f: "mc_status_code (mg_conn c') = 200" "cl c' = int (length bytes)"
    "mg_send_file e ck ?A path (looked_at jid j n, ?c) = (Return (), (looked_at jid j n, ?c2 c'))"
    using mg_send_file_opens [OF s'(1) _ s'(2), of ?c e ck ?A] h by (auto simp: parsed_def)
  have "mg_ev_handler e ck (NS_RECV r) (n, new_connection) = (Return (), (looked_at jid j n, ?c2 c'))"
    unfolding receive_any [OF g h r] user_data_parsed call_request_handler_def
    by (simp add: seq_Return prog_simps u perform_def f(3) del: on_recv_turns.simps)
  moreover have fc: "wire (?c2 c') = []" "send_iobuf (?c2 c') = file_headers ck path (length bytes) ''OK'' [] c'"
    by (simp_all add: parsed_def new_connection_def)
  then have "delivering i bytes (file_headers ck path (length bytes) ''OK'' [] c') 0 (looked_at jid j n, ?c2 c')"
    using f s i by (auto simp: delivering_def has_segment_def looked_at_def content_def)
  moreover have "length (send_iobuf (?c2 c')) < 500" unfolding fc(2) by (simp only: file_headers_def mg_snprintf_def length_take)
  moreover have "\<not> finished_sending (?c2 c')" "\<not> close_immediately (?c2 c')" "\<not> mc_is_websocket (mg_conn (?c2 c'))"
    by (simp_all add: parsed_def new_connection_def reset_mg_def)
  ultimately show ?thesis using f(1,2) by (intro exI [of _ "?c2 c'"] exI [of _ c'] conjI) simp_all
qed

text \<open>
  A client that asks for segment \<open>a\<close> of \<open>jid\<close>: the three variables, encoded, anywhere in the query,
  and headers that ask for the whole file.
\<close>

definition fetches :: "nat \<Rightarrow> (string \<times> string) list \<Rightarrow> string \<Rightarrow> (string \<times> string) list \<Rightarrow> string \<Rightarrow> int \<Rightarrow> string \<Rightarrow> bool" where
  "fetches m vars version hs jid a si \<longleftrightarrow>
     good_request ''GET'' ''/getJournal'' (Some (query_text m vars)) version hs \<and>
     (version = ''1.0'' \<or> version = ''1.1'') \<and> plain_headers hs \<and>
     list_all (\<lambda>(x, v). var_name x \<and> 3 * length v + 1 < m) vars \<and> distinct (map (\<lambda>(x, v). map tolower x) vars) \<and>
     (''jid'', jid) \<in> set vars \<and> (''segmentTxId'', show_int a) \<in> set vars \<and> (''storageInfo'', si) \<in> set vars \<and>
     length jid < 100 \<and> length si < 500 \<and> long_range a \<and> nul \<notin> set jid \<and> nul \<notin> set si"

definition fetch_text :: "nat \<Rightarrow> (string \<times> string) list \<Rightarrow> string \<Rightarrow> (string \<times> string) list \<Rightarrow> string" where
  "fetch_text m vars version hs = request_text ''GET'' ''/getJournal'' (Some (query_text m vars)) version hs"

lemma length_show_long:
  assumes "long_range a"
  shows "length (show_int a) < 100"
proof -
  have "nat \<bar>a\<bar> < 10 ^ 20" using assms by (auto simp: long_range_def)
  from show_nat_length [OF this] show ?thesis by (simp add: show_int_def abs_if split: if_splits)
qed

lemma fetch_vars:
  assumes f: "fetches m vars version hs jid a si"
  shows "mg_get_var (Some (query_text m vars)) (Some []) ''jid'' 100 = (int (length jid), jid)"
    "mg_get_var (Some (query_text m vars)) (Some []) ''segmentTxId'' 100 = (int (length (show_int a)), show_int a)"
    "mg_get_var (Some (query_text m vars)) (Some []) ''storageInfo'' 500 = (int (length si), si)"
proof -
  have v: "mg_get_var (Some (query_text m vars)) (Some []) x k = (int (length v), v)"
    if "(x, v) \<in> set vars" "length v < k" for x v k
    using f by (intro query_variable that) (simp_all add: fetches_def)
  have "(''jid'', jid) \<in> set vars" "(''segmentTxId'', show_int a) \<in> set vars" "(''storageInfo'', si) \<in> set vars"
    "length jid < 100" "length si < 500" "length (show_int a) < 100"
    using f length_show_long by (simp_all add: fetches_def)
  then show "mg_get_var (Some (query_text m vars)) (Some []) ''jid'' 100 = (int (length jid), jid)"
    "mg_get_var (Some (query_text m vars)) (Some []) ''segmentTxId'' 100 = (int (length (show_int a)), show_int a)"
    "mg_get_var (Some (query_text m vars)) (Some []) ''storageInfo'' 500 = (int (length si), si)"
    using v by blast+
qed

lemma receive_fetch:
  assumes f: "fetches m vars version hs jid a si" and s: "has_segment jid j a path bytes n"
    and ok: "checkStorageInfo (storage j) si"
  shows "\<exists>i c c'. mc_status_code (mg_conn c') = 200 \<and> cl c' = int (length bytes) \<and>
    mg_ev_handler e ck (NS_RECV (fetch_text m vars version hs)) (n, new_connection) = (Return (), (looked_at jid j n, c)) \<and>
    delivering i bytes (file_headers ck path (length bytes) ''OK'' [] c') 0 (looked_at jid j n, c) \<and>
    endpoint_type c = EP_FILE \<and> length (send_iobuf c) < 500 \<and>
    \<not> finished_sending c \<and> \<not> close_immediately c \<and> \<not> mc_is_websocket (mg_conn c)"
proof -
  have p: "good_request ''GET'' ''/getJournal'' (Some (query_text m vars)) version hs" "version = ''1.0'' \<or> version = ''1.1''"
    "plain_headers hs" "long_range a" "nul \<notin> set jid" "nul \<notin> set si"
    using f by (simp_all add: fetches_def)
  note vs = fetch_vars [OF f]
  obtain i where "ino (n_fs n) path = Some i" using s by (auto simp: has_segment_def content_def)
  from receive_request [OF p(1,2) s p(3) this vs ok p(4-6) refl, of e ck] show ?thesis
    unfolding fetch_text_def by blast
qed

text \<open>
  C19. A download is the file, byte for byte. After a request for a segment that the node has, in
  whatever order the poll loop turns and the socket takes bytes, what is on the wire and in the
  buffer is the headers of the reply and then the file up to some position, nothing lost, doubled
  or out of order, and all of it once the endpoint is closed; the node's files are not touched.
\<close>

theorem download_is_exact:
  assumes "fetches m vars version hs jid a si" "has_segment jid j a path bytes n"
    and "checkStorageInfo (storage j) si" "list_all no_receive evs"
  shows "\<exists>c c' off. run_events e ck (NS_RECV (fetch_text m vars version hs) # evs) (n, new_connection)
      = (Return (), (looked_at jid j n, c)) \<and> mc_status_code (mg_conn c') = 200 \<and>
    wire c @ send_iobuf c = file_headers ck path (length bytes) ''OK'' [] c' @ take off bytes \<and>
    (endpoint_type c = EP_FILE \<or> length bytes \<le> off)"
proof -
  obtain i c c' where r: "mc_status_code (mg_conn c') = 200"
    "mg_ev_handler e ck (NS_RECV (fetch_text m vars version hs)) (n, new_connection) = (Return (), (looked_at jid j n, c))"
    "delivering i bytes (file_headers ck path (length bytes) ''OK'' [] c') 0 (looked_at jid j n, c)"
    using receive_fetch [OF assms(1-3), of e ck] by blast
  from delivering_events [OF r(3) assms(4), of e ck] obtain c1 off where
    "run_events e ck evs (looked_at jid j n, c) = (Return (), (looked_at jid j n, c1))"
    "delivering i bytes (file_headers ck path (length bytes) ''OK'' [] c') off (looked_at jid j n, c1)" by blast
  then show ?thesis using r(1,2)
    by (intro exI [of _ c1] exI [of _ c'] exI [of _ off]) (simp add: seq_Return delivering_def split: if_splits)
qed

text \<open>
  C18. A download completes. When the poll loop turns often enough, and the socket takes what is
  buffered, all of the file is on the wire behind its headers and the connection has let go of it:
  one round for every 8192 bytes, and one more.
\<close>

theorem download_completes:
  assumes "fetches m vars version hs jid a si" "has_segment jid j a path bytes n"
    and "checkStorageInfo (storage j) si" "length bytes div 8192 < k"
  shows "\<exists>c c'. seq (mg_ev_handler e ck (NS_RECV (fetch_text m vars version hs))) (\<lambda>_. rounds e ck k) (n, new_connection)
      = (Return (), (looked_at jid j n, c)) \<and> mc_status_code (mg_conn c') = 200 \<and> cl c' = int (length bytes) \<and>
    wire c = file_headers ck path (length bytes) ''OK'' [] c' @ bytes \<and> send_iobuf c = [] \<and> endpoint_type c \<noteq> EP_FILE"
proof -
  obtain i c c' where r: "mc_status_code (mg_conn c') = 200" "cl c' = int (length bytes)"
    "mg_ev_handler e ck (NS_RECV (fetch_text m vars version hs)) (n, new_connection) = (Return (), (looked_at jid j n, c))"
    "delivering i bytes (file_headers ck path (length bytes) ''OK'' [] c') 0 (looked_at jid j n, c)"
    "length (send_iobuf c) < 500"
    using receive_fetch [OF assms(1-3), of e ck] by blast
  have "length bytes < 0 + 8192 * k" using assms(4) by (simp add: div_less_iff_less_mult)
  with rounds_deliver [OF r(4), of k e ck] r(1-3,5) show ?thesis by (auto simp: seq_Return)
qed

section \<open>Refusals\<close>

lemma send_reply_refuses:
  assumes n: "map_of (journalsById n) jid = Some j"
    and v: "mg_get_var (hr_query_string q) (hr_content q) ''jid'' 100 = (l1, jid)"
      "mg_get_var (hr_query_string q) (hr_content q) ''segmentTxId'' 100 = (l2, show_int a)"
      "mg_get_var (hr_query_string q) (hr_content q) ''storageInfo'' 500 = (l3, si)"
    and ok: "long_range a" "nul \<notin> set jid" "nul \<notin> set si"
    and g: "attempt (getLogFile (st_currentDir (storage j)) a) (n_fs n) = (Return found_log, n_fs n)"
      "\<forall>elf. found_log = Some elf \<longrightarrow> \<not> isInitialized elf"
  shows "send_reply e q n = (Return (Status (if checkStorageInfo (storage j) si then 404 else 412)), looked_at jid j n)"
proof -
  have c: "c_str t = t" if "nul \<notin> set t" for t using that by (auto simp: c_str_def takeWhile_eq_all_conv)
  have "nul \<notin> set (show_int a)"
    using list_all_show_nat [of "nat a"] list_all_show_nat [of "nat (- a)"]
    by (auto simp: show_int_def list_all_iff nul_def is_digit_def code_def)
  note cs = c [OF this] c [OF ok(2)] c [OF ok(3)]
  have tx: "fst (strtol (show_int a)) = a" using strtol_show_int [OF ok(1), of "[]"] by simp
  have gc: "getOrCreateJournal e jid n = (Return (), n)"
    by (simp add: getOrCreateJournal_def prog_simps n)
  have at: "attempt (on_fs (getLogFile (st_currentDir (storage j)) a)) (j\<lparr>jfs := n_fs n\<rparr>) = (Return found_log, j\<lparr>jfs := n_fs n\<rparr>)"
    using g(1) by (auto simp: attempt_def on_fs_def split: prod.splits result.splits)
  show ?thesis
    unfolding send_reply_def Let_def v snd_conv cs tx
    using g(2) n
    by (cases found_log) (simp_all add: seq_def gc on_journal_def prog_simps looked_at_def at attempt_def [of "getOrCreateJournal e jid"])
qed

text \<open>The reply of the handler without a file: the terminating chunk is sent twice.\<close>

definition status_reply :: "int \<Rightarrow> string" where
  "status_reply st = status_line st @ ''Transfer-Encoding: chunked'' @ crlf @ crlf @ ''0'' @ crlf @ crlf @ ''0'' @ crlf @ crlf"

lemma mg_printf_short: "0 < length text \<Longrightarrow> length text < 500 \<Longrightarrow> mg_printf text = ns_send text"
  by (simp add: mg_printf_def ns_vprintf_def ns_avprintf_def)

lemma short_status_lines: "length (status_line 404) = 24" "length (status_line 412) = 34"
  by (code_simp)+

lemma perform_status:
  assumes c: "mc_status_code (mg_conn c) = 0" "\<not> headers_sent c" and st: "st = 404 \<or> st = 412"
    and A: "\<And>n c. A (n, reset_connection c) = (Return (), (n, reset_connection c))"
    and u: "call_user e MG_REQUEST (n, c) = (Return (MG_TRUE, Some (Status st)), (m, c))"
  shows "\<exists>c'. call_request_handler e ck A (n, c) = (Return MG_TRUE, (m, closed_endpoint c')) \<and>
    send_iobuf c' = send_iobuf c @ status_reply st"
proof -
  have b: "mg_snprintf 50 (show_base16 ''0123456789ABCDEF'' 0 @ crlf) = ''0'' @ crlf"
    by (simp add: mg_snprintf_def show_base16.simps crlf_def)
  have short: "mg_printf (status_line st) = ns_send (status_line st)"
    "mg_printf (''Transfer-Encoding'' @ '': '' @ ''chunked'' @ crlf) = ns_send (''Transfer-Encoding'' @ '': '' @ ''chunked'' @ crlf)"
    using st short_status_lines by (auto simp: crlf_def status_line_def intro!: mg_printf_short)
  let ?c = "c\<lparr>mg_conn := (mg_conn c)\<lparr>mc_status_code := st\<rparr>, headers_sent := True, send_iobuf := send_iobuf c @ status_reply st\<rparr>"
  have "call_request_handler e ck A (n, c) = (Return MG_TRUE, (m, closed_endpoint ?c))"
    using c st short
    by (auto simp: call_request_handler_def seq_Return u perform_def mg_send_status_def mg_send_data_def terminate_headers_def
        mg_send_header_def write_chunk_def write_terminating_chunk_def set_status_def conn_def prog_simps seq_assoc
        ns_send_def iobuf_append_def b close_local_endpoint_run [OF A] status_reply_def)
  then show ?thesis by (intro exI [of _ ?c]) simp
qed

text \<open>
  C32. A request for a segment that the node does not have, or with the wrong storage information, is
  refused with 404 or 412, and the connection is done with it. The reply ends with its terminating
  chunk twice: the handler sends it as an empty chunk, and the server sends it again.
\<close>

theorem refused_download_reply:
  assumes f: "fetches m vars version hs jid a si" and n: "map_of (journalsById n) jid = Some j"
    and g: "attempt (getLogFile (st_currentDir (storage j)) a) (n_fs n) = (Return found_log, n_fs n)"
      "\<forall>elf. found_log = Some elf \<longrightarrow> \<not> isInitialized elf"
  shows "\<exists>c. mg_ev_handler e ck (NS_RECV (fetch_text m vars version hs)) (n, new_connection) = (Return (), (looked_at jid j n, c)) \<and>
    send_iobuf c = status_reply (if checkStorageInfo (storage j) si then 404 else 412) \<and> endpoint_type c = EP_NONE"
proof -
  have p: "good_request ''GET'' ''/getJournal'' (Some (query_text m vars)) version hs" "version = ''1.0'' \<or> version = ''1.1''"
    "plain_headers hs" "long_range a" "nul \<notin> set jid" "nul \<notin> set si"
    using f by (simp_all add: fetches_def)
  let ?q = "\<lparr>hr_uri = ''/getJournal'', hr_query_string = Some (query_text m vars), hr_content = Some []\<rparr>"
  let ?st = "if checkStorageInfo (storage j) si then 404 else 412 :: int"
  have "send_reply e ?q n = (Return (Status ?st), looked_at jid j n)"
    by (rule send_reply_refuses [OF n _ _ _ p(4-6) g]) (simp_all add: fetch_vars [OF f])
  from call_user_getJournal [OF this]
  have u: "call_user e MG_REQUEST (n, (parsed r ''GET'' ''/getJournal'' (Some (query_text m vars)) version hs)\<lparr>endpoint_type := EP_USER\<rparr>)
    = (Return (MG_TRUE, Some (Status ?st)), (looked_at jid j n, (parsed r ''GET'' ''/getJournal'' (Some (query_text m vars)) version hs)\<lparr>endpoint_type := EP_USER\<rparr>))"
    for r by (simp del: if_splits)
  let ?r = "fetch_text m vars version hs"
  let ?c = "(parsed ?r ''GET'' ''/getJournal'' (Some (query_text m vars)) version hs)\<lparr>endpoint_type := EP_USER\<rparr>"
  have c0: "mc_status_code (mg_conn ?c) = 0" "\<not> headers_sent ?c" "send_iobuf ?c = []"
    by (simp_all add: parsed_def new_connection_def reset_mg_def)
  have "\<exists>c'. call_request_handler e ck (on_recv_turns (Suc 0) e ck) (n, ?c) = (Return MG_TRUE, (looked_at jid j n, closed_endpoint c')) \<and>
    send_iobuf c' = send_iobuf ?c @ status_reply ?st"
    by (rule perform_status [OF c0(1,2) _ _ u]) (simp_all add: on_recv_turns_idle del: on_recv_turns.simps)
  then obtain c' where c': "call_request_handler e ck (on_recv_turns (Suc 0) e ck) (n, ?c) = (Return MG_TRUE, (looked_at jid j n, closed_endpoint c'))"
    "send_iobuf c' = status_reply ?st" using c0(3) by auto
  have "mg_ev_handler e ck (NS_RECV ?r) (n, new_connection) = (Return (), (looked_at jid j n, closed_endpoint c'))"
    unfolding receive_any [OF p(1-3) fetch_text_def] user_data_parsed
    by (simp add: seq_Return c'(1) prog_simps del: on_recv_turns.simps)
  then show ?thesis using c'(2) by (intro exI [of _ "closed_endpoint c'"]) (simp add: closed_endpoint_def Let_def)
qed

text \<open>
  Any other path is answered with 404 and a body that says so, whatever is asked for there, and
  neither the journals nor a file of the node change.
\<close>

theorem other_paths_are_not_found:
  assumes g: "good_request method path q version hs" "version = ''1.0'' \<or> version = ''1.1''" "plain_headers hs"
    and p: "remove_double_dots_and_double_slashes path \<noteq> ''/getJournal''" "method \<noteq> ''CONNECT''" "method \<noteq> ''OPTIONS''"
  shows "\<exists>c. mg_ev_handler e ck (NS_RECV (request_text method path q version hs)) (n, new_connection) = (Return (), (n, c)) \<and>
    send_iobuf c = ''HTTP/1.1 404 Not Found'' @ crlf @ ''Content-Length: 14'' @ crlf @ ''Content-Type: text/plain'' @ crlf @ crlf @
      ''404 Not Found'' @ [newline] \<and> endpoint_type c = EP_NONE"
proof -
  let ?r = "request_text method path q version hs"
  let ?c = "(parsed ?r method path q version hs)\<lparr>endpoint_type := EP_USER\<rparr>"
  let ?A = "on_recv_turns (Suc 0) e ck"
  let ?h = "''HTTP/1.1 404 Not Found'' @ crlf @ ''Content-Length: 14'' @ crlf @ ''Content-Type: text/plain'' @ crlf @ crlf"
  have u: "call_user e MG_REQUEST (n, ?c) = (Return (MG_FALSE, None), (n, ?c))"
    using p(1) by (simp add: call_user_def conn_def prog_simps on_fst_def ev_handler_def request_of_parsed
        del: remove_double_dots_and_double_slashes.simps)
  have he: "call_user e MG_HTTP_ERROR s = (Return (MG_FALSE, None), s)" for s
    by (cases s) (simp add: call_user_def conn_def ev_handler_def on_fst_def prog_simps)
  have hd: "call_request_handler e ck ?A (n, ?c) = (Return MG_FALSE, (n, ?c))"
    by (simp add: call_request_handler_def seq_Return u perform_def prog_simps del: on_recv_turns.simps)
  have cl: "close_local_endpoint ?A (n, c) = (Return (), (n, closed_endpoint c))" for c
    by (rule close_local_endpoint_run) (rule on_recv_turns_idle)
  have opts: "config_option ''document_root'' = None" "options_of ''url_rewrites'' = []" by code_simp+
  have st: "mg_snprintf 200 (show_int 404 @ '' '' @ status_code_to_str 404 @ [newline]) = ''404 Not Found'' @ [newline]"
    "mg_snprintf 200 (status_line 404 @ ''Content-Length: '' @ show_int (int (length (''404 Not Found'' @ [newline]))) @ crlf @
      ''Content-Type: text/plain'' @ crlf @ crlf) = ?h"
    by code_simp+
  have er: "send_http_error e ?A 404 (n, c) = (Return (), (n, closed_endpoint (c\<lparr>mg_conn := (mg_conn c)\<lparr>mc_status_code := 404\<rparr>,
      send_iobuf := send_iobuf c @ ?h @ ''404 Not Found'' @ [newline]\<rparr>)))" for c
    unfolding send_http_error_def Let_def
    by (simp add: set_status_def prog_simps seq_Return he opts(2) ns_send_def iobuf_append_def cl st [simplified] del: on_recv_turns.simps)
  have m: "mc_request_method (mg_conn (parsed ?r method path q version hs)) = Some method"
    "mc_uri (mg_conn (parsed ?r method path q version hs)) = Some (remove_double_dots_and_double_slashes path)"
    by (simp_all add: parsed_def)
  have "take 1 path = ''/''" using g(1) by (simp add: good_request_def)
  then have http: "mg_strncasecmp (remove_double_dots_and_double_slashes path) ''http'' 4 \<noteq> 0"
    by (cases path) (simp_all add: char_at_def tolower_def code_def numeral_eq_Suc)
  have "open_local_endpoint e ck ?A True (n, ?c) = send_http_error e ?A 404 (n, ?c\<lparr>endpoint_type := EP_NONE\<rparr>)"
    using p(2,3) unfolding open_local_endpoint_def conn_def
    by (simp add: prog_simps seq_Return call_user_quiet m http opts(1) or_null_def
        del: on_recv_turns.simps remove_double_dots_and_double_slashes.simps)
  then have "mg_ev_handler e ck (NS_RECV ?r) (n, new_connection) = send_http_error e ?A 404 (n, ?c\<lparr>endpoint_type := EP_NONE\<rparr>)"
    unfolding receive_any [OF g refl] user_data_parsed by (simp add: seq_Return hd prog_simps del: on_recv_turns.simps)
  moreover have "send_iobuf ?c = []" by (simp add: parsed_def new_connection_def)
  ultimately show ?thesis by (simp add: er closed_endpoint_def Let_def del: on_recv_turns.simps)
qed

section \<open>Witnesses\<close>

text \<open>A node with one journal and one finalized segment, and a request for it.\<close>

definition ex_path :: string where "ex_path = getFinalizedEditsFile ''/j/current'' 1 1"

definition ex_bytes :: string where "ex_bytes = header (-57) @ encode_op (\<lambda>_. 0) 1 ''abc''"

definition ex_fs :: fs where
  "ex_fs = \<lparr>dents = [(ex_path, 0)], data = (\<lambda>_. ex_bytes), next_ino = 1, dirs = [''/j'', ''/j/current''], fds = [], faults = []\<rparr>"

definition ex_journal :: journal where
  "ex_journal = (new_journal ex_fs ''/j'')\<lparr>storage := (new_storage ''/j'')\<lparr>namespaceID := 7, clusterID := ''c''\<rparr>\<rparr>"

definition ex_node :: node where
  "ex_node = (mk_JournalNode ex_fs (\<lambda>_. []))\<lparr>journalsById := [(''j'', ex_journal)]\<rparr>"

definition ex_clock :: clock where "ex_clock = \<lparr>now = 1410850060, st_mtime = (\<lambda>_. 1410850000),
     stack = \<lparr>sha_state = [], sha_count0 = 0, sha_count1 = 0, sha_buffer = replicate 64 nul\<rparr>\<rparr>"

definition no_env :: env where
  "no_env = \<lparr>pb_serialize = (\<lambda>_. None), pb_parse = (\<lambda>_. None), load_properties = (\<lambda>_ _. []), http_get = (\<lambda>_. Threw [])\<rparr>"

definition ex_vars :: "(string \<times> string) list" where
  "ex_vars = [(''jid'', ''j''), (''segmentTxId'', show_int 1), (''storageInfo'', ''-57:7:0:c'')]"

lemma ex_getLogFile:
  "getLogFile ''/j/current'' 1 ex_fs = (Return (mk_EditLogFile ex_path 1 1 False), ex_fs)"
proof -
  let ?n = "getFinalizedEditsFileName 1 1"
  have "leaf ''/j/current'' ex_path = Some ?n" unfolding ex_path_def by code_simp
  then have l: "sys_list ''/j/current'' ex_fs = (Return [?n], ex_fs)"
    by (simp add: sys_list_def prog_simps ex_fs_def is_dir_def map_filter_simps)
  have "matchEditLog ''/j/current'' ?n = Some (mk_EditLogFile ex_path 1 1 False)"
    unfolding ex_path_def by (rule matchEditLog_finalized) (simp_all add: long_range_def)
  then show ?thesis
    by (simp add: getLogFile_def matchEditLogs_def GetFilesInDirectory_def seq_def l prog_simps map_filter_simps)
      (simp add: mk_EditLogFile_def prog_simps)
qed

lemma ex_has_segment: "has_segment ''j'' ex_journal 1 ex_path ex_bytes ex_node"
proof -
  have n: "n_fs ex_node = ex_fs" "map_of (journalsById ex_node) ''j'' = Some ex_journal"
    "st_currentDir (storage ex_journal) = ''/j/current''" "faults ex_fs = []"
    by (simp_all add: ex_node_def mk_JournalNode_def Let_def ex_journal_def new_storage_def ex_fs_def)
  have "content ex_fs ex_path = Some ex_bytes" by (simp add: content_def ino_def ex_fs_def)
  moreover have "ex_path \<noteq> [] \<and> is_digit (last ex_path) \<and> length ex_path < 8192" by code_simp
  ultimately show ?thesis
    by (simp add: has_segment_def n ex_getLogFile) (simp add: mk_EditLogFile_def)
qed

lemma ex_check: "checkStorageInfo (storage ex_journal) ''-57:7:0:c''"
  by code_simp

lemma ex_fetches: "fetches 100 ex_vars ''1.1'' [(''Host'', ''n1'')] ''j'' 1 ''-57:7:0:c''"
  by code_simp

theorem download_is_exact_witness:
  "\<exists>c c' off. run_events no_env ex_clock (NS_RECV (fetch_text 100 ex_vars ''1.1'' [(''Host'', ''n1'')]) # [NS_SEND 5, NS_POLL, NS_SEND 100]) (ex_node, new_connection)
      = (Return (), (looked_at ''j'' ex_journal ex_node, c)) \<and> mc_status_code (mg_conn c') = 200 \<and>
    wire c @ send_iobuf c = file_headers ex_clock ex_path (length ex_bytes) ''OK'' [] c' @ take off ex_bytes \<and>
    (endpoint_type c = EP_FILE \<or> length ex_bytes \<le> off)"
  by (rule download_is_exact [OF ex_fetches ex_has_segment ex_check]) (simp add: no_receive_def)

theorem download_completes_witness:
  "\<exists>c c'. seq (mg_ev_handler no_env ex_clock (NS_RECV (fetch_text 100 ex_vars ''1.1'' [(''Host'', ''n1'')])))
        (\<lambda>_. rounds no_env ex_clock 1) (ex_node, new_connection)
      = (Return (), (looked_at ''j'' ex_journal ex_node, c)) \<and> mc_status_code (mg_conn c') = 200 \<and> cl c' = int (length ex_bytes) \<and>
    wire c = file_headers ex_clock ex_path (length ex_bytes) ''OK'' [] c' @ ex_bytes \<and> send_iobuf c = [] \<and> endpoint_type c \<noteq> EP_FILE"
proof (rule download_completes [OF ex_fetches ex_has_segment ex_check])
  show "length ex_bytes div 8192 < 1" by (simp add: ex_bytes_def)
qed

theorem refused_download_reply_witness:
  "\<exists>c. mg_ev_handler no_env ex_clock (NS_RECV (fetch_text 100 ex_vars ''1.1'' [(''Host'', ''n1'')]))
      ((mk_JournalNode ex_fs (\<lambda>_. []))\<lparr>journalsById := [(''j'', new_journal ex_fs ''/k'')]\<rparr>, new_connection)
    = (Return (), (looked_at ''j'' (new_journal ex_fs ''/k'') ((mk_JournalNode ex_fs (\<lambda>_. []))\<lparr>journalsById := [(''j'', new_journal ex_fs ''/k'')]\<rparr>), c)) \<and>
    send_iobuf c = status_reply 412 \<and> endpoint_type c = EP_NONE"
proof -
  let ?n = "(mk_JournalNode ex_fs (\<lambda>_. []))\<lparr>journalsById := [(''j'', new_journal ex_fs ''/k'')]\<rparr>"
  have n: "map_of (journalsById ?n) ''j'' = Some (new_journal ex_fs ''/k'')" by simp
  have "faults ex_fs = []" "\<not> is_dir ex_fs ''/k/current''" by (simp_all add: ex_fs_def is_dir_def)
  then have g: "attempt (getLogFile (st_currentDir (storage (new_journal ex_fs ''/k''))) 1) (n_fs ?n) = (Return None, n_fs ?n)"
    by (simp add: mk_JournalNode_def Let_def new_journal_def new_storage_def attempt_def getLogFile_def matchEditLogs_def
        GetFilesInDirectory_def sys_list_def seq_def prog_simps)
  have "\<not> checkStorageInfo (storage (new_journal ex_fs ''/k'')) ''-57:7:0:c''" by code_simp
  then show ?thesis using refused_download_reply [OF ex_fetches n g, of no_env ex_clock] by simp
qed

theorem other_paths_are_not_found_witness:
  "\<exists>c. mg_ev_handler no_env ex_clock (NS_RECV (request_text ''GET'' ''/a'' None ''1.0'' [])) (ex_node, new_connection) = (Return (), (ex_node, c)) \<and>
    send_iobuf c = ''HTTP/1.1 404 Not Found'' @ crlf @ ''Content-Length: 14'' @ crlf @ ''Content-Type: text/plain'' @ crlf @ crlf @
      ''404 Not Found'' @ [newline] \<and> endpoint_type c = EP_NONE"
proof (rule other_paths_are_not_found)
  show "good_request ''GET'' ''/a'' None ''1.0'' []" by code_simp
qed (simp_all add: plain_headers_def slash_def)

end
