(* ===== verification/Formats.thy ===== *)
theory Formats
  imports Edit_Logs Long_Files
begin

text \<open>
  What is printed is read back: the names of segments, addresses, integers in a byte stream,
  transactions, and the numbers in the small files; and what is not read back, because a file
  is torn, because a length in it is negative, or because of how it is read.
\<close>

section \<open>Names and addresses\<close>

lemma finalized_name_inj:
  assumes "getFinalizedEditsFileName a b = getFinalizedEditsFileName a' b'"
    and r: "0 \<le> a" "long_range a" "0 \<le> b" "long_range b" "0 \<le> a'" "long_range a'" "0 \<le> b'" "long_range b'"
  shows "a = a' \<and> b = b'"
proof -
  have "mk_EditLogFile (getFinalizedEditsFile [] a b) a b False = mk_EditLogFile (getFinalizedEditsFile [] a' b') a' b' False"
    using matchEditLog_finalized [OF r(1-4), of "[]"] matchEditLog_finalized [OF r(5-8), of "[]"] assms(1) by simp
  then have "firstTxId (mk_EditLogFile (getFinalizedEditsFile [] a b) a b False) = a'"
    "lastTxId (mk_EditLogFile (getFinalizedEditsFile [] a b) a b False) = b'"
    by (simp_all add: mk_EditLogFile_def)
  then show ?thesis by (simp add: mk_EditLogFile_def)
qed

text \<open>
  C29. The name of a segment is read back as the ids it was made from, for an open and for a
  finalized segment, by the patterns that list a directory; so two segments never share a name.
\<close>

theorem segment_names_read_back:
  assumes r: "0 \<le> a" "long_range a" "0 \<le> b" "long_range b"
  shows "matchEditLog d (getInProgressEditsFileName a)
      = Some (mk_EditLogFile (getInProgressEditsFile d a) a INVALID_TXID True) \<and>
    matchEditLog d (getFinalizedEditsFileName a b)
      = Some (mk_EditLogFile (getFinalizedEditsFile d a b) a b False) \<and>
    getFinalizedEditsFileName a b \<noteq> getInProgressEditsFileName x \<and>
    (0 \<le> x \<and> long_range x \<and> 0 \<le> y \<and> long_range y \<longrightarrow>
      (getFinalizedEditsFileName a b = getFinalizedEditsFileName x y \<longleftrightarrow> a = x \<and> b = y))"
  using matchEditLog_inprogress [OF r(1,2)] matchEditLog_finalized [OF r] finalized_name_inj [OF _ r]
    setw0_show_int_not_i [of 19 a]
  by (auto simp: name_defs EDITS_def EDITS_INPROGRESS_def)

theorem segment_names_read_back_witness:
  "matchEditLog ''/d'' (getFinalizedEditsFileName 1 42) = Some (mk_EditLogFile (getFinalizedEditsFile ''/d'' 1 42) 1 42 False)"
  using segment_names_read_back [of 1 42 "''/d''"] by (simp add: long_range_def)

text \<open>
  An address that was printed as host and port is split into the same host and port; and an
  address is valid exactly for a host that is not empty and digits behind the first colon.
\<close>

theorem host_port_round_trip:
  assumes "CHR '':'' \<notin> set h" "0 \<le> p" "p < 2 ^ 31"
  shows "mk_HostPortPair (h @ '':'' @ show_int p) = \<lparr>hostname = h, port = p\<rparr> \<and>
    HostPortPair_isValid (h @ '':'' @ show_int p) = (h \<noteq> []) \<and> \<not> HostPortPair_isValid h"
proof -
  have tw: "takeWhile (\<lambda>x. x \<noteq> CHR '':'') (h @ CHR '':'' # show_int p) = h" "takeWhile (\<lambda>x. x \<noteq> CHR '':'') h = h"
    using assms(1) by (auto simp: takeWhile_eq_all_conv list_all_iff intro!: takeWhile_prefix)
  from tw(1) have "HostPortPair_isValid (h @ '':'' @ show_int p) = (h \<noteq> [])"
    by (simp add: HostPortPair_isValid_def find_first_of_def show_int_digits [OF assms(2)])
  moreover have "\<not> HostPortPair_isValid h"
    by (simp add: HostPortPair_isValid_def find_first_of_def tw(2))
  ultimately show ?thesis using mk_HostPortPair_host_port [OF assms] by blast
qed

theorem host_port_round_trip_witness:
  "mk_HostPortPair (''node1'' @ '':'' @ show_int 8485) = \<lparr>hostname = ''node1'', port = 8485\<rparr>"
  using host_port_round_trip [of "''node1''" 8485] by simp

section \<open>Integers and transactions\<close>

text \<open>
  The bytes of an integer do not depend on the byte order of the machine, neither as they are
  written nor as they are read: both are the big-endian digits in base 256.
\<close>

theorem byte_order_does_not_matter:
  assumes "int (length pre + n) < 2 ^ 32"
  shows "store_as_big_endian le n v = store_as_big_endian le' n v \<and>
    read_as_type le n s pos = read_as_type le' n s pos \<and>
    read_as_type le n (pre @ store_as_big_endian le' n v @ post) (int (length pre))
       = (Return (v mod 256 ^ n), int (length pre + n))"
proof -
  have "read_as_type b n s pos = seq (read_chars n s) (\<lambda>cs. ret (be_value cs)) pos" for b
    by (simp only: read_as_type_def native_value_read)
  then show ?thesis
    using read_be_bytes [OF assms, of le v post] by (simp only: store_as_big_endian_eq be_value_be_bytes simp_thms)
qed

theorem byte_order_does_not_matter_witness:
  "read_as_type True 4 (''x'' @ store_as_big_endian False 4 77 @ ''y'') (int (length ''x'')) = (Return (77 mod 256 ^ 4), int (length ''x'' + 4))"
  using byte_order_does_not_matter [of "''x''" 4 True 77 False "[]" 0 "''y''"] by simp

text \<open>
  C16. The scanner reads back what the writer encoded: over the header and any number of
  transactions it returns the highest of their ids, and the invalid id where there is none.
\<close>

theorem scan_reads_back:
  assumes "wf_ops ops" "int (8 + length (encode_ops crc ops)) < 2 ^ 32"
  shows "scan_content (header lv @ encode_ops crc ops)
    = Return (if ops = [] then INVALID_TXID else Max (set (map fst ops)))"
proof -
  have "last_txid l ops = (if l = INVALID_TXID then (if ops = [] then l else Max (set (map fst ops)))
      else Max (insert l (set (map fst ops))))" if "wf_ops ops" for l
    using that
  proof (induction ops arbitrary: l)
    case (Cons op ops)
    obtain t d where op: "op = (t, d)" by fastforce
    have t: "t \<noteq> INVALID_TXID" and w: "wf_ops ops" using Cons.prems op by (simp_all add: wf_ops_def)
    have "last_txid l (op # ops) = last_txid (if l = INVALID_TXID \<or> l < t then t else l) ops"
      by (simp add: op last_txid_def)
    also have "\<dots> = Max (insert (if l = INVALID_TXID \<or> l < t then t else l) (set (map fst ops)))"
      using Cons.IH [OF w] t by simp
    finally show ?case using op by (cases "ops = []") (auto simp: max_def)
  qed (simp add: last_txid_def)
  with scan_encoded [OF assms] assms(1) show ?thesis by simp
qed

theorem scan_reads_back_witness:
  "scan_content (header (-57) @ encode_ops (\<lambda>_. 0) [(7, ''ab''), (8, ''''), (9, ''xyz'')]) = Return 9"
  using scan_reads_back [of "[(7, ''ab''), (8, ''''), (9, ''xyz'')]" "\<lambda>_. 0" "-57"]
  by (simp add: wf_ops_def long_range_def INVALID_TXID_def)

section \<open>Torn and malformed segments\<close>

text \<open>Reading \<open>n\<close> characters at a position: all of them are there, up to the terminator, or not.\<close>

lemma next_char_there:
  assumes "0 \<le> pos" "pos \<le> int (length s)" "pos + 1 < 2 ^ 32"
  obtains c where "next_char s pos = (Return c, pos + 1)"
proof (cases "nat pos < length s")
  case True
  with assms that show ?thesis by (simp add: next_char_def prog_simps str_at_def u32_id)
next
  case False
  with assms have "nat pos = length s" by simp
  with assms that show ?thesis by (simp add: next_char_def prog_simps str_at_def u32_id)
qed

lemma read_chars_there:
  assumes "0 \<le> pos" "pos + int n \<le> int (length s) + 1" "pos + int n < 2 ^ 32"
  shows "\<exists>cs. length cs = n \<and> read_chars n s pos = (Return cs, pos + int n)"
  using assms
proof (induction n arbitrary: pos)
  case (Suc n)
  then obtain c where c: "next_char s pos = (Return c, pos + 1)"
    by (auto intro: next_char_there [of pos s])
  obtain cs where "length cs = n" "read_chars n s (pos + 1) = (Return cs, (pos + 1) + int n)"
    using Suc.IH [of "pos + 1"] Suc.prems by auto
  with c show ?case by (intro exI [of _ "c # cs"]) (simp add: seq_Return prog_simps)
qed (simp add: prog_simps)

lemma read_chars_short:
  assumes "0 \<le> pos" "0 < n" "int (length s) + 1 < pos + int n" "pos + int n < 2 ^ 32"
  shows "\<exists>q. read_chars n s pos = (Stop Undefined, q)"
  using assms
proof (induction n arbitrary: pos)
  case (Suc n)
  show ?case
  proof (cases "int (length s) < pos")
    case True
    then show ?thesis using Suc.prems by (auto simp: next_char_def seq_def prog_simps str_at_def)
  next
    case False
    then obtain c where c: "next_char s pos = (Return c, pos + 1)"
      using Suc.prems by (auto intro: next_char_there [of pos s])
    have "0 < n" using Suc.prems False by (cases n) auto
    then obtain q where "read_chars n s (pos + 1) = (Stop Undefined, q)"
      using Suc.IH [of "pos + 1"] Suc.prems by auto
    with c show ?thesis by (simp add: seq_Return seq_Stop)
  qed
qed simp

lemma reads_there:
  assumes "0 \<le> pos" "pos < 2 ^ 31"
  shows "pos + 4 \<le> int (length s) + 1 \<Longrightarrow> \<exists>v. readInt s pos = (Return v, pos + 4)"
    and "pos + 8 \<le> int (length s) + 1 \<Longrightarrow> \<exists>v. readLong s pos = (Return v, pos + 8)"
  using read_chars_there [of pos 4 s] read_chars_there [of pos 8 s] assms
  by (auto simp: readInt_def readLong_def read_as_type_def seq_def prog_simps)

lemma reads_short:
  assumes "0 \<le> pos" "pos < 2 ^ 31"
  shows "int (length s) + 1 < pos + 4 \<Longrightarrow> \<exists>q. readInt s pos = (Stop Undefined, q)"
    and "int (length s) + 1 < pos + 8 \<Longrightarrow> \<exists>q. readLong s pos = (Stop Undefined, q)"
  using read_chars_short [of pos 4 s] read_chars_short [of pos 8 s] assms
  by (auto simp: readInt_def readLong_def read_as_type_def seq_def)

text \<open>What \<open>scanOp\<close> makes of the first \<open>k\<close> bytes of a transaction at the end of a file.\<close>

lemma scanOp_torn:
  assumes s: "s = pre @ take k (encode_op crc t d)" and k: "0 < k" "k < 16 + length d"
    and len: "int (length pre + 17 + length d) < 2 ^ 31"
  shows "\<exists>q. scanOp s (int (length pre)) = (Stop Undefined, q)"
proof -
  let ?p = "int (length pre)"
  obtain x where op: "encode_op crc t d = [char_of OPCODE] @ writeInt (12 + int (length d)) @ writeLong t @ d @ writeInt x"
    by (auto simp: encode_op_def calculateSize_def Let_def)
  have ls: "int (length s) = ?p + int k" using s k by simp
  have "s ! length pre = char_of OPCODE" using s k(1) by (cases k) (simp_all add: op nth_append)
  then have code: "readOpcode s ?p = (Return OPCODE, ?p + 1)"
    using len ls k(1) by (simp add: readOpcode_def next_char_def seq_def prog_simps str_at_def u32_id code_def OPCODE_def)
  have skip: "scanOp s ?p = seq (readInt s) (\<lambda>len. seq (readLong s) (\<lambda>txId.
      seq (scanString (s32 (len - 12))) (\<lambda>_. seq (readInt s) (\<lambda>checksum. ret txId)))) (?p + 1)"
    using ls k(1) by (simp add: scanOp_def seq_gets seq_Return code)
  consider (a) "k < 4" | (b) "4 \<le> k" "k < 12" | (c) "12 \<le> k" by linarith
  then show ?thesis
  proof cases
    case a
    then obtain q where "readInt s (?p + 1) = (Stop Undefined, q)"
      using reads_short(1) [of "?p + 1" s] ls len by auto
    then show ?thesis by (simp add: skip seq_Stop)
  next
    case b
    then obtain v where "readInt s (?p + 1) = (Return v, ?p + 1 + 4)"
      using reads_there(1) [of "?p + 1" s] ls len by auto
    moreover obtain q where "readLong s (?p + 5) = (Stop Undefined, q)"
      using reads_short(2) [of "?p + 5" s] ls len b by auto
    ultimately show ?thesis by (simp add: skip seq_Return seq_Stop ac_simps)
  next
    case c
    have "take k (encode_op crc t d) = [char_of OPCODE] @ writeInt (12 + int (length d)) @ take (k - 5) (writeLong t @ d @ writeInt x)"
      using c by (simp add: op take_Cons')
    then have "s = (pre @ [char_of OPCODE]) @ writeInt (12 + int (length d)) @ take (k - 5) (writeLong t @ d @ writeInt x)"
      using s by simp
    with readInt_at [of "pre @ [char_of OPCODE]" "12 + int (length d)"] len
    have ln: "readInt s (?p + 1) = (Return (12 + int (length d)), ?p + 5)" by (simp add: s32_id ac_simps)
    obtain v where tx: "readLong s (?p + 5) = (Return v, ?p + 5 + 8)"
      using reads_there(2) [of "?p + 5" s] ls len c by auto
    obtain q where "readInt s (13 + ?p + int (length d)) = (Stop Undefined, q)"
      using reads_short(1) [of "13 + ?p + int (length d)" s] ls len k by auto
    then show ?thesis using len
      by (simp add: skip seq_Return ln tx scanString_def prog_simps s32_id u32_id seq_Stop)
  qed
qed

text \<open>Only the last byte of the checksum is missing: the terminator is read in its place.\<close>

lemma scanOp_all_but_one:
  assumes s: "s = pre @ take (16 + length d) (encode_op crc t d)"
    and len: "int (length pre + 17 + length d) < 2 ^ 31" and t: "long_range t"
  shows "scanOp s (int (length pre)) = (Return t, int (length pre + 17 + length d))"
proof -
  let ?p = "int (length pre)"
  obtain x where op: "encode_op crc t d = [char_of OPCODE] @ writeInt (12 + int (length d)) @ writeLong t @ d @ writeInt x"
    by (auto simp: encode_op_def calculateSize_def Let_def)
  have s': "s = pre @ [char_of OPCODE] @ writeInt (12 + int (length d)) @ writeLong t @ d @ take 3 (writeInt x)"
    by (simp add: s op take_Cons')
  have ls: "int (length s) = ?p + 16 + int (length d)" by (simp add: s')
  have code: "readOpcode s ?p = (Return OPCODE, ?p + 1)"
    using len ls by (simp add: s' readOpcode_def next_char_def seq_def prog_simps str_at_def nth_append u32_id code_def OPCODE_def)
  have ln: "readInt s (?p + 1) = (Return (12 + int (length d)), ?p + 5)"
    using readInt_at [of "pre @ [char_of OPCODE]" "12 + int (length d)" "writeLong t @ d @ take 3 (writeInt x)"] len
    by (simp add: s' s32_id ac_simps)
  have tx: "readLong s (?p + 5) = (Return t, ?p + 13)"
    using readLong_at [of "pre @ [char_of OPCODE] @ writeInt (12 + int (length d))" t "d @ take 3 (writeInt x)"] len t
    by (simp add: s' ac_simps)
  obtain c where ck: "readInt s (?p + 13 + int (length d)) = (Return c, ?p + 13 + int (length d) + 4)"
    using reads_there(1) [of "?p + 13 + int (length d)" s] ls len by auto
  have "\<not> int (length s) \<le> ?p" using ls by simp
  then show ?thesis using len
    by (simp add: scanOp_def seq_gets seq_Return code ln tx ck scanString_def
        prog_simps s32_id u32_id)
qed

lemma scan_loop_over:
  assumes "wf_ops ops" "int (length pre + length (encode_ops crc ops)) < 2 ^ 32"
  shows "scan_loop (pre @ encode_ops crc ops @ post) l (int (length pre))
    = scan_loop (pre @ encode_ops crc ops @ post) (last_txid l ops) (int (length (pre @ encode_ops crc ops)))"
  using assms
proof (induction ops arbitrary: pre l)
  case Nil
  then show ?case by (simp add: last_txid_def)
next
  case (Cons op ops)
  obtain t d where op: "op = (t, d)" by fastforce
  have sc: "scanOp (pre @ encode_op crc t d @ encode_ops crc ops @ post) (int (length pre))
      = (Return t, int (length (pre @ encode_op crc t d)))"
    using scanOp_encode_op [of pre d t crc "encode_ops crc ops @ post"] Cons.prems op
    by (simp add: wf_ops_def add.assoc)
  have t: "t \<noteq> INVALID_TXID" using Cons.prems(1) op by (simp add: wf_ops_def)
  have ih: "scan_loop ((pre @ encode_op crc t d) @ encode_ops crc ops @ post) l'
      (int (length (pre @ encode_op crc t d)))
    = scan_loop ((pre @ encode_op crc t d) @ encode_ops crc ops @ post) (last_txid l' ops)
        (int (length ((pre @ encode_op crc t d) @ encode_ops crc ops)))" for l'
    using Cons.prems op by (intro Cons.IH) (simp_all add: wf_ops_def add.assoc)
  have "scan_loop (pre @ encode_ops crc (op # ops) @ post) l (int (length pre))
      = scan_loop ((pre @ encode_op crc t d) @ encode_ops crc ops @ post)
          (if l = INVALID_TXID \<or> l < t then t else l) (int (length (pre @ encode_op crc t d)))"
    unfolding op by (subst scan_loop.simps) (simp add: sc t)
  also note ih
  finally show ?case by (simp add: op last_txid_def)
qed

text \<open>
  A crash can leave any number of bytes of the last transaction. Behind complete transactions
  the scanner reports their last id where none of the torn one is there; counts the torn one as
  complete where all but its last byte is there, because it reads the terminator of its string
  in place of that byte and does not check the sum; and in every other case reads behind the end
  of the string.
\<close>

theorem scan_of_torn_segment:
  assumes w: "wf_ops (ops @ [(t, d)])" and k: "k \<le> 17 + length d"
    and len: "int (8 + length (encode_ops crc (ops @ [(t, d)]))) < 2 ^ 31"
  shows "scan_content (header lv @ encode_ops crc ops @ take k (encode_op crc t d)) =
    (if k = 0 then Return (last_txid INVALID_TXID ops)
     else if k < 16 + length d then Stop Undefined
     else Return (last_txid INVALID_TXID (ops @ [(t, d)])))"
proof -
  let ?pre = "header lv @ encode_ops crc ops" and ?l = "last_txid INVALID_TXID ops"
  let ?s = "?pre @ take k (encode_op crc t d)"
  have w1: "wf_ops ops" "long_range t" "t \<noteq> INVALID_TXID" using w by (auto simp: wf_ops_def)
  have l: "int (length ?pre + 17 + length d) < 2 ^ 31" using len by simp
  have "scan_content ?s = (case scan_loop ?s INVALID_TXID 8 of None \<Rightarrow> Stop Diverged | Some r \<Rightarrow> r)"
    by (simp add: scan_content_def skipHeader_header)
  moreover have "scan_loop ?s INVALID_TXID 8 = scan_loop ?s ?l (int (length ?pre))"
    using scan_loop_over [OF w1(1), of "header lv" crc "take k (encode_op crc t d)" INVALID_TXID] l by simp
  ultimately have sc: "scan_content ?s = (case scan_loop ?s ?l (int (length ?pre)) of None \<Rightarrow> Stop Diverged | Some r \<Rightarrow> r)"
    by simp
  consider "k = 0" | "0 < k" "k < 16 + length d" | "16 + length d \<le> k" by linarith
  then show ?thesis
  proof cases
    case 1
    with sc show ?thesis by (simp add: scan_loop_end)
  next
    case 2
    from scanOp_torn [OF refl this l] obtain q where "scanOp ?s (int (length ?pre)) = (Stop Undefined, q)" by blast
    then have "scan_loop ?s ?l (int (length ?pre)) = Some (Stop Undefined)" by (subst scan_loop.simps) simp
    with sc 2 show ?thesis by simp
  next
    case 3
    have "scanOp ?s (int (length ?pre)) = (Return t, int (length ?pre + 17 + length d))"
    proof (cases "k = 16 + length d")
      case True
      then show ?thesis using scanOp_all_but_one [OF _ l w1(2)] by simp
    next
      case False
      with 3 k have "k = 17 + length d" by simp
      then show ?thesis using scanOp_encode_op [of ?pre d t crc "[]"] l w1(2) by simp
    qed
    then have "scan_loop ?s ?l (int (length ?pre))
        = scan_loop ?s (if ?l = INVALID_TXID \<or> ?l < t then t else ?l) (int (length ?pre + 17 + length d))"
      using w1(3) by (subst scan_loop.simps) simp
    also have "\<dots> = Some (Return (if ?l = INVALID_TXID \<or> ?l < t then t else ?l))"
      using k by (intro scan_loop_end) simp
    finally show ?thesis using sc 3 by (simp add: last_txid_def)
  qed
qed

theorem scan_of_torn_segment_witness:
  "scan_content (header (-57) @ encode_ops (\<lambda>_. 0) [(7, ''ab'')] @ take 5 (encode_op (\<lambda>_. 0) 8 ''c'')) = Stop Undefined"
  using scan_of_torn_segment [of "[(7, ''ab'')]" 8 "''c''" 5 "\<lambda>_. 0" "-57"]
  by (simp add: wf_ops_def long_range_def INVALID_TXID_def)

text \<open>
  The length in a transaction is not checked. One of minus five takes the position back to the
  transaction itself, whatever else the segment holds, and the scan never ends.
\<close>

lemma scan_of_negative_length_diverges:
  assumes t: "long_range t" "t \<noteq> INVALID_TXID"
  shows "scan_content (header lv @ [char_of OPCODE] @ writeInt (-5) @ writeLong t @ post) = Stop Diverged"
proof -
  let ?s = "header lv @ [char_of OPCODE] @ writeInt (-5) @ writeLong t @ post"
  have code: "readOpcode ?s 8 = (Return OPCODE, 9)"
    by (simp add: readOpcode_def next_char_def seq_def prog_simps str_at_def nth_append u32_id code_def OPCODE_def)
  have ln: "readInt ?s 9 = (Return (-5), 13)"
    using readInt_at [of "header lv @ [char_of OPCODE]" "-5" "writeLong t @ post"] by (simp add: s32_id)
  have tx: "readLong ?s 13 = (Return t, 21)"
    using readLong_at [of "header lv @ [char_of OPCODE] @ writeInt (-5)" t post] t by simp
  have bk: "scanString (s32 (- 17)) 21 = (Return (), 4)"
    by (simp add: scanString_def prog_simps s32_id u32_def)
  obtain c where ck: "readInt ?s 4 = (Return c, 8)"
    using reads_there(1) [of 4 ?s] by auto
  have op: "scanOp ?s 8 = (Return t, 8)"
    by (simp add: scanOp_def seq_gets seq_Return code ln tx bk ck prog_simps del: append_Cons append.simps)
  have "\<not> (s = ?s \<and> pos = 8)" if "scan_loop s l pos = Some r" for s l pos r
    using that
    by (rule scan_loop.raw_induct [where P = "\<lambda>s l pos r. \<not> (s = ?s \<and> pos = 8)", rotated]) (use op t(2) in \<open>auto, blast\<close>)
  then have "scan_loop ?s INVALID_TXID 8 = None" by (metis not_None_eq)
  then show ?thesis by (simp add: scan_content_def skipHeader_header)
qed

lemma scan_of_negative_length_example:
  "scan_content (header (-57) @ [char_of OPCODE] @ writeInt (-5) @ writeLong 7 @ ''xyz'') = Stop Diverged"
  by (rule scan_of_negative_length_diverges) (simp_all add: long_range_def INVALID_TXID_def)

end
