(* ===== verification/Number_Files.thy ===== *)
theory Number_Files
  imports Long_Files
begin

text \<open>
  What the two number files hold on disk after a \<^verbatim>\<open>set\<close>, and what a new object makes of it after
  a restart: with every system call in order, and with the write torn.
\<close>

section \<open>PersistentLongFile\<close>

lemma plf_get_fresh:
  assumes "content g p = Some c" "faults g = []"
  shows "plf_get (g, mk_plf p d) = (case plf_parse c of
      Some v \<Rightarrow> (Return v, (g, (mk_plf p d)\<lparr>plf_value := v, plf_loaded := True\<rparr>))
    | None \<Rightarrow> (Error, (g, mk_plf p d)))"
proof -
  have "is_file g p" using assms(1) by (auto simp: content_def is_file_def)
  then show ?thesis using assms
    by (simp add: plf_get_def mk_plf_def prog_simps seq_def on_fst_def plf_readFile_def file_exists_def
        sys_is_regular_def sys_read_def split: option.splits)
qed

lemma plf_set_fresh:
  assumes "plf_writeFile p v f = (Return (), g)"
  shows "plf_set v (f, mk_plf p d) = (Return (), (g, (mk_plf p d)\<lparr>plf_value := v, plf_loaded := True\<rparr>))"
  using assms by (simp add: plf_set_def mk_plf_def prog_simps seq_def on_fst_def)

text \<open>
  C17. A number that was set is the number a new object reads from the file, whatever its default,
  and reading it does not change the disk.
\<close>

theorem promise_file_round_trip:
  assumes "faults f = []" "can_create f p" "long_range v"
  shows "\<exists>g q. plf_set v (f, mk_plf p d) = (Return (), (g, q)) \<and>
    fst (plf_get (g, mk_plf p d')) = Return v \<and> fst (snd (plf_get (g, mk_plf p d'))) = g"
proof -
  obtain i g where o: "ofstream_open p f = (Return \<lparr>os_ino = Some i, os_pos = 0, os_fail = False\<rparr>, g)"
    and g: "faults g = []"
    and w: "\<And>ys. ofstream_write \<lparr>os_ino = Some i, os_pos = 0, os_fail = False\<rparr> ys g
       = (Return \<lparr>os_ino = Some i, os_pos = length ys, os_fail = False\<rparr>, store i 0 ys g)"
    and c: "\<And>ys. content (store i 0 ys g) p = Some ys"
    by (rule open_write_quiet [OF assms(1,2)]) auto
  let ?g = "store i 0 (show_int v @ [newline]) g"
  have "plf_writeFile p v f = (Return (), ?g)"
    by (simp add: plf_writeFile_def seq_def o w prog_simps)
  from plf_set_fresh [OF this] plf_get_fresh [OF c, of "show_int v @ [newline]" d'] assms(3) g show ?thesis
    by (intro exI conjI) (assumption, simp_all add: store_def)
qed

text \<open>A prefix of a printed number is the number without its last digits.\<close>

lemma take_show_nat: "0 < n \<Longrightarrow> n \<le> length (show_nat v) \<Longrightarrow>
  take n (show_nat v) = show_nat (v div 10 ^ (length (show_nat v) - n))"
proof (induction v rule: show_nat.induct)
  case (1 v)
  show ?case
  proof (cases "v < 10 \<or> n = length (show_nat v)")
    case True
    then show ?thesis
    proof
      assume "v < 10"
      then have "length (show_nat v) = 1" by (subst show_nat.simps) simp
      with "1.prems" show ?thesis by simp
    qed simp
  next
    case False
    then have s: "show_nat v = show_nat (v div 10) @ [digit_char (v mod 10)]"
      by (subst show_nat.simps) simp
    with False "1.prems" have n: "n \<le> length (show_nat (v div 10))" by simp
    have "take n (show_nat v) = show_nat (v div 10 div 10 ^ (length (show_nat (v div 10)) - n))"
      using "1.IH" False "1.prems"(1) n s by simp
    also have "v div 10 div 10 ^ (length (show_nat (v div 10)) - n) = v div 10 ^ (length (show_nat v) - n)"
      using n s by (simp add: Suc_diff_le div_mult2_eq [symmetric])
    finally show ?thesis .
  qed
qed

lemma plf_parse_digits:
  assumes "0 \<le> v" "long_range v"
  shows "plf_parse (show_int v) = Some v"
proof -
  have nn: "\<forall>c \<in> set (show_int v). c \<noteq> newline \<and> c \<noteq> nul"
    using assms(1) list_all_show_nat [of "nat v"]
    by (auto simp: show_int_def list_all_iff newline_def nul_def is_digit_def code_def)
  then have "takeWhile (\<lambda>x. x \<noteq> newline) (show_int v) = show_int v" "c_str (show_int v) = show_int v"
    unfolding c_str_def by (auto simp: takeWhile_eq_all_conv)
  moreover have "show_int v \<noteq> []" by (simp add: show_int_def)
  moreover have "strtol (show_int v) = (v, [])"
    using strtol_show_int [OF assms(2), of "[]"] by simp
  ultimately show ?thesis by (simp only: plf_parse_def getline_string_def if_False option.case prod.case list.size diff_zero simp_thms)
qed

text \<open>
  \<^verbatim>\<open>set\<close> is not atomic. Where the write fails after \<open>n\<close> bytes, it still reports success, and
  the file holds the first \<open>n\<close> digits: after a restart the journal holds a promise that is lower
  by a power of ten, or, with no byte written, cannot read its promise at all.
\<close>

theorem promise_file_torn:
  assumes "faults f = [Fine, Faulty n]" "can_create f p" "0 \<le> v" "long_range v"
  shows "\<exists>g q. plf_set v (f, mk_plf p d) = (Return (), (g, q)) \<and> plf_value q = v \<and>
    fst (plf_get (g, mk_plf p d')) =
      (if n = 0 then Error
       else Return (v div 10 ^ (length (show_int v) - n)))"
proof -
  let ?f = "f\<lparr>faults := [Faulty n]\<rparr>"
  obtain i g where cr: "creat p ?f = (i, g)" by fastforce
  from content_creat [OF cr] have g: "content g p = Some []" "ino g p = Some i" "faults g = [Faulty n]"
    by simp_all
  let ?g = "store i 0 (take n (show_int v @ [newline])) (g\<lparr>faults := []\<rparr>)"
  have cc: "can_create ?f p" using assms(2) by (simp add: can_create_def is_dir_def)
  have o: "ofstream_open p f = (Return \<lparr>os_ino = Some i, os_pos = 0, os_fail = False\<rparr>, g)"
    using cc cr assms(1) by (simp add: ofstream_open_def sys_open_trunc_def prog_defs syscall_def)
  have w: "ofstream_write \<lparr>os_ino = Some i, os_pos = 0, os_fail = False\<rparr> (show_int v @ [newline]) g
      = (Return \<lparr>os_ino = Some i, os_pos = 0, os_fail = True\<rparr>, ?g)"
    using g(3) by (simp add: ofstream_write_def sys_write_def prog_defs syscall_def)
  have run: "plf_writeFile p v f = (Return (), ?g)"
    by (simp add: plf_writeFile_def seq_def o w prog_simps)
  have "data g i = []" using g by (simp add: content_def)
  then have c: "content ?g p = Some (take n (show_int v @ [newline]))" "faults ?g = []"
    using g(2) by (simp_all add: content_store ino_def store_def content_def)
  let ?k = "length (show_int v)"
  have le: "v div 10 ^ m \<le> v" "0 \<le> v div 10 ^ m" for m
    using zdiv_mono2 [OF assms(3), of 1 "10 ^ m"] assms(3) by (simp_all add: pos_imp_zdiv_nonneg_iff)
  have "plf_parse (take n (show_int v @ [newline])) = (if n = 0 then None else Some (v div 10 ^ (?k - n)))"
  proof (cases "n \<le> ?k")
    case True
    have "take n (show_int v) = show_int (v div 10 ^ (?k - n))" if "0 < n"
      using take_show_nat [OF that, of "nat v"] True assms(3) le(2) [of "?k - n"] by (simp add: show_int_def nat_div_distrib nat_power_eq not_less [symmetric])
    moreover have "long_range (v div 10 ^ (?k - n))"
      using le [of "?k - n"] assms(3,4) by (simp add: long_range_def)
    ultimately show ?thesis using True le(2) by (simp add: plf_parse_digits)
  qed (use assms(4) in simp)
  with plf_set_fresh [OF run] plf_get_fresh [OF c, of d'] show ?thesis
    by (intro exI conjI) (assumption, simp_all)
qed

section \<open>BestEffortLongFile\<close>

lemma belf_get_quiet:
  assumes "faults f = []" "can_create f p" "belf_parse d (content f p) = Some v"
  obtains i g q where "belf_lazyOpen (f, mk_belf p d) = (Return (), (g, q))" "belf_get (f, mk_belf p d) = (Return v, (g, q))"
    "q = (mk_belf p d)\<lparr>belf_value := v, belf_ostrm := \<lparr>os_ino = Some i, os_pos = 0, os_fail = False\<rparr>, belf_opened := True\<rparr>"
    "faults g = []" "dirs g = dirs f" "content g p = Some []"
    "\<And>ys. ofstream_write \<lparr>os_ino = Some i, os_pos = 0, os_fail = False\<rparr> ys g
       = (Return \<lparr>os_ino = Some i, os_pos = length ys, os_fail = False\<rparr>, store i 0 ys g)"
    "\<And>ys. content (store i 0 ys g) p = Some ys"
proof -
  obtain i g where o: "ofstream_open p f = (Return \<lparr>os_ino = Some i, os_pos = 0, os_fail = False\<rparr>, g)"
    and g: "faults g = []" "content g p = Some []" "dirs g = dirs f"
    and w: "\<And>ys. ofstream_write \<lparr>os_ino = Some i, os_pos = 0, os_fail = False\<rparr> ys g
       = (Return \<lparr>os_ino = Some i, os_pos = length ys, os_fail = False\<rparr>, store i 0 ys g)"
    and c: "\<And>ys. content (store i 0 ys g) p = Some ys"
    by (rule open_write_quiet [OF assms(1,2)]) auto
  have "attempt (on_fst (sys_read p)) (f, mk_belf p d) = (Return (content f p), (f, mk_belf p d))"
    using assms(1) by (simp add: attempt_def on_fst_def sys_read_def prog_simps split: option.splits)
  then have l: "belf_lazyOpen (f, mk_belf p d) = (Return (), (g, (mk_belf p d)\<lparr>belf_value := v,
      belf_ostrm := \<lparr>os_ino = Some i, os_pos = 0, os_fail = False\<rparr>, belf_opened := True\<rparr>))"
    using assms(3) o by (simp add: belf_lazyOpen_def prog_simps seq_def mk_belf_def on_fst_def)
  then have "belf_get (f, mk_belf p d) = (Return v, (g, (mk_belf p d)\<lparr>belf_value := v,
      belf_ostrm := \<lparr>os_ino = Some i, os_pos = 0, os_fail = False\<rparr>, belf_opened := True\<rparr>))"
    by (simp add: belf_get_def seq_def prog_simps)
  from that [OF l this refl g(1,3,2) w c] show thesis .
qed

text \<open>
  C30. The committed transaction id is never read back. \<^verbatim>\<open>set\<close> writes its digits without a
  newline, and a new object takes a line only where it ends before the end of the file: it starts
  from its default, and opening the file for writing empties it.
\<close>

theorem committed_file_is_not_read_back:
  assumes "faults f = []" "can_create f p" "content f p = None"
  shows "\<exists>g h q q'. belf_set v (f, mk_belf p d) = (Return (), (g, q)) \<and> belf_value q = v \<and>
    content g p = Some (setw0 19 (show_int v)) \<and>
    belf_get (g, mk_belf p d') = (Return d', (h, q')) \<and> content h p = Some []"
proof -
  have "belf_parse d (content f p) = Some d" using assms(3) by (simp add: belf_parse_def)
  then show ?thesis
  proof (rule belf_get_quiet [OF assms(1,2)])
    fix i g q
    assume l: "belf_lazyOpen (f, mk_belf p d) = (Return (), (g, q))"
      and q: "q = (mk_belf p d)\<lparr>belf_value := d, belf_ostrm := \<lparr>os_ino = Some i, os_pos = 0, os_fail = False\<rparr>, belf_opened := True\<rparr>"
      and g: "faults g = []" "dirs g = dirs f"
      and w: "\<And>ys. ofstream_write \<lparr>os_ino = Some i, os_pos = 0, os_fail = False\<rparr> ys g
         = (Return \<lparr>os_ino = Some i, os_pos = length ys, os_fail = False\<rparr>, store i 0 ys g)"
      and c: "\<And>ys. content (store i 0 ys g) p = Some ys"
    let ?ds = "setw0 19 (show_int v)"
    let ?g = "store i 0 ?ds g"
    have st: "\<exists>q'. belf_set v (f, mk_belf p d) = (Return (), (?g, q')) \<and> belf_value q' = v"
      by (simp add: belf_set_def seq_def l q prog_simps ofstream_seekp_def on_fst_def w)
    have "newline \<notin> set ?ds"
      using list_all_show_nat [of "nat v"] list_all_show_nat [of "nat (- v)"]
      by (auto simp: setw0_def show_int_def list_all_iff newline_def is_digit_def code_def)
    then have tw: "takeWhile (\<lambda>x. x \<noteq> newline) ?ds = ?ds" by (auto simp: takeWhile_eq_all_conv)
    have "getline_good 128 ?ds = None"
      by (simp only: getline_good_def Let_def tw less_irrefl simp_thms if_False)
    then have "belf_parse d' (content ?g p) = Some d'" by (simp add: c belf_parse_def)
    moreover have "faults ?g = []" "can_create ?g p"
      using g assms(2) by (simp_all add: store_def can_create_def is_dir_def)
    ultimately obtain h q'' where "belf_get (?g, mk_belf p d') = (Return d', (h, q''))" "content h p = Some []"
      by (metis belf_get_quiet)
    with st c show ?thesis by blast
  qed
qed

text \<open>All three on a disk with one directory.\<close>

definition small_disk :: "fault list \<Rightarrow> fs" where
  "small_disk k = \<lparr>dents = [], data = (\<lambda>_. []), next_ino = 0, dirs = [''/d''], fds = [], faults = k\<rparr>"

lemma small_disk_facts:
  "faults (small_disk k) = k" "can_create (small_disk k) ''/d/f''" "content (small_disk k) ''/d/f'' = None"
  by (simp_all add: small_disk_def can_create_def is_dir_def parent_def content_def ino_def)

theorem promise_file_round_trip_witness:
  "\<exists>g q. plf_set 42 (small_disk [], mk_plf ''/d/f'' 0) = (Return (), (g, q)) \<and> fst (plf_get (g, mk_plf ''/d/f'' 0)) = Return 42"
  using promise_file_round_trip [OF small_disk_facts(1,2), of 42 0 0] by (auto simp: long_range_def)

theorem promise_file_torn_witness:
  "\<exists>g q. plf_set 42 (small_disk [Fine, Faulty 1], mk_plf ''/d/f'' 0) = (Return (), (g, q)) \<and>
    fst (plf_get (g, mk_plf ''/d/f'' 0)) = Return 4"
proof -
  have "length (show_int 42) = 2" by code_simp
  then show ?thesis
    using promise_file_torn [OF small_disk_facts(1,2), where n = 1 and v = 42 and d = 0 and d' = 0]
    by (auto simp: long_range_def)
qed

theorem committed_file_is_not_read_back_witness:
  "\<exists>g h q q'. belf_set 42 (small_disk [], mk_belf ''/d/f'' 0) = (Return (), (g, q)) \<and> belf_value q = 42 \<and>
    content g ''/d/f'' = Some (setw0 19 (show_int 42)) \<and>
    belf_get (g, mk_belf ''/d/f'' 0) = (Return 0, (h, q')) \<and> content h ''/d/f'' = Some []"
  by (rule committed_file_is_not_read_back [OF small_disk_facts(1-3)])

end
