(* ===== verification/Http_Websocket.thy ===== *)
theory Http_Websocket
  imports Http_Download
begin

text \<open>
  Websocket connections: every frame that has arrived is handed to the handler, the loop over the buffer ends,
  and a handshake is answered before the handler sees a frame.
\<close>

section \<open>What happens to the receive buffer\<close>

text \<open>While a request or a frame is handled, the buffer stays or is emptied.\<close>

definition no_more_input :: "node \<times> connection \<Rightarrow> node \<times> connection \<Rightarrow> bool" where
  "no_more_input s t \<longleftrightarrow> recv_iobuf (snd t) = recv_iobuf (snd s) \<or> recv_iobuf (snd t) = []"

interpretation input: step_order no_more_input
  by unfold_locales (auto simp: no_more_input_def)

lemma input_conn: "moves no_more_input conn"
  by (simp add: conn_def moves_def gets_def no_more_input_def)

lemma input_upd: "(\<And>c. recv_iobuf (g c) = recv_iobuf c \<or> recv_iobuf (g c) = []) \<Longrightarrow> moves no_more_input (upd_snd g)"
  by (simp add: moves_def upd_snd_def no_more_input_def)

lemma input_on_fst: "moves no_more_input (on_fst m)"
  by (auto simp: moves_def on_fst_def no_more_input_def split: prod.splits)

lemma input_on_node_fs: "moves no_more_input (on_node_fs m)"
  by (auto simp: moves_def on_node_fs_def no_more_input_def split: prod.splits)

lemma input_send: "moves no_more_input (ns_send d)"
  unfolding ns_send_def by (rule input_upd) simp

lemma input_printf: "moves no_more_input (mg_printf d)"
  unfolding mg_printf_def ns_vprintf_def Let_def by (intro input.moves_if input_send input.moves_ret)

lemma input_status: "moves no_more_input (set_status k)"
  unfolding set_status_def by (rule input_upd) simp

lemma input_call: "moves no_more_input (call_user e ev)" "moves no_more_input (call_user_with e d ev)"
  unfolding call_user_def call_user_with_def by (rule input.moves_seq [OF input_conn input_on_fst])+

lemma input_elsewhere: "moves no_more_input (elsewhere h)"
  unfolding elsewhere_def by (rule input_upd) simp

lemma input_case: "(\<And>a b. moves no_more_input (f a b)) \<Longrightarrow> moves no_more_input (case p of (a, b) \<Rightarrow> f a b)"
  by (cases p) simp

lemmas input_rules = input_conn input_on_fst input_on_node_fs input_send input_printf input_status input_call input_elsewhere
  input.moves_ret input.moves_err input.moves_halt input.moves_seq input.moves_attempt input.moves_if
  input.moves_option input_case input_upd

text \<open>Every turn of \<^verbatim>\<open>on_recv_data\<close> is called with an empty buffer only.\<close>

definition idle :: "unit http \<Rightarrow> bool" where
  "idle A \<longleftrightarrow> (\<forall>n c. A (n, reset_connection c) = (Return (), (n, reset_connection c)))"

lemma idle_turns: "idle (on_recv_turns (Suc k) e ck)"
  by (simp add: idle_def on_recv_turns_idle del: on_recv_turns.simps)

lemma input_close: "idle A \<Longrightarrow> moves no_more_input (close_local_endpoint A)"
  by (auto simp: moves_def idle_def close_local_endpoint_run no_more_input_def closed_endpoint_def Let_def reset_connection_def)

lemma input_error: "idle A \<Longrightarrow> moves no_more_input (send_http_error e A k)"
  unfolding send_http_error_def Let_def by (intro input_rules input_close) simp_all

lemma input_open_file: "moves no_more_input (open_file_endpoint ck path sz i)"
  unfolding open_file_endpoint_def by (intro input_rules) simp_all

lemma input_header: "moves no_more_input (mg_send_header name v)" "moves no_more_input (mg_send_status k)"
  unfolding mg_send_header_def mg_send_status_def by (intro input_rules)+

lemma input_send_data: "moves no_more_input (mg_send_data d)"
  unfolding mg_send_data_def terminate_headers_def write_chunk_def by (intro input_rules input_header) simp_all

lemma input_send_file: "idle A \<Longrightarrow> moves no_more_input (mg_send_file e ck A f)"
  unfolding mg_send_file_def mg_send_file_internal_def Let_def
  by (intro input_rules input_close input_error input_open_file)

lemma input_perform: "idle A \<Longrightarrow> moves no_more_input (perform e ck A reply)"
  unfolding perform_def
  by (auto split: option.split http_reply.split intro!: input_rules input_header input_send_data input_send_file)

section \<open>The loop over the frames\<close>

lemma deliver_shrinks:
  assumes A: "idle A" and d: "deliver_websocket_frame e ck A s = (Return True, t)"
  shows "length (recv_iobuf (snd t)) < length (recv_iobuf (snd s))"
proof -
  obtain n c where s: "s = (n, c)" by (cases s)
  from d obtain m h l where f: "buffered_frame (recv_iobuf c) = Some (m, h, l)"
    by (auto simp: s deliver_websocket_frame_def conn_def prog_simps split: option.splits)
  note fb = buffered_frame_bounds [OF f]
  define buf where "buf = unmask (recv_iobuf c) m h l"
  define c1 where "c1 = c\<lparr>recv_iobuf := buf, mg_conn := (mg_conn c)\<lparr>mc_content_len := u64 l,
     mc_wsbits := int (code (recv_iobuf c ! 0))\<rparr>\<rparr>"
  let ?m = "seq (call_user_with e (take (nat l) (drop (nat h) buf)) MG_REQUEST) (\<lambda>(res, reply).
     seq (perform e ck A reply) (\<lambda>_. if res = MG_FALSE then upd_snd (\<lambda>c. c\<lparr>finished_sending := True\<rparr>) else ret ()))"
  have l: "length buf = length (recv_iobuf c)"
  proof -
    have "nat h + nat l \<le> length (recv_iobuf c)" using fb by linarith
    then show ?thesis by (simp add: buf_def unmask_def)
  qed
  have mv: "moves no_more_input ?m"
    by (intro input_rules input_perform A) simp
  have "seq ?m (\<lambda>_. seq (upd_snd (\<lambda>c. c\<lparr>recv_iobuf := iobuf_remove (recv_iobuf c) (nat (h + l))\<rparr>)) (\<lambda>_. ret True)) (n, c1)
      = (Return True, t)"
    using d f by (simp add: s deliver_websocket_frame_def conn_def prog_simps Let_def flip: buf_def c1_def)
      (simp add: seq_assoc case_prod_unfold)
  then obtain u where "?m (n, c1) = (Return (), u)"
    and u2: "snd t = (snd u)\<lparr>recv_iobuf := iobuf_remove (recv_iobuf (snd u)) (nat (h + l))\<rparr>"
    by (rule seq_ReturnE) (auto simp: prog_simps)
  with mv have u: "no_more_input (n, c1) u" by (blast dest: movesD)
  from u have "recv_iobuf (snd u) = buf \<or> recv_iobuf (snd u) = []"
    by (simp add: no_more_input_def c1_def)
  then show ?thesis
    using u2 fb l by (auto simp: s iobuf_remove_def)
qed

lemma deliver_frames_enough:
  assumes A: "idle A"
  shows "length (recv_iobuf (snd s)) < k \<Longrightarrow> deliver_frames (k + j) e ck A s = deliver_frames k e ck A s"
proof (induction k arbitrary: s)
  case 0
  then show ?case by simp
next
  case (Suc k)
  show ?case
  proof (cases "\<exists>t. deliver_websocket_frame e ck A s = (Return True, t)")
    case True
    then obtain t where t: "deliver_websocket_frame e ck A s = (Return True, t)" by blast
    have "deliver_frames (k + j) e ck A t = deliver_frames k e ck A t"
      using deliver_shrinks [OF A t] Suc.prems by (intro Suc.IH) simp
    then show ?thesis by (simp add: seq_def t)
  next
    case False
    then show ?thesis by (simp add: seq_def split: prod.splits result.splits)
  qed
qed

end
