(* ===== verification/Http_Access.thy ===== *)
theory Http_Access
  imports Http_Digest Http_Dates
begin

text \<open>
  Who may connect, and the options of the server of \<^verbatim>\<open>util/mongoose.c\<close>: the access control list that
  \<^verbatim>\<open>on_accept\<close> asks, and the table of option values that \<^verbatim>\<open>mg_set_option\<close> writes.
\<close>

unbundle bit_operations_syntax

section \<open>Lists of values\<close>

text \<open>\<^verbatim>\<open>next_option\<close> called without \<^verbatim>\<open>eq_val\<close>: the value up to the comma, and what follows the comma.\<close>

definition next_value :: "string \<Rightarrow> (string \<times> string) option" where
  "next_value list = (if list = [] then None
     else (let val = takeWhile (\<lambda>c. c \<noteq> CHR '','') list in Some (val, drop (Suc (length val)) list)))"

function all_values :: "string \<Rightarrow> string list" where
  "all_values list = (case next_value list of None \<Rightarrow> [] | Some (v, rest) \<Rightarrow> v # all_values rest)"
  by pat_completeness auto
termination by (relation "measure length") (auto simp: next_value_def Let_def split: if_splits)

declare all_values.simps [simp del]

section \<open>The access control list\<close>

definition isbyte :: "int \<Rightarrow> bool" where
  "isbyte n \<longleftrightarrow> 0 \<le> n \<and> n \<le> 255"

definition dotted :: "directive list" where
  "dotted = [Dec, Lit CHR ''.'', Dec, Lit CHR ''.'', Dec, Lit CHR ''.'', Dec]"

definition scan_net :: "string \<Rightarrow> (int \<times> int \<times> int \<times> int \<times> int) option" where
  "scan_net spec = (case sscanf (dotted @ [Lit CHR ''/'', Dec]) spec of
      Some ([a, b, c, d, prefix], _) \<Rightarrow> Some (a, b, c, d, prefix)
    | _ \<Rightarrow> (case sscanf dotted spec of
        Some ([a, b, c, d], _) \<Rightarrow> Some (a, b, c, d, 32)
      | _ \<Rightarrow> None))"

text \<open>
  Network and mask. The length that the code returns is not zero when the specification was read; the
  caller asks for no more.
\<close>

definition parse_net :: "string \<Rightarrow> (uint32 \<times> uint32) option" where
  "parse_net spec = (case scan_net spec of None \<Rightarrow> None
    | Some (a, b, c, d, prefix) \<Rightarrow>
        if isbyte a \<and> isbyte b \<and> isbyte c \<and> isbyte d \<and> 0 \<le> prefix \<and> prefix < 33
        then Some (push_bit 24 (word_of_int a) OR push_bit 16 (word_of_int b) OR push_bit 8 (word_of_int c) OR word_of_int d,
          if prefix \<noteq> 0 then push_bit (nat (32 - prefix)) 0xffffffff else 0)
        else None)"

text \<open>The loop over the rules, with the flag that is in force so far.\<close>

fun check_rules :: "char \<Rightarrow> string list \<Rightarrow> uint32 \<Rightarrow> int" where
  "check_rules allowed [] remote_ip = (if allowed = CHR ''+'' then 1 else 0)"
| "check_rules allowed (r # rs) remote_ip =
     (let flag = char_at r in
      if flag \<noteq> CHR ''+'' \<and> flag \<noteq> CHR ''-'' then -1
      else (case parse_net (tl r) of
          None \<Rightarrow> -1
        | Some (net, netmask) \<Rightarrow> check_rules (if net = remote_ip AND netmask then flag else allowed) rs remote_ip))"

definition check_acl :: "string option \<Rightarrow> uint32 \<Rightarrow> int" where
  "check_acl acl remote_ip = (case acl of
      None \<Rightarrow> check_rules CHR ''+'' [] remote_ip
    | Some a \<Rightarrow> check_rules CHR ''-'' (all_values a) remote_ip)"

text \<open>Whether a new connection is kept. There is always memory for its record.\<close>

definition on_accept :: "string option \<Rightarrow> uint32 \<Rightarrow> bool" where
  "on_accept acl remote_ip \<longleftrightarrow> check_acl acl remote_ip \<noteq> 0"

section \<open>What the list means\<close>

text \<open>A rule, read: its sign and the addresses it covers.\<close>

definition rule_of :: "string \<Rightarrow> (bool \<times> uint32 \<times> uint32) option" where
  "rule_of r = (if char_at r = CHR ''+'' \<or> char_at r = CHR ''-''
     then map_option (\<lambda>(net, netmask). (char_at r = CHR ''+'', net, netmask)) (parse_net (tl r)) else None)"

definition covers :: "uint32 \<Rightarrow> bool \<times> uint32 \<times> uint32 \<Rightarrow> bool" where
  "covers ip rule \<longleftrightarrow> (case rule of (sign, net, netmask) \<Rightarrow> net = ip AND netmask)"

text \<open>The last rule that covers the address decides; without one it is refused.\<close>

definition verdict :: "(bool \<times> uint32 \<times> uint32) list \<Rightarrow> uint32 \<Rightarrow> bool" where
  "verdict rules ip = (case find (covers ip) (rev rules) of Some (sign, net, netmask) \<Rightarrow> sign | None \<Rightarrow> False)"

lemma covers_iff [simp]: "covers ip (sign, net, netmask) \<longleftrightarrow> net = ip AND netmask"
  by (simp add: covers_def)

lemma find_behind: "find P (xs @ ys) = (case find P xs of Some x \<Rightarrow> Some x | None \<Rightarrow> find P ys)"
  by (induction xs) simp_all

lemma check_rules_spec:
  assumes "allowed = CHR ''+'' \<or> allowed = CHR ''-''"
  shows "check_rules allowed rs ip =
    (if None \<in> set (map rule_of rs) then -1
     else case find (covers ip) (rev (map (\<lambda>r. the (rule_of r)) rs)) of
         Some (sign, net, netmask) \<Rightarrow> if sign then 1 else 0
       | None \<Rightarrow> if allowed = CHR ''+'' then 1 else 0)"
  using assms
proof (induction rs arbitrary: allowed)
  case Nil
  then show ?case by simp
next
  case (Cons r rs)
  show ?case
  proof (cases "rule_of r")
    case None
    then show ?thesis by (auto simp: rule_of_def Let_def split: if_splits option.splits)
  next
    case (Some rule)
    then obtain net netmask where r: "rule = (char_at r = CHR ''+'', net, netmask)" "parse_net (tl r) = Some (net, netmask)"
      and sign: "char_at r = CHR ''+'' \<or> char_at r = CHR ''-''"
      by (auto simp: rule_of_def split: if_splits)
    have "check_rules allowed (r # rs) ip = check_rules (if net = ip AND netmask then char_at r else allowed) rs ip"
      using sign r by (auto simp: Let_def)
    also have "\<dots> = (if None \<in> set (map rule_of rs) then -1
     else case find (covers ip) (rev (map (\<lambda>r. the (rule_of r)) rs)) of
         Some (sign, net, netmask) \<Rightarrow> if sign then 1 else 0
       | None \<Rightarrow> if (if net = ip AND netmask then char_at r else allowed) = CHR ''+'' then 1 else 0)"
      using sign Cons.prems by (intro Cons.IH) auto
    finally show ?thesis
      using Some r by (cases "find (covers ip) (rev (map (\<lambda>r. the (rule_of r)) rs))") (auto simp: find_behind)
  qed
qed

text \<open>
  C38. \<^verbatim>\<open>on_accept\<close> lets a peer in exactly when the last rule of the access control list that covers its
  address has a plus sign (no such rule: refused), or when any rule of the list is malformed. In the latter case
  \<^verbatim>\<open>check_acl\<close> answers -1, which its caller takes for true: a misspelt list admits everyone.
\<close>

theorem on_accept_verdict:
  "on_accept (Some acl) ip \<longleftrightarrow>
     verdict (map (\<lambda>r. the (rule_of r)) (all_values acl)) ip \<or> None \<in> set (map rule_of (all_values acl))"
  unfolding on_accept_def check_acl_def verdict_def
  by (auto simp: check_rules_spec split: option.splits)

text \<open>A list that refuses everyone, and the same with a typing error behind it.\<close>

definition ex_ip :: uint32 where "ex_ip = 0x0A000001"

lemma ex_acl:
  "all_values ''-0.0.0.0/0'' = [''-0.0.0.0/0'']"
  "all_values ''-0.0.0.0/0,+10.0.0.x'' = [''-0.0.0.0/0'', ''+10.0.0.x'']"
  by (code_simp)+

lemma refused: "\<not> on_accept (Some ''-0.0.0.0/0'') ex_ip"
  by code_simp

lemma misspelt_list_admits: "on_accept (Some ''-0.0.0.0/0,+10.0.0.x'') ex_ip"
  by code_simp

section \<open>Options\<close>

text \<open>The values of the options, in the order of the table; \<open>None\<close> is NULL.\<close>

type_synonym options = "string option list"

definition get_option_index :: "string \<Rightarrow> nat option" where
  "get_option_index name = (let i = length (takeWhile (\<lambda>(n, v). n \<noteq> name) static_config_options) in
     if i < length static_config_options then Some i else None)"

definition set_default_option_values :: "options \<Rightarrow> options" where
  "set_default_option_values opts =
     map (\<lambda>(opt, (name, value)). if opt = None \<and> value \<noteq> None then value else opt) (zip opts static_config_options)"

text \<open>
  \<open>bind\<close> opens the listening socket: the address it got as text. \<open>become\<close> changes the user: the error message, if
  it cannot. The result is the error message and the new values; the name of the hexdump file is kept with
  them.
\<close>

definition mg_set_option :: "(string \<Rightarrow> string option) \<Rightarrow> (string \<Rightarrow> string option) \<Rightarrow> options \<Rightarrow>
    string \<Rightarrow> string option \<Rightarrow> string option \<times> options" where
  "mg_set_option bind become opts name value = (case get_option_index name of
      None \<Rightarrow> (Some ''No such option'', opts)
    | Some ind \<Rightarrow>
        if opts ! ind = value then (None, opts)
        else (case value of
            None \<Rightarrow> (None, opts[ind := None])
          | Some v \<Rightarrow>
              if v = [] then (None, opts[ind := None])
              else if name = ''listening_port'' then (case bind v of
                  None \<Rightarrow> (Some ''Cannot bind to port'', opts[ind := Some v])
                | Some address \<Rightarrow> (None, opts[ind := Some address]))
              else if name = ''run_as_user'' then (become v, opts[ind := Some v])
              else (None, opts[ind := Some v])))"

definition mg_get_option :: "options \<Rightarrow> string \<Rightarrow> string option" where
  "mg_get_option opts name = (case get_option_index name of
      None \<Rightarrow> None
    | Some i \<Rightarrow> Some (case opts ! i of None \<Rightarrow> [] | Some v \<Rightarrow> v))"

text \<open>\<^verbatim>\<open>mg_create_server\<close>: zeroed memory, then the defaults.\<close>

definition mg_create_server :: options where
  "mg_create_server = set_default_option_values (replicate (length static_config_options) None)"

lemma option_index:
  assumes "get_option_index name = Some i"
  shows "i < length static_config_options" "fst (static_config_options ! i) = name"
proof -
  let ?p = "\<lambda>(n, v). n \<noteq> name"
  have i: "i = length (takeWhile ?p static_config_options)" "i < length static_config_options"
    using assms by (auto simp: get_option_index_def Let_def split: if_splits)
  then show "i < length static_config_options" by simp
  have "\<not> ?p (static_config_options ! i)" using i nth_length_takeWhile by metis
  then show "fst (static_config_options ! i) = name" by (auto split: prod.splits)
qed

text \<open>What is set is what is read, but for the two options that act on the system.\<close>

lemma mg_get_set_option:
  assumes "get_option_index name = Some i" "length opts = length static_config_options"
    "name \<noteq> ''listening_port''" "name \<noteq> ''run_as_user''" "value \<noteq> Some []"
  shows "\<exists>opts'. mg_set_option bind become opts name value = (None, opts') \<and>
    mg_get_option opts' name = Some (case value of None \<Rightarrow> [] | Some v \<Rightarrow> v) \<and>
    (\<forall>other. other \<noteq> name \<longrightarrow> mg_get_option opts' other = mg_get_option opts other)"
proof -
  have "i < length opts" using option_index [OF assms(1)] assms(2) by simp
  have other: "j \<noteq> i" if "get_option_index other = Some j" "other \<noteq> name" for other j
    using option_index(2) [OF that(1)] option_index(2) [OF assms(1)] that(2) by auto
  show ?thesis
    using \<open>i < length opts\<close> assms
    by (auto simp: mg_set_option_def mg_get_option_def dest: other split: option.splits)
qed

end
