(* ===== verification/Http_Parts.thy ===== *)
theory Http_Parts
  imports Http_Message
begin

text \<open>
  Values inside a header and the parts of a multipart body: \<^verbatim>\<open>parse_header\<close>, \<^verbatim>\<open>get_line_len\<close> and
  \<^verbatim>\<open>mg_parse_multipart\<close> of \<^verbatim>\<open>util/mongoose.c\<close>. A pointer into a buffer is what is left of the buffer, with the
  number of characters up to \<^verbatim>\<open>end\<close> where the code keeps one; behind the list stands a NUL.
\<close>

section \<open>A value in a header\<close>

text \<open>Where the variable starts: the first place at the beginning, or behind a blank or a comma.\<close>

fun find_header :: "bool \<Rightarrow> string \<Rightarrow> int \<Rightarrow> string \<Rightarrow> (string \<times> int) option" where
  "find_header at_start var_name r [] = None"
| "find_header at_start var_name r (c # cs) =
     (if int (length var_name) < r
      then (if at_start \<and> take 1 (drop (length var_name) (c # cs)) = ''='' \<and> take (length var_name) (c # cs) = var_name
            then Some (c # cs, r)
            else find_header (c = CHR '' '' \<or> c = CHR '','') var_name (r - 1) cs)
      else None)"

text \<open>
  The loop that copies the value: what is copied, and where it stops. It ends when the buffer is full at the
  latest.
\<close>

fun copy_value :: "char \<Rightarrow> nat \<Rightarrow> int \<Rightarrow> string \<Rightarrow> string \<times> string" where
  "copy_value ch 0 r p = ([], p)"
| "copy_value ch (Suc room) r p =
     (if 0 < r \<and> char_at p \<noteq> ch \<and> char_at p \<noteq> CHR '',''
      then (let escaped = (char_at p = CHR 0x5C \<and> char_at (tl p) = ch);
                p = (if escaped then tl p else p); r = (if escaped then r - 1 else r) in
            case copy_value ch room (r - 1) (tl p) of (v, q) \<Rightarrow> (char_at p # v, q))
      else ([], p))"

text \<open>
  The length that is returned for a copied value, and what the destination then holds; it has a terminator
  unless the length is 0 because the value was too long or not closed. A comma and a semicolon are dropped at
  the place \<open>len - 1\<close> of the source.
\<close>

definition finish_value :: "char \<Rightarrow> nat \<Rightarrow> string \<Rightarrow> string \<times> string \<Rightarrow> nat \<times> string" where
  "finish_value ch buf_size s copied = (case copied of (v, q) \<Rightarrow>
     if buf_size \<le> length v \<or> (ch \<noteq> CHR '' '' \<and> char_at q \<noteq> ch) then (0, v)
     else (let len = length v;
               len = (if 0 < len \<and> take 1 (drop (len - 1) s) = '','' then len - 1 else len);
               len = (if 0 < len \<and> take 1 (drop (len - 1) s) = '';'' then len - 1 else len) in
           (len, take len v)))"

definition parse_header :: "string \<Rightarrow> nat \<Rightarrow> string \<Rightarrow> nat \<Rightarrow> nat \<times> string" where
  "parse_header str str_len var_name buf_size =
     (case find_header True var_name (int str_len) str of
        None \<Rightarrow> (0, [])
      | Some (s, r) \<Rightarrow>
          if int (length var_name) + 1 < r
          then (let s = drop (length var_name + 1) s; r = r - int (length var_name) - 1;
                    quoted = (char_at s = CHR 0x22 \<or> char_at s = CHR 0x27);
                    ch = (if quoted then char_at s else CHR '' '');
                    s = (if quoted then tl s else s); r = (if quoted then r - 1 else r) in
                finish_value ch buf_size s (copy_value ch buf_size r s))
          else (0, []))"

definition mg_parse_header :: "string option \<Rightarrow> string \<Rightarrow> nat \<Rightarrow> nat \<times> string" where
  "mg_parse_header s var_name buf_size = (case s of
      None \<Rightarrow> (0, []) | Some h \<Rightarrow> parse_header h (length h) var_name buf_size)"

section \<open>Multipart bodies\<close>

text \<open>The length of a line with its newline, within \<open>buf_len\<close> characters; the character behind them is looked at too.\<close>

definition get_line_len :: "string \<Rightarrow> int \<Rightarrow> int" where
  "get_line_len buf buf_len =
     (let len = length (takeWhile (\<lambda>c. c \<noteq> newline) (take (nat buf_len) buf)) in
      if take 1 (drop len buf) = [newline] then int len + 1 else -1)"

lemma get_line_len_pos: "0 < get_line_len (drop (nat n) buf) k \<Longrightarrow> n < int (length buf)"
  by (auto simp: get_line_len_def Let_def nat_less_iff dest!: arg_cong [of _ _ length] split: if_splits)

definition content_disposition :: string where "content_disposition = ''Content-Disposition: ''"

text \<open>What is left in the destinations by one header line.\<close>

definition part_header :: "string \<Rightarrow> int \<Rightarrow> nat \<Rightarrow> nat \<Rightarrow> string \<times> string \<Rightarrow> string \<times> string" where
  "part_header line ll var_name_len file_name_len names =
     (let cdl = length content_disposition in
      if mg_strncasecmp content_disposition line cdl = 0
      then (snd (parse_header (drop cdl line) (nat (ll - int (cdl + 2))) ''name'' var_name_len),
            snd (parse_header (drop cdl line) (nat (ll - int (cdl + 2))) ''filename'' file_name_len))
      else names)"

text \<open>
  The loop over the header lines, from position \<open>n\<close>; each line has at least its newline. Behind the header it
  goes on over empty lines of the body.
\<close>

function part_headers :: "string \<Rightarrow> int \<Rightarrow> int \<Rightarrow> nat \<Rightarrow> nat \<Rightarrow> string \<times> string \<Rightarrow> string \<times> string" where
  "part_headers buf hl n vl fl names =
     (let ll = get_line_len (drop (nat n) buf) (hl - n) in
      if 0 < ll then part_headers buf hl (n + ll) vl fl (part_header (drop (nat n) buf) ll vl fl names)
      else names)"
  by pat_completeness auto
termination
  by (relation "measure (\<lambda>(buf, hl, n, vl, fl, names). nat (int (length buf) - n))")
    (auto dest: get_line_len_pos)

declare part_headers.simps [simp del]

text \<open>The search for the boundary behind the header.\<close>

definition find_boundary :: "string \<Rightarrow> nat \<Rightarrow> int \<Rightarrow> nat option" where
  "find_boundary buf hl bl = find (\<lambda>pos. int pos + (bl - 2) < int (length buf) \<and> take 1 (drop pos buf) = ''-'' \<and>
     take (nat (bl - 2)) (drop pos buf) = take (nat (bl - 2)) buf) [hl..<length buf]"

record part =
  part_name :: string
  part_file :: string
  part_data :: string
  part_data_len :: int
  part_end :: nat

text \<open>
  The position behind the part and the part itself; \<open>None\<close> is 0. The data end two
  characters before the boundary, and their length is negative where there is no room for them.
\<close>

definition mg_parse_multipart :: "string \<Rightarrow> nat \<Rightarrow> nat \<Rightarrow> part option" where
  "mg_parse_multipart buf var_name_len file_name_len =
     (let hl = get_request_len buf in
      if buf = [] \<or> hl \<le> 0 \<or> take 2 buf \<noteq> ''--'' \<or> take 1 (drop 2 buf) = [newline] then None
      else (let bl = get_line_len buf (int (length buf)) in
        case part_headers buf hl bl var_name_len file_name_len ([], []) of (var_name, file_name) \<Rightarrow>
        (case find_boundary buf (nat hl) bl of
           None \<Rightarrow> None
         | Some pos \<Rightarrow> Some \<lparr>part_name = var_name, part_file = file_name,
             part_data = take (nat (int pos - 2 - hl)) (drop (nat hl) buf), part_data_len = int pos - 2 - hl, part_end = pos\<rparr>)))"

section \<open>Facts\<close>

text \<open>Whatever a header holds, what is copied fits its destination, with the terminator.\<close>

lemma copy_value_length: "length (fst (copy_value ch room r p)) \<le> room"
  by (induction ch room r p rule: copy_value.induct) (auto simp: Let_def split: prod.splits)

lemma finish_value_fits:
  assumes "finish_value ch room s (w, q) = (len, v)" "length w \<le> room"
  shows "len \<le> length v \<and> length v \<le> room \<and> (0 < len \<longrightarrow> len < room)"
  using assms by (auto simp: finish_value_def Let_def split: if_split_asm)

lemma parse_header_fits:
  assumes "parse_header str n var room = (len, v)"
  shows "len \<le> length v \<and> length v \<le> room \<and> (0 < len \<longrightarrow> len < room)"
proof -
  have copied: "finish_value ch room s (copy_value ch room r s) = (len, v) \<Longrightarrow> ?thesis" for ch s r
    using copy_value_length [of ch room r s] finish_value_fits [of ch room s "fst (copy_value ch room r s)" "snd (copy_value ch room r s)" len v]
    by simp
  from assms show ?thesis
    by (simp add: parse_header_def Let_def split: option.splits prod.splits if_split_asm del: if_split)
      (erule copied)+
qed

text \<open>A form with one file, and one whose part has no room for its data.\<close>

definition ex_form :: "string \<Rightarrow> string" where
  "ex_form d = ''--xyz'' @ [CR, newline] @ ''Content-Disposition: form-data; name='' @ [CHR 0x22] @ ''f'' @ [CHR 0x22] @
     ''; filename='' @ [CHR 0x22] @ ''a.txt'' @ [CHR 0x22] @ [CR, newline, CR, newline] @ d @ ''--xyz--''"

lemma form_part: "mg_parse_multipart (ex_form (''data'' @ [CR, newline])) 100 100 = Some
    \<lparr>part_name = ''f'', part_file = ''a.txt'', part_data = ''data'', part_data_len = 4, part_end = 75\<rparr>"
  by code_simp

lemma form_negative: "map_option part_data_len (mg_parse_multipart (ex_form []) 100 100) = Some (-2)"
  by code_simp

text \<open>A comma ends a quoted value too, and then it is not closed.\<close>

lemma quoted_comma: "parse_header ([CHR 0x75, CHR ''='', CHR 0x22] @ ''a,b'' @ [CHR 0x22]) 7 ''u'' 100 = (0, ''a'')"
  by code_simp

end
