(* ===== verification/Http_Auth.thy ===== *)
theory Http_Auth
  imports Http_Parts Http_Server
begin

text \<open>
  Digest authentication of \<^verbatim>\<open>util/mongoose.c\<close>: the answer of the client in the \<^verbatim>\<open>Authorization\<close> header, the
  password file, and the comparison. The journal node's handler grants every request, so its server never
  gets here; the functions are those of the web server it is built on.
\<close>

section \<open>The password\<close>

text \<open>The two calls of \<^verbatim>\<open>mg_md5\<close> have their own uninitialised contexts.\<close>

definition check_password :: "MD5_CTX \<Rightarrow> MD5_CTX \<Rightarrow> string \<Rightarrow> string \<Rightarrow> string \<Rightarrow> string \<Rightarrow> string \<Rightarrow>
    string \<Rightarrow> string \<Rightarrow> string \<Rightarrow> mg_result" where
  "check_password s1 s2 request_method ha1 uri nonce nc cnonce qop response =
     (let ha2 = mg_md5 s1 [request_method, '':'', uri];
          expected_response = mg_md5 s2 [ha1, '':'', nonce, '':'', nc, '':'', cnonce, '':'', qop, '':'', ha2] in
      if mg_strcasecmp response expected_response = 0 then MG_TRUE else MG_FALSE)"

text \<open>\<^verbatim>\<open>fgets(line, n, fp)\<close> until it returns NULL: at most \<open>n - 1\<close> characters, up to and with a newline.\<close>

definition fgets :: "nat \<Rightarrow> string \<Rightarrow> string \<times> string" where
  "fgets n s = (let t = take (n - 1) s; l = takeWhile (\<lambda>c. c \<noteq> newline) t;
                    line = (if length l < length t then l @ [newline] else l) in (line, drop (length line) s))"

lemma fgets_rest: "1 < n \<Longrightarrow> s \<noteq> [] \<Longrightarrow> length (snd (fgets n s)) < length s"
  by (cases n; cases "n - 1"; cases s) (auto simp: fgets_def Let_def)

function all_lines :: "string \<Rightarrow> string list" where
  "all_lines s = (if s = [] then [] else fst (fgets 256 s) # all_lines (snd (fgets 256 s)))"
  by pat_completeness auto
termination by (relation "measure length") (simp_all add: fgets_rest)

declare all_lines.simps [simp del]

text \<open>\<^verbatim>\<open>%[^:]\<close> followed by a colon: the text before it, which is not empty.\<close>

definition scan_field :: "string \<Rightarrow> (string \<times> string) option" where
  "scan_field s = (let f = takeWhile (\<lambda>c. c \<noteq> CHR '':'') s in
     if f \<noteq> [] \<and> length f < length s then Some (f, drop (Suc (length f)) s) else None)"

text \<open>\<^verbatim>\<open>sscanf(line, "%[^:]:%[^:]:%s", f_user, f_domain, ha1) == 3\<close>\<close>

definition scan_password_line :: "string \<Rightarrow> (string \<times> string \<times> string) option" where
  "scan_password_line line = (case scan_field (c_str line) of None \<Rightarrow> None
    | Some (f_user, r) \<Rightarrow> (case scan_field r of None \<Rightarrow> None
      | Some (f_domain, r') \<Rightarrow> (let ha1 = takeWhile (\<lambda>c. \<not> is_space c) (dropWhile is_space r') in
          if ha1 = [] then None else Some (f_user, f_domain, ha1))))"

text \<open>The first line for the user in the domain of the server; \<^verbatim>\<open>auth_domain\<close> has a default.\<close>

definition password_of :: "string \<Rightarrow> string \<Rightarrow> string option" where
  "password_of file user = map_option (\<lambda>(u, d, ha1). ha1)
     (find (\<lambda>(u, d, ha1). u = user \<and> or_null (config_option ''auth_domain'') = d)
       (List.map_filter scan_password_line (all_lines file)))"

text \<open>The values that must be there, in the order in which the code asks for them.\<close>

definition digest_fields :: "(string \<times> nat) list" where
  "digest_fields = [(''username'', 100), (''cnonce'', 100), (''response'', 100), (''uri'', 16384), (''qop'', 100),
     (''nc'', 100), (''nonce'', 100)]"

definition digest_values :: "string \<Rightarrow> (nat \<times> string) list" where
  "digest_values hdr = map (\<lambda>(name, len). mg_parse_header (Some hdr) name len) digest_fields"

text \<open>\<open>None\<close> is a file that could not be opened.\<close>

definition mg_authorize_digest :: "MD5_CTX \<Rightarrow> MD5_CTX \<Rightarrow> mg_connection \<Rightarrow> string option \<Rightarrow> mg_result" where
  "mg_authorize_digest s1 s2 c fp = (case fp of None \<Rightarrow> MG_FALSE
    | Some file \<Rightarrow> (case mg_get_header c ''Authorization'' of None \<Rightarrow> MG_FALSE
      | Some hdr \<Rightarrow>
          if mg_strncasecmp hdr ''Digest '' 7 \<noteq> 0 then MG_FALSE
          else (case digest_values hdr of
              [user, cnonce, resp, uri, qop, nc, nonce] \<Rightarrow>
                if fst user = 0 \<or> fst cnonce = 0 \<or> fst resp = 0 \<or> fst uri = 0 \<or> fst qop = 0 \<or> fst nc = 0 \<or> fst nonce = 0
                then MG_FALSE
                else (case password_of file (snd user) of None \<Rightarrow> MG_FALSE
                  | Some ha1 \<Rightarrow> check_password s1 s2 (or_null (mc_request_method c)) ha1 (snd uri) (snd nonce)
                      (snd nc) (snd cnonce) (snd qop) (snd resp))
            | _ \<Rightarrow> MG_FALSE)))"

section \<open>Which file is asked\<close>

definition PASSWORDS_FILE_NAME :: string where "PASSWORDS_FILE_NAME = ''.htpasswd''"

text \<open>The directory of a path: what stands before its last slash.\<close>

definition dir_of :: "string \<Rightarrow> string" where
  "dir_of path = (if CHR ''/'' \<in> set path then rev (drop 1 (dropWhile (\<lambda>c. c \<noteq> CHR ''/'') (rev path))) else [])"

text \<open>The options of the server are an argument: their names, with their values.\<close>

type_synonym settings = "string \<Rightarrow> string option"

definition open_auth_file :: "settings \<Rightarrow> fs \<Rightarrow> string \<Rightarrow> bool \<Rightarrow> string option" where
  "open_auth_file opts f path is_directory = (case opts ''global_auth_file'' of
      Some gpass \<Rightarrow> content f gpass
    | None \<Rightarrow> content f (mg_snprintf 8192 ((if is_directory then path else dir_of path) @ ''/'' @ PASSWORDS_FILE_NAME)))"

definition is_authorized :: "settings \<Rightarrow> MD5_CTX \<Rightarrow> MD5_CTX \<Rightarrow> fs \<Rightarrow> mg_connection \<Rightarrow> string \<Rightarrow> bool \<Rightarrow> mg_result" where
  "is_authorized opts s1 s2 f c path is_directory = (case open_auth_file opts f path is_directory of
      None \<Rightarrow> MG_TRUE | Some file \<Rightarrow> mg_authorize_digest s1 s2 c (Some file))"

definition is_authorized_for_dav :: "settings \<Rightarrow> MD5_CTX \<Rightarrow> MD5_CTX \<Rightarrow> fs \<Rightarrow> mg_connection \<Rightarrow> mg_result" where
  "is_authorized_for_dav opts s1 s2 f c = (case opts ''dav_auth_file'' of
      None \<Rightarrow> if mc_request_method c = Some ''PROPFIND'' then MG_TRUE else MG_FALSE
    | Some auth_file \<Rightarrow> (case content f auth_file of
        Some file \<Rightarrow> mg_authorize_digest s1 s2 c (Some file) | None \<Rightarrow> MG_FALSE))"

text \<open>Asked only of a parsed request, which has a method.\<close>

definition is_dav_request :: "mg_connection \<Rightarrow> bool" where
  "is_dav_request c \<longleftrightarrow> (case mc_request_method c of None \<Rightarrow> False
     | Some s \<Rightarrow> s = ''PUT'' \<or> s = ''DELETE'' \<or> s = ''MKCOL'' \<or> s = ''PROPFIND'')"

section \<open>Facts\<close>

text \<open>The comparison is with the answer that RFC 2617 asks for, whatever is on the stack.\<close>

definition md5_hex :: "string \<Rightarrow> string" where
  "md5_hex m = bin2str (md5_standard m)"

lemma hex_digits: "list_all (\<lambda>i. ''0123456789abcdef'' ! i \<noteq> nul) [0..<16]"
  by code_simp

lemma bin2str_text: "nul \<notin> set (bin2str d)" "length (bin2str d) = 2 * length d"
proof -
  define h where "h = ''0123456789abcdef''"
  have h: "h ! i \<noteq> nul" if "i < 16" for i
    using hex_digits that by (simp add: list_all_iff h_def)
  have "code c div 16 < 16" "code c mod 16 < 16" for c using code_less [of c] by simp_all
  then have "nul \<notin> set [h ! (code c div 16), h ! (code c mod 16)]" for c
    using h by (metis (no_types) empty_iff empty_set set_ConsD)
  then show "nul \<notin> set (bin2str d)" unfolding bin2str_def h_def [symmetric] by (induction d) auto
  show "length (bin2str d) = 2 * length d" by (induction d) (simp_all add: bin2str_def)
qed

lemma length_md5_standard: "length (md5_standard m) = 16"
proof -
  have "length (rfc_compress h b) = 4" for h b by (simp add: rfc_compress_def split: prod.splits)
  then have l: "length (fst (absorb rfc_compress md5_iv d)) = 4" for d
    by (intro length_absorb) (simp_all add: md5_iv_def)
  have "length (concat (map le_bytes ws)) = 4 * length ws" for ws by (induction ws) simp_all
  then show ?thesis by (simp add: md5_standard_def Let_def l)
qed

lemma check_password_rfc:
  assumes ctx: "length (md5_in s1) = 64" "length (md5_in s2) = 64"
    and short: "\<forall>s \<in> {m, uri, ha1, nonce, nc, cnonce, qop}. nul \<notin> set s \<and> length s < 2 ^ 32"
  shows "check_password s1 s2 m ha1 uri nonce nc cnonce qop response = MG_TRUE \<longleftrightarrow>
    mg_strcasecmp response (md5_hex (ha1 @ '':'' @ nonce @ '':'' @ nc @ '':'' @ cnonce @ '':'' @ qop @ '':'' @
      md5_hex (m @ '':'' @ uri))) = 0"
proof -
  have c: "c_str s = s" if "nul \<notin> set s" for s :: string
    using that unfolding c_str_def by (induction s) auto
  have colon: "nul \<notin> set '':''" by (simp add: nul_def)
  have h: "nul \<notin> set (md5_hex x)" "length (md5_hex x) = 32" for x
    by (simp_all add: md5_hex_def bin2str_text length_md5_standard)
  have "mg_md5 s1 [m, '':'', uri] = md5_hex (m @ '':'' @ uri)"
    using mg_md5_standard [OF ctx(1), of "[m, '':'', uri]"] short colon
    by (simp add: strlen_def c md5_hex_def)
  moreover have "mg_md5 s2 [ha1, '':'', nonce, '':'', nc, '':'', cnonce, '':'', qop, '':'', md5_hex (m @ '':'' @ uri)] =
      md5_hex (ha1 @ '':'' @ nonce @ '':'' @ nc @ '':'' @ cnonce @ '':'' @ qop @ '':'' @ md5_hex (m @ '':'' @ uri))"
    using mg_md5_standard [OF ctx(2), of "[ha1, '':'', nonce, '':'', nc, '':'', cnonce, '':'', qop, '':'', md5_hex (m @ '':'' @ uri)]"]
      short colon h by (simp add: strlen_def c) (simp add: md5_hex_def)
  ultimately show ?thesis by (simp add: check_password_def Let_def)
qed

text \<open>Nobody is let in without a line in the password file.\<close>

lemma authorized_has_password:
  assumes "mg_authorize_digest s1 s2 c fp = MG_TRUE"
  shows "\<exists>file hdr ha1. fp = Some file \<and> mg_get_header c ''Authorization'' = Some hdr \<and>
    password_of file (snd (mg_parse_header (Some hdr) ''username'' 100)) = Some ha1"
  using assms
  by (auto simp: mg_authorize_digest_def digest_values_def digest_fields_def split: option.splits if_splits)

end
