(* ===== verification/Http_Pages.thy ===== *)
theory Http_Pages
  imports Http_Auth "HOL-Library.Sublist"
begin

text \<open>
  Pages that \<^verbatim>\<open>util/mongoose.c\<close> makes from text with marks in it: \<^verbatim>\<open>mg_template\<close>, which replaces
  \<^verbatim>\<open>{{keyword}}\<close>, and the server side includes. The journal node has no document root and turns neither on.
  The options are an argument.
\<close>

definition quote :: string where "quote = [CHR 0x22]"

section \<open>Templates\<close>

text \<open>
  \<open>pending\<close> is what stands between \<^verbatim>\<open>pos\<close> and \<^verbatim>\<open>i\<close>, \<open>inside\<close> is \<^verbatim>\<open>inside_marker\<close>. The handlers of the keywords
  are programs.
\<close>

function template_from :: "(string \<times> unit http) list \<Rightarrow> string \<Rightarrow> bool \<Rightarrow> string \<Rightarrow> unit http" where
  "template_from expansions pending inside [] = (if pending \<noteq> [] then mg_send_data pending else ret ())"
| "template_from expansions pending inside (ch # s) =
     (if \<not> inside \<and> ch = CHR ''{'' \<and> take 1 s = ''{''
      then (let continue = template_from expansions [ch] True s in
        if pending \<noteq> [] then seq (mg_send_data pending) (\<lambda>_. continue) else continue)
      else if inside \<and> ch = CHR ''}'' \<and> take 1 s = ''}''
      then (case map_of expansions (drop 2 pending) of
          Some handler \<Rightarrow> seq handler (\<lambda>_. template_from expansions [] False (drop 1 s))
        | None \<Rightarrow> template_from expansions (pending @ [ch]) False s)
      else template_from expansions (pending @ [ch]) inside s)"
  by pat_completeness auto
termination by (relation "measure (\<lambda>(x, p, i, s). length s)") auto

declare template_from.simps(2) [simp del]

definition mg_template :: "string \<Rightarrow> (string \<times> unit http) list \<Rightarrow> unit http" where
  "mg_template s expansions = template_from expansions [] False s"

section \<open>Server side includes\<close>

definition IOBUF_SIZE :: nat where "IOBUF_SIZE = 8192"

definition mg_write :: "string \<Rightarrow> unit http" where
  "mg_write buf = ns_send buf"

function send_file_data :: "string \<Rightarrow> unit http" where
  "send_file_data bytes = (if bytes = [] then ret ()
     else seq (mg_write (take IOBUF_SIZE bytes)) (\<lambda>_. send_file_data (drop IOBUF_SIZE bytes)))"
  by pat_completeness auto
termination by (relation "measure length") (auto simp: IOBUF_SIZE_def)

declare send_file_data.simps [simp del]

text \<open>What the system answers beside files: the output of a command, if it can be started, and the text of an error.\<close>

record system_calls =
  popen :: "string \<Rightarrow> string option"
  strerror :: string

text \<open>\<^verbatim>\<open>sscanf\<close> of a space, an attribute and an opening quote, and the text up to the closing one.\<close>

definition scan_quoted :: "string \<Rightarrow> string \<Rightarrow> string option" where
  "scan_quoted attr tag = (let r = dropWhile is_space tag; lit = attr @ quote;
       w = takeWhile (\<lambda>c. c \<noteq> CHR 0x22) (drop (length lit) r) in
     if take (length lit) r = lit \<and> w \<noteq> [] then Some w else None)"

text \<open>The path up to its last slash; all of it when there is none.\<close>

definition up_to_slash :: "string \<Rightarrow> string" where
  "up_to_slash path = (if CHR ''/'' \<in> set path
     then rev (dropWhile (\<lambda>c. c \<noteq> CHR ''/'') (rev path)) else path)"

definition ssi_path :: "settings \<Rightarrow> string \<Rightarrow> string \<Rightarrow> string option" where
  "ssi_path opts ssi tag = (case scan_quoted ''virtual='' tag of
       Some file_name \<Rightarrow> Some (mg_snprintf 8192 (or_null (opts ''document_root'') @ ''/'' @ file_name))
     | None \<Rightarrow> (case scan_quoted ''abspath='' tag of
         Some file_name \<Rightarrow> Some (mg_snprintf 8192 file_name)
       | None \<Rightarrow> (case (case scan_quoted ''file='' tag of Some f \<Rightarrow> Some f | None \<Rightarrow> scan_quoted [] tag) of
           Some file_name \<Rightarrow> (let path = up_to_slash (mg_snprintf 8192 ssi) in
             Some (path @ mg_snprintf (8192 - length path) file_name))
         | None \<Rightarrow> None)))"

text \<open>\<open>send_page\<close> is \<^verbatim>\<open>send_ssi_file\<close> one level deeper.\<close>

definition do_ssi_include :: "settings \<Rightarrow> system_calls \<Rightarrow> (string \<Rightarrow> string \<Rightarrow> unit http) \<Rightarrow> string \<Rightarrow> string \<Rightarrow> unit http" where
  "do_ssi_include opts sys send_page ssi tag = (case ssi_path opts ssi tag of
       None \<Rightarrow> mg_printf (''Bad SSI #include: ['' @ tag @ '']'')
     | Some path \<Rightarrow> seq (attempt (on_node_fs (sys_read path))) (\<lambda>fp. case fp of
         None \<Rightarrow> mg_printf (''Cannot open SSI #include: ['' @ tag @ '']: fopen('' @ path @ ''): '' @ strerror sys)
       | Some text \<Rightarrow> if 0 < mg_match_prefix (or_null (opts ''ssi_pattern'')) path
           then send_page path text else send_file_data text))"

definition do_ssi_exec :: "system_calls \<Rightarrow> string \<Rightarrow> unit http" where
  "do_ssi_exec sys tag = (case scan_quoted [] tag of
       None \<Rightarrow> mg_printf (''Bad SSI #exec: ['' @ tag @ '']'')
     | Some cmd \<Rightarrow> (case popen sys cmd of
         None \<Rightarrow> mg_printf (''Cannot SSI #exec: ['' @ cmd @ '']: '' @ strerror sys)
       | Some output \<Rightarrow> send_file_data output))"

text \<open>A whole tag; what is behind a NUL in it is not looked at.\<close>

definition do_ssi_tag :: "settings \<Rightarrow> system_calls \<Rightarrow> (string \<Rightarrow> string \<Rightarrow> unit http) \<Rightarrow> string \<Rightarrow> string \<Rightarrow> unit http" where
  "do_ssi_tag opts sys send_page path buf =
     (if take 7 (drop 5 buf) = ''include'' then do_ssi_include opts sys send_page path (c_str (drop 12 buf))
      else if take 4 (drop 5 buf) = ''exec'' then do_ssi_exec sys (c_str (drop 9 buf))
      else mg_printf (path @ '': unknown SSI command: '' @ quote @ c_str buf @ quote))"

text \<open>The loop over the characters of the file. \<open>on_tag\<close> gets a tag that has come to its end.\<close>

definition is_tag :: "string \<Rightarrow> bool" where
  "is_tag buf \<longleftrightarrow> take 5 buf = ''<!--#''"

definition flush_page :: "string \<Rightarrow> unit http" where
  "flush_page buf = (if buf \<noteq> [] then mg_write buf else ret ())"

fun ssi_loop :: "(string \<Rightarrow> unit http) \<Rightarrow> string \<Rightarrow> bool \<Rightarrow> string \<Rightarrow> string \<Rightarrow> unit http" where
  "ssi_loop on_tag path in_ssi_tag buf [] = flush_page buf"
| "ssi_loop on_tag path in_ssi_tag buf (ch # fp) =
     (if in_ssi_tag \<and> ch = CHR ''>''
      then seq (if length (buf @ [ch]) < 6 \<or> \<not> is_tag (buf @ [ch]) then mg_write (buf @ [ch]) else on_tag (buf @ [ch]))
             (\<lambda>_. ssi_loop on_tag path False [] fp)
      else if in_ssi_tag
      then (if length buf = 5 \<and> \<not> is_tag buf then ssi_loop on_tag path False (buf @ [ch]) fp
        else if length buf = IOBUF_SIZE - 2
        then seq (mg_printf (path @ '': SSI tag is too large'')) (\<lambda>_. ssi_loop on_tag path True [ch] fp)
        else ssi_loop on_tag path True (buf @ [ch]) fp)
      else if ch = CHR ''<'' then seq (flush_page buf) (\<lambda>_. ssi_loop on_tag path True [ch] fp)
      else if length (buf @ [ch]) = IOBUF_SIZE then seq (mg_write (buf @ [ch])) (\<lambda>_. ssi_loop on_tag path False [] fp)
      else ssi_loop on_tag path False (buf @ [ch]) fp)"

text \<open>\<open>levels\<close> is \<^verbatim>\<open>11 - include_level\<close>: a page can be included ten levels deep.\<close>

fun send_ssi_file :: "settings \<Rightarrow> system_calls \<Rightarrow> nat \<Rightarrow> string \<Rightarrow> string \<Rightarrow> unit http" where
  "send_ssi_file opts sys 0 path fp = mg_printf (''SSI #include level is too deep ('' @ path @ '')'')"
| "send_ssi_file opts sys (Suc levels) path fp =
     ssi_loop (do_ssi_tag opts sys (send_ssi_file opts sys levels) path) path False [] fp"

section \<open>Errors with a text\<close>

text \<open>\<^verbatim>\<open>send_http_error\<close> with a format: \<open>detail\<close> is what it makes.\<close>

definition send_http_error_text :: "settings \<Rightarrow> env \<Rightarrow> unit http \<Rightarrow> int \<Rightarrow> string \<Rightarrow> unit http" where
  "send_http_error_text opts e again err_code detail =
     (let message = status_code_to_str err_code in
      seq (set_status err_code) (\<lambda>_. seq (call_user e MG_HTTP_ERROR) (\<lambda>(r, _).
        if r = MG_TRUE then close_local_endpoint again
        else (case find (\<lambda>(a, b). 0 < atoi a \<and> atoi a = err_code) (all_options (case opts ''url_rewrites'' of Some v \<Rightarrow> v | None \<Rightarrow> [])) of
            Some (a, b) \<Rightarrow> seq (set_status 302) (\<lambda>_. seq conn (\<lambda>c.
              seq (mg_printf (''HTTP/1.1 302 Moved'' @ crlf @ ''Location: '' @
                     (case b of Some u \<Rightarrow> u | None \<Rightarrow> []) @ ''?code='' @ show_int err_code @
                     ''&orig_uri='' @ or_null (mc_uri (mg_conn c)) @ ''&query_string='' @
                     (case mc_query_string (mg_conn c) of Some q \<Rightarrow> q | None \<Rightarrow> []) @ crlf @ crlf))
                (\<lambda>_. close_local_endpoint again)))
          | None \<Rightarrow>
              (let start = mg_snprintf 200 (show_int err_code @ '' '' @ message @ [newline]);
                   body = (if (300 \<le> err_code \<and> err_code \<le> 399) \<or> err_code = 204 then []
                           else start @ mg_snprintf (200 - length start) detail);
                   headers = mg_snprintf 200 (status_line err_code @ ''Content-Length: '' @
                     show_int (int (length body)) @ crlf @ ''Content-Type: text/plain'' @ crlf @ crlf) in
               seq (ns_send headers) (\<lambda>_. seq (ns_send body) (\<lambda>_. close_local_endpoint again)))))))"

text \<open>Without a detail and with the default options it is the one of the journal node.\<close>

lemma send_http_error_no_text: "send_http_error_text config_option e again err_code [] = send_http_error e again err_code"
proof -
  have "all_options [] = []" by (subst all_options.simps) (simp add: next_option_def)
  moreover have c: "config_option ''url_rewrites'' = None" by (simp add: config_option_def static_config_options_def)
  ultimately have r: "all_options (case config_option ''url_rewrites'' of Some v \<Rightarrow> v | None \<Rightarrow> []) = []"
    "options_of ''url_rewrites'' = []" by (simp_all add: options_of_def)
  have n: "mg_snprintf k [] = []" for k by (simp add: mg_snprintf_def)
  show ?thesis
    unfolding send_http_error_text_def send_http_error_def r n Let_def append_Nil2 ..
qed

text \<open>The content type is looked up with the default options.\<close>

definition handle_ssi_request :: "settings \<Rightarrow> system_calls \<Rightarrow> env \<Rightarrow> unit http \<Rightarrow> string \<Rightarrow> unit http" where
  "handle_ssi_request opts sys e again path = seq (attempt (on_node_fs (sys_read path))) (\<lambda>fp. case fp of
      None \<Rightarrow> send_http_error_text opts e again 500 (''fopen('' @ path @ ''): '' @ strerror sys)
    | Some text \<Rightarrow> seq (set_status 200) (\<lambda>_.
        seq (mg_printf (''HTTP/1.1 200 OK'' @ crlf @ ''Content-Type: '' @ get_mime_type path @ crlf @
               ''Connection: close'' @ crlf @ crlf)) (\<lambda>_.
        seq (send_ssi_file opts sys 11 path text) (\<lambda>_. close_local_endpoint again))))"

section \<open>Pages without marks\<close>

definition sent :: "string \<Rightarrow> connection \<Rightarrow> connection" where
  "sent t c = c\<lparr>send_iobuf := send_iobuf c @ t\<rparr>"

lemma ns_send_sent: "ns_send t (n, c) = (Return (), (n, sent t c))"
  by (simp add: ns_send_def sent_def iobuf_append_def upd_snd_def)

lemma mg_write_sent: "mg_write t (n, c) = (Return (), (n, sent t c))"
  by (simp add: mg_write_def ns_send_sent)

lemma flush_page_sent: "flush_page t (n, c) = (Return (), (n, sent t c))"
  by (simp add: flush_page_def mg_write_sent ret_def sent_def)

lemma sent_sent: "sent t (sent s c) = sent (s @ t) c"
  by (simp add: sent_def)

lemma sent_none [simp]: "sent [] c = c"
  by (simp add: sent_def)

lemma send_file_data_sent: "send_file_data t (n, c) = (Return (), (n, sent t c))"
proof (induction t arbitrary: c rule: send_file_data.induct)
  case (1 t)
  then show ?case
    by (subst send_file_data.simps) (simp add: ret_def seq_def mg_write_sent sent_sent)
qed

lemma is_tag_sublist: "is_tag x \<Longrightarrow> sublist ''<!--#'' (x @ y)"
proof -
  assume "is_tag x"
  then have "x @ y = [] @ ''<!--#'' @ (drop 5 x @ y)"
    unfolding is_tag_def by (metis append.left_neutral append.assoc append_take_drop_id)
  then show ?thesis unfolding sublist_def by blast
qed

text \<open>What the loop has in its buffer can still become a tag only while it is the beginning of one.\<close>

lemma ssi_loop_plain:
  assumes "\<not> sublist ''<!--#'' (buf @ fp)" "in_ssi_tag \<longrightarrow> length buf \<le> 5" "length buf < IOBUF_SIZE"
  shows "ssi_loop on_tag path in_ssi_tag buf fp (n, c) = (Return (), (n, sent (buf @ fp) c))"
  using assms
proof (induction fp arbitrary: in_ssi_tag buf c)
  case Nil
  then show ?case by (simp add: flush_page_sent)
next
  case (Cons ch fp)
  have sub: "\<not> sublist ''<!--#'' fp" "\<not> sublist ''<!--#'' (ch # fp)"
    using Cons.prems(1) by (meson sublist_append sublist_Cons_right)+
  have none: "\<not> is_tag buf" "\<not> is_tag (buf @ [ch])"
    using Cons.prems(1) is_tag_sublist [of buf "ch # fp"] is_tag_sublist [of "buf @ [ch]" fp] by auto
  have more: "ssi_loop on_tag path b (buf @ [ch]) fp (n, c) = (Return (), (n, sent (buf @ ch # fp) c))"
    if "b \<longrightarrow> length buf \<le> 4" "length (buf @ [ch]) < IOBUF_SIZE" for b
    using Cons.IH [of "buf @ [ch]" b c] Cons.prems(1) that by simp
  have start: "ssi_loop on_tag path False [] fp (n, d) = (Return (), (n, sent fp d))" for d
    using Cons.IH [of "[]" False d] sub by (simp add: IOBUF_SIZE_def)
  have tag: "ssi_loop on_tag path True [ch] fp (n, d) = (Return (), (n, sent (ch # fp) d))" for d
    using Cons.IH [of "[ch]" True d] sub by (simp add: IOBUF_SIZE_def)
  show ?case
  proof (cases in_ssi_tag)
    case True
    with Cons.prems(2) have l: "length buf \<le> 5" "length buf \<noteq> IOBUF_SIZE - 2" "length (buf @ [ch]) < IOBUF_SIZE"
      by (auto simp: IOBUF_SIZE_def)
    with True none more start show ?thesis by (auto simp: seq_def mg_write_sent sent_sent)
  next
    case False
    then show ?thesis
      using more start tag Cons.prems(3) by (auto simp: seq_def mg_write_sent flush_page_sent sent_sent)
  qed
qed

text \<open>
  A page in which no tag begins is sent as it is, whatever angle brackets it has and however they stand.
\<close>

lemma plain_page_is_sent_unchanged:
  assumes "\<not> sublist ''<!--#'' page"
  shows "send_ssi_file opts sys (Suc levels) path page (n, c) = (Return (), (n, sent page c))"
  using ssi_loop_plain [of "[]" page False] assms by (simp add: IOBUF_SIZE_def)

text \<open>A tag that comes to its end is handed on, and the loop goes on behind it.\<close>

lemma ssi_loop_collect:
  assumes "CHR ''>'' \<notin> set t" "length buf + length t < IOBUF_SIZE - 2" "5 \<le> length buf" "is_tag buf"
  shows "ssi_loop on_tag path True buf (t @ CHR ''>'' # fp) = seq (on_tag (buf @ t @ ''>'')) (\<lambda>_. ssi_loop on_tag path False [] fp)"
  using assms
proof (induction t arbitrary: buf)
  case Nil
  then show ?case by (simp add: is_tag_def)
next
  case (Cons ch t)
  have "is_tag (buf @ [ch])" "ch \<noteq> CHR ''>''" using Cons.prems by (auto simp: is_tag_def)
  with Cons show ?case by (simp add: IOBUF_SIZE_def)
qed

lemma ssi_loop_tag:
  assumes "CHR ''>'' \<notin> set t" "length t < IOBUF_SIZE - 7"
  shows "ssi_loop on_tag path False [] (''<!--#'' @ t @ CHR ''>'' # fp) =
    seq (on_tag (''<!--#'' @ t @ ''>'')) (\<lambda>_. ssi_loop on_tag path False [] fp)"
proof -
  have "ssi_loop on_tag path True ''<!--#'' (t @ CHR ''>'' # fp) =
    seq (on_tag (''<!--#'' @ t @ ''>'')) (\<lambda>_. ssi_loop on_tag path False [] fp)"
    by (rule ssi_loop_collect) (use assms in \<open>auto simp: IOBUF_SIZE_def is_tag_def\<close>)
  then show ?thesis
    by (simp add: IOBUF_SIZE_def is_tag_def flush_page_def) (simp add: seq_def ret_def fun_eq_iff)
qed

lemma ssi_loop_text:
  assumes "CHR ''<'' \<notin> set a" "length buf < IOBUF_SIZE"
  shows "ssi_loop on_tag path False buf (a @ CHR ''<'' # fp) (n, c) = ssi_loop on_tag path True ''<'' fp (n, sent (buf @ a) c)"
  using assms
proof (induction a arbitrary: buf c)
  case Nil
  then show ?case by (simp add: seq_def flush_page_sent)
next
  case (Cons ch a)
  then show ?case by (auto simp: seq_def mg_write_sent sent_sent IOBUF_SIZE_def)
qed

lemma scan_quoted_back:
  assumes "CHR 0x22 \<notin> set w" "w \<noteq> []" "attr = [] \<or> \<not> is_space (hd attr)"
  shows "scan_quoted attr (CHR '' '' # attr @ quote @ w @ quote @ t) = Some w"
proof -
  have q: "\<not> is_space (CHR 0x22)" "is_space (CHR '' '')" by (simp_all add: is_space_def newline_def code_def)
  then have d: "dropWhile is_space (CHR '' '' # attr @ quote @ w @ quote @ t) = attr @ quote @ w @ quote @ t"
    using assms(3) by (cases attr) (auto simp: quote_def)
  have "takeWhile (\<lambda>c. c \<noteq> CHR 0x22) (w @ quote @ t) = w"
    by (rule takeWhile_prefix) (use assms(1) in \<open>auto simp: list_all_iff quote_def\<close>)
  then show ?thesis
    unfolding scan_quoted_def d Let_def using assms(2) by (simp add: quote_def)
qed

text \<open>
  A file that is included takes the place of its tag. No angle bracket may stand in front of the tag: an open one
  within five characters hides it.
\<close>

theorem included_file_takes_the_place_of_its_tag:
  assumes "CHR ''<'' \<notin> set a" "\<not> sublist ''<!--#'' b"
    and "w \<noteq> []" "CHR 0x22 \<notin> set w" "CHR ''>'' \<notin> set w" "nul \<notin> set w" "length w < 4000"
    and "opts ''document_root'' = Some root" "length root < 4000"
    and "content (n_fs n) (root @ ''/'' @ w) = Some text" "faults (n_fs n) = []"
    and "mg_match_prefix (or_null (opts ''ssi_pattern'')) (root @ ''/'' @ w) \<le> 0"
  shows "send_ssi_file opts sys (Suc levels) path
      (a @ ''<!--#include virtual='' @ quote @ w @ quote @ ''-->'' @ b) (n, c) = (Return (), (n, sent (a @ text @ b) c))"
proof -
  let ?t = "''include virtual='' @ quote @ w @ quote @ ''--''"
  let ?on = "do_ssi_tag opts sys (send_ssi_file opts sys levels) path"
  have nonul: "nul \<notin> set ('' virtual='' @ quote @ w @ quote @ ''-->'')"
    using assms(6) by (auto simp: quote_def nul_def)
  have "c_str ('' virtual='' @ quote @ w @ quote @ ''-->'') = '' virtual='' @ quote @ w @ quote @ ''-->''"
    unfolding c_str_def by (rule takeWhile_all) (use nonul in \<open>auto simp: list_all_iff\<close>)
  moreover have "scan_quoted ''virtual='' ('' virtual='' @ quote @ w @ quote @ ''-->'') = Some w"
    using scan_quoted_back [of w "''virtual=''" "''-->''"] assms(3,4) by (simp add: is_space_def newline_def code_def)
  ultimately have on: "?on (''<!--#'' @ ?t @ ''>'') (n, d) = (Return (), (n, sent text d))" for d
    using assms(7-12)
    by (simp add: do_ssi_tag_def do_ssi_include_def ssi_path_def mg_snprintf_def or_null_def seq_def attempt_def on_node_fs_def
        sys_read_def syscall_def send_file_data_sent)
  have "ssi_loop ?on path False [] (a @ CHR ''<'' # ''!--#'' @ ?t @ CHR ''>'' # b) (n, c) =
      ssi_loop ?on path True ''<'' (''!--#'' @ ?t @ CHR ''>'' # b) (n, sent a c)"
    using ssi_loop_text [OF assms(1), of "[]"] by (simp add: IOBUF_SIZE_def)
  also have "\<dots> = ssi_loop ?on path False [] (''<!--#'' @ ?t @ CHR ''>'' # b) (n, sent a c)"
    by (simp add: seq_def flush_page_sent)
  also have "\<dots> = seq (?on (''<!--#'' @ ?t @ ''>'')) (\<lambda>_. ssi_loop ?on path False [] b) (n, sent a c)"
    by (subst ssi_loop_tag) (use assms(5,7) in \<open>auto simp: IOBUF_SIZE_def quote_def\<close>)
  also have "\<dots> = (Return (), (n, sent (a @ text @ b) c))"
    unfolding seq_def on using ssi_loop_plain [of "[]" b False ?on path n] assms(2) by (simp add: sent_sent IOBUF_SIZE_def)
  finally show ?thesis by simp
qed

section \<open>Templates\<close>

lemma template_from_plain:
  assumes "\<not> sublist ''{{'' (pending @ s)" "\<not> inside"
  shows "template_from expansions pending inside s = (if pending @ s \<noteq> [] then mg_send_data (pending @ s) else ret ())"
  using assms
proof (induction s arbitrary: pending inside)
  case (Cons ch s)
  have "\<not> (ch = CHR ''{'' \<and> take 1 s = ''{'')"
  proof
    assume "ch = CHR ''{'' \<and> take 1 s = ''{''"
    then have "pending @ ch # s = pending @ ''{{'' @ drop 1 s" by (cases s) auto
    then show False using Cons.prems(1) unfolding sublist_def by blast
  qed
  then have "template_from expansions pending inside (ch # s) = template_from expansions (pending @ [ch]) False s"
    using Cons.prems(2) by (auto simp: template_from.simps(2))
  with Cons show ?case by simp
qed simp

lemma template_from_text:
  assumes "CHR ''{'' \<notin> set a"
  shows "template_from expansions pending False (a @ ''{{'' @ s) =
    (if pending @ a \<noteq> [] then seq (mg_send_data (pending @ a)) (\<lambda>_. template_from expansions ''{'' True (CHR ''{'' # s))
     else template_from expansions ''{'' True (CHR ''{'' # s))"
  using assms by (induction a arbitrary: pending) (auto simp: template_from.simps(2) Let_def)

lemma template_from_keyword:
  assumes "CHR ''}'' \<notin> set kw"
  shows "template_from expansions pending True (kw @ ''}}'' @ s) = (case map_of expansions (drop 2 (pending @ kw)) of
      Some handler \<Rightarrow> seq handler (\<lambda>_. template_from expansions [] False s)
    | None \<Rightarrow> template_from expansions (pending @ kw @ ''}'') False (CHR ''}'' # s))"
  using assms
proof (induction kw arbitrary: pending)
  case Nil
  show ?case by (simp add: template_from.simps(2) split: option.split)
next
  case (Cons ch kw)
  have "template_from expansions pending True ((ch # kw) @ ''}}'' @ s) = template_from expansions (pending @ [ch]) True (kw @ ''}}'' @ s)"
    using Cons.prems by (auto simp: template_from.simps(2))
  also have "\<dots> = (case map_of expansions (drop 2 ((pending @ [ch]) @ kw)) of
      Some handler \<Rightarrow> seq handler (\<lambda>_. template_from expansions [] False s)
    | None \<Rightarrow> template_from expansions ((pending @ [ch]) @ kw @ ''}'') False (CHR ''}'' # s))"
    by (rule Cons.IH) (use Cons.prems in simp)
  finally show ?case by (simp only: append_assoc append_Cons append_Nil)
qed

text \<open>
  A page is sent piece by piece: the text in front of a mark, then what the handler of its keyword sends, then the rest;
  and a page without marks as it is.
\<close>

theorem template_expands:
  assumes "CHR ''{'' \<notin> set a" "CHR ''}'' \<notin> set kw" "map_of expansions kw = Some handler"
  shows "mg_template (a @ ''{{'' @ kw @ ''}}'' @ b) expansions =
      seq (if a \<noteq> [] then mg_send_data a else ret ()) (\<lambda>_. seq handler (\<lambda>_. mg_template b expansions)) \<and>
    (\<not> sublist ''{{'' b \<longrightarrow> mg_template b expansions = (if b \<noteq> [] then mg_send_data b else ret ()))"
proof
  have one: "template_from expansions ''{'' True (CHR ''{'' # kw @ ''}}'' @ b) = template_from expansions ''{{'' True (kw @ ''}}'' @ b)"
    by (subst template_from.simps(2)) simp
  show "mg_template (a @ ''{{'' @ kw @ ''}}'' @ b) expansions =
      seq (if a \<noteq> [] then mg_send_data a else ret ()) (\<lambda>_. seq handler (\<lambda>_. mg_template b expansions))"
    unfolding mg_template_def template_from_text [OF assms(1)] one template_from_keyword [OF assms(2)]
    using assms(3) by (auto simp: seq_def ret_def fun_eq_iff)
  show "\<not> sublist ''{{'' b \<longrightarrow> mg_template b expansions = (if b \<noteq> [] then mg_send_data b else ret ())"
    using template_from_plain [of "[]" b False expansions] by (simp add: mg_template_def)
qed

end
