(* ===== verification/Http_Files.thy ===== *)
theory Http_Files
  imports Http_Pages Http_Access
begin

text \<open>
  What \<^verbatim>\<open>util/mongoose.c\<close> does with a document root: the file of a URI, index files, directory listings and WebDAV
  (PROPFIND, MKCOL, DELETE, PUT). The journal node sets no document root. The options are an argument; the
  file system is the one of the model.
\<close>

section \<open>System calls\<close>

text \<open>
  Names are looked up with repeated slashes taken as one; a slash at the end asks for a directory.
\<close>

fun squeeze :: "string \<Rightarrow> string" where
  "squeeze (a # b # s) = (if a = CHR ''/'' \<and> b = CHR ''/'' then squeeze (b # s) else a # squeeze (b # s))"
| "squeeze s = s"

definition canon :: "string \<Rightarrow> string" where
  "canon p = (let q = squeeze p in if 1 < length q \<and> last q = CHR ''/'' then butlast q else q)"

definition stat_path :: "string \<Rightarrow> (fs, bool \<times> nat) prog" where
  "stat_path p = syscall (\<lambda>f. case content f (canon p) of
      Some c \<Rightarrow> if p \<noteq> [] \<and> last p = CHR ''/'' then (Error, f) else (Return (False, length c), f)
    | None \<Rightarrow> if is_dir f (canon p) then (Return (True, 0), f) else (Error, f)) no_effect"

datatype errno = EEXIST | EACCES | ENOENT | EOTHER

text \<open>\<^verbatim>\<open>mkdir\<close>: nothing, or the error.\<close>

definition sys_mkdir :: "string \<Rightarrow> (fs, errno option) prog" where
  "sys_mkdir p = (\<lambda>f. case syscall (\<lambda>f. let q = canon p in
        if is_file f q \<or> is_dir f q then (Return (Some EEXIST), f)
        else if parent q = [] \<or> is_dir f (parent q) then (Return None, f\<lparr>dirs := dirs f @ [q]\<rparr>)
        else (Return (Some ENOENT), f)) no_effect f of
      (Error, g) \<Rightarrow> (Return (Some EOTHER), g) | r \<Rightarrow> r)"

definition sys_rmdir :: "string \<Rightarrow> (fs, unit) prog" where
  "sys_rmdir p = syscall (\<lambda>f. let q = canon p in
     if is_dir f q \<and> \<not> list_ex (under q) (map fst (dents f) @ dirs f)
     then (Return (), f\<lparr>dirs := removeAll q (dirs f)\<rparr>) else (Error, f)) no_effect"

text \<open>The names in a directory: files and directories.\<close>

definition sys_readdir :: "string \<Rightarrow> (fs, string list) prog" where
  "sys_readdir d = syscall (\<lambda>f. let q = canon d in
     if is_dir f q then (Return (List.map_filter (leaf q) (map fst (dents f) @ dirs f)), f) else (Error, f)) no_effect"

section \<open>The file of a URI\<close>

text \<open>
  Virtual hosts: the root of the first rewrite \<^verbatim>\<open>@domain=root\<close> for the host of the request, with what \<^verbatim>\<open>strlen\<close> makes of
  the pointer to it, which runs to the end of the option.
\<close>

function host_root :: "string \<Rightarrow> string \<Rightarrow> (string option \<times> nat) option" where
  "host_root domain rewrites = (case next_option rewrites of
      None \<Rightarrow> None
    | Some ((a, b), rest) \<Rightarrow>
        (let domain_len = length (takeWhile (\<lambda>c. c \<noteq> CHR '':'') domain) in
         if 1 < length a \<and> hd a = CHR ''@'' \<and> length a = domain_len + 1 \<and> mg_strncasecmp (tl a) domain domain_len = 0
         then Some (b, length rewrites - (length a + 1)) else host_root domain rest))"
  by pat_completeness auto
termination by (relation "measure (\<lambda>(d, r). length r)") (auto simp: next_option_def Let_def split: if_splits)

declare host_root.simps [simp del]

definition document_root :: "settings \<Rightarrow> mg_connection \<Rightarrow> string option \<times> nat" where
  "document_root opts c = (case (opts ''url_rewrites'', mg_get_header c ''Host'') of
      (Some rewrites, Some domain) \<Rightarrow> (case host_root domain rewrites of
          Some r \<Rightarrow> r | None \<Rightarrow> (opts ''document_root'', length (or_null (opts ''document_root''))))
    | _ \<Rightarrow> (opts ''document_root'', length (or_null (opts ''document_root''))))"

definition rewritten :: "settings \<Rightarrow> string \<Rightarrow> string \<Rightarrow> nat \<Rightarrow> string" where
  "rewritten opts root uri buf_len =
     (case find (\<lambda>(a, b). 0 < mg_match_prefix a uri) (all_options (case opts ''url_rewrites'' of Some r \<Rightarrow> r | None \<Rightarrow> [])) of
        Some (a, b) \<Rightarrow> mg_snprintf buf_len ((case b of Some v \<Rightarrow> v | None \<Rightarrow> []) @ drop (nat (mg_match_prefix a uri)) uri)
      | None \<Rightarrow> mg_snprintf buf_len (root @ uri))"

text \<open>The loop over the slashes of the path for a CGI script in front of one.\<close>

fun path_info_from :: "settings \<Rightarrow> string \<Rightarrow> nat list \<Rightarrow> (fs, ((bool \<times> nat) \<times> string \<times> string option) option) prog" where
  "path_info_from opts buf [] = ret None"
| "path_info_from opts buf (i # is) =
     (if buf ! i = CHR ''/'' \<and> 0 < mg_match_prefix (or_null (opts ''cgi_pattern'')) (take i buf)
      then seq (attempt (stat_path (take i buf))) (\<lambda>st. case st of
          Some st \<Rightarrow> ret (Some (st, take i buf, Some (drop i buf)))
        | None \<Rightarrow> path_info_from opts buf is)
      else path_info_from opts buf is)"

text \<open>
  The result has the status of the file when there is one, the path, and \<^verbatim>\<open>path_info\<close>. Without a root the buffer
  is not written. The loop starts behind the root; where the path is shorter, it reads what was in the buffer before.
\<close>

definition convert_uri_to_file_name ::
    "settings \<Rightarrow> mg_connection \<Rightarrow> nat \<Rightarrow> (fs, (bool \<times> nat) option \<times> string option \<times> string option) prog" where
  "convert_uri_to_file_name opts c buf_len = (case document_root opts c of
      (None, n) \<Rightarrow> ret (None, None, None)
    | (Some root, n) \<Rightarrow>
        if root = [] then ret (None, None, None)
        else (let buf = rewritten opts root (or_null (mc_uri c)) buf_len in
          seq (attempt (stat_path buf)) (\<lambda>st. case st of
            Some st \<Rightarrow> ret (Some st, Some buf, None)
          | None \<Rightarrow> if length buf < n + 2 then halt Undefined
              else seq (path_info_from opts buf [n + 2..<length buf]) (\<lambda>r. case r of
                Some (st, path, info) \<Rightarrow> ret (Some st, Some path, info)
              | None \<Rightarrow> ret (None, Some buf, None)))))"

section \<open>Index files and directory listings\<close>

definition strip_slashes :: "string \<Rightarrow> string" where
  "strip_slashes path = rev (dropWhile (\<lambda>c. c = CHR ''/'') (rev path))"

fun try_index :: "string \<Rightarrow> int \<Rightarrow> string list \<Rightarrow> (fs, ((bool \<times> nat) \<times> string) option) prog" where
  "try_index base room [] = ret None"
| "try_index base room (v # vs) =
     (if room < int (length v) then try_index base room vs
      else seq (attempt (stat_path (base @ v))) (\<lambda>st. case st of
          Some st \<Rightarrow> ret (Some (st, base @ v)) | None \<Rightarrow> try_index base room vs))"

text \<open>The index file with its status, or the path of the directory without slashes at its end.\<close>

definition find_index_file :: "settings \<Rightarrow> string \<Rightarrow> nat \<Rightarrow> (fs, (bool \<times> nat) option \<times> string) prog" where
  "find_index_file opts path path_len = (let base = strip_slashes path; n = length base in
     seq (try_index (base @ ''/'') (int path_len - (int n + 2)) (case opts ''index_files'' of Some l \<Rightarrow> all_values l | None \<Rightarrow> []))
       (\<lambda>r. case r of Some (st, p) \<Rightarrow> ret (Some st, p) | None \<Rightarrow> ret (None, base)))"

record dir_entry =
  file_name :: string
  de_dir :: bool
  de_size :: nat
  de_mtime :: int

definition must_hide :: "settings \<Rightarrow> string \<Rightarrow> bool" where
  "must_hide opts path \<longleftrightarrow> 0 < mg_match_prefix ''**.htpasswd$'' path \<or>
     (case opts ''hide_files_patterns'' of Some pattern \<Rightarrow> 0 < mg_match_prefix pattern path | None \<Rightarrow> False)"

text \<open>A name that cannot be asked for its status has zeros in it.\<close>

fun stat_entries :: "clock \<Rightarrow> string \<Rightarrow> string list \<Rightarrow> (fs, dir_entry list) prog" where
  "stat_entries ck dir [] = ret []"
| "stat_entries ck dir (d # ds) = (let path = mg_snprintf 8192 (dir @ ''/'' @ d) in
     seq (attempt (stat_path path)) (\<lambda>st. seq (stat_entries ck dir ds) (\<lambda>es.
       ret ((case st of Some (is_d, sz) \<Rightarrow> \<lparr>file_name = d, de_dir = is_d, de_size = sz, de_mtime = st_mtime ck path\<rparr>
             | None \<Rightarrow> \<lparr>file_name = d, de_dir = False, de_size = 0, de_mtime = 0\<rparr>) # es))))"

definition scan_directory :: "settings \<Rightarrow> clock \<Rightarrow> string \<Rightarrow> (fs, dir_entry list) prog" where
  "scan_directory opts ck dir = seq (attempt (sys_readdir dir)) (\<lambda>r. case r of
      None \<Rightarrow> ret []
    | Some names \<Rightarrow> stat_entries ck dir (filter (\<lambda>d. d \<noteq> ''.'' \<and> d \<noteq> ''..'' \<and> \<not> must_hide opts d) names))"

text \<open>\<^verbatim>\<open>strcmp\<close>, by its sign.\<close>

fun strcmp :: "string \<Rightarrow> string \<Rightarrow> int" where
  "strcmp [] [] = 0" | "strcmp [] (b # t) = -1" | "strcmp (a # s) [] = 1"
| "strcmp (a # s) (b # t) = (if code a < code b then -1 else if code b < code a then 1 else strcmp s t)"

definition three_way :: "int \<Rightarrow> int \<Rightarrow> int" where
  "three_way a b = (if a = b then 0 else if a > b then 1 else -1)"

text \<open>
  \<open>qs\<close> is the query string, or \<^verbatim>\<open>na\<close>. The character behind an empty one belongs to the version in the request line
  and is not \<^verbatim>\<open>d\<close>.
\<close>

definition compare_dir_entries :: "string \<Rightarrow> dir_entry \<Rightarrow> dir_entry \<Rightarrow> int" where
  "compare_dir_entries qs a b =
     (if de_dir a \<and> \<not> de_dir b then -1
      else if \<not> de_dir a \<and> de_dir b then 1
      else (let cmp_result = (if char_at qs = CHR ''n'' then strcmp (file_name a) (file_name b)
              else if char_at qs = CHR ''s'' then three_way (int (de_size a)) (int (de_size b))
              else if char_at qs = CHR ''d'' then three_way (de_mtime a) (de_mtime b) else 0) in
        if char_at (drop 1 qs) = CHR ''d'' then - cmp_result else cmp_result))"

text \<open>\<^verbatim>\<open>qsort\<close>, as an insertion that keeps the order of equal elements.\<close>

fun sorted_in :: "('a \<Rightarrow> 'a \<Rightarrow> int) \<Rightarrow> 'a \<Rightarrow> 'a list \<Rightarrow> 'a list" where
  "sorted_in cmp x [] = [x]"
| "sorted_in cmp x (y # ys) = (if cmp x y \<le> 0 then x # y # ys else y # sorted_in cmp x ys)"

definition qsort :: "('a \<Rightarrow> 'a \<Rightarrow> int) \<Rightarrow> 'a list \<Rightarrow> 'a list" where
  "qsort cmp xs = foldr (sorted_in cmp) xs []"

text \<open>\<^verbatim>\<open>%.1f\<close> of a quotient by a power of two, which the division of doubles has exactly; ties go to even.\<close>

definition one_decimal :: "nat \<Rightarrow> nat \<Rightarrow> string" where
  "one_decimal n d = (let q = 10 * n; r = q mod d; t = q div d;
       t = (if d < 2 * r \<or> (2 * r = d \<and> odd t) then t + 1 else t) in
     show_nat (t div 10) @ ''.'' @ show_nat (t mod 10))"

definition size_text :: "dir_entry \<Rightarrow> string" where
  "size_text de = (if de_dir de then ''[DIRECTORY]'' else (let fsize = de_size de in
     if fsize < 1024 then show_nat fsize
     else if fsize < 0x100000 then one_decimal fsize 1024 @ ''k''
     else if fsize < 0x40000000 then one_decimal fsize 1048576 @ ''M''
     else one_decimal fsize 1073741824 @ ''G''))"

definition mg_printf_data :: "string \<Rightarrow> unit http" where
  "mg_printf_data text = seq terminate_headers (\<lambda>_. write_chunk (ns_avprintf IOBUF_SIZE text))"

text \<open>\<open>local_date\<close> is \<^verbatim>\<open>strftime\<close> of the local time, with days, months and minutes.\<close>

definition print_dir_entry :: "(int \<Rightarrow> string) \<Rightarrow> dir_entry \<Rightarrow> unit http" where
  "print_dir_entry local_date de = (let href = mg_url_encode (file_name de) (3 * 8192); slash = (if de_dir de then ''/'' else []) in
     mg_printf_data (''<tr><td><a href='' @ quote @ href @ slash @ quote @ ''>'' @ file_name de @ slash @ ''</a></td>'' @
       ''<td>&nbsp;'' @ local_date (de_mtime de) @ ''</td><td>&nbsp;&nbsp;'' @ mg_snprintf 64 (size_text de) @ ''</td></tr>'' @ [newline]))"

fun print_all :: "('a \<Rightarrow> unit http) \<Rightarrow> 'a list \<Rightarrow> unit http" where
  "print_all p [] = ret ()"
| "print_all p (e # es) = seq (p e) (\<lambda>_. print_all p es)"

definition listing_head :: "string \<Rightarrow> char \<Rightarrow> string" where
  "listing_head uri dir = (let link = (\<lambda>k. ''<th><a href='' @ quote @ ''?'' @ k @ [dir] @ quote @ ''>'') in
     ''<html><head><title>Index of '' @ uri @ ''</title>'' @ ''<style>th {text-align: left;}</style></head>'' @
     ''<body><h1>Index of '' @ uri @ ''</h1><pre><table cellpadding='' @ quote @ ''0'' @ quote @ ''>'' @
     ''<tr>'' @ link ''n'' @ ''Name</a></th>'' @ link ''d'' @ ''Modified</a></th>'' @ link ''s'' @ ''Size</a></th></tr>'' @
     ''<tr><td colspan='' @ quote @ ''3'' @ quote @ ''><hr></td></tr>'')"

definition send_directory_listing :: "settings \<Rightarrow> clock \<Rightarrow> (int \<Rightarrow> string) \<Rightarrow> unit http \<Rightarrow> string \<Rightarrow> unit http" where
  "send_directory_listing opts ck local_date again dir = seq conn (\<lambda>c.
     (let query = mc_query_string (mg_conn c);
          sort_direction = (case query of Some q \<Rightarrow> if char_at (drop 1 q) = CHR ''d'' then CHR ''a'' else CHR ''d'' | None \<Rightarrow> CHR ''d'') in
      seq (mg_send_header ''Transfer-Encoding'' ''chunked'') (\<lambda>_.
      seq (mg_send_header ''Content-Type'' ''text/html; charset=utf-8'') (\<lambda>_.
      seq (mg_printf_data (listing_head (or_null (mc_uri (mg_conn c))) sort_direction)) (\<lambda>_.
      seq (on_node_fs (scan_directory opts ck dir)) (\<lambda>arr.
      seq (print_all (print_dir_entry local_date) (qsort (compare_dir_entries (case query of Some q \<Rightarrow> q | None \<Rightarrow> ''na'')) arr)) (\<lambda>_.
      seq write_terminating_chunk (\<lambda>_. close_local_endpoint again))))))))"

section \<open>WebDAV\<close>

definition print_props :: "string \<Rightarrow> bool \<Rightarrow> nat \<Rightarrow> int \<Rightarrow> unit http" where
  "print_props uri is_directory sz mtime = mg_printf (''<d:response>'' @ ''<d:href>'' @ uri @ ''</d:href>'' @
     ''<d:propstat>'' @ ''<d:prop>'' @ ''<d:resourcetype>'' @ (if is_directory then ''<d:collection/>'' else []) @ ''</d:resourcetype>'' @
     ''<d:getcontentlength>'' @ show_nat sz @ ''</d:getcontentlength>'' @
     ''<d:getlastmodified>'' @ gmt_time_string mtime @ ''</d:getlastmodified>'' @ ''</d:prop>'' @
     ''<d:status>HTTP/1.1 200 OK</d:status>'' @ ''</d:propstat>'' @ ''</d:response>'' @ [newline])"

definition propfind_header :: string where
  "propfind_header = ''HTTP/1.1 207 Multi-Status'' @ crlf @ ''Connection: close'' @ crlf @
     ''Content-Type: text/xml; charset=utf-8'' @ crlf @ crlf @
     ''<?xml version='' @ quote @ ''1.0'' @ quote @ '' encoding='' @ quote @ ''utf-8'' @ quote @ ''?>'' @
     ''<d:multistatus xmlns:d='' @ [CHR 0x27] @ ''DAV:'' @ [CHR 0x27] @ ''>'' @ [newline]"

definition print_entry_props :: "dir_entry \<Rightarrow> unit http" where
  "print_entry_props de = print_props (mg_url_encode (file_name de) (3 * 8192)) (de_dir de) (de_size de) (de_mtime de)"

definition handle_propfind :: "settings \<Rightarrow> clock \<Rightarrow> unit http \<Rightarrow> string \<Rightarrow> (bool \<times> nat) option \<Rightarrow> unit http" where
  "handle_propfind opts ck again path st = seq conn (\<lambda>c. seq (set_status 207) (\<lambda>_.
     seq (case st of
         None \<Rightarrow> seq (set_status 404) (\<lambda>_. mg_printf (''HTTP/1.1 404 Not Found'' @ crlf @ crlf))
       | Some (is_directory, sz) \<Rightarrow>
           if is_directory \<and> mg_strcasecmp (or_null (opts ''enable_directory_listing'')) ''yes'' \<noteq> 0
           then seq (set_status 403) (\<lambda>_. mg_printf (''HTTP/1.1 403 Directory Listing Denied'' @ crlf @ crlf))
           else seq (ns_send propfind_header) (\<lambda>_.
             seq (print_props (or_null (mc_uri (mg_conn c))) is_directory sz (st_mtime ck path)) (\<lambda>_.
             seq (if is_directory \<and> mg_get_header (mg_conn c) ''Depth'' \<noteq> Some ''0''
                  then seq (on_node_fs (scan_directory opts ck path)) (print_all print_entry_props)
                  else ret ()) (\<lambda>_. ns_send ''</d:multistatus>''))))
       (\<lambda>_. close_local_endpoint again)))"

definition handle_mkcol :: "settings \<Rightarrow> env \<Rightarrow> unit http \<Rightarrow> string \<Rightarrow> unit http" where
  "handle_mkcol opts e again path = seq conn (\<lambda>c.
     seq (if 0 < mc_content_len (mg_conn c) then ret 415
          else seq (on_node_fs (sys_mkdir path)) (\<lambda>r. ret (case r of
              None \<Rightarrow> 201 | Some EEXIST \<Rightarrow> 405 | Some EACCES \<Rightarrow> 403 | Some ENOENT \<Rightarrow> 409 | Some EOTHER \<Rightarrow> 500)))
       (\<lambda>status_code. send_http_error_text opts e again status_code []))"

text \<open>
  The directories below are removed first. A file system is not deeper than it has directories, so as many levels
  are enough.
\<close>

fun remove_entries :: "(string \<Rightarrow> (fs, unit) prog) \<Rightarrow> string \<Rightarrow> string list \<Rightarrow> (fs, unit) prog" where
  "remove_entries rmdirs dir [] = ret ()"
| "remove_entries rmdirs dir (d # ds) = (let path = mg_snprintf 8192 (dir @ ''/'' @ d) in
     seq (attempt (stat_path path)) (\<lambda>st.
     seq (case st of Some (True, sz) \<Rightarrow> rmdirs path
          | Some (False, sz) \<Rightarrow> seq (attempt (sys_remove (canon path))) (\<lambda>_. ret ())
          | None \<Rightarrow> halt Undefined) (\<lambda>_. remove_entries rmdirs dir ds)))"

fun remove_directory :: "nat \<Rightarrow> string \<Rightarrow> (fs, unit) prog" where
  "remove_directory 0 dir = halt Diverged"
| "remove_directory (Suc depth) dir = seq (attempt (sys_readdir dir)) (\<lambda>r. case r of
      None \<Rightarrow> ret ()
    | Some names \<Rightarrow> seq (remove_entries (remove_directory depth) dir (filter (\<lambda>d. d \<noteq> ''.'' \<and> d \<noteq> ''..'') names)) (\<lambda>_.
        seq (attempt (sys_rmdir dir)) (\<lambda>_. ret ())))"

definition handle_delete :: "settings \<Rightarrow> env \<Rightarrow> unit http \<Rightarrow> string \<Rightarrow> unit http" where
  "handle_delete opts e again path = seq (attempt (on_node_fs (stat_path path))) (\<lambda>st.
     seq (case st of
         None \<Rightarrow> ret 404
       | Some (True, sz) \<Rightarrow> seq (on_node_fs (\<lambda>f. remove_directory (Suc (length (dirs f))) path f)) (\<lambda>_. ret 204)
       | Some (False, sz) \<Rightarrow> seq (attempt (on_node_fs (sys_remove (canon path)))) (\<lambda>r. ret (if r = None then 423 else 204)))
     (\<lambda>status_code. send_http_error_text opts e again status_code []))"

text \<open>\<^verbatim>\<open>put_dir\<close> over the places of the slashes: 0 for a directory, -1 for an error, 1.\<close>

fun put_dir_from :: "string \<Rightarrow> nat list \<Rightarrow> (fs, int) prog" where
  "put_dir_from path [] = ret 1"
| "put_dir_from path (i # is) =
     (if 8192 \<le> i then ret (-1)
      else seq (attempt (stat_path (take i path))) (\<lambda>st.
        seq (if st = None then sys_mkdir (take i path) else ret None) (\<lambda>r.
          if r \<noteq> None then ret (-1)
          else if Suc i = length path then ret 0
          else put_dir_from path is)))"

definition put_dir :: "string \<Rightarrow> (fs, int) prog" where
  "put_dir path = put_dir_from path (filter (\<lambda>i. path ! i = CHR ''/'') [1..<length path])"

definition handle_put :: "settings \<Rightarrow> system_calls \<Rightarrow> env \<Rightarrow> unit http \<Rightarrow> string \<Rightarrow> unit http" where
  "handle_put opts sys e again path = seq conn (\<lambda>c. let cl_hdr = mg_get_header (mg_conn c) ''Content-Length'' in
     seq (attempt (on_node_fs (stat_path path))) (\<lambda>st.
     seq (set_status (if st = None then 201 else 200)) (\<lambda>_.
     seq (on_node_fs (put_dir path)) (\<lambda>rc.
       if rc = 0 then seq conn (\<lambda>c. seq (mg_printf (''HTTP/1.1 '' @ show_int (mc_status_code (mg_conn c)) @ '' OK'' @ crlf @ crlf))
         (\<lambda>_. close_local_endpoint again))
       else if rc = -1 then send_http_error_text opts e again 500 (''put_dir: '' @ strerror sys)
       else (case cl_hdr of
           None \<Rightarrow> send_http_error_text opts e again 411 []
         | Some cl_text \<Rightarrow> seq (attempt (on_node_fs (sys_open_trunc (canon path)))) (\<lambda>fd. case fd of
             None \<Rightarrow> send_http_error_text opts e again 500 (''open('' @ path @ ''): '' @ strerror sys)
           | Some i \<Rightarrow> seq (upd_snd (\<lambda>c. c\<lparr>endpoint := (i, 0), endpoint_type := EP_PUT, cl := fst (strtol cl_text)\<rparr>)) (\<lambda>_.
               seq (case mg_get_header (mg_conn c) ''Content-Range'' of
                   None \<Rightarrow> ret ()
                 | Some range_hdr \<Rightarrow> (case parse_range_header range_hdr of (n, r1, r2) \<Rightarrow>
                     if 0 < n then (let r2 = (if n = 2 then r2 else 0) in seq (set_status 206) (\<lambda>_.
                       upd_snd (\<lambda>c. c\<lparr>endpoint := (i, nat r1), cl := (if r1 < r2 then r2 - r1 + 1 else cl c - r1)\<rparr>)))
                     else ret ())) (\<lambda>_.
               seq conn (\<lambda>c. mg_printf (''HTTP/1.1 '' @ show_int (mc_status_code (mg_conn c)) @ '' OK'' @ crlf @
                 ''Content-Length: 0'' @ crlf @ crlf))))))))))"

text \<open>
  What has arrived of the body goes to the file, at most as much as is expected. A negative count is a huge one for \<^verbatim>\<open>write\<close>.
\<close>

definition forward_put_data :: "unit http \<Rightarrow> unit http" where
  "forward_put_data again = seq conn (\<lambda>c.
     (let io = recv_iobuf c; k = (if cl c < int (length io) then cl c else int (length io)); (i, off) = endpoint c in
      if k < 0 then halt Undefined
      else seq (attempt (on_node_fs (sys_write i off (take (nat k) io)))) (\<lambda>r.
        seq (if r \<noteq> None \<and> 0 < k
             then upd_snd (\<lambda>c. c\<lparr>recv_iobuf := iobuf_remove io (nat k), cl := cl c - k, endpoint := (i, off + nat k)\<rparr>)
             else ret ()) (\<lambda>_.
        seq conn (\<lambda>c. if cl c \<le> 0 then close_local_endpoint again else ret ())))))"

section \<open>A request for a file\<close>

text \<open>
  \<^verbatim>\<open>mg_send_file_internal\<close> with any options. An index file that is a directory is left open: \<^verbatim>\<open>open\<close> succeeds and
  \<^verbatim>\<open>read\<close> fails. CGI is another program.
\<close>

definition send_found :: "settings \<Rightarrow> system_calls \<Rightarrow> env \<Rightarrow> clock \<Rightarrow> unit http \<Rightarrow> string \<Rightarrow> bool \<times> nat \<Rightarrow> unit http" where
  "send_found opts sys e ck again path st = seq conn (\<lambda>c.
     if 0 < mg_match_prefix (or_null (opts ''cgi_pattern'')) path then elsewhere Cgi
     else if 0 < mg_match_prefix (or_null (opts ''ssi_pattern'')) path then handle_ssi_request opts sys e again path
     else if is_not_modified c (st_mtime ck path) (snd st) then send_http_error_text opts e again 304 []
     else if fst st then elsewhere Directory
     else seq (attempt (on_node_fs (sys_open_read (canon path)))) (\<lambda>fd. case fd of
         Some i \<Rightarrow> open_file_endpoint ck path (snd st) i
       | None \<Rightarrow> send_http_error_text opts e again 404 []))"

definition send_path :: "settings \<Rightarrow> system_calls \<Rightarrow> env \<Rightarrow> clock \<Rightarrow> (int \<Rightarrow> string) \<Rightarrow> unit http \<Rightarrow> string \<Rightarrow> (bool \<times> nat) option \<Rightarrow> unit http" where
  "send_path opts sys e ck local_date again fname st =
     (let path = mg_snprintf 8192 fname in seq conn (\<lambda>c. case st of
        None \<Rightarrow> send_http_error_text opts e again 404 []
      | Some (is_directory, sz) \<Rightarrow>
          (let uri = or_null (mc_uri (mg_conn c)) in
           if must_hide opts path then send_http_error_text opts e again 404 []
           else if is_directory \<and> uri = [] then halt Undefined
           else if is_directory \<and> last uri \<noteq> CHR ''/''
           then seq (set_status 301) (\<lambda>_. seq (mg_printf (''HTTP/1.1 301 Moved Permanently'' @ crlf @
                  ''Location: '' @ uri @ ''/'' @ crlf @ crlf)) (\<lambda>_. close_local_endpoint again))
           else if is_directory then seq (on_node_fs (find_index_file opts path 8192)) (\<lambda>(index, path). case index of
               Some st \<Rightarrow> send_found opts sys e ck again path st
             | None \<Rightarrow> if mg_strcasecmp (or_null (opts ''enable_directory_listing'')) ''yes'' = 0
                 then send_directory_listing opts ck local_date again path
                 else send_http_error_text opts e again 403 [])
           else send_found opts sys e ck again path (False, sz))))"

text \<open>
  The end of \<^verbatim>\<open>open_local_endpoint\<close>, behind the questions to the handler. \<open>s1\<close> and \<open>s2\<close> is what is on the stack where the digest
  is computed. With an empty root there is no path, and the buffer it is taken from is not initialised.
\<close>

definition dispatch_method :: "settings \<Rightarrow> system_calls \<Rightarrow> env \<Rightarrow> clock \<Rightarrow> (int \<Rightarrow> string) \<Rightarrow> unit http \<Rightarrow> string \<Rightarrow> (bool \<times> nat) option \<Rightarrow> unit http" where
  "dispatch_method opts sys e ck local_date again path st = seq conn (\<lambda>c.
     (let method = mc_request_method (mg_conn c) in
      if must_hide opts path then send_http_error_text opts e again 404 []
      else if method = Some ''PROPFIND'' then handle_propfind opts ck again path st
      else if method = Some ''MKCOL'' then handle_mkcol opts e again path
      else if method = Some ''DELETE'' then handle_delete opts e again path
      else if method = Some ''PUT'' then handle_put opts sys e again path
      else send_path opts sys e ck local_date again path st))"

definition open_document ::
    "settings \<Rightarrow> system_calls \<Rightarrow> MD5_CTX \<Rightarrow> MD5_CTX \<Rightarrow> env \<Rightarrow> clock \<Rightarrow> (int \<Rightarrow> string) \<Rightarrow> unit http \<Rightarrow> unit http" where
  "open_document opts sys s1 s2 e ck local_date again = seq conn (\<lambda>c.
     seq (on_node_fs (convert_uri_to_file_name opts (mg_conn c) 8192)) (\<lambda>(st, buf, info).
       if opts ''document_root'' = None then send_http_error_text opts e again 404 []
       else (case buf of None \<Rightarrow> halt Undefined
       | Some path \<Rightarrow> seq (gets (n_fs \<circ> fst)) (\<lambda>f.
           if (\<not> is_dav_request (mg_conn c) \<and> is_authorized opts s1 s2 f (mg_conn c) path
                 (case st of Some (d, sz) \<Rightarrow> d | None \<Rightarrow> False) \<noteq> MG_TRUE) \<or>
              (is_dav_request (mg_conn c) \<and> is_authorized_for_dav opts s1 s2 f (mg_conn c) \<noteq> MG_TRUE)
           then seq (mg_send_digest_auth_request ck again) (\<lambda>_. close_local_endpoint again)
           else dispatch_method opts sys e ck local_date again path st))))"

end
