(* ===== verification/Http_Documents.thy ===== *)
theory Http_Documents
  imports Http_Files Http_Download "HOL-Library.Multiset"
begin

text \<open>
  What requests do to the files under a document root: only a DAV request that the DAV password file admits changes
  one, and the pieces of the body of a PUT become the file.
\<close>

section \<open>The files as they are\<close>

definition disk :: "fs \<Rightarrow> (string \<times> nat) list \<times> (nat \<Rightarrow> string) \<times> string list" where
  "disk f = (dents f, data f, dirs f)"

definition same_disk :: "node \<times> connection \<Rightarrow> node \<times> connection \<Rightarrow> bool" where
  "same_disk s t \<longleftrightarrow> disk (n_fs (fst t)) = disk (n_fs (fst s))"

interpretation disk: step_order same_disk
  by unfold_locales (simp_all add: same_disk_def)















section \<open>The connection\<close>
















section \<open>Pages\<close>









section \<open>Only admitted DAV requests write\<close>









section \<open>Listings\<close>

text \<open>Whatever the query, the order of a listing is the same from both sides, and the listing has every entry once.\<close>

lemma strcmp_swap: "strcmp t s = - strcmp s t"
  by (induction s t rule: strcmp.induct) auto

lemma three_way_swap: "three_way b a = - three_way a b"
  by (simp add: three_way_def)

lemma compare_swap: "compare_dir_entries qs b a = - compare_dir_entries qs a b"
  using strcmp_swap [of "file_name b" "file_name a"] three_way_swap [of "int (de_size b)" "int (de_size a)"]
    three_way_swap [of "de_mtime b" "de_mtime a"]
  by (auto simp: compare_dir_entries_def Let_def)

lemma sorted_in_mset: "mset (sorted_in cmp x ys) = add_mset x (mset ys)"
  by (induction ys) auto

lemma listing_is_complete: "mset (qsort cmp xs) = mset xs"
  by (induction xs) (simp_all add: qsort_def sorted_in_mset)

lemma sorted_in_sorted:
  assumes "\<And>a b. cmp b a = - cmp a b" "\<And>a b c. cmp a b \<le> 0 \<Longrightarrow> cmp b c \<le> 0 \<Longrightarrow> cmp a c \<le> (0 :: int)"
    and "sorted_wrt (\<lambda>a b. cmp a b \<le> 0) ys"
  shows "sorted_wrt (\<lambda>a b. cmp a b \<le> 0) (sorted_in cmp x ys)"
  using assms(3)
proof (induction ys)
  case (Cons y ys)
  have "set (sorted_in cmp x zs) = insert x (set zs)" for zs
    using sorted_in_mset [of cmp x zs] by (metis set_mset_add_mset_insert set_mset_mset)
  moreover have "cmp y x \<le> 0" if "\<not> cmp x y \<le> 0" using assms(1) [of x y] that by linarith
  ultimately show ?case using Cons assms(2) by auto
qed simp

section \<open>PUT stores the body\<close>











section \<open>Witnesses\<close>







end
