(* ===== verification/Net_Address.thy ===== *)
theory Net_Address
  imports Http_Access "HOL-Library.Monad_Syntax"
begin

text \<open>
  Socket addresses in the network layer of \<^verbatim>\<open>util/mongoose.c\<close>: the text of \<^verbatim>\<open>listening_port\<close> is read
  by \<^verbatim>\<open>ns_parse_address\<close>, a socket is opened on what it says, and the addresses of a connection are
  printed by \<^verbatim>\<open>ns_sock_to_str\<close> and read back by \<^verbatim>\<open>set_ips\<close>. Addresses and ports are kept as numbers,
  without their byte order on the wire. The name service is a parameter.
\<close>

section \<open>Reading an address\<close>

type_synonym in_addr = "uint32 \<times> 16 word"

datatype sock_type = SOCK_STREAM | SOCK_DGRAM

text \<open>\<^verbatim>\<open>%u\<close>: the value has 32 bits, and a sign is taken.\<close>

definition scan_unsigned :: "string \<Rightarrow> (int \<times> string) option" where
  "scan_unsigned s = (let r = snd (strtol s) in if r = s then None else Some (u32 (strtoul s), r))"

definition after :: "char \<Rightarrow> string \<Rightarrow> string option" where
  "after c s = (if take 1 s = [c] then Some (drop 1 s) else None)"

text \<open>\<^verbatim>\<open>%u.%u.%u.%u:%u%n\<close>\<close>

definition scan_ip_port :: "string \<Rightarrow> (int \<times> int \<times> int \<times> int \<times> int \<times> string) option" where
  "scan_ip_port s = do {
     (a, r) \<leftarrow> scan_unsigned s; r \<leftarrow> after CHR ''.'' r;
     (b, r) \<leftarrow> scan_unsigned r; r \<leftarrow> after CHR ''.'' r;
     (c, r) \<leftarrow> scan_unsigned r; r \<leftarrow> after CHR ''.'' r;
     (d, r) \<leftarrow> scan_unsigned r; r \<leftarrow> after CHR '':'' r;
     (port, r) \<leftarrow> scan_unsigned r; Some (a, b, c, d, port, r) }"

text \<open>\<^verbatim>\<open>%199[^ :]:%u%n\<close>\<close>

definition scan_host :: "string \<Rightarrow> (string \<times> int \<times> string) option" where
  "scan_host s = (let host = take 199 (takeWhile (\<lambda>c. c \<noteq> CHR '' '' \<and> c \<noteq> CHR '':'') s) in
     if host = [] then None
     else do { r \<leftarrow> after CHR '':'' (drop (length host) s); (port, r) \<leftarrow> scan_unsigned r; Some (host, port, r) })"

text \<open>\<^verbatim>\<open>:%99[^:]\<close>\<close>

definition scan_cert :: "string \<Rightarrow> (string \<times> string) option" where
  "scan_cert s = do { r \<leftarrow> after CHR '':'' s;
     (let w = take 99 (takeWhile (\<lambda>c. c \<noteq> CHR '':'') r) in if w = [] then None else Some (w, drop (length w) r)) }"

text \<open>The address, the port, and the text behind them; without a port the variable is not initialized.\<close>

definition scan_address :: "(string \<Rightarrow> uint32 option) \<Rightarrow> string \<Rightarrow> uint32 \<times> int option \<times> string" where
  "scan_address gethostbyname s = (case scan_ip_port s of
      Some (a, b, c, d, port, r) \<Rightarrow> (push_bit 24 (word_of_int a) OR push_bit 16 (word_of_int b) OR
        push_bit 8 (word_of_int c) OR word_of_int d, Some port, r)
    | None \<Rightarrow> (case scan_host s of
        Some (host, port, r) \<Rightarrow> ((case gethostbyname host of Some ip \<Rightarrow> ip | None \<Rightarrow> 0), Some port, r)
      | None \<Rightarrow> (case scan_unsigned s of
          Some (port, r) \<Rightarrow> (0, Some port, r)
        | None \<Rightarrow> (0, None, s))))"

record address =
  a_sa :: in_addr
  a_proto :: sock_type
  a_ssl :: bool
  a_cert :: string
  a_ca :: string

text \<open>
  The result is the length that was read, 0 for an address that is not accepted, or \<open>None\<close> when it depends
  on the variable that is not initialized. Both callers ignore it.
\<close>

definition ns_parse_address :: "(string \<Rightarrow> uint32 option) \<Rightarrow> string \<Rightarrow> address \<times> int option" where
  "ns_parse_address gethostbyname str =
     (let ssl = (take 6 str = ''ssl://''); udp = (take 6 str = ''udp://'');
          s = (if ssl \<or> udp \<or> take 6 str = ''tcp://'' then drop 6 str else str) in
      case scan_address gethostbyname s of (ip, port, r) \<Rightarrow>
        (let certs = (case scan_cert r of None \<Rightarrow> ([], [], r)
               | Some (cert, r1) \<Rightarrow> (case scan_cert r1 of Some (ca, r2) \<Rightarrow> (cert, ca, r2) | None \<Rightarrow> (cert, [], r1)));
             (cert, ca, r') = (if ssl then certs else ([], [], r)) in
         (\<lparr>a_sa = (ip, case port of Some p \<Rightarrow> word_of_int p | None \<Rightarrow> 0),
           a_proto = (if udp then SOCK_DGRAM else SOCK_STREAM), a_ssl = ssl, a_cert = cert, a_ca = ca\<rparr>,
          map_option (\<lambda>p. if p < 0xffff \<and> r' = [] then int (length s - length r') else 0) port)))"

section \<open>Opening a listening socket\<close>

text \<open>What the system answers to the calls, and the port it gives to a socket that asked for port 0.\<close>

record listen_calls =
  lc_socket :: "nat option"
  lc_setsockopt :: bool
  lc_bind :: bool
  lc_listen :: bool
  lc_port :: "16 word"

text \<open>The socket with the address that \<^verbatim>\<open>getsockname\<close> reports; a socket that is not used is closed.\<close>

definition ns_open_listening_socket :: "listen_calls \<Rightarrow> in_addr \<Rightarrow> sock_type \<Rightarrow> (nat \<times> in_addr) option" where
  "ns_open_listening_socket k sa proto = (case lc_socket k of
      None \<Rightarrow> None
    | Some sock \<Rightarrow>
        if lc_setsockopt k \<and> lc_bind k \<and> (proto = SOCK_DGRAM \<or> lc_listen k)
        then Some (sock, fst sa, if snd sa = 0 then lc_port k else snd sa) else None)"

section \<open>Printing an address\<close>

text \<open>\<^verbatim>\<open>inet_ntop\<close> for \<^verbatim>\<open>AF_INET\<close>\<close>

definition inet_ntop :: "uint32 \<Rightarrow> string" where
  "inet_ntop ip = show_nat (unat ip div 2 ^ 24) @ ''.'' @ show_nat (unat ip div 2 ^ 16 mod 256) @ ''.'' @
     show_nat (unat ip div 2 ^ 8 mod 256) @ ''.'' @ show_nat (unat ip mod 256)"

text \<open>\<open>with_ip\<close> and \<open>with_port\<close> are the bits 1 and 2 of \<^verbatim>\<open>flags\<close>.\<close>

definition ns_sock_to_str :: "in_addr \<Rightarrow> nat \<Rightarrow> bool \<Rightarrow> bool \<Rightarrow> string" where
  "ns_sock_to_str sa len with_ip with_port =
     (let ip = inet_ntop (fst sa); b = (if with_ip \<and> length ip < len then ip else []) in
      b @ (if with_port then take (len - (length b + 1) - 1) ((if with_ip then '':'' else []) @ show_nat (unat (snd sa))) else []))"

text \<open>\<^verbatim>\<open>%47[^:]:%hu\<close> on what was printed: \<^verbatim>\<open>remote_ip\<close> and \<^verbatim>\<open>remote_port\<close>, or \<^verbatim>\<open>local_ip\<close> and \<^verbatim>\<open>local_port\<close>,
  which were zero before.\<close>

definition set_ips :: "in_addr \<Rightarrow> string \<times> 16 word" where
  "set_ips sa = (let b = ns_sock_to_str sa 100 True True; ip = take 47 (takeWhile (\<lambda>c. c \<noteq> CHR '':'') b) in
     (ip, if ip = [] then 0
          else (case after CHR '':'' (drop (length ip) b) of None \<Rightarrow> 0
            | Some r \<Rightarrow> (case scan_unsigned r of Some (v, t) \<Rightarrow> word_of_int v | None \<Rightarrow> 0))))"

section \<open>What is printed is read back\<close>

lemma scan_unsigned_show:
  assumes "int n < 2 ^ 32" "t = [] \<or> \<not> is_digit (hd t)"
  shows "scan_unsigned (show_nat n @ t) = Some (int n, t)"
proof -
  have "strtoul (show_nat n @ t) = int n"
    unfolding strtoul_def using assms
    by (simp add: digits_no_sign takeWhile_prefix Let_def ULONG_MAX_def)
  moreover have "u32 (int n) = int n"
    using assms(1) by (simp add: u32_def take_bit_int_eq_self)
  ultimately show ?thesis
    using assms(2) by (simp add: scan_unsigned_def strtol_digits)
qed

lemma after_same [simp]: "after c (c # t) = Some t"
  by (simp add: after_def)

lemma digit_not_colon: "\<not> is_digit CHR ''.''" "\<not> is_digit CHR '':''" "\<not> is_digit CHR '' ''"
  by (simp_all add: is_digit_def code_def)

text \<open>The four numbers are the bytes of the address.\<close>

lemma address_bytes:
  fixes ip :: uint32
  shows "push_bit 24 (word_of_int (int (unat ip div 2 ^ 24))) OR push_bit 16 (word_of_int (int (unat ip div 2 ^ 16 mod 256))) OR
    push_bit 8 (word_of_int (int (unat ip div 2 ^ 8 mod 256))) OR word_of_int (int (unat ip mod 256)) = ip"
proof -
  have u: "unat (take_bit 8 (drop_bit k ip)) = unat ip div 2 ^ k mod 256" for k
    by (simp only: unsigned_take_bit_eq unat_drop_bit_eq) (simp add: drop_bit_nat_def take_bit_nat_def)
  have b: "(word_of_int (int (unat ip div 2 ^ k mod 256)) :: uint32) = take_bit 8 (drop_bit k ip)" for k
    by (simp flip: u)
  have u24: "unat (drop_bit 24 ip) = unat ip div 2 ^ 24"
    by (simp only: unat_drop_bit_eq) (simp add: drop_bit_nat_def)
  have h: "(word_of_int (int (unat ip div 2 ^ 24)) :: uint32) = drop_bit 24 ip"
    by (simp only: u24 [symmetric]) simp
  have z: "unat ip mod 256 = unat ip div 2 ^ 0 mod 256" by simp
  show ?thesis
    unfolding h b z
  proof (rule bit_word_eqI)
    fix n :: nat
    assume "n < LENGTH(32)"
    consider "n < 8" | "8 \<le> n" "n < 16" | "16 \<le> n" "n < 24" | "24 \<le> n" by linarith
    then show "bit (push_bit 24 (drop_bit 24 ip) OR push_bit 16 (take_bit 8 (drop_bit 16 ip)) OR
        push_bit 8 (take_bit 8 (drop_bit 8 ip)) OR take_bit 8 (drop_bit 0 ip)) n \<longleftrightarrow> bit ip n"
      using \<open>n < LENGTH(32)\<close> by cases (auto simp: bit_simps)
  qed
qed


lemma byte_range: "int (unat (ip :: uint32) div 2 ^ 24) < 2 ^ 32" "int (m mod 256) < 2 ^ 32"
  "int (unat (p :: 16 word)) < 2 ^ 32"
proof -
  have "unat ip < 2 ^ 32" "unat p < 2 ^ 16" using unsigned_less [of ip] unsigned_less [of p] by simp_all
  moreover have "unat ip div 2 ^ 24 \<le> unat ip" by (rule div_le_dividend)
  ultimately have "unat ip div 2 ^ 24 < 2 ^ 32" by linarith
  moreover have "uint p < 2 ^ 16" using uint_lt2p [of p] by simp
  ultimately
  show "int (unat ip div 2 ^ 24) < 2 ^ 32" "int (unat p) < 2 ^ 32" by simp_all
  have "m mod 256 < 256" by simp
  then have "int (m mod 256) < 256" by linarith
  then show "int (m mod 256) < 2 ^ 32" by (rule order.strict_trans) simp
qed

lemma scan_inet_ntop:
  "scan_ip_port (inet_ntop ip @ CHR '':'' # show_nat (unat (p :: 16 word))) =
     Some (int (unat ip div 2 ^ 24), int (unat ip div 2 ^ 16 mod 256), int (unat ip div 2 ^ 8 mod 256), int (unat ip mod 256),
       int (unat p), [])"
proof -
  have e: "scan_unsigned (show_nat (unat p)) = Some (int (unat p), [])"
    using scan_unsigned_show [of "unat p" "[]"] byte_range(3) by simp
  show ?thesis
    unfolding scan_ip_port_def inet_ntop_def append_assoc append_Cons append_Nil
    by (simp only: scan_unsigned_show byte_range list.sel digit_not_colon not_False_eq_True simp_thms after_same
        Option.bind.bind_lunit prod.case e)
qed


lemma bytes_first: "\<exists>d t. is_digit d \<and> inet_ntop ip @ s = d # t" "\<exists>d t. is_digit d \<and> show_nat n = d # t"
proof -
  have *: "\<exists>d t. is_digit d \<and> show_nat n = d # t" for n
    using show_nat_digits [of n] by (cases "show_nat n") auto
  then show "\<exists>d t. is_digit d \<and> show_nat n = d # t" .
  from * [of "unat ip div 2 ^ 24"] show "\<exists>d t. is_digit d \<and> inet_ntop ip @ s = d # t"
    by (auto simp: inet_ntop_def)
qed

lemma no_scheme:
  assumes "\<exists>d t. is_digit d \<and> s = d # t"
  shows "take 6 s \<noteq> ''ssl://''" "take 6 s \<noteq> ''udp://''" "take 6 s \<noteq> ''tcp://''"
  using assms by (auto simp: is_digit_def code_def)

lemma length_inet_ntop: "length (inet_ntop ip) \<le> 15" "length (show_nat (unat (p :: 16 word))) \<le> 5"
proof -
  have "unat ip < 2 ^ 32" using unsigned_less [of ip] by simp
  then have "unat ip div 2 ^ 24 < 10 ^ 3" by simp
  moreover have "m mod 256 < 10 ^ 3" for m :: nat
    by (rule less_trans [OF mod_less_divisor]) simp_all
  ultimately have "length (show_nat (unat ip div 2 ^ 24)) \<le> 3" "length (show_nat (m mod 256)) \<le> 3" for m
    by (auto intro: show_nat_length)
  from this(1) this(2) [of "unat ip div 2 ^ 16"] this(2) [of "unat ip div 2 ^ 8"] this(2) [of "unat ip"]
  show "length (inet_ntop ip) \<le> 15" by (simp add: inet_ntop_def)
  have "unat p < 2 ^ 16" using unsigned_less [of p] by simp
  then have "unat p < 10 ^ 5" by simp
  then show "length (show_nat (unat p)) \<le> 5" by (rule show_nat_length) simp
qed

lemma sock_to_str:
  "ns_sock_to_str (ip, port) 100 True True = inet_ntop ip @ CHR '':'' # show_nat (unat port)"
  "ns_sock_to_str (ip, port) 100 False True = show_nat (unat port)"
  using length_inet_ntop(1) [of ip] length_inet_ntop(2) [of port] by (simp_all add: ns_sock_to_str_def)

lemma in_show_nat: "c \<in> set (show_nat n) \<Longrightarrow> is_digit c"
  using show_nat_digits by blast

lemma inet_ntop_no_colon: "list_all (\<lambda>c. c \<noteq> CHR '':'') (inet_ntop ip)" "list_all (\<lambda>c. c \<noteq> CHR '' '' \<and> c \<noteq> CHR '':'') (show_nat n)"
  by (auto simp: inet_ntop_def list_all_iff digit_not_colon dest: in_show_nat)

lemma unsigned_back: "scan_unsigned (show_nat (unat (p :: 16 word))) = Some (int (unat p), [])"
  using scan_unsigned_show [of "unat p" "[]"] byte_range(3) by simp

lemma low_port: "uint (port :: 16 word) < 65535 \<longleftrightarrow> port \<noteq> 0xffff"
  using uint_bounded [of port] by (auto simp: word_uint_eq_iff)

lemma parse_port_text:
  "ns_parse_address g (show_nat (unat port)) =
     (\<lparr>a_sa = (0, port), a_proto = SOCK_STREAM, a_ssl = False, a_cert = [], a_ca = []\<rparr>,
      Some (if port = 0xffff then 0 else int (length (show_nat (unat port)))))"
proof -
  have "scan_ip_port (show_nat (unat port)) = None" "scan_host (show_nat (unat port)) = None"
    using inet_ntop_no_colon(2) [of "unat port"] length_inet_ntop(2) [of port]
    by (simp_all add: scan_ip_port_def unsigned_back after_def scan_host_def takeWhile_all)
  then have "scan_address g (show_nat (unat port)) = (0, Some (int (unat port)), [])"
    by (simp add: scan_address_def unsigned_back)
  then show ?thesis
    using no_scheme [OF bytes_first(2) [of "unat port"]]
    unfolding ns_parse_address_def by (simp add: Let_def low_port)
qed

text \<open>
  C39. The network layer reads back the addresses that it prints: \<^verbatim>\<open>ns_parse_address\<close> on what \<^verbatim>\<open>ns_sock_to_str\<close>
  wrote gives the same address and port, with or without the address in front, and \<^verbatim>\<open>set_ips\<close> splits it into
  the text of the address and the port. Port 65535 is read, but the result says that the text is no address.
\<close>

theorem listening_address_round_trip:
  "ns_parse_address g (ns_sock_to_str (ip, port) 100 True True) =
     (\<lparr>a_sa = (ip, port), a_proto = SOCK_STREAM, a_ssl = False, a_cert = [], a_ca = []\<rparr>,
      Some (if port = 0xffff then 0 else int (length (ns_sock_to_str (ip, port) 100 True True)))) \<and>
   ns_parse_address g (ns_sock_to_str (ip, port) 100 False True) =
     (\<lparr>a_sa = (0, port), a_proto = SOCK_STREAM, a_ssl = False, a_cert = [], a_ca = []\<rparr>,
      Some (if port = 0xffff then 0 else int (length (ns_sock_to_str (ip, port) 100 False True)))) \<and>
   set_ips (ip, port) = (inet_ntop ip, port)"
proof (intro conjI)
  let ?s = "inet_ntop ip @ CHR '':'' # show_nat (unat port)"
  have "scan_address g ?s = (ip, Some (int (unat port)), [])"
    by (simp only: scan_address_def scan_inet_ntop option.case prod.case address_bytes)
  then show "ns_parse_address g (ns_sock_to_str (ip, port) 100 True True) =
     (\<lparr>a_sa = (ip, port), a_proto = SOCK_STREAM, a_ssl = False, a_cert = [], a_ca = []\<rparr>,
      Some (if port = 0xffff then 0 else int (length (ns_sock_to_str (ip, port) 100 True True))))"
    using no_scheme [OF bytes_first(1) [of ip "CHR '':'' # show_nat (unat port)"]]
    unfolding ns_parse_address_def sock_to_str by (simp add: Let_def low_port del: take_append)
  show "ns_parse_address g (ns_sock_to_str (ip, port) 100 False True) =
     (\<lparr>a_sa = (0, port), a_proto = SOCK_STREAM, a_ssl = False, a_cert = [], a_ca = []\<rparr>,
      Some (if port = 0xffff then 0 else int (length (ns_sock_to_str (ip, port) 100 False True))))"
    unfolding sock_to_str by (rule parse_port_text)
  have "takeWhile (\<lambda>c. c \<noteq> CHR '':'') (inet_ntop ip @ CHR '':'' # show_nat (unat port)) = inet_ntop ip"
    using inet_ntop_no_colon(1) by (intro takeWhile_prefix) simp_all
  moreover have "inet_ntop ip \<noteq> []" by (simp add: inet_ntop_def)
  ultimately show "set_ips (ip, port) = (inet_ntop ip, port)"
    using length_inet_ntop(1) [of ip] by (simp add: set_ips_def sock_to_str unsigned_back Let_def)
qed

text \<open>
  Nothing looks at the result. A text that has no port in it leaves port 0, and the server listens on whatever port
  the system chooses; what follows the port is not looked at either.
\<close>

lemma text_without_port: "ns_parse_address g ''abc'' = (\<lparr>a_sa = (0, 0), a_proto = SOCK_STREAM, a_ssl = False, a_cert = [], a_ca = []\<rparr>, None)"
  by (simp add: ns_parse_address_def scan_address_def scan_ip_port_def scan_host_def scan_unsigned_def after_def strtol_def
      read_sign_def is_space_def is_digit_def code_def Let_def)

lemma text_behind_port:
  "ns_parse_address g ''80x'' = (\<lparr>a_sa = (0, 80), a_proto = SOCK_STREAM, a_ssl = False, a_cert = [], a_ca = []\<rparr>, Some 0)"
  by (simp add: ns_parse_address_def scan_address_def scan_ip_port_def scan_host_def scan_unsigned_def after_def strtol_def strtoul_def
      read_sign_def is_space_def is_digit_def code_def digits_value_def LONG_MAX_def ULONG_MAX_def u32_def Let_def)

text \<open>A port beyond 65535 is taken modulo 65536.\<close>

lemma port_wraps:
  "ns_parse_address g ''70000'' = (\<lparr>a_sa = (0, 4464), a_proto = SOCK_STREAM, a_ssl = False, a_cert = [], a_ca = []\<rparr>, Some 0)"
  by (simp add: ns_parse_address_def scan_address_def scan_ip_port_def scan_host_def scan_unsigned_def after_def strtol_def strtoul_def
      read_sign_def is_space_def is_digit_def code_def digits_value_def LONG_MAX_def ULONG_MAX_def u32_def Let_def)

end
