(* ===== verification/Http_Gateway.thy ===== *)
theory Http_Gateway
  imports Net_Address Http_Pages
begin

text \<open>
  How \<^verbatim>\<open>util/mongoose.c\<close> passes requests on: the environment and the reply of a CGI program, the proxy, replies to its own
  requests, and what it writes down: the access log and the dump of the traffic. The journal node turns none
  of this on.
\<close>

section \<open>The environment of a CGI program\<close>

text \<open>
  The strings in \<^verbatim>\<open>buf\<close> up to \<^verbatim>\<open>len\<close>, and where in it the entries of \<^verbatim>\<open>vars\<close> point to; \<open>None\<close> is the NULL at the end.
\<close>

definition CGI_ENVIRONMENT_SIZE :: nat where "CGI_ENVIRONMENT_SIZE = 8192"
definition MAX_CGI_ENVIR_VARS :: nat where "MAX_CGI_ENVIR_VARS = 64"
definition MONGOOSE_VERSION :: string where "MONGOOSE_VERSION = ''5.4''"
definition ENV_EXPORT_TO_CGI :: string where "ENV_EXPORT_TO_CGI = ''MONGOOSE_CGI''"

record cgi_env_block =
  blk_buf :: string
  blk_vars :: "nat option list"

text \<open>A text that does not fit is left out. \<open>None\<close> is the failed assertion.\<close>

definition addenv :: "cgi_env_block \<Rightarrow> string \<Rightarrow> cgi_env_block option" where
  "addenv block added =
     (let len = length (blk_buf block); space = int CGI_ENVIRONMENT_SIZE - int len - 2;
          n = (if space < 1 then 0 else min (length added) (nat space - 1)) in
      if space < 0 then None
      else if 0 < n \<and> int (n + 1) < space \<and> length (blk_vars block) < MAX_CGI_ENVIR_VARS - 2
      then Some \<lparr>blk_buf = blk_buf block @ take n added @ [nul], blk_vars = blk_vars block @ [Some len]\<rparr>
      else Some block)"

fun add_all :: "cgi_env_block \<Rightarrow> string list \<Rightarrow> cgi_env_block option" where
  "add_all block [] = Some block"
| "add_all block (v # vs) = (case addenv block v of None \<Rightarrow> None | Some b \<Rightarrow> add_all b vs)"

definition addenv2 :: "(string \<Rightarrow> string option) \<Rightarrow> string \<Rightarrow> string list" where
  "addenv2 getenv name = (case getenv name of Some s \<Rightarrow> [name @ ''='' @ s] | None \<Rightarrow> [])"

text \<open>The loop over the name in the variable of a header: it ends at the first equals sign.\<close>

definition upper :: "char \<Rightarrow> char" where
  "upper c = (if c = CHR ''-'' then CHR ''_''
     else if 97 \<le> code c \<and> code c \<le> 122 then char_of (code c - 32) else c)"

definition header_variable :: "string \<times> string \<Rightarrow> string" where
  "header_variable h = (let v = ''HTTP_'' @ fst h @ ''='' @ snd h in
     map upper (takeWhile (\<lambda>c. c \<noteq> CHR ''='') v) @ dropWhile (\<lambda>c. c \<noteq> CHR ''='') v)"

text \<open>What stands in front of the last slash, and the rest with it.\<close>

definition before_slash :: "string \<Rightarrow> string" where
  "before_slash s = (if CHR ''/'' \<in> set s then rev (drop 1 (dropWhile (\<lambda>c. c \<noteq> CHR ''/'') (rev s))) else [])"

definition from_slash :: "string \<Rightarrow> string" where
  "from_slash s = (if CHR ''/'' \<in> set s then drop (length (before_slash s)) s else s)"

record peers =
  local_ip :: string
  remote_ip :: string
  remote_port :: "16 word"
  on_ssl :: bool

definition cgi_variables ::
    "settings \<Rightarrow> (string \<Rightarrow> string option) \<Rightarrow> peers \<Rightarrow> mg_connection \<Rightarrow> string option \<Rightarrow> string \<Rightarrow> string list" where
  "cgi_variables opts getenv pe ri path_info prog =
     (let uri = or_null (mc_uri ri); root = or_null (opts ''document_root'');
          opt = (\<lambda>name v. case v of Some s \<Rightarrow> [name @ s] | None \<Rightarrow> []) in
      [''SERVER_NAME='' @ (case getenv ''SERVER_NAME'' of Some s \<Rightarrow> s | None \<Rightarrow> local_ip pe),
       ''SERVER_ROOT='' @ root, ''DOCUMENT_ROOT='' @ root, ''SERVER_SOFTWARE=Mongoose/'' @ MONGOOSE_VERSION,
       ''GATEWAY_INTERFACE=CGI/1.1'', ''SERVER_PROTOCOL=HTTP/1.1'', ''REDIRECT_STATUS=200'',
       ''REQUEST_METHOD='' @ or_null (mc_request_method ri), ''REMOTE_ADDR='' @ remote_ip pe,
       ''REMOTE_PORT='' @ show_int (uint (remote_port pe)),
       ''REQUEST_URI='' @ uri @ (case mc_query_string ri of Some q \<Rightarrow> ''?'' @ q | None \<Rightarrow> [])] @
      (case path_info of
         Some info \<Rightarrow> [''SCRIPT_NAME='' @ take (length uri - length info) uri, ''PATH_INFO='' @ info]
       | None \<Rightarrow> [''SCRIPT_NAME='' @ before_slash uri @ from_slash prog]) @
      [''SCRIPT_FILENAME='' @ prog, ''PATH_TRANSLATED='' @ prog, ''HTTPS='' @ (if on_ssl pe then ''on'' else ''off'')] @
      opt ''CONTENT_TYPE='' (mg_get_header ri ''Content-Type'') @ opt ''QUERY_STRING='' (mc_query_string ri) @
      opt ''CONTENT_LENGTH='' (mg_get_header ri ''Content-Length'') @
      concat (map (addenv2 getenv) [''PATH'', ''TMP'', ''TEMP'', ''TMPDIR'', ''PERLLIB'', ENV_EXPORT_TO_CGI, ''LD_LIBRARY_PATH'']) @
      map header_variable (mc_headers ri))"

text \<open>The end of the block, with the assertions.\<close>

definition end_of_block :: "cgi_env_block \<Rightarrow> cgi_env_block option" where
  "end_of_block block =
     (if length (blk_vars block) + 1 < MAX_CGI_ENVIR_VARS \<and> length (blk_buf block) + 1 < CGI_ENVIRONMENT_SIZE
      then Some \<lparr>blk_buf = blk_buf block @ [nul], blk_vars = blk_vars block @ [None]\<rparr> else None)"

definition prepare_cgi_environment ::
    "settings \<Rightarrow> (string \<Rightarrow> string option) \<Rightarrow> peers \<Rightarrow> mg_connection \<Rightarrow> string option \<Rightarrow> string \<Rightarrow> cgi_env_block option" where
  "prepare_cgi_environment opts getenv pe ri path_info prog =
     (case add_all \<lparr>blk_buf = [], blk_vars = []\<rparr> (cgi_variables opts getenv pe ri path_info prog) of
        None \<Rightarrow> None | Some block \<Rightarrow> end_of_block block)"

section \<open>The CGI program\<close>

definition cgi_status :: string where "cgi_status = ''HTTP/1.1 200 OK'' @ crlf"

text \<open>
  The connection to the program: what is on the way to it and what has come from it. \<open>held_back\<close> is
  \<^verbatim>\<open>NSF_BUFFER_BUT_DONT_SEND\<close> of the connection to the client.
\<close>

record cgi_pipe =
  to_program :: string
  from_program :: string
  held_back :: bool

definition program_dir :: "string \<Rightarrow> string" where
  "program_dir prog = (if CHR ''/'' \<in> set prog then mg_snprintf 8192 (before_slash prog) else ''.'')"

text \<open>\<open>start_process\<close> gets the interpreter, the program, the environment and the directory.\<close>

definition open_cgi_endpoint ::
    "settings \<Rightarrow> (string option \<Rightarrow> string \<Rightarrow> cgi_env_block \<Rightarrow> string \<Rightarrow> bool) \<Rightarrow> (string \<Rightarrow> string option) \<Rightarrow> peers \<Rightarrow>
     string option \<Rightarrow> env \<Rightarrow> unit http \<Rightarrow> string \<Rightarrow> cgi_pipe option http" where
  "open_cgi_endpoint opts start_process getenv pe path_info e again prog = seq conn (\<lambda>c.
     case prepare_cgi_environment opts getenv pe (mg_conn c) path_info prog of
       None \<Rightarrow> halt Aborted
     | Some block \<Rightarrow>
         if start_process (opts ''cgi_interpreter'') prog block (program_dir prog)
         then seq (upd_snd (\<lambda>c. c\<lparr>endpoint_type := EP_CGI\<rparr>)) (\<lambda>_. seq (ns_send cgi_status) (\<lambda>_. seq (set_status 200) (\<lambda>_.
           seq conn (\<lambda>c. seq (upd_snd (\<lambda>c. c\<lparr>recv_iobuf := []\<rparr>)) (\<lambda>_.
             ret (Some \<lparr>to_program = recv_iobuf c, from_program = [], held_back = True\<rparr>))))))
         else seq (send_http_error_text opts e again 500 (''start_process('' @ prog @ '') failed'')) (\<lambda>_. ret None))"

definition ns_forward :: "cgi_pipe \<Rightarrow> cgi_pipe http" where
  "ns_forward p = seq (ns_send (from_program p)) (\<lambda>_. ret (p\<lparr>from_program := iobuf_remove (from_program p) (length (from_program p))\<rparr>))"

text \<open>What has come from the client goes to the program, or to the other server of the proxy.\<close>

definition forward_request :: "cgi_pipe \<Rightarrow> cgi_pipe http" where
  "forward_request p = seq conn (\<lambda>c. seq (upd_snd (\<lambda>c. c\<lparr>recv_iobuf := iobuf_remove (recv_iobuf c) (length (recv_iobuf c))\<rparr>)) (\<lambda>_.
     ret (p\<lparr>to_program := iobuf_append (to_program p) (recv_iobuf c)\<rparr>)))"

text \<open>
  The status comes from the headers of the reply, of which \<^verbatim>\<open>memcpy\<close> takes three characters; what it takes of
  a shorter one is left to \<open>elsewhere\<close>. For malformed headers the text of the error is what the buffer held.
\<close>

definition cgi_reply_status :: "string \<Rightarrow> string" where
  "cgi_reply_status headers =
     (let c = reset_mg\<lparr>mc_headers := parse_http_headers 30 (c_str headers)\<rparr> in
      if mg_get_header c ''Location'' \<noteq> None then ''302''
      else (case mg_get_header c ''Status'' of Some s \<Rightarrow> s | None \<Rightarrow> ''200''))"

definition on_cgi_data :: "settings \<Rightarrow> env \<Rightarrow> unit http \<Rightarrow> cgi_pipe \<Rightarrow> cgi_pipe http" where
  "on_cgi_data opts e again p = seq (ns_forward p) (\<lambda>p.
     if \<not> held_back p then ret p
     else seq conn (\<lambda>c. let io = send_iobuf c; s_len = length cgi_status; len = get_request_len (drop s_len io) in
       if len = 0 then ret p
       else seq (if len < 0 \<or> 16384 < len
           then seq (upd_snd (\<lambda>c. c\<lparr>send_iobuf := iobuf_remove io (length io)\<rparr>)) (\<lambda>_.
             send_http_error_text opts e again 500 (''CGI program sent malformed headers: ['' @ c_str io @ '']''))
           else (let status = cgi_reply_status (take (nat len - 1) (drop s_len io)) in
             if length status < 3 then elsewhere Cgi
             else seq (upd_snd (\<lambda>c. c\<lparr>send_iobuf := take 9 io @ take 3 status @ drop 12 io\<rparr>)) (\<lambda>_.
               set_status (atoi status))))
         (\<lambda>_. ret (p\<lparr>held_back := False\<rparr>))))"

section \<open>The proxy\<close>

text \<open>What a connection to another server is sent for a request.\<close>

definition proxy_header :: "string \<times> string \<Rightarrow> string" where
  "proxy_header h = ns_avprintf 500 ((if mg_strcasecmp (fst h) ''Connection'' = 0 then ''Connection: close''
     else fst h @ '': '' @ snd h) @ crlf)"

definition proxy_request :: "mg_connection \<Rightarrow> string \<Rightarrow> string" where
  "proxy_request c body =
     ns_avprintf 500 (or_null (mc_request_method c) @ '' '' @ or_null (mc_uri c) @ '' HTTP/'' @ or_null (mc_http_version c) @ crlf) @
     concat (map proxy_header (mc_headers c)) @
     (if list_ex (\<lambda>h. mg_strcasecmp (fst h) ''Connection'' = 0) (mc_headers c) then [] else ''Connection: close'' @ crlf) @
     crlf @ body"

text \<open>\<^verbatim>\<open>%499[^: ]:%hu%n\<close>\<close>

definition scan_target :: "string \<Rightarrow> (string \<times> int) option" where
  "scan_target url = (let host = take 499 (takeWhile (\<lambda>c. c \<noteq> CHR '':'' \<and> c \<noteq> CHR '' '') url) in
     if host = [] then None
     else do { r \<leftarrow> after CHR '':'' (drop (length host) url); (p, r) \<leftarrow> scan_unsigned r; Some (host, p mod 2 ^ 16) })"

text \<open>\<^verbatim>\<open>%9[a-z]://\<close>\<close>

definition scan_scheme :: "string \<Rightarrow> string option" where
  "scan_scheme url = (let proto = take 9 (takeWhile (\<lambda>c. 97 \<le> code c \<and> code c \<le> 122) url) in
     if proto = [] then None
     else do { r \<leftarrow> after CHR '':'' (drop (length proto) url); r \<leftarrow> after CHR ''/'' r; after CHR ''/'' r })"

definition proxy_target :: "string \<Rightarrow> (string \<times> int) option" where
  "proxy_target url = (case scan_target url of Some t \<Rightarrow> Some t
     | None \<Rightarrow> (case scan_scheme url of None \<Rightarrow> None
       | Some r \<Rightarrow> (case scan_target r of Some t \<Rightarrow> Some t
         | None \<Rightarrow> (let host = take 499 (takeWhile (\<lambda>c. c \<noteq> CHR ''/'' \<and> c \<noteq> CHR '' '') r) in
             if host = [] then None else Some (host, 80)))))"

text \<open>
  \<open>connects\<close> answers \<^verbatim>\<open>ns_connect\<close>. The result is what the new connection has to send. The reply to CONNECT goes to the
  socket at once, in front of what is buffered.
\<close>

definition strip_host :: "string \<Rightarrow> string" where
  "strip_host uri = dropWhile (\<lambda>c. c \<noteq> CHR ''/'') (if take 7 uri = ''http://'' then drop 7 uri else uri)"

definition mg_forward :: "(string \<Rightarrow> bool) \<Rightarrow> string \<Rightarrow> connection \<Rightarrow> connection \<times> string option" where
  "mg_forward connects addr c =
     (if \<not> connects addr then (c\<lparr>close_immediately := True\<rparr>, None)
      else if mc_request_method (mg_conn c) = Some ''CONNECT''
      then (c\<lparr>endpoint_type := EP_PROXY, wire := wire c @ ''HTTP/1.1 200 OK'' @ crlf @ crlf\<rparr>, Some [])
      else (let ri = (mg_conn c)\<lparr>mc_uri := map_option strip_host (mc_uri (mg_conn c))\<rparr> in
        (c\<lparr>endpoint_type := EP_PROXY, mg_conn := ri\<rparr>, Some (proxy_request ri (take (nat (mc_content_len ri)) (recv_iobuf c))))))"

definition proxify_connection :: "(string \<Rightarrow> bool) \<Rightarrow> bool \<Rightarrow> connection \<Rightarrow> connection \<times> string option" where
  "proxify_connection connects ssl c = (case proxy_target (or_null (mc_uri (mg_conn c))) of
       None \<Rightarrow> (c\<lparr>close_immediately := True\<rparr>, None)
     | Some (host, p) \<Rightarrow>
         mg_forward connects (take 999 ((if ssl then ''ssl'' else ''tcp'') @ ''://'' @ host @ '':'' @ show_int p)) c)"

section \<open>Replies to requests of the program\<close>

text \<open>\<^verbatim>\<open>status_code\<close>, \<^verbatim>\<open>num_bytes_recv\<close> and \<^verbatim>\<open>request_len\<close> start again for the next reply.\<close>

definition call_http_client_handler :: "env \<Rightarrow> unit http" where
  "call_http_client_handler e =
     seq (upd_snd (\<lambda>c. if cl c = 0 then c\<lparr>mg_conn := (mg_conn c)\<lparr>mc_content_len := int (length (recv_iobuf c))\<rparr>\<rparr> else c)) (\<lambda>_.
     seq (call_user e MG_REPLY) (\<lambda>(r, _).
     seq (if r = MG_FALSE then upd_snd (\<lambda>c. c\<lparr>close_immediately := True\<rparr>) else ret ()) (\<lambda>_.
       upd_snd (\<lambda>c. c\<lparr>recv_iobuf := iobuf_remove (recv_iobuf c) (nat (mc_content_len (mg_conn c))),
         mg_conn := (mg_conn c)\<lparr>mc_status_code := 0\<rparr>, cl := 0, num_bytes_recv := 0, request_len := 0\<rparr>))))"

definition process_response :: "env \<Rightarrow> unit http" where
  "process_response e = seq try_parse (\<lambda>_. seq conn (\<lambda>c.
     if request_len c < 0 \<or> (request_len c = 0 \<and> 16384 < length (recv_iobuf c)) then call_http_client_handler e
     else if cl c \<le> int (length (recv_iobuf c)) then call_http_client_handler e else ret ()))"

section \<open>The access log\<close>

definition log_header :: "mg_connection \<Rightarrow> string \<Rightarrow> string" where
  "log_header c name = (case mg_get_header c name of None \<Rightarrow> '' -''
     | Some v \<Rightarrow> '' '' @ quote @ v @ quote)"

text \<open>The line that \<^verbatim>\<open>log_access\<close> appends; \<open>date\<close> is the local time.\<close>

definition log_access :: "string \<Rightarrow> peers \<Rightarrow> mg_connection \<Rightarrow> string" where
  "log_access date pe c =
     (let user = c_str (snd (mg_parse_header (mg_get_header c ''Authorization'') ''username'' 100));
          dash = (\<lambda>s. case s of Some t \<Rightarrow> t | None \<Rightarrow> ''-'') in
      remote_ip pe @ '' - '' @ (if user = [] then ''-'' else user) @ '' ['' @ date @ ''] '' @ quote @
      dash (mc_request_method c) @ '' '' @ dash (mc_uri c) @ (case mc_query_string c of Some q \<Rightarrow> ''?'' @ q | None \<Rightarrow> []) @
      '' HTTP/'' @ or_null (mc_http_version c) @ quote @ '' '' @ show_int (mc_status_code c) @ '' 0'' @
      log_header c ''Referer'' @ log_header c ''User-Agent'' @ [newline])"

section \<open>Formatted frames\<close>

definition mg_websocket_printf :: "int \<Rightarrow> string \<Rightarrow> unit http" where
  "mg_websocket_printf opcode text = (let buf = ns_avprintf 4192 text in
     if 0 < length buf then mg_websocket_write opcode buf else ret ())"

section \<open>The dump of the traffic\<close>

definition dump_char :: "char \<Rightarrow> char" where
  "dump_char c = (if code c < 0x20 \<or> 0x7e < code c then CHR ''.'' else c)"

definition hex_number :: "nat \<Rightarrow> nat \<Rightarrow> string" where
  "hex_number w n = setw0 w (show_base16 ''0123456789abcdef'' (int n))"

text \<open>The loop at character \<open>i\<close>, with \<^verbatim>\<open>ascii\<close>.\<close>

fun hexdump_from :: "nat \<Rightarrow> string \<Rightarrow> string \<Rightarrow> string" where
  "hexdump_from i ascii [] = concat (replicate ((16 - i mod 16) mod 16) ''   '') @ ''  '' @ ascii @ [newline, newline]"
| "hexdump_from i ascii (c # p) =
     (if i mod 16 = 0
      then (if 0 < i then ''  '' @ ascii @ [newline] else []) @ hex_number 4 i @ '' ''
      else []) @ '' '' @ hex_number 2 (code c) @
     hexdump_from (Suc i) ((if i mod 16 = 0 then [] else ascii) @ [dump_char c]) p"

text \<open>\<open>None\<close>: the text is longer than the destination; the sum of the lengths is then used as an offset behind it.\<close>

definition ns_hexdump :: "string \<Rightarrow> int \<Rightarrow> string option" where
  "ns_hexdump buf dst_len = (let t = hexdump_from 0 [] buf in if int (length t) < dst_len then Some t else None)"

datatype ns_event = NS_POLL | NS_ACCEPT | NS_CONNECT | NS_RECV | NS_SEND | NS_CLOSE

text \<open>What \<^verbatim>\<open>hexdump\<close> appends to its file, where there is memory. \<open>src\<close> and \<open>dst\<close> are the addresses, \<open>pointer\<close> the text for the connection.\<close>

definition hexdump :: "int \<Rightarrow> string \<Rightarrow> string \<Rightarrow> string \<Rightarrow> ns_event \<Rightarrow> int \<Rightarrow> string \<Rightarrow> string \<Rightarrow> string option" where
  "hexdump t pointer src dst ev num_bytes recv send =
     (let buf_size = s32 (num_bytes * 5 + 100);
          head = show_int (u64 t) @ '' '' @ pointer @ '' '' @ src @ '' '' @
            (case ev of NS_RECV \<Rightarrow> ''<-'' | NS_SEND \<Rightarrow> ''->'' | NS_ACCEPT \<Rightarrow> ''<A'' | NS_CONNECT \<Rightarrow> ''C>'' | _ \<Rightarrow> ''XX'') @
            '' '' @ dst @ '' '' @ show_int num_bytes @ [newline];
          bytes = take (nat num_bytes) (if ev = NS_SEND then send else drop (length recv - nat num_bytes) recv) in
      if num_bytes \<le> 0 then Some head else map_option (\<lambda>d. head @ d) (ns_hexdump bytes buf_size))"

definition ns_call_dump :: "bool \<Rightarrow> int \<Rightarrow> string \<Rightarrow> string \<Rightarrow> string \<Rightarrow> ns_event \<Rightarrow> int \<Rightarrow> string \<Rightarrow> string \<Rightarrow> string option" where
  "ns_call_dump dumps t pointer src dst ev p recv send =
     (if dumps \<and> ev \<noteq> NS_POLL
      then hexdump t pointer src dst ev (if ev = NS_RECV \<or> ev = NS_SEND then p else 0) recv send else Some [])"

section \<open>The environment fits and is complete\<close>

definition entries :: "cgi_env_block \<Rightarrow> string list" where
  "entries block = map (\<lambda>i. c_str (drop i (blk_buf block))) (List.map_filter (\<lambda>v. v) (blk_vars block))"

definition within :: "cgi_env_block \<Rightarrow> bool" where
  "within block \<longleftrightarrow> length (blk_buf block) \<le> CGI_ENVIRONMENT_SIZE - 2 \<and> length (blk_vars block) \<le> MAX_CGI_ENVIR_VARS - 2 \<and>
     (\<forall>i \<in> set (List.map_filter (\<lambda>v. v) (blk_vars block)). nul \<in> set (drop i (blk_buf block)))"

lemma c_str_nul: "nul \<in> set s \<Longrightarrow> c_str (s @ t) = c_str s"
  by (simp add: c_str_def)

lemma pointers_grow:
  assumes "within block" "i \<in> set (List.map_filter (\<lambda>v. v) (blk_vars block))"
  shows "c_str (drop i (blk_buf block @ t)) = c_str (drop i (blk_buf block))" "nul \<in> set (drop i (blk_buf block @ t))"
  using assms by (auto simp: within_def c_str_nul dest!: bspec)

lemma c_str_end: "nul \<notin> set v \<Longrightarrow> c_str (v @ [nul]) = v"
  by (induction v) (auto simp: c_str_def)

text \<open>A variable is added as it is, or left out.\<close>

lemma addenv_step:
  assumes ok: "within block" and v: "nul \<notin> set v"
  shows "\<exists>b. addenv block v = Some b \<and> within b \<and>
    (b = block \<or> entries b = entries block @ [v] \<and> length (blk_buf b) = length (blk_buf block) + length v + 1 \<and>
       length (blk_vars b) = length (blk_vars block) + 1) \<and>
    (v \<noteq> [] \<and> length (blk_buf block) + length v + 1 < CGI_ENVIRONMENT_SIZE - 2 \<and>
       length (blk_vars block) < MAX_CGI_ENVIR_VARS - 2 \<longrightarrow> b \<noteq> block)"
proof -
  let ?len = "length (blk_buf block)"
  have len: "?len \<le> 8190" "length (blk_vars block) \<le> 62" using ok by (simp_all add: within_def CGI_ENVIRONMENT_SIZE_def MAX_CGI_ENVIR_VARS_def)
  show ?thesis
  proof (cases "v \<noteq> [] \<and> ?len + length v + 1 < CGI_ENVIRONMENT_SIZE - 2 \<and> length (blk_vars block) < MAX_CGI_ENVIR_VARS - 2")
    case True
    let ?b = "\<lparr>blk_buf = blk_buf block @ v @ [nul], blk_vars = blk_vars block @ [Some ?len]\<rparr>"
    have "addenv block v = Some ?b"
      using True len by (simp add: addenv_def CGI_ENVIRONMENT_SIZE_def Let_def) linarith
    moreover have "within ?b"
      using True pointers_grow(2) [OF ok] by (auto simp: within_def List.map_filter_def)
    moreover have "entries ?b = entries block @ [v]"
      using pointers_grow(1) [OF ok, of _ "v @ [nul]"] c_str_end [OF v] by (simp add: entries_def List.map_filter_def)
    ultimately show ?thesis using True by auto
  next
    case False
    then have "addenv block v = Some block"
      using len by (auto simp: addenv_def CGI_ENVIRONMENT_SIZE_def Let_def min_def)
    with ok False show ?thesis by auto
  qed
qed

definition fits_in :: "cgi_env_block \<Rightarrow> string list \<Rightarrow> bool" where
  "fits_in block vs \<longleftrightarrow> [] \<notin> set vs \<and> length (blk_vars block) + length vs \<le> MAX_CGI_ENVIR_VARS - 2 \<and>
     length (blk_buf block) + sum_list (map (\<lambda>v. length v + 1) vs) < CGI_ENVIRONMENT_SIZE - 2"

lemma fits_in_first: "fits_in block (v # vs) \<Longrightarrow> v \<noteq> [] \<and> length (blk_buf block) + length v + 1 < CGI_ENVIRONMENT_SIZE - 2 \<and>
    length (blk_vars block) < MAX_CGI_ENVIR_VARS - 2"
  by (auto simp: fits_in_def)

lemma add_all_entries:
  assumes "within block" "\<forall>v \<in> set vs. nul \<notin> set v"
  shows "\<exists>b ws. add_all block vs = Some b \<and> within b \<and> entries b = entries block @ ws \<and> subseq ws vs \<and> (fits_in block vs \<longrightarrow> ws = vs)"
  using assms
proof (induction vs arbitrary: block)
  case (Cons v vs)
  obtain c where c: "addenv block v = Some c" "within c"
    "c = block \<or> entries c = entries block @ [v] \<and> length (blk_buf c) = length (blk_buf block) + length v + 1 \<and>
       length (blk_vars c) = length (blk_vars block) + 1"
    "fits_in block (v # vs) \<Longrightarrow> c \<noteq> block"
    using addenv_step [of block v] Cons.prems fits_in_first [of block v vs] by (metis list.set_intros(1))
  obtain b ws where b: "add_all c vs = Some b" "within b" "entries b = entries c @ ws" "subseq ws vs" "fits_in c vs \<Longrightarrow> ws = vs"
    using Cons.IH [OF c(2)] Cons.prems(2) by auto
  from c(3) show ?case
  proof
    assume "c = block"
    with b c show ?thesis by (intro exI [of _ b] exI [of _ ws]) auto
  next
    assume e: "entries c = entries block @ [v] \<and> length (blk_buf c) = length (blk_buf block) + length v + 1 \<and>
       length (blk_vars c) = length (blk_vars block) + 1"
    then have "fits_in block (v # vs) \<Longrightarrow> fits_in c vs" by (simp add: fits_in_def)
    with b c e show ?thesis by (intro exI [of _ b] exI [of _ "v # ws"]) auto
  qed
qed simp

text \<open>
  No assertion fails whatever the request; the program gets variables in their order, each whole, and
  all of them when they fit.
\<close>

lemma cgi_environment_is_whole:
  assumes "\<forall>v \<in> set (cgi_variables opts getenv pe ri path_info prog). nul \<notin> set v"
  shows "\<exists>b. prepare_cgi_environment opts getenv pe ri path_info prog = Some b \<and>
    length (blk_buf b) < CGI_ENVIRONMENT_SIZE \<and> length (blk_vars b) < MAX_CGI_ENVIR_VARS \<and> last (blk_vars b) = None \<and>
    subseq (entries b) (cgi_variables opts getenv pe ri path_info prog) \<and>
    (fits_in \<lparr>blk_buf = [], blk_vars = []\<rparr> (cgi_variables opts getenv pe ri path_info prog) \<longrightarrow>
       entries b = cgi_variables opts getenv pe ri path_info prog)"
proof -
  let ?e = "\<lparr>blk_buf = [], blk_vars = []\<rparr>" and ?vs = "cgi_variables opts getenv pe ri path_info prog"
  have e: "within ?e" "entries ?e = []" by (simp_all add: within_def entries_def List.map_filter_def)
  obtain b ws where b: "add_all ?e ?vs = Some b" "within b" "entries b = ws" "subseq ws ?vs" "fits_in ?e ?vs \<longrightarrow> ws = ?vs"
    using add_all_entries [OF e(1) assms] e(2) by auto
  let ?b = "\<lparr>blk_buf = blk_buf b @ [nul], blk_vars = blk_vars b @ [None]\<rparr>"
  have len: "length (blk_buf b) + 1 < CGI_ENVIRONMENT_SIZE" "length (blk_vars b) + 1 < MAX_CGI_ENVIR_VARS"
    using b(2) by (simp_all add: within_def CGI_ENVIRONMENT_SIZE_def MAX_CGI_ENVIR_VARS_def)
  have "entries ?b = entries b"
    using pointers_grow(1) [OF b(2)] by (simp add: entries_def List.map_filter_def)
  moreover have "prepare_cgi_environment opts getenv pe ri path_info prog = Some ?b"
    using len by (simp add: prepare_cgi_environment_def b(1) end_of_block_def)
  ultimately show ?thesis using b len by auto
qed

section \<open>The dump fits\<close>

lemma show_base16_length: "0 \<le> n \<Longrightarrow> n < 16 ^ Suc k \<Longrightarrow> length (show_base16 ds n) \<le> Suc k"
proof (induction k arbitrary: n)
  case 0 then show ?case by (subst show_base16.simps) simp
next
  case (Suc k)
  then show ?case using Suc.IH [of "n div 16"] by (subst show_base16.simps) simp
qed

lemma hex_number_length: "w \<le> 8 \<Longrightarrow> int n < 16 ^ 8 \<Longrightarrow> length (hex_number w n) \<le> 8"
    "int n < 16 ^ 2 \<Longrightarrow> length (hex_number 2 n) = 2"
proof -
  show "length (hex_number w n) \<le> 8" if "w \<le> 8" "int n < 16 ^ 8"
    using show_base16_length [of "int n" 7 "''0123456789abcdef''"] that by (simp add: hex_number_def setw0_def)
  show "length (hex_number 2 n) = 2" if "int n < 16 ^ 2"
    using show_base16_length [of "int n" 1 "''0123456789abcdef''"] that by (simp add: hex_number_def setw0_def)
qed

definition saved :: "nat \<Rightarrow> nat" where
  "saved i = (if i = 0 then 0 else (i - 1) mod 16 + 1)"

lemma saved_Suc: "saved (Suc i) = (if i mod 16 = 0 then 1 else saved i + 1)"
proof (cases i)
  case (Suc j)
  have "Suc j mod 16 = (if Suc (j mod 16) = 16 then 0 else Suc (j mod 16))" by (simp add: mod_Suc)
  then show ?thesis by (simp add: saved_def Suc)
qed (simp add: saved_def)

lemma saved_16: "saved i \<le> 16" "i mod 16 = 0 \<Longrightarrow> 0 < i \<Longrightarrow> saved i = 16"
proof -
  show "saved i \<le> 16" by (simp add: saved_def Suc_le_eq)
  show "saved i = 16" if "i mod 16 = 0" "0 < i"
  proof -
    obtain j where j: "i = Suc j" using \<open>0 < i\<close> by (cases i) auto
    with that(1) have "Suc (j mod 16) = 16" by (auto simp: mod_Suc split: if_splits)
    then show ?thesis by (simp add: saved_def j)
  qed
qed

text \<open>Every character pays for three of the dump and leaves two for the line that it ends.\<close>

lemma hexdump_from_length:
  assumes "length a \<le> saved i" "int (i + length p) < 16 ^ 8"
  shows "length (hexdump_from i a p) \<le> 5 * length p + 70 + 2 * saved i + (if i = 0 then 9 else 0)"
  using assms
proof (induction i a p rule: hexdump_from.induct)
  case (1 i a)
  have "(16 - i mod 16) mod 16 \<le> (15::nat)" by (simp add: less_Suc_eq_le [symmetric])
  then show ?case using 1 by (simp add: length_concat sum_list_replicate)
next
  case (2 i a c p)
  have c: "length (hex_number 2 (code c)) = 2" by (rule hex_number_length(2)) (use code_less [of c] in simp)
  have h: "length (hex_number 4 i) \<le> 8" using 2(3) by (intro hex_number_length(1)) auto
  show ?case
  proof (cases "i mod 16 = 0")
    case True
    have "length (hexdump_from (Suc i) [dump_char c] p) \<le> 5 * length p + 70 + 2 * saved (Suc i)"
      using 2(1) 2(3) True by (simp add: saved_Suc)
    then show ?thesis using c h True 2(2) saved_16(1,2) [of i] by (auto simp: saved_Suc saved_def)
  next
    case False
    have "length (hexdump_from (Suc i) (a @ [dump_char c]) p) \<le> 5 * length p + 70 + 2 * saved (Suc i)"
      using 2 False by (simp add: saved_Suc)
    then show ?thesis using c False by (auto simp: saved_Suc)
  qed
qed

text \<open>Five characters for each byte and a hundred are enough for \<^verbatim>\<open>hexdump\<close>, at any number that is not negative as an \<^verbatim>\<open>int\<close>.\<close>

lemma hexdump_has_room:
  assumes "length buf * 5 + 100 < 2 ^ 31"
  shows "\<exists>t. ns_hexdump buf (s32 (int (length buf) * 5 + 100)) = Some t"
proof -
  have "length (hexdump_from 0 [] buf) \<le> 5 * length buf + 79"
    using hexdump_from_length [of "[]" 0 buf] assms by (simp add: saved_def)
  moreover have "s32 (int (length buf) * 5 + 100) = int (length buf) * 5 + 100"
    using assms by (simp add: s32_def signed_take_bit_int_eq_self)
  ultimately show ?thesis by (simp add: ns_hexdump_def)
qed

section \<open>What a program answers\<close>

lemma remove_all: "iobuf_remove x (length x) = []"
  by (simp add: iobuf_remove_def)

lemma output_is_passed_on:
  assumes "\<not> held_back p"
  shows "on_cgi_data opts e again p (n, c) =
    (Return (p\<lparr>from_program := []\<rparr>), (n, c\<lparr>send_iobuf := send_iobuf c @ from_program p\<rparr>))"
  using assms
  by (simp add: on_cgi_data_def ns_forward_def ns_send_def seq_def upd_snd_def ret_def iobuf_append_def remove_all)

text \<open>
  Once its headers are complete, the output goes to the client behind a status line with the status that it asks for.
\<close>

lemma program_sets_the_status:
  assumes "held_back p" "send_iobuf c = cgi_status @ q"
    and len: "0 < get_request_len (q @ from_program p)" "get_request_len (q @ from_program p) \<le> 16384"
    and status: "status = cgi_reply_status (take (nat (get_request_len (q @ from_program p)) - 1) (q @ from_program p))" "3 \<le> length status"
  shows "\<exists>c'. on_cgi_data opts e again p (n, c) = (Return (p\<lparr>from_program := [], held_back := False\<rparr>), (n, c')) \<and>
    send_iobuf c' = ''HTTP/1.1 '' @ take 3 status @ '' OK'' @ crlf @ q @ from_program p \<and> mc_status_code (mg_conn c') = atoi status"
proof -
  have k: "length cgi_status = 17" "take 9 cgi_status = ''HTTP/1.1 ''" "drop 12 cgi_status = '' OK'' @ crlf" by code_simp+
  have t: "take 9 (cgi_status @ x) = ''HTTP/1.1 ''" "drop 12 (cgi_status @ x) = '' OK'' @ crlf @ x" for x by (simp_all add: k)
  show ?thesis
    using assms(1,2) len status
    by (simp add: on_cgi_data_def ns_forward_def ns_send_def conn_def gets_def seq_def upd_snd_def ret_def iobuf_append_def
        remove_all Let_def k t set_status_def not_less)
qed

section \<open>A reply in pieces\<close>

text \<open>
  While the headers of a reply are not complete nothing is expected, and so the handler is called at once with what there
  is, and the rest is taken for the next reply.
\<close>

lemma partial_reply_is_delivered:
  assumes "request_len c = 0" "get_request_len (recv_iobuf c) = 0" "cl c = 0"
  shows "process_response e (n, c) = (Return (), (n, c\<lparr>close_immediately := True, recv_iobuf := [],
    mg_conn := (mg_conn c)\<lparr>mc_content_len := int (length (recv_iobuf c)), mc_status_code := 0\<rparr>, num_bytes_recv := 0\<rparr>))"
  using assms
  by (simp add: process_response_def try_parse_def call_http_client_handler_def conn_def gets_def seq_def upd_snd_def
      call_user_def ev_handler_def on_fst_def ret_def remove_all Let_def)

end
