(* ===== verification/Event_Loop.thy ===== *)
theory Event_Loop
  imports Http_Websocket Net_Address
begin

text \<open>
  The event loop of \<^verbatim>\<open>util/mongoose.c\<close> under the web server of the journal node: the list of connections,
  one turn of \<^verbatim>\<open>ns_mgr_poll\<close> over it, reading from and writing to sockets, accepting, expiring and
  closing connections, and the thread \<^verbatim>\<open>run_httpserver\<close> that turns it. What the system answers during a
  turn is an argument. Only listening sockets for UDP are not followed further, and there are no outgoing
  connections; nothing wakes the loop up through its socket pair.
\<close>

section \<open>Connections\<close>

text \<open>
  \<^verbatim>\<open>struct ns_connection\<close>: the socket, \<^verbatim>\<open>listener != NULL\<close>, \<^verbatim>\<open>connection_data != NULL\<close>, and the two ends as text.
  The buffers and the other flags are in \<open>nc\<close>.
\<close>

record ns_connection =
  nc_sock :: nat
  nc_listening :: bool
  nc_udp :: bool
  nc_accepted :: bool
  nc_linked :: bool
  nc_last_io_time :: int
  nc_remote :: "string \<times> 16 word"
  nc_local :: "string \<times> 16 word"
  nc :: connection

definition with_conn :: "unit http \<Rightarrow> ns_connection \<Rightarrow> (node, ns_connection) prog" where
  "with_conn m c n = (case m (n, nc c) of
      (Return u, (n', x)) \<Rightarrow> (Return (c\<lparr>nc := x\<rparr>), n')
    | (Error, (n', x)) \<Rightarrow> (Error, n')
    | (Stop k, (n', x)) \<Rightarrow> (Stop k, n'))"

definition close_now :: "ns_connection \<Rightarrow> ns_connection" where
  "close_now c = c\<lparr>nc := (nc c)\<lparr>close_immediately := True\<rparr>\<rparr>"

text \<open>\<^verbatim>\<open>ns_add_sock\<close>: zeroed memory. \<^verbatim>\<open>ns_add_conn\<close> puts it in front of the list.\<close>

definition ns_add_sock :: "clock \<Rightarrow> nat \<Rightarrow> ns_connection" where
  "ns_add_sock ck sock = \<lparr>nc_sock = sock, nc_listening = False, nc_udp = False, nc_accepted = False, nc_linked = False,
     nc_last_io_time = now ck, nc_remote = ([], 0), nc_local = ([], 0), nc = new_connection\<rparr>"

definition ns_add_conn :: "ns_connection \<Rightarrow> ns_connection list \<Rightarrow> ns_connection list" where
  "ns_add_conn c cs = c # cs"

definition ns_bind :: "clock \<Rightarrow> listen_calls \<Rightarrow> (string \<Rightarrow> uint32 option) \<Rightarrow> string \<Rightarrow> (ns_connection \<times> in_addr) option" where
  "ns_bind ck k gethostbyname str = (let a = fst (ns_parse_address gethostbyname str) in
     if a_ssl a \<and> a_cert a = [] then None
     else map_option (\<lambda>(sock, sa). ((ns_add_sock ck sock)\<lparr>nc_listening := True, nc_udp := (a_proto a = SOCK_DGRAM)\<rparr>, sa))
            (ns_open_listening_socket k (a_sa a) (a_proto a)))"

section \<open>The handler of the events\<close>

text \<open>The cases of \<^verbatim>\<open>mg_ev_handler\<close> for the connections of the server, in its order.\<close>

definition ev_accept :: "in_addr \<Rightarrow> in_addr \<Rightarrow> ns_connection \<Rightarrow> ns_connection" where
  "ev_accept remote here c = (if on_accept (config_option ''access_control_list'') (fst remote)
     then c\<lparr>nc_linked := True, nc_remote := set_ips remote, nc_local := set_ips here\<rparr> else close_now c)"

definition ev_recv :: "env \<Rightarrow> clock \<Rightarrow> string \<Rightarrow> ns_connection \<Rightarrow> (node, ns_connection) prog" where
  "ev_recv e ck bytes c = (if nc_linked c then with_conn (mg_ev_handler e ck (NS_RECV bytes)) c else halt Undefined)"

definition ev_close :: "env \<Rightarrow> clock \<Rightarrow> ns_connection \<Rightarrow> (node, ns_connection) prog" where
  "ev_close e ck c = (if nc_linked c
     then with_conn (seq (call_user e MG_CLOSE) (\<lambda>_. close_local_endpoint (on_recv_data e ck))) (c\<lparr>nc_linked := False\<rparr>)
     else ret c)"

definition ping_idle_websocket_connection :: "clock \<Rightarrow> int \<Rightarrow> unit http" where
  "ping_idle_websocket_connection ck last_io =
     (if 5 < now ck - last_io then mg_websocket_write WEBSOCKET_OPCODE_PING [] else ret ())"

definition MONGOOSE_IDLE_TIMEOUT_SECONDS :: int where "MONGOOSE_IDLE_TIMEOUT_SECONDS = 300"

definition ev_poll :: "env \<Rightarrow> clock \<Rightarrow> ns_connection \<Rightarrow> (node, ns_connection) prog" where
  "ev_poll e ck c = seq (if nc_linked c then with_conn (mg_ev_handler e ck NS_POLL) c else ret c) (\<lambda>c.
     seq (if nc_linked c \<and> mc_is_websocket (mg_conn (nc c))
          then with_conn (ping_idle_websocket_connection ck (nc_last_io_time c)) c else ret c) (\<lambda>c.
       if nc_accepted c \<and> nc_last_io_time c + MONGOOSE_IDLE_TIMEOUT_SECONDS < now ck
       then seq (ev_close e ck c) (\<lambda>c. ret (close_now c)) else ret c))"

text \<open>What happens to a connection that leaves the list; its memory is freed.\<close>

definition ns_close_conn :: "env \<Rightarrow> clock \<Rightarrow> ns_connection \<Rightarrow> (node, unit) prog" where
  "ns_close_conn e ck c = seq (ev_close e ck c) (\<lambda>_. ret ())"

section \<open>Reading and writing\<close>

text \<open>The result of a call on a socket: a count, an error that passes (\<^verbatim>\<open>EAGAIN\<close>, \<^verbatim>\<open>EINTR\<close>), or another error.\<close>

datatype io_result = Count nat | Again | Broken

definition ns_is_error :: "io_result \<Rightarrow> bool" where
  "ns_is_error r \<longleftrightarrow> r = Count 0 \<or> r = Broken"

datatype received = Received string | Not_Received io_result

definition recv_result :: "received \<Rightarrow> io_result" where
  "recv_result a = (case a of Received b \<Rightarrow> Count (length b) | Not_Received r \<Rightarrow> r)"

text \<open>
  The loop takes what \<^verbatim>\<open>recv\<close> answers, at most 2048 bytes at a time, until the answer is no data. When the list
  of answers is over there is nothing more to read.
\<close>

fun ns_read_from_socket :: "env \<Rightarrow> clock \<Rightarrow> received list \<Rightarrow> ns_connection \<Rightarrow> (node, ns_connection) prog" where
  "ns_read_from_socket e ck [] c = ret c"
| "ns_read_from_socket e ck (a # as) c = (case a of
      Received b \<Rightarrow> if b \<noteq> [] then seq (ev_recv e ck (take 2048 b) c) (ns_read_from_socket e ck as)
        else ret (if ns_is_error (recv_result a) then close_now c else c)
    | Not_Received r \<Rightarrow> ret (if ns_is_error r then close_now c else c))"

definition ns_write_to_socket :: "env \<Rightarrow> clock \<Rightarrow> io_result \<Rightarrow> ns_connection \<Rightarrow> (node, ns_connection) prog" where
  "ns_write_to_socket e ck r c = (if ns_is_error r then ret (close_now c)
     else (case r of Count n \<Rightarrow> with_conn (mg_ev_handler e ck (NS_SEND n)) c | _ \<Rightarrow> ret c))"

section \<open>One turn\<close>

text \<open>
  What the system answers: the time before and after \<^verbatim>\<open>select\<close>, the sockets that are ready or nothing when \<^verbatim>\<open>select\<close>
  returns 0 or an error, the data on a socket, how much it takes, and who connects.
\<close>

record turn =
  before :: clock
  afterwards :: clock
  selected :: "(nat list \<times> nat list) option"
  incoming :: "nat \<Rightarrow> received list"
  outgoing :: "nat \<Rightarrow> io_result"
  arriving :: "nat \<Rightarrow> (nat \<times> in_addr \<times> in_addr) option"

text \<open>\<^verbatim>\<open>FD_SET\<close> writes the bit of the socket into an array of \<^verbatim>\<open>FD_SETSIZE\<close> bits.\<close>

definition ns_add_to_set :: "nat \<Rightarrow> nat list \<Rightarrow> (node, nat list) prog" where
  "ns_add_to_set sock others = (if sock < 1024 then ret (sock # others) else halt Undefined)"

text \<open>
  The first loop: the connections that stay, those that are closed, as they were then, and the sockets to wait for.
\<close>

fun poll_conns :: "env \<Rightarrow> clock \<Rightarrow> ns_connection list \<Rightarrow> nat list \<times> nat list \<Rightarrow>
    (node, ns_connection list \<times> ns_connection list \<times> nat list \<times> nat list) prog" where
  "poll_conns e ck [] sets = ret ([], [], sets)"
| "poll_conns e ck (c # cs) (rs, ws) = seq (ev_poll e ck c) (\<lambda>c.
     seq (ns_add_to_set (nc_sock c) rs) (\<lambda>rs.
     seq (if send_iobuf (nc c) \<noteq> [] then ns_add_to_set (nc_sock c) ws else ret ws) (\<lambda>ws.
       if close_immediately (nc c)
       then seq (ns_close_conn e ck c) (\<lambda>_. seq (poll_conns e ck cs (rs, ws)) (\<lambda>(cs', gone, sets). ret (cs', c # gone, sets)))
       else seq (poll_conns e ck cs (rs, ws)) (\<lambda>(cs', gone, sets). ret (c # cs', gone, sets)))))"

definition accept_conn :: "clock \<Rightarrow> turn \<Rightarrow> ns_connection \<Rightarrow> ns_connection list" where
  "accept_conn ck t ls = (case arriving t (nc_sock ls) of None \<Rightarrow> []
    | Some (sock, remote, here) \<Rightarrow> [ev_accept remote here ((ns_add_sock ck sock)\<lparr>nc_accepted := True\<rparr>)])"

definition touch :: "clock \<Rightarrow> ns_connection \<Rightarrow> ns_connection" where
  "touch ck c = c\<lparr>nc_last_io_time := now ck\<rparr>"

text \<open>A readable socket: the connection, and the connections that it accepted.\<close>

definition readable :: "env \<Rightarrow> turn \<Rightarrow> ns_connection \<Rightarrow> (node, ns_connection \<times> ns_connection list) prog" where
  "readable e t c = (let ck = afterwards t in
     if nc_listening c
     then (if nc_udp c then seq (with_conn (elsewhere Datagram) c) (\<lambda>c. ret (c, [])) else ret (c, accept_conn ck t c))
     else seq (ns_read_from_socket e ck (incoming t (nc_sock c)) (touch ck c)) (\<lambda>c. ret (c, [])))"

definition writable :: "env \<Rightarrow> turn \<Rightarrow> ns_connection \<Rightarrow> (node, ns_connection) prog" where
  "writable e t c = ns_write_to_socket e (afterwards t) (outgoing t (nc_sock c)) (touch (afterwards t) c)"

text \<open>The second loop. A connection that is accepted goes to the front of the list, where the loop has been already.\<close>

fun io_conns :: "env \<Rightarrow> turn \<Rightarrow> nat list \<times> nat list \<Rightarrow> ns_connection list \<Rightarrow>
    (node, ns_connection list \<times> ns_connection list) prog" where
  "io_conns e t sets [] = ret ([], [])"
| "io_conns e t (rs, ws) (c # cs) = seq (if nc_sock c \<in> set rs then readable e t c else ret (c, [])) (\<lambda>(c, new).
     seq (if nc_sock c \<in> set ws then writable e t c else ret c) (\<lambda>c.
     seq (io_conns e t (rs, ws) cs) (\<lambda>(new', cs').
       ret (foldr ns_add_conn new' new, c # cs'))))"

text \<open>The third loop.\<close>

definition is_over :: "ns_connection \<Rightarrow> bool" where
  "is_over c \<longleftrightarrow> close_immediately (nc c) \<or> (send_iobuf (nc c) = [] \<and> finished_sending (nc c))"

fun close_conns :: "env \<Rightarrow> clock \<Rightarrow> ns_connection list \<Rightarrow> (node, ns_connection list \<times> ns_connection list) prog" where
  "close_conns e ck [] = ret ([], [])"
| "close_conns e ck (c # cs) = (if is_over c
     then seq (ns_close_conn e ck c) (\<lambda>_. seq (close_conns e ck cs) (\<lambda>(cs', gone). ret (cs', c # gone)))
     else seq (close_conns e ck cs) (\<lambda>(cs', gone). ret (c # cs', gone)))"

text \<open>
  The result of \<^verbatim>\<open>ns_mgr_poll\<close> with the list of connections it leaves and the connections it closed. The sets that
  \<^verbatim>\<open>select\<close> leaves are parts of the sets that it got.
\<close>

definition ns_mgr_poll :: "env \<Rightarrow> turn \<Rightarrow> ns_connection list \<Rightarrow>
    (node, nat \<times> ns_connection list \<times> ns_connection list) prog" where
  "ns_mgr_poll e t cs = seq (poll_conns e (before t) cs ([], [])) (\<lambda>(cs, gone, rs, ws).
     seq (case selected t of None \<Rightarrow> ret cs
       | Some (r, w) \<Rightarrow> seq (io_conns e t (filter (\<lambda>s. s \<in> set rs) r, filter (\<lambda>s. s \<in> set ws) w) cs)
           (\<lambda>(new, cs). ret (foldr ns_add_conn new cs))) (\<lambda>cs.
     seq (close_conns e (afterwards t) cs) (\<lambda>(cs', gone'). ret (length cs, cs', gone @ gone'))))"

section \<open>The server\<close>

fun close_all :: "env \<Rightarrow> clock \<Rightarrow> ns_connection list \<Rightarrow> (node, unit) prog" where
  "close_all e ck [] = ret ()"
| "close_all e ck (c # cs) = seq (ns_close_conn e ck c) (\<lambda>_. close_all e ck cs)"

definition ns_mgr_free :: "env \<Rightarrow> turn \<Rightarrow> ns_connection list \<Rightarrow> (node, unit) prog" where
  "ns_mgr_free e t cs = seq (ns_mgr_poll e t cs) (\<lambda>(k, cs, gone). close_all e (afterwards t) cs)"

text \<open>\<open>None\<close> is a null pointer; what the server's record holds is freed.\<close>

definition mg_poll_server :: "env \<Rightarrow> turn \<Rightarrow> ns_connection list \<Rightarrow>
    (node, nat \<times> ns_connection list \<times> ns_connection list) prog" where
  "mg_poll_server = ns_mgr_poll"

definition mg_destroy_server :: "env \<Rightarrow> turn \<Rightarrow> ns_connection list option \<Rightarrow> (node, unit) prog" where
  "mg_destroy_server e t server = (case server of None \<Rightarrow> ret () | Some cs \<Rightarrow> ns_mgr_free e t cs)"

fun poll_turns :: "env \<Rightarrow> turn list \<Rightarrow> ns_connection list \<Rightarrow> (node, ns_connection list) prog" where
  "poll_turns e [] cs = ret cs"
| "poll_turns e (t # ts) cs = seq (mg_poll_server e t cs) (\<lambda>(k, cs, gone). poll_turns e ts cs)"

text \<open>
  \<^verbatim>\<open>run_httpserver\<close>: the option opens the socket, the loop turns until a signal arrives, and the last turn is the one
  of \<^verbatim>\<open>mg_destroy_server\<close>. What \<^verbatim>\<open>mg_set_option\<close> reports is ignored.
\<close>

definition bind_port :: "clock \<Rightarrow> listen_calls \<Rightarrow> (string \<Rightarrow> uint32 option) \<Rightarrow> string \<Rightarrow> string option" where
  "bind_port ck k g v = map_option (\<lambda>(c, sa). ns_sock_to_str sa 100 False True) (ns_bind ck k g v)"

definition run_httpserver :: "env \<Rightarrow> clock \<Rightarrow> listen_calls \<Rightarrow> (string \<Rightarrow> uint32 option) \<Rightarrow> string \<Rightarrow> turn list \<Rightarrow> turn \<Rightarrow>
    (node, string option) prog" where
  "run_httpserver e ck k g listening_port ts last_turn =
     (let opts = snd (mg_set_option (bind_port ck k g) (\<lambda>_. None) mg_create_server ''listening_port'' (Some listening_port));
          cs = (if listening_port = [] then [] else case ns_bind ck k g listening_port of None \<Rightarrow> [] | Some (c, sa) \<Rightarrow> [c]) in
      seq (poll_turns e ts cs) (\<lambda>cs. seq (mg_destroy_server e last_turn (Some cs)) (\<lambda>_. ret (mg_get_option opts ''listening_port''))))"

section \<open>What a turn keeps true\<close>

lemma with_conn_ReturnE:
  assumes "with_conn m c n = (Return c', n')"
  obtains x where "c' = c\<lparr>nc := x\<rparr>" "m (n, nc c) = (Return (), (n', x))"
  using assms by (auto simp: with_conn_def split: prod.splits result.splits)

lemma same_conn: "\<exists>x. c = (c :: ns_connection)\<lparr>nc := x\<rparr>"
  by (rule exI [of _ "nc c"]) simp

lemma ret_Return [simp]: "ret x s = (Return y, t) \<longleftrightarrow> y = x \<and> t = s"
  by (auto simp: ret_def)

text \<open>
  A contract for the operations of a turn. \<open>I\<close> holds of the connections before it, \<open>J\<close> of those whose sockets are
  served, \<open>L\<close> also of those that have just been accepted, and \<open>K\<close> of those that are left when the turn is over.
\<close>

locale kept_connections =
  fixes e :: env and t :: turn and I J L K :: "ns_connection \<Rightarrow> bool"
  assumes polled: "I c \<Longrightarrow> ev_poll e (before t) c n = (Return c', n') \<Longrightarrow> \<not> close_immediately (nc c') \<Longrightarrow> J c'"
    and was_read: "J c \<Longrightarrow> readable e t c n = (Return (c', new), n') \<Longrightarrow> J c'"
    and accepted: "c' \<in> set (accept_conn (afterwards t) t c) \<Longrightarrow> L c'"
    and served: "J c \<Longrightarrow> L c"
    and written: "J c \<Longrightarrow> writable e t c n = (Return c', n') \<Longrightarrow> J c'"
    and left_over: "L c \<Longrightarrow> \<not> is_over c \<Longrightarrow> K c"
begin

lemma poll_conns_keeps:
  "list_all I cs \<Longrightarrow> poll_conns e (before t) cs sets n = (Return (cs', gone, sets'), n') \<Longrightarrow> list_all J cs'"
proof (induction cs arbitrary: sets n cs' gone sets' n')
  case (Cons c cs)
  obtain rs ws where sets: "sets = (rs, ws)" by (cases sets)
  from Cons.prems(2) obtain c1 n1 rs1 n2 ws1 n3 where p: "ev_poll e (before t) c n = (Return c1, n1)"
    and r: "(if close_immediately (nc c1)
      then seq (ns_close_conn e (before t) c1) (\<lambda>_. seq (poll_conns e (before t) cs (rs1, ws1)) (\<lambda>(cs', gone, sets). ret (cs', c1 # gone, sets)))
      else seq (poll_conns e (before t) cs (rs1, ws1)) (\<lambda>(cs', gone, sets). ret (c1 # cs', gone, sets))) n3 = (Return (cs', gone, sets'), n')"
    unfolding sets poll_conns.simps by (elim seq_ReturnE) blast
  show ?case
  proof (cases "close_immediately (nc c1)")
    case True
    with r obtain n4 gone2 where "poll_conns e (before t) cs (rs1, ws1) n4 = (Return (cs', gone2, sets'), n')"
      by (auto elim!: seq_ReturnE)
    from Cons.IH [OF _ this] Cons.prems(1) show ?thesis by simp
  next
    case False
    with r obtain cs2 where "poll_conns e (before t) cs (rs1, ws1) n3 = (Return (cs2, gone, sets'), n')" "cs' = c1 # cs2"
      by (auto elim!: seq_ReturnE)
    with Cons.IH [OF _ this(1)] Cons.prems(1) polled [OF _ p False] show ?thesis by simp
  qed
qed simp

lemma readable_new:
  assumes "readable e t c n = (Return (c', new), n')" "d \<in> set new"
  shows "L d"
  using assms accepted by (auto simp: readable_def Let_def elim!: seq_ReturnE split: if_splits)

lemma io_conns_keeps:
  "list_all J cs \<Longrightarrow> io_conns e t sets cs n = (Return (new, cs'), n') \<Longrightarrow> list_all L new \<and> list_all J cs'"
proof (induction cs arbitrary: n new cs' n')
  case (Cons c cs)
  obtain rs ws where sets: "sets = (rs, ws)" by (cases sets)
  have add: "foldr ns_add_conn xs ys = xs @ ys" for xs ys
    by (induction xs) (simp_all add: ns_add_conn_def)
  from Cons.prems(2) obtain c1 new1 n1 c2 n2 new2 cs2 where
    r: "(if nc_sock c \<in> set rs then readable e t c else ret (c, [])) n = (Return (c1, new1), n1)"
    and w: "(if nc_sock c1 \<in> set ws then writable e t c1 else ret c1) n1 = (Return c2, n2)"
    and l: "io_conns e t sets cs n2 = (Return (new2, cs2), n')" "new = new2 @ new1" "cs' = c2 # cs2"
    unfolding sets by (auto elim!: seq_ReturnE simp: add)
  have "J c1" "list_all L new1"
    using r Cons.prems(1) was_read [of c n c1 new1 n1] readable_new [of c n c1 new1 n1]
    by (auto simp: list_all_iff split: if_splits)
  moreover from this(1) w have "J c2" by (auto intro: written split: if_splits)
  ultimately show ?case using Cons.IH [OF _ l(1)] Cons.prems(1) l(2,3) by simp
qed (simp add: list_all_iff)

lemma close_conns_keeps:
  "list_all L cs \<Longrightarrow> close_conns e ck cs n = (Return (cs', gone), n') \<Longrightarrow> list_all K cs' \<and> list_all (\<lambda>c. \<not> is_over c) cs'"
  by (induction cs arbitrary: n cs' gone n') (auto elim!: seq_ReturnE simp: left_over split: if_splits)

lemma turn_keeps:
  assumes "list_all I cs" "ns_mgr_poll e t cs n = (Return (k, cs', gone), n')"
  shows "list_all K cs' \<and> list_all (\<lambda>c. \<not> is_over c) cs'"
proof -
  have add: "foldr ns_add_conn xs ys = xs @ ys" for xs ys
    by (induction xs) (simp_all add: ns_add_conn_def)
  from assms(2) obtain cs1 gone1 rs ws n1 cs2 n2 gone2 where
    p: "poll_conns e (before t) cs ([], []) n = (Return (cs1, gone1, rs, ws), n1)"
    and i: "(case selected t of None \<Rightarrow> ret cs1
       | Some (r, w) \<Rightarrow> seq (io_conns e t (filter (\<lambda>s. s \<in> set rs) r, filter (\<lambda>s. s \<in> set ws) w) cs1)
           (\<lambda>(new, cs). ret (foldr ns_add_conn new cs))) n1 = (Return cs2, n2)"
    and c: "close_conns e (afterwards t) cs2 n2 = (Return (cs', gone2), n')"
    unfolding ns_mgr_poll_def by (auto elim!: seq_ReturnE)
  have "list_all J cs1" by (rule poll_conns_keeps [OF assms(1) p])
  moreover have "list_all L ds" if "list_all J ds" for ds
    using that served by (auto simp: list_all_iff)
  ultimately have "list_all L cs2"
    using i by (auto elim!: seq_ReturnE dest: io_conns_keeps simp: add split: option.splits)
  from close_conns_keeps [OF this c] show ?thesis .
qed

end


text \<open>What the events leave alone.\<close>

lemma ev_close_frame:
  assumes "ev_close e ck c n = (Return c', n')"
  shows "\<exists>x. c' = c\<lparr>nc_linked := False, nc := x\<rparr>"
proof (cases "nc_linked c")
  case True
  with assms obtain x where "c' = (c\<lparr>nc_linked := False\<rparr>)\<lparr>nc := x\<rparr>"
    unfolding ev_close_def by (auto elim: with_conn_ReturnE)
  then show ?thesis by auto
next
  case False
  with assms have "c' = c\<lparr>nc_linked := False, nc := nc c\<rparr>" by (simp add: ev_close_def)
  then show ?thesis by blast
qed

lemma ev_poll_frame:
  assumes "ev_poll e ck c n = (Return c', n')"
  shows "\<exists>x l. c' = c\<lparr>nc_linked := l, nc := x\<rparr> \<and>
    (close_immediately x \<or> (l = nc_linked c \<and> (nc_accepted c \<longrightarrow> now ck \<le> nc_last_io_time c + MONGOOSE_IDLE_TIMEOUT_SECONDS)))"
proof -
  from assms obtain c1 n1 c2 n2 where
    p: "(if nc_linked c then with_conn (mg_ev_handler e ck NS_POLL) c else ret c) n = (Return c1, n1)"
    and w: "(if nc_linked c1 \<and> mc_is_websocket (mg_conn (nc c1))
          then with_conn (ping_idle_websocket_connection ck (nc_last_io_time c1)) c1 else ret c1) n1 = (Return c2, n2)"
    and x: "(if nc_accepted c2 \<and> nc_last_io_time c2 + MONGOOSE_IDLE_TIMEOUT_SECONDS < now ck
       then seq (ev_close e ck c2) (\<lambda>c. ret (close_now c)) else ret c2) n2 = (Return c', n')"
    unfolding ev_poll_def by (auto elim!: seq_ReturnE)
  from p have "\<exists>x. c1 = c\<lparr>nc := x\<rparr>"
    by (cases "nc_linked c") (use same_conn [of c] in \<open>auto elim!: with_conn_ReturnE\<close>)
  then obtain x1 where c1: "c1 = c\<lparr>nc := x1\<rparr>" by blast
  from w have "\<exists>x. c2 = c1\<lparr>nc := x\<rparr>"
    by (cases "nc_linked c1 \<and> mc_is_websocket (mg_conn (nc c1))") (use same_conn [of c1] in \<open>auto elim!: with_conn_ReturnE\<close>)
  then obtain x2 where "c2 = c1\<lparr>nc := x2\<rparr>" by blast
  with c1 have c2: "c2 = c\<lparr>nc := x2\<rparr>" by simp
  show ?thesis
  proof (cases "nc_accepted c2 \<and> nc_last_io_time c2 + MONGOOSE_IDLE_TIMEOUT_SECONDS < now ck")
    case True
    with x obtain c3 n3 where "ev_close e ck c2 n2 = (Return c3, n3)" "c' = close_now c3"
      by (auto elim!: seq_ReturnE)
    then obtain y where "c' = c\<lparr>nc_linked := False, nc := y\<rparr>" "close_immediately y"
      by (auto simp: c2 close_now_def dest!: ev_close_frame)
    then show ?thesis by blast
  next
    case False
    with x have "c' = c\<lparr>nc_linked := nc_linked c, nc := x2\<rparr>" unfolding if_not_P [OF False] by (simp add: c2)
    moreover have "nc_accepted c \<longrightarrow> now ck \<le> nc_last_io_time c + MONGOOSE_IDLE_TIMEOUT_SECONDS"
      using False by (auto simp: c2)
    ultimately show ?thesis by blast
  qed
qed

lemma ev_recv_frame: "ev_recv e ck b c n = (Return c', n') \<Longrightarrow> \<exists>x. c' = c\<lparr>nc := x\<rparr>"
  by (auto simp: ev_recv_def prog_simps elim!: with_conn_ReturnE split: if_splits)

lemma ns_read_frame: "ns_read_from_socket e ck as c n = (Return c', n') \<Longrightarrow> \<exists>x. c' = c\<lparr>nc := x\<rparr>"
proof (induction as arbitrary: c n)
  case Nil
  then have "c' = c\<lparr>nc := nc c\<rparr>" by simp
  then show ?case by blast
next
  case (Cons a as)
  note same = same_conn [of c]
  show ?case
  proof (cases a)
    case (Received b)
    show ?thesis
    proof (cases "b = []")
      case True
      with Cons.prems Received same show ?thesis by (auto simp: close_now_def split: if_splits)
    next
      case False
      with Cons.prems Received obtain c1 n1 where "ev_recv e ck (take 2048 b) c n = (Return c1, n1)"
        "ns_read_from_socket e ck as c1 n1 = (Return c', n')" by (auto elim!: seq_ReturnE)
      with Cons.IH [OF this(2)] show ?thesis by (auto dest!: ev_recv_frame)
    qed
  qed (use Cons.prems same in \<open>auto simp: close_now_def split: if_splits\<close>)
qed

lemma ns_write_frame: "ns_write_to_socket e ck r c n = (Return c', n') \<Longrightarrow> \<exists>x. c' = c\<lparr>nc := x\<rparr>"
  using same_conn [of c]
  by (auto simp: ns_write_to_socket_def close_now_def elim!: with_conn_ReturnE split: if_splits io_result.splits)

lemma readable_frame:
  assumes "readable e t c n = (Return (c', new), n')"
  shows "\<exists>x. c' = (if nc_listening c then c else touch (afterwards t) c)\<lparr>nc := x\<rparr>"
  using assms exI [of "\<lambda>x. c = c\<lparr>nc := x\<rparr>" "nc c"]
  by (auto simp: readable_def Let_def elim!: seq_ReturnE with_conn_ReturnE dest!: ns_read_frame split: if_splits)

lemma writable_frame:
  "writable e t c n = (Return c', n') \<Longrightarrow> \<exists>x. c' = (touch (afterwards t) c)\<lparr>nc := x\<rparr>"
  unfolding writable_def by (rule ns_write_frame)


section \<open>Connections stay linked, and idle ones go\<close>

text \<open>The two kinds of connections between turns, and the same while a turn lasts.\<close>

definition in_order :: "ns_connection \<Rightarrow> bool" where
  "in_order c \<longleftrightarrow> (if nc_listening c then \<not> nc_accepted c \<and> \<not> nc_linked c else nc_accepted c \<and> nc_linked c)"

definition in_turn :: "ns_connection \<Rightarrow> bool" where
  "in_turn c \<longleftrightarrow> (if nc_listening c then \<not> nc_accepted c \<and> \<not> nc_linked c
     else nc_accepted c \<and> (nc_linked c \<or> close_immediately (nc c)))"

definition recent :: "turn \<Rightarrow> ns_connection \<Rightarrow> bool" where
  "recent t c \<longleftrightarrow> nc_accepted c \<longrightarrow>
     now (before t) \<le> nc_last_io_time c + MONGOOSE_IDLE_TIMEOUT_SECONDS \<or> nc_last_io_time c = now (afterwards t)"

lemma accept_conn_fields:
  assumes "c \<in> set (accept_conn ck t ls)"
  shows "\<not> nc_listening c" "nc_accepted c" "nc_last_io_time c = now ck" "nc_linked c \<or> close_immediately (nc c)"
  using assms by (auto simp: accept_conn_def ev_accept_def close_now_def ns_add_sock_def split: option.splits if_splits)

interpretation linking: kept_connections e t in_order in_order in_turn in_order for e t
proof
  show "in_order c'" if "in_order c" "ev_poll e (before t) c n = (Return c', n')" "\<not> close_immediately (nc c')" for c c' n n'
    using that(1,3) ev_poll_frame [OF that(2)] by (auto simp: in_order_def split: if_splits)
  show "in_order c'" if "in_order c" "readable e t c n = (Return (c', new), n')" for c c' n n' new
    using that(1) readable_frame [OF that(2)] by (auto simp: in_order_def touch_def split: if_splits)
  show "in_turn c'" if "c' \<in> set (accept_conn (afterwards t) t c)" for c c'
    using accept_conn_fields [OF that] by (simp add: in_turn_def)
  show "in_order c'" if "in_order c" "writable e t c n = (Return c', n')" for c c' n n'
    using that(1) writable_frame [OF that(2)] by (auto simp: in_order_def touch_def)
qed (auto simp: in_order_def in_turn_def is_over_def split: if_splits)

interpretation expiry: kept_connections e t "\<lambda>_. True" "recent t" "recent t" "recent t" for e t
proof
  show "recent t c'" if "ev_poll e (before t) c n = (Return c', n')" "\<not> close_immediately (nc c')" for c c' n n'
    using that(2) ev_poll_frame [OF that(1)] by (auto simp: recent_def)
  show "recent t c'" if "recent t c" "readable e t c n = (Return (c', new), n')" for c c' n n' new
    using that(1) readable_frame [OF that(2)] by (auto simp: recent_def touch_def split: if_splits)
  show "recent t c'" if "c' \<in> set (accept_conn (afterwards t) t c)" for c c'
    using accept_conn_fields [OF that] by (simp add: recent_def)
  show "recent t c'" if "writable e t c n = (Return c', n')" for c c' n n'
    using writable_frame [OF that] by (auto simp: recent_def touch_def)
qed

text \<open>
  C21. After every turn of the event loop, whatever arrived, the connections are in order: a listening socket has no
  request state, every accepted connection has one, so no event meets a null pointer; none is left that
  has to be closed, because it is broken or because it was told to finish and everything was sent; and each
  accepted connection either was used in the last five minutes before the turn or in the turn itself.
\<close>

theorem turn_leaves_connections_in_order:
  assumes "list_all in_order cs" "ns_mgr_poll e t cs n = (Return (k, cs', gone), n')"
  shows "list_all in_order cs' \<and> list_all (\<lambda>c. \<not> is_over c) cs' \<and> list_all (recent t) cs'"
  using linking.turn_keeps [OF assms] expiry.turn_keeps [OF _ assms(2)] by (simp add: list_all_iff)

text \<open>A turn in which a client connects to a listening socket.\<close>

definition ex_listener :: ns_connection where
  "ex_listener = (ns_add_sock ex_clock 5)\<lparr>nc_listening := True\<rparr>"

definition ex_turn :: turn where
  "ex_turn = \<lparr>before = ex_clock, afterwards = ex_clock, selected = Some ([5], []), incoming = (\<lambda>_. []),
     outgoing = (\<lambda>_. Again), arriving = (\<lambda>_. Some (6, (0x0A000001, 40000), (0x0A000002, 8480)))\<rparr>"

definition ex_accepted :: ns_connection where
  "ex_accepted = ev_accept (0x0A000001, 40000) (0x0A000002, 8480) ((ns_add_sock ex_clock 6)\<lparr>nc_accepted := True\<rparr>)"

lemma ex_accepted_fields:
  "nc_sock ex_accepted = 6" "nc_accepted ex_accepted" "\<not> nc_listening ex_accepted" "\<not> nc_udp ex_accepted" "nc_linked ex_accepted"
  "nc ex_accepted = new_connection" "nc_last_io_time ex_accepted = now ex_clock"
proof -
  have "on_accept (config_option ''access_control_list'') 0x0A000001" by code_simp
  then show "nc_sock ex_accepted = 6" "nc_accepted ex_accepted" "\<not> nc_listening ex_accepted" "\<not> nc_udp ex_accepted"
    "nc_linked ex_accepted" "nc ex_accepted = new_connection" "nc_last_io_time ex_accepted = now ex_clock"
    by (simp_all add: ex_accepted_def ev_accept_def ns_add_sock_def)
qed

lemma ex_turn_run: "ns_mgr_poll no_env ex_turn [ex_listener] ex_node = (Return (2, [ex_accepted, ex_listener], []), ex_node)"
proof -
  have p: "ev_poll no_env ex_clock ex_listener n = (Return ex_listener, n)" for n
    by (simp add: ev_poll_def ex_listener_def ns_add_sock_def prog_simps)
  have l: "nc_sock ex_listener = 5" "nc_listening ex_listener" "\<not> nc_udp ex_listener" "nc ex_listener = new_connection"
    by (simp_all add: ex_listener_def ns_add_sock_def)
  have a: "accept_conn ex_clock ex_turn ex_listener = [ex_accepted]"
    by (simp add: accept_conn_def ex_turn_def ex_accepted_def)
  have q: "selected ex_turn = Some ([5], [])" "before ex_turn = ex_clock" "afterwards ex_turn = ex_clock"
    by (simp_all add: ex_turn_def)
  have o: "\<not> is_over ex_listener" "\<not> is_over ex_accepted"
    by (simp_all add: is_over_def l ex_accepted_fields new_connection_def)
  have s: "send_iobuf new_connection = []" "\<not> close_immediately new_connection"
    by (simp_all add: new_connection_def)
  show ?thesis
    by (simp add: ns_mgr_poll_def seq_def p l q a o s ns_add_to_set_def readable_def prog_simps ns_add_conn_def)
qed

theorem turn_leaves_connections_in_order_witness:
  "list_all in_order [ex_accepted, ex_listener] \<and> list_all (\<lambda>c. \<not> is_over c) [ex_accepted, ex_listener] \<and>
   list_all (recent ex_turn) [ex_accepted, ex_listener]"
proof (rule turn_leaves_connections_in_order [OF _ ex_turn_run])
  show "list_all in_order [ex_listener]"
    by (simp add: in_order_def ex_listener_def ns_add_sock_def)
qed

text \<open>
  The sockets are put into sets of 1024 bits without a check. A connection beyond that is a write behind the end of
  the set.
\<close>

lemma too_many_sockets:
  assumes "ev_poll e (before t) c n = (Return c', n')" "1024 \<le> nc_sock c'"
  shows "ns_mgr_poll e t (c # cs) n = (Stop Undefined, n')"
  using assms by (simp add: ns_mgr_poll_def seq_def ns_add_to_set_def prog_simps)

text \<open>A text of as many characters as the buffer has ends in the terminator when it is sent.\<close>

lemma ns_avprintf_exact:
  assumes "length text = sz" "0 < sz"
  shows "length (ns_avprintf sz text) = sz" "last (ns_avprintf sz text) = nul"
  using assms by (simp_all add: ns_avprintf_def)

text \<open>
  A port that cannot be bound leaves the server running without a connection: every turn reports none, until the
  process is told to stop.
\<close>

lemma nothing_to_serve: "ns_mgr_poll e t [] n = (Return (0, [], []), n)"
  by (cases "selected t") (auto simp: ns_mgr_poll_def seq_def ret_def)

lemma server_without_socket:
  assumes "ns_bind ck k g v = None"
  shows "fst (run_httpserver e ck k g v ts last_turn n) =
    Return (mg_get_option (snd (mg_set_option (bind_port ck k g) (\<lambda>_. None) mg_create_server ''listening_port'' (Some v))) ''listening_port'')"
proof -
  have "poll_turns e ts [] n = (Return [], n)" by (induction ts) (simp_all add: seq_Return mg_poll_server_def nothing_to_serve prog_simps)
  then show ?thesis using assms
    by (simp add: run_httpserver_def mg_destroy_server_def Let_def seq_Return ns_mgr_free_def nothing_to_serve prog_simps)
qed

end
