(* ===== verification/Loop_Download.thy ===== *)
theory Loop_Download
  imports Event_Loop
begin

text \<open>
  Downloads under the event loop: any number of connections are served in the same turns, each gets its own
  bytes, and one is closed only when all of them were sent, when its socket failed, or after the idle time.
\<close>

section \<open>A connection between requests and downloads\<close>

text \<open>
  What is sent on a socket: the inode, its bytes, and the headers in front. \<open>unhurried\<close>: a connection is told to
  close only when the file is done, and at once only when nothing is buffered.
\<close>

type_synonym job = "nat \<times> string \<times> string"

definition carries :: "job \<Rightarrow> node \<Rightarrow> connection \<Rightarrow> bool" where
  "carries jb n c \<longleftrightarrow> (case jb of (i, bytes, h) \<Rightarrow> \<exists>off. delivering i bytes h off (n, c))"

definition unhurried :: "connection \<Rightarrow> bool" where
  "unhurried c \<longleftrightarrow> (finished_sending c \<or> close_immediately c \<longrightarrow> endpoint_type c \<noteq> EP_FILE) \<and>
     (close_immediately c \<longrightarrow> send_iobuf c = []) \<and> \<not> mc_is_websocket (mg_conn c)"

definition carrying :: "(nat \<Rightarrow> job) \<Rightarrow> node \<Rightarrow> ns_connection \<Rightarrow> bool" where
  "carrying jobs n c \<longleftrightarrow> nc_sock c < 1024 \<and> \<not> nc_udp c \<and>
     (nc c = new_connection \<or> (\<not> nc_listening c \<and> unhurried (nc c) \<and> carries (jobs (nc_sock c)) n (nc c)))"

definition sent_part :: "(nat \<Rightarrow> job) \<Rightarrow> ns_connection \<Rightarrow> bool" where
  "sent_part jobs c \<longleftrightarrow> (case jobs (nc_sock c) of (i, bytes, h) \<Rightarrow>
     wire (nc c) @ send_iobuf (nc c) = [] \<or> (\<exists>off. wire (nc c) @ send_iobuf (nc c) = h @ take off bytes))"

definition sent_all :: "(nat \<Rightarrow> job) \<Rightarrow> ns_connection \<Rightarrow> bool" where
  "sent_all jobs c \<longleftrightarrow> (case jobs (nc_sock c) of (i, bytes, h) \<Rightarrow> wire (nc c) = h @ bytes)"

text \<open>
  What a turn does on one connection. \<open>due\<close>: the loop puts up to 8192 bytes of the file into a buffer that holds
  at most 16384. \<open>taken\<close>: what the socket takes of a buffer, when \<^verbatim>\<open>select\<close> names it; a connection that is closed
  after the idle time is not written any more.
\<close>

definition queued :: "connection \<Rightarrow> string" where
  "queued c = wire c @ send_iobuf c"

definition due :: "connection \<Rightarrow> nat" where
  "due c = (if endpoint_type c = EP_FILE \<and> length (send_iobuf c) \<le> 16384 then 8192 else 0)"

definition sends_on :: "job \<Rightarrow> nat \<Rightarrow> connection \<Rightarrow> connection \<Rightarrow> bool" where
  "sends_on jb k c c' \<longleftrightarrow> wire c' = wire c \<and>
     (case jb of (i, bytes, h) \<Rightarrow> queued c' = take (length (queued c) + k) (h @ bytes))"

definition fed :: "(nat \<Rightarrow> job) \<Rightarrow> ns_connection \<Rightarrow> ns_connection \<Rightarrow> bool" where
  "fed jobs c c' \<longleftrightarrow> nc_sock c' = nc_sock c \<and>
     sends_on (jobs (nc_sock c)) (if nc_linked c then due (nc c) else 0) (nc c) (nc c')"

definition accepts :: "turn \<Rightarrow> nat list \<Rightarrow> nat \<Rightarrow> nat \<Rightarrow> nat" where
  "accepts t ws s k = (case outgoing t s of Count m \<Rightarrow> if s \<in> set ws \<and> m \<le> k then m else 0 | _ \<Rightarrow> 0)"

definition drained :: "turn \<Rightarrow> nat list \<Rightarrow> ns_connection \<Rightarrow> ns_connection \<Rightarrow> bool" where
  "drained t ws c c' \<longleftrightarrow> nc_sock c' = nc_sock c \<and> queued (nc c') = queued (nc c) \<and>
     wire (nc c') = wire (nc c) @ take (accepts t ws (nc_sock c) (length (send_iobuf (nc c)))) (send_iobuf (nc c))"

text \<open>A turn in which no data arrives; connections may.\<close>

definition silent :: "turn \<Rightarrow> bool" where
  "silent t \<longleftrightarrow> (\<forall>s b. take 1 (incoming t s) = [Received b] \<longrightarrow> b = []) \<and>
     (\<forall>s s' sa. arriving t s = Some (s', sa) \<longrightarrow> s' < 1024)"

definition fails :: "turn \<Rightarrow> nat \<Rightarrow> bool" where
  "fails t s \<longleftrightarrow> (\<exists>a. take 1 (incoming t s) = [a] \<and> ns_is_error (recv_result a)) \<or> ns_is_error (outgoing t s)"

definition timed_out :: "turn \<Rightarrow> ns_connection \<Rightarrow> bool" where
  "timed_out t c \<longleftrightarrow> nc_last_io_time c + MONGOOSE_IDLE_TIMEOUT_SECONDS < now (before t)"

definition selected_for_writing :: "turn \<Rightarrow> ns_connection \<Rightarrow> nat list" where
  "selected_for_writing t c = (if nc_accepted c \<and> timed_out t c then []
     else case selected t of None \<Rightarrow> [] | Some (r, w) \<Rightarrow> w)"

definition advanced :: "(nat \<Rightarrow> job) \<Rightarrow> turn \<Rightarrow> ns_connection \<Rightarrow> ns_connection \<Rightarrow> bool" where
  "advanced jobs t c c' \<longleftrightarrow> (\<exists>b. fed jobs c b \<and> drained t (selected_for_writing t c) b c')"

lemma new_connection_fields [simp]:
  "send_iobuf new_connection = []" "wire new_connection = []" "\<not> close_immediately new_connection"
  "\<not> finished_sending new_connection" "endpoint_type new_connection = EP_NONE" "\<not> mc_is_websocket (mg_conn new_connection)"
  by (simp_all add: new_connection_def reset_mg_def)

lemma carrying_part: "carrying jobs n c \<Longrightarrow> sent_part jobs c"
  by (auto simp: carrying_def carries_def sent_part_def delivering_def split: prod.splits)

lemma unhurried_closed: "unhurried (closed_endpoint c)" "wire (closed_endpoint c) = wire c" "send_iobuf (closed_endpoint c) = send_iobuf c"
  by (simp_all add: unhurried_def closed_endpoint_def Let_def reset_connection_def reset_mg_def)

lemma carrying_over:
  assumes "carrying jobs n c" "is_over c"
  shows "sent_all jobs c"
  using assms by (auto simp: carrying_def is_over_def unhurried_def carries_def delivering_def sent_all_def split: prod.splits)

section \<open>Events on such a connection\<close>

lemma carries_queued:
  assumes "carries (i, bytes, h) n c"
  shows "take (length (queued c)) (h @ bytes) = queued c"
proof -
  from assms obtain off where "queued c = h @ take off bytes" "off \<le> length bytes"
    by (auto simp: carries_def delivering_def queued_def)
  then show ?thesis by simp
qed

lemma poll_result:
  assumes "mg_ev_handler e ck NS_POLL (n, c) = (Return (), (n, c'))" "unhurried c" "carries jb n c"
  shows "unhurried c' \<and> sends_on jb (due c) c c'"
proof (cases "endpoint_type c = EP_FILE \<and> length (send_iobuf c) \<le> 8192 * 2")
  case True
  obtain i bytes h off where j: "jb = (i, bytes, h)" and d: "delivering i bytes h off (n, c)"
    using assms(3) by (auto simp: carries_def)
  let ?k = "if cl c < 8192 then nat (cl c) else 8192"
  let ?b = "take ?k (drop off bytes)"
  let ?c = "c\<lparr>cl := cl c - int (length ?b), endpoint := (i, off + length ?b), send_iobuf := send_iobuf c @ ?b\<rparr>"
  have st: "data (n_fs n) i = bytes" "faults (n_fs n) = []" "endpoint c = (i, off)" "cl c = int (length bytes) - int off" "off \<le> length bytes"
      "wire c @ send_iobuf c = h @ take off bytes"
    using d True by (simp_all add: delivering_def)
  have k: "(if cl c < 8192 then s32 (cl c) else 8192) = int ?k" "?k \<le> 8192" using st(4,5) by (auto simp: s32_id)
  have again: "close_local_endpoint (on_recv_data e ck) (n, c) = (Return (), (n, closed_endpoint c))" for c
    unfolding on_recv_data_def numeral_2_eq_2 by (rule close_local_endpoint_run) (rule on_recv_turns_idle)
  have c': "(c' = closed_endpoint c \<and> ?b = []) \<or> c' = closed_endpoint ?c \<or> c' = ?c"
    using transfer_run [OF k st(2,3) _ refl refl, of "on_recv_data e ck"] True assms(1) st(1)
    by (auto simp: poll_run again split: if_splits)
  moreover have "unhurried ?c" using True assms(2) by (auto simp: unhurried_def)
  moreover have w: "wire c' = wire c" "send_iobuf c' = send_iobuf c @ ?b" using c' by (auto simp: unhurried_closed)
  have "queued c' = h @ take (off + ?k) bytes" using st(6) w by (simp add: queued_def take_add)
  moreover have "take (off + ?k) bytes = take (off + 8192) bytes" using st(4,5) by auto
  moreover have "take (length (queued c) + due c) (h @ bytes) = h @ take (off + 8192) bytes"
    using st(5,6) True by (simp add: queued_def due_def)
  ultimately show ?thesis using unhurried_closed(1) w(1) j by (auto simp: sends_on_def)
next
  case False
  with assms(1) have c': "c' = c" by (auto simp: poll_run transfer_file_data_def conn_def prog_simps split: if_splits)
  have "due c = 0" using False by (auto simp: due_def)
  with c' assms(2,3) carries_queued show ?thesis by (auto simp: sends_on_def split: prod.splits)
qed

lemma poll_carries:
  assumes "carries jb n c" "unhurried c"
  shows "\<exists>c'. mg_ev_handler e ck NS_POLL (n, c) = (Return (), (n, c')) \<and> carries jb n c' \<and> unhurried c' \<and> sends_on jb (due c) c c'"
proof -
  obtain i bytes h off where j: "jb = (i, bytes, h)" and d: "delivering i bytes h off (n, c)"
    using assms(1) by (auto simp: carries_def)
  from delivering_event [OF d, of NS_POLL e ck] obtain c' off' where
    c': "mg_ev_handler e ck NS_POLL (n, c) = (Return (), (n, c'))" "delivering i bytes h off' (n, c')"
    by (auto simp: no_receive_def)
  moreover from c'(2) have "carries jb n c'" by (auto simp: carries_def j)
  moreover note poll_result [OF c'(1) assms(2,1)]
  ultimately show ?thesis by blast
qed

lemma poll_new: "mg_ev_handler e ck NS_POLL (n, new_connection) = (Return (), (n, new_connection))"
  by (simp add: poll_run)

lemma ev_close_run:
  "ev_close e ck c n = (Return (if nc_linked c then c\<lparr>nc_linked := False, nc := closed_endpoint (nc c)\<rparr> else c), n)"
proof -
  have again: "close_local_endpoint (on_recv_data e ck) (n, c) = (Return (), (n, closed_endpoint c))" for c
    unfolding on_recv_data_def numeral_2_eq_2 by (rule close_local_endpoint_run) (rule on_recv_turns_idle)
  have "call_user e MG_CLOSE (n, nc c) = (Return (MG_FALSE, None), (n, nc c))"
    by (simp add: call_user_def conn_def ev_handler_def on_fst_def prog_simps)
  then show ?thesis by (simp add: ev_close_def with_conn_def seq_Return again prog_simps)
qed

lemma ns_close_conn_run: "ns_close_conn e ck c n = (Return (), n)"
  by (simp add: ns_close_conn_def seq_def ev_close_run prog_simps)

lemma carrying_fed:
  assumes "carrying jobs n c" "due (nc c) = 0 \<or> \<not> nc_linked c"
  shows "fed jobs c c"
proof -
  have "take (length (queued (nc c))) (h @ bytes) = queued (nc c)" if "jobs (nc_sock c) = (i, bytes, h)" for i bytes h
    using assms(1) that carries_queued [of i bytes h n "nc c"] by (auto simp: carrying_def queued_def)
  with assms(2) show ?thesis by (auto simp: fed_def sends_on_def split: prod.splits)
qed

lemma due_new [simp]: "due new_connection = 0"
  by (simp add: due_def)

lemma ev_poll_run:
  assumes "carrying jobs n c"
  shows "\<exists>c'. ev_poll e ck c n = (Return c', n) \<and> nc_sock c' = nc_sock c \<and> fed jobs c c' \<and>
    (carrying jobs n c' \<and> (nc_accepted c \<longrightarrow> now ck \<le> nc_last_io_time c + MONGOOSE_IDLE_TIMEOUT_SECONDS) \<or>
     (close_immediately (nc c') \<and> sent_part jobs c' \<and> nc_accepted c \<and> nc_last_io_time c' + MONGOOSE_IDLE_TIMEOUT_SECONDS < now ck)) \<and>
    nc_last_io_time c' = nc_last_io_time c"
proof -
  let ?p = "if nc_linked c then with_conn (mg_ev_handler e ck NS_POLL) c else ret c"
  obtain x where x: "?p n = (Return (c\<lparr>nc := x\<rparr>), n)" "carrying jobs n (c\<lparr>nc := x\<rparr>)" "fed jobs c (c\<lparr>nc := x\<rparr>)"
  proof (cases "nc c = new_connection \<or> \<not> nc_linked c")
    case True
    then have "?p n = (Return (c\<lparr>nc := nc c\<rparr>), n)" by (auto simp: with_conn_def poll_new prog_simps)
    moreover have "fed jobs c c" using True by (intro carrying_fed [OF assms]) auto
    ultimately show thesis using that [of "nc c"] assms by simp
  next
    case False
    with assms have j: "carries (jobs (nc_sock c)) n (nc c)" "unhurried (nc c)" "\<not> nc_listening c" by (auto simp: carrying_def)
    obtain y where y:
      "mg_ev_handler e ck NS_POLL (n, nc c) = (Return (), (n, y))" "carries (jobs (nc_sock c)) n y" "unhurried y"
      "sends_on (jobs (nc_sock c)) (due (nc c)) (nc c) y" using poll_carries [OF j(1,2), of e ck] by blast
    moreover have "fed jobs c (c\<lparr>nc := y\<rparr>)" using y(4) False by (simp add: fed_def)
    ultimately show thesis using that [of y] j(3) False assms by (auto simp: with_conn_def carrying_def)
  qed
  let ?c = "c\<lparr>nc := x\<rparr>"
  have ws: "\<not> mc_is_websocket (mg_conn x)" using x(2) by (auto simp: carrying_def unhurried_def)
  have r: "ev_poll e ck c n = (if nc_accepted c \<and> nc_last_io_time c + MONGOOSE_IDLE_TIMEOUT_SECONDS < now ck
       then (Return (close_now (if nc_linked c then ?c\<lparr>nc_linked := False, nc := closed_endpoint x\<rparr> else ?c)), n) else (Return ?c, n))"
    using ws x(1) by (cases "nc_linked c") (simp_all add: ev_poll_def seq_def ret_def ev_close_run)
  show ?thesis
  proof (cases "nc_accepted c \<and> nc_last_io_time c + MONGOOSE_IDLE_TIMEOUT_SECONDS < now ck")
    case True
    moreover have "sent_part jobs ?c" by (rule carrying_part [OF x(2)])
    ultimately show ?thesis using r x(3)
      by (auto simp: close_now_def sent_part_def fed_def sends_on_def queued_def unhurried_closed split: prod.splits)
  next
    case False
    with r x(2,3) show ?thesis by auto
  qed
qed

section \<open>One turn\<close>

definition ended :: "(nat \<Rightarrow> job) \<Rightarrow> turn \<Rightarrow> ns_connection \<Rightarrow> bool" where
  "ended jobs t c \<longleftrightarrow> sent_part jobs c \<and> (sent_all jobs c \<or> fails t (nc_sock c) \<or> timed_out t c)"

text \<open>
  After the first loop: a connection that is left is in the set for writing when it has something to write, and one
  that is closed had nothing to write or was idle.
\<close>

definition waits :: "turn \<Rightarrow> nat list \<Rightarrow> ns_connection \<Rightarrow> ns_connection \<Rightarrow> bool" where
  "waits t ws c c' \<longleftrightarrow> \<not> (nc_accepted c \<and> timed_out t c) \<and> (send_iobuf (nc c') \<noteq> [] \<longrightarrow> nc_sock c' \<in> set ws)"

definition spent :: "turn \<Rightarrow> ns_connection \<Rightarrow> ns_connection \<Rightarrow> bool" where
  "spent t c c' \<longleftrightarrow> nc_accepted c \<and> timed_out t c \<or> send_iobuf (nc c') = []"

lemma poll_conns_run:
  "list_all (carrying jobs n) cs \<Longrightarrow> \<exists>cs' gone rs' ws'. poll_conns e (before t) cs (rs, ws) n = (Return (cs', gone, rs', ws'), n) \<and>
     list_all (carrying jobs n) cs' \<and> list_all (ended jobs t) gone \<and> set ws \<subseteq> set ws' \<and>
     list_all (\<lambda>c. \<exists>c'. fed jobs c c' \<and> (c' \<in> set cs' \<and> waits t ws' c c' \<or> c' \<in> set gone \<and> spent t c c')) cs"
proof (induction cs arbitrary: rs ws)
  case Nil
  then show ?case by (simp add: ret_def)
next
  case (Cons c cs)
  from Cons.prems have c: "carrying jobs n c" by simp
  from ev_poll_run [OF c, of e "before t"] obtain c1 where p: "ev_poll e (before t) c n = (Return c1, n)" "nc_sock c1 = nc_sock c"
    and fd: "fed jobs c c1"
    and k1: "carrying jobs n c1 \<and> (nc_accepted c \<longrightarrow> now (before t) \<le> nc_last_io_time c + MONGOOSE_IDLE_TIMEOUT_SECONDS) \<or>
      (close_immediately (nc c1) \<and> sent_part jobs c1 \<and> nc_accepted c \<and>
        nc_last_io_time c1 + MONGOOSE_IDLE_TIMEOUT_SECONDS < now (before t))"
    and same: "nc_last_io_time c1 = nc_last_io_time c"
    by blast
  from k1 have k: "carrying jobs n c1 \<and> \<not> (nc_accepted c \<and> timed_out t c) \<or>
      (close_immediately (nc c1) \<and> sent_part jobs c1 \<and> nc_accepted c \<and> timed_out t c \<and> timed_out t c1)"
    using same by (auto simp: timed_out_def)
  have s: "ns_add_to_set (nc_sock c1) x n = (Return (nc_sock c1 # x), n)" for x
    using c p(2) by (simp add: ns_add_to_set_def carrying_def prog_simps)
  define ws1 where "ws1 = (if send_iobuf (nc c1) \<noteq> [] then nc_sock c1 # ws else ws)"
  obtain cs2 gone2 rs2 ws2 where i: "poll_conns e (before t) cs (nc_sock c1 # rs, ws1) n = (Return (cs2, gone2, rs2, ws2), n)"
    "list_all (carrying jobs n) cs2" "list_all (ended jobs t) gone2" "set ws1 \<subseteq> set ws2"
    "list_all (\<lambda>c. \<exists>c'. fed jobs c c' \<and> (c' \<in> set cs2 \<and> waits t ws2 c c' \<or> c' \<in> set gone2 \<and> spent t c c')) cs"
    using Cons.IH [of "nc_sock c1 # rs" ws1] Cons.prems by auto
  have sub: "set ws \<subseteq> set ws2" and mem: "send_iobuf (nc c1) \<noteq> [] \<Longrightarrow> nc_sock c1 \<in> set ws2"
    using i(4) by (auto simp: ws1_def split: if_splits)
  have r: "poll_conns e (before t) (c # cs) (rs, ws) n
      = (if close_immediately (nc c1) then (Return (cs2, c1 # gone2, rs2, ws2), n) else (Return (c1 # cs2, gone2, rs2, ws2), n))"
    unfolding poll_conns.simps
    using i(1) by (cases "send_iobuf (nc c1) = []") (simp_all add: seq_def p(1) s ret_def ns_close_conn_run ws1_def)
  show ?case
  proof (cases "close_immediately (nc c1)")
    case True
    then have "carrying jobs n c1 \<Longrightarrow> ended jobs t c1"
      using carrying_over [of jobs n c1] carrying_part [of jobs n c1] by (simp add: ended_def is_over_def)
    with k have "ended jobs t c1" by (auto simp: ended_def)
    moreover have "spent t c c1"
      using k True by (auto simp: spent_def carrying_def unhurried_def)
    ultimately show ?thesis
      unfolding r using True i(2,3,5) sub fd by (auto simp: list_all_iff)
  next
    case False
    then have "waits t ws2 c c1" using k mem by (auto simp: waits_def)
    with False k i(2,3,5) sub fd show ?thesis unfolding r by (auto simp: list_all_iff)
  qed
qed

text \<open>What can be said of a connection while sockets are served.\<close>

definition at_work :: "(nat \<Rightarrow> job) \<Rightarrow> turn \<Rightarrow> node \<Rightarrow> ns_connection \<Rightarrow> bool" where
  "at_work jobs t n c \<longleftrightarrow> carrying jobs n c \<or> (close_immediately (nc c) \<and> fails t (nc_sock c) \<and> sent_part jobs c)"

lemma at_work_close:
  assumes "carrying jobs n c" "fails t (nc_sock c)"
  shows "at_work jobs t n (close_now c)"
  using assms carrying_part [OF assms(1)] by (auto simp: at_work_def close_now_def sent_part_def split: prod.splits)

lemma carrying_touch: "carrying jobs n (touch ck c) \<longleftrightarrow> carrying jobs n c"
  by (simp add: carrying_def touch_def)

lemma ns_read_silent:
  assumes "\<forall>b. take 1 as = [Received b] \<longrightarrow> b = []"
  shows "ns_read_from_socket e ck as c n =
    (Return (if \<exists>a. take 1 as = [a] \<and> ns_is_error (recv_result a) then close_now c else c), n)"
  using assms by (cases as) (auto simp: ret_def recv_result_def split: received.splits)

lemma readable_run:
  assumes "carrying jobs n c" "silent t"
  shows "\<exists>c' new. readable e t c n = (Return (c', new), n) \<and> at_work jobs t n c' \<and> nc_sock c' = nc_sock c \<and>
    queued (nc c') = queued (nc c) \<and> wire (nc c') = wire (nc c) \<and> list_all (at_work jobs t n) new"
proof (cases "nc_listening c")
  case True
  have ok: "on_accept (config_option ''access_control_list'') ip" for ip
    by (simp add: on_accept_def check_acl_def config_option_def static_config_options_def)
  have "list_all (carrying jobs n) (accept_conn ck t c)" for ck
    using assms(2) by (auto simp: accept_conn_def ev_accept_def ok carrying_def ns_add_sock_def silent_def split: option.splits)
  then have "list_all (at_work jobs t n) (accept_conn (afterwards t) t c)" by (simp add: list_all_iff at_work_def)
  then show ?thesis using True assms(1) by (auto simp: readable_def Let_def ret_def at_work_def carrying_def)
next
  case False
  let ?c = "touch (afterwards t) c"
  have "\<forall>b. take 1 (incoming t (nc_sock c)) = [Received b] \<longrightarrow> b = []" using assms(2) by (simp add: silent_def)
  from ns_read_silent [OF this, of e "afterwards t" ?c n] have r: "readable e t c n =
      (Return (if \<exists>a. take 1 (incoming t (nc_sock c)) = [a] \<and> ns_is_error (recv_result a) then close_now ?c else ?c, []), n)"
    using False by (simp add: readable_def Let_def seq_Return ret_def)
  have "carrying jobs n ?c" "nc_sock ?c = nc_sock c" "nc ?c = nc c"
    using assms(1) by (simp_all add: carrying_touch) (simp_all add: touch_def)
  moreover from this have "at_work jobs t n (close_now ?c)" if "\<exists>a. take 1 (incoming t (nc_sock c)) = [a] \<and> ns_is_error (recv_result a)"
    using that by (intro at_work_close) (simp_all add: fails_def)
  moreover have "nc_sock (close_now ?c) = nc_sock ?c" "queued (nc (close_now ?c)) = queued (nc ?c)"
    "wire (nc (close_now ?c)) = wire (nc ?c)" by (simp_all add: close_now_def queued_def)
  ultimately show ?thesis unfolding r by (auto simp: at_work_def)
qed

lemma sent_part_upd: "sent_part jobs (c\<lparr>nc := x\<rparr>) \<longleftrightarrow> (case jobs (nc_sock c) of (i, bytes, h) \<Rightarrow>
     wire x @ send_iobuf x = [] \<or> (\<exists>off. wire x @ send_iobuf x = h @ take off bytes))"
  by (simp add: sent_part_def)

lemma send_at_work:
  assumes "at_work jobs t n c"
  shows "\<exists>x. mg_ev_handler e ck (NS_SEND m) (n, nc c) = (Return (), (n, x)) \<and> at_work jobs t n (c\<lparr>nc := x\<rparr>) \<and>
    queued x = queued (nc c) \<and>
    wire x = wire (nc c) @ take (if m \<le> length (send_iobuf (nc c)) then m else 0) (send_iobuf (nc c))"
proof -
  define x where "x = (nc c)\<lparr>send_iobuf := iobuf_remove (send_iobuf (nc c)) m,
    wire := wire (nc c) @ take (length (send_iobuf (nc c)) - length (iobuf_remove (send_iobuf (nc c)) m)) (send_iobuf (nc c))\<rparr>"
  have run: "mg_ev_handler e ck (NS_SEND m) (n, nc c) = (Return (), (n, x))" by (simp add: send_run x_def)
  have w: "wire x @ send_iobuf x = wire (nc c) @ send_iobuf (nc c)"
    by (simp add: x_def iobuf_remove_split)
  have "at_work jobs t n (c\<lparr>nc := x\<rparr>)"
  proof (cases "carrying jobs n c")
    case True
    have "x = new_connection" if "nc c = new_connection"
      unfolding x_def that by (simp add: iobuf_remove_def new_connection_def)
    moreover have "unhurried x" if "unhurried (nc c)" using that by (auto simp: unhurried_def x_def iobuf_remove_def)
    moreover have "carries (jobs (nc_sock c)) n x" if "carries (jobs (nc_sock c)) n (nc c)"
      using that delivering_send [OF _ run] by (fastforce simp: carries_def split: prod.splits)
    ultimately show ?thesis using True by (auto simp: at_work_def carrying_def)
  next
    case False
    with assms w show ?thesis by (auto simp: at_work_def sent_part_def x_def split: prod.splits)
  qed
  moreover have "wire x = wire (nc c) @ take (if m \<le> length (send_iobuf (nc c)) then m else 0) (send_iobuf (nc c))"
    by (simp add: x_def iobuf_remove_def)
  moreover have "queued x = queued (nc c)" using w by (simp add: queued_def)
  ultimately show ?thesis using run by blast
qed

lemma writable_run:
  assumes "at_work jobs t n c" "nc_sock c \<in> set ws"
  shows "\<exists>c'. writable e t c n = (Return c', n) \<and> at_work jobs t n c' \<and> drained t ws c c'"
proof -
  let ?c = "touch (afterwards t) c"
  have c: "at_work jobs t n ?c" using assms by (simp add: at_work_def carrying_touch) (simp add: touch_def sent_part_def)
  have cl: "at_work jobs t n (close_now ?c)" if "ns_is_error (outgoing t (nc_sock c))"
  proof -
    have "fails t (nc_sock ?c)" using that by (simp add: fails_def touch_def)
    moreover have "sent_part jobs ?c" using c carrying_part by (auto simp: at_work_def)
    ultimately show ?thesis by (auto simp: at_work_def close_now_def sent_part_def split: prod.splits)
  qed
  have c2: "nc ?c = nc c" "nc_sock ?c = nc_sock c" by (simp_all add: touch_def)
  show ?thesis
  proof (cases "\<exists>m. outgoing t (nc_sock c) = Count m \<and> 0 < m")
    case True
    then obtain m where m: "outgoing t (nc_sock c) = Count m" "0 < m" by blast
    from send_at_work [OF c, of e "afterwards t" m] obtain x where
      x: "mg_ev_handler e (afterwards t) (NS_SEND m) (n, nc c) = (Return (), (n, x))" "at_work jobs t n (?c\<lparr>nc := x\<rparr>)"
      "queued x = queued (nc c)"
      "wire x = wire (nc c) @ take (if m \<le> length (send_iobuf (nc c)) then m else 0) (send_iobuf (nc c))"
      unfolding c2 by blast
    have "writable e t c n = (Return (?c\<lparr>nc := x\<rparr>), n)"
      using m x(1) by (simp add: writable_def ns_write_to_socket_def ns_is_error_def with_conn_def c2)
    moreover have "drained t ws c (?c\<lparr>nc := x\<rparr>)"
      using assms(2) m x(3,4) by (simp add: drained_def accepts_def c2)
    ultimately show ?thesis using x(2) by blast
  next
    case False
    then have "writable e t c n = (Return (if ns_is_error (outgoing t (nc_sock c)) then close_now ?c else ?c), n)"
      by (cases "outgoing t (nc_sock c)") (auto simp: writable_def ns_write_to_socket_def ns_is_error_def ret_def)
    moreover have "accepts t ws (nc_sock c) k = 0" for k
      using False by (cases "outgoing t (nc_sock c)") (auto simp: accepts_def)
    then have "drained t ws c ?c" "drained t ws c (close_now ?c)"
      by (simp_all add: drained_def close_now_def queued_def touch_def)
    ultimately show ?thesis using c cl by auto
  qed
qed

lemma add_conns: "foldr ns_add_conn xs ys = xs @ ys"
  by (induction xs) (simp_all add: ns_add_conn_def)

lemma io_conns_run:
  assumes "silent t"
  shows "list_all (carrying jobs n) cs \<Longrightarrow> \<exists>new cs'. io_conns e t (rs, ws) cs n = (Return (new, cs'), n) \<and>
    list_all (at_work jobs t n) new \<and> list_all (at_work jobs t n) cs' \<and>
    list_all (\<lambda>c. \<exists>c' \<in> set cs'. drained t ws c c') cs"
proof (induction cs)
  case Nil
  then show ?case by (simp add: ret_def)
next
  case (Cons c cs)
  from Cons.prems have c: "carrying jobs n c" by simp
  have "\<exists>c' new. (if nc_sock c \<in> set rs then readable e t c else ret (c, [])) n = (Return (c', new), n) \<and>
      at_work jobs t n c' \<and> nc_sock c' = nc_sock c \<and> queued (nc c') = queued (nc c) \<and> wire (nc c') = wire (nc c) \<and>
      list_all (at_work jobs t n) new"
    using readable_run [OF c assms, of e] c by (auto simp: ret_def at_work_def)
  then obtain c1 new1 where r: "(if nc_sock c \<in> set rs then readable e t c else ret (c, [])) n = (Return (c1, new1), n)"
    "at_work jobs t n c1" "list_all (at_work jobs t n) new1"
    and same: "nc_sock c1 = nc_sock c" "queued (nc c1) = queued (nc c)" "wire (nc c1) = wire (nc c)" by blast
  have "\<exists>c'. (if nc_sock c1 \<in> set ws then writable e t c1 else ret c1) n = (Return c', n) \<and> at_work jobs t n c' \<and>
      drained t ws c1 c'"
  proof (cases "nc_sock c1 \<in> set ws")
    case True
    with writable_run [OF r(2), of ws e] show ?thesis by simp
  next
    case False
    then have "drained t ws c1 c1" by (simp add: drained_def accepts_def split: io_result.split)
    with False r(2) show ?thesis by (simp add: ret_def)
  qed
  then obtain c2 where w: "(if nc_sock c1 \<in> set ws then writable e t c1 else ret c1) n = (Return c2, n)"
    "at_work jobs t n c2" "drained t ws c1 c2" by blast
  have "send_iobuf (nc c1) = send_iobuf (nc c)" using same(2,3) by (simp add: queued_def)
  with w(3) same have d: "drained t ws c c2" by (simp add: drained_def)
  obtain new2 cs2 where i: "io_conns e t (rs, ws) cs n = (Return (new2, cs2), n)"
    "list_all (at_work jobs t n) new2" "list_all (at_work jobs t n) cs2"
    "list_all (\<lambda>c. \<exists>c' \<in> set cs2. drained t ws c c') cs"
    using Cons by auto
  have "io_conns e t (rs, ws) (c # cs) n = (Return (new2 @ new1, c2 # cs2), n)"
    using r(1) w(1) i(1) unfolding io_conns.simps
    by (cases "nc_sock c \<in> set rs"; cases "nc_sock c1 \<in> set ws") (simp_all add: seq_def ret_def add_conns)
  then show ?case using r w(2) d i(2-4) by (auto simp: list_all_iff)
qed

lemma close_conns_run:
  "list_all (at_work jobs t n) cs \<Longrightarrow> \<exists>cs' gone. close_conns e ck cs n = (Return (cs', gone), n) \<and>
     list_all (carrying jobs n) cs' \<and> list_all (ended jobs t) gone \<and> set cs = set cs' \<union> set gone"
proof (induction cs)
  case Nil
  then show ?case by (simp add: ret_def)
next
  case (Cons c cs)
  then obtain cs2 gone2 where i: "close_conns e ck cs n = (Return (cs2, gone2), n)"
    "list_all (carrying jobs n) cs2" "list_all (ended jobs t) gone2" "set cs = set cs2 \<union> set gone2" by auto
  have c: "at_work jobs t n c" using Cons.prems by simp
  show ?case
  proof (cases "is_over c")
    case True
    with c have "ended jobs t c"
      using carrying_over [of jobs n c] carrying_part [of jobs n c] by (auto simp: at_work_def ended_def)
    then show ?thesis using True i by (simp add: seq_def ns_close_conn_run ret_def)
  next
    case False
    with c have "carrying jobs n c" by (auto simp: at_work_def is_over_def)
    then show ?thesis using False i by (simp add: seq_def ret_def)
  qed
qed

text \<open>The two loops together: what \<^verbatim>\<open>select\<close> names for writing counts where the loop before has asked for it.\<close>

lemma drained_none: "accepts t ws (nc_sock c) (length (send_iobuf (nc c))) = 0 \<Longrightarrow> drained t ws c c"
  by (simp add: drained_def)

lemma drained_asked:
  assumes "drained t (filter (\<lambda>s. s \<in> set asked) w) b c'" "send_iobuf (nc b) \<noteq> [] \<longrightarrow> nc_sock b \<in> set asked"
  shows "drained t w b c'"
proof (cases "send_iobuf (nc b) = []")
  case True
  with assms(1) show ?thesis by (simp add: drained_def)
next
  case False
  with assms(2) have "accepts t (filter (\<lambda>s. s \<in> set asked) w) (nc_sock b) k = accepts t w (nc_sock b) k" for k
    by (simp add: accepts_def split: io_result.split)
  with assms(1) show ?thesis by (simp add: drained_def)
qed

lemma waits_advanced:
  assumes "fed jobs c b" "waits t asked c b" "selected t = None \<Longrightarrow> c' = b"
    and "\<And>r w. selected t = Some (r, w) \<Longrightarrow> drained t (filter (\<lambda>s. s \<in> set asked) w) b c'"
  shows "advanced jobs t c c'"
proof (cases "selected t")
  case None
  have "accepts t [] s k = 0" for s k by (simp add: accepts_def split: io_result.split)
  then have "drained t [] b b" by (intro drained_none)
  moreover have "selected_for_writing t c = []" using None by (simp add: selected_for_writing_def)
  ultimately show ?thesis using None assms(1,3) by (auto simp: advanced_def)
next
  case (Some rw)
  obtain r w where "rw = (r, w)" by (cases rw)
  with Some have "drained t (filter (\<lambda>s. s \<in> set asked) w) b c'" using assms(4) by simp
  moreover have "send_iobuf (nc b) \<noteq> [] \<longrightarrow> nc_sock b \<in> set asked" using assms(2) by (simp add: waits_def)
  ultimately have "drained t w b c'" by (rule drained_asked)
  moreover have "selected_for_writing t c = w"
    using Some \<open>rw = (r, w)\<close> assms(2) by (auto simp: selected_for_writing_def waits_def)
  ultimately show ?thesis using assms(1) by (auto simp: advanced_def)
qed

lemma spent_advanced:
  assumes "fed jobs c b" "spent t c b"
  shows "advanced jobs t c b"
proof -
  have "accepts t (selected_for_writing t c) (nc_sock b) (length (send_iobuf (nc b))) = 0"
    using assms(2) by (auto simp: spent_def accepts_def selected_for_writing_def split: io_result.split)
  from drained_none [OF this] assms(1) show ?thesis unfolding advanced_def by blast
qed

text \<open>
  C20. Downloads go on in every turn, and they do not mix. The event loop turns over any number of connections
  that are sending files; no data arrives from the clients in this turn (\<open>silent\<close>), but anyone may connect, and the sockets
  take what they like. The turn comes to its end, and no file changes. Each connection gets the next bytes of its own
  headers and file: 8192 or as many as are left while no more than 16384 wait in its buffer, and its socket is
  given what it takes of the buffer (\<open>advanced\<close>). It is still there then, with its own headers and its own bytes in order, or it was
  closed: with all of its file sent, or since its socket failed, or since it was idle too long.
\<close>

theorem downloads_do_not_mix:
  assumes "list_all (carrying jobs n) cs" "silent t"
  shows "\<exists>k cs' gone. ns_mgr_poll e t cs n = (Return (k, cs', gone), n) \<and>
    list_all (carrying jobs n) cs' \<and> list_all (ended jobs t) gone \<and>
    list_all (\<lambda>c. \<exists>c' \<in> set cs' \<union> set gone. advanced jobs t c c') cs"
proof -
  obtain cs1 gone1 rs ws where p: "poll_conns e (before t) cs ([], []) n = (Return (cs1, gone1, rs, ws), n)"
    "list_all (carrying jobs n) cs1" "list_all (ended jobs t) gone1"
    "list_all (\<lambda>c. \<exists>c'. fed jobs c c' \<and> (c' \<in> set cs1 \<and> waits t ws c c' \<or> c' \<in> set gone1 \<and> spent t c c')) cs"
    using poll_conns_run [OF assms(1), of e t "[]" "[]"] by blast
  have w: "list_all (at_work jobs t n) cs1" using p(2) by (simp add: list_all_iff at_work_def)
  have "\<exists>cs2. (case selected t of None \<Rightarrow> ret cs1
       | Some (r, w) \<Rightarrow> seq (io_conns e t (filter (\<lambda>s. s \<in> set rs) r, filter (\<lambda>s. s \<in> set ws) w) cs1)
           (\<lambda>(new, cs). ret (foldr ns_add_conn new cs))) n = (Return cs2, n) \<and> list_all (at_work jobs t n) cs2 \<and>
       (\<forall>b c. b \<in> set cs1 \<longrightarrow> fed jobs c b \<longrightarrow> waits t ws c b \<longrightarrow> (\<exists>c' \<in> set cs2. advanced jobs t c c'))"
  proof (cases "selected t")
    case None
    with w show ?thesis using waits_advanced by (fastforce simp: ret_def)
  next
    case (Some rw)
    obtain r v where rv: "rw = (r, v)" by (cases rw)
    let ?ws = "filter (\<lambda>s. s \<in> set ws) v"
    from io_conns_run [OF assms(2) p(2), of e "filter (\<lambda>s. s \<in> set rs) r" ?ws] obtain new cs' where
      i: "io_conns e t (filter (\<lambda>s. s \<in> set rs) r, ?ws) cs1 n = (Return (new, cs'), n)"
      "list_all (at_work jobs t n) new" "list_all (at_work jobs t n) cs'"
      "list_all (\<lambda>c. \<exists>c' \<in> set cs'. drained t ?ws c c') cs1" by blast
    have "\<exists>c' \<in> set (new @ cs'). advanced jobs t c c'" if "b \<in> set cs1" "fed jobs c b" "waits t ws c b" for b c
    proof -
      from i(4) that(1) obtain c' where "c' \<in> set cs'" "drained t ?ws b c'" by (auto simp: list_all_iff)
      with waits_advanced [OF that(2,3), of c'] Some rv show ?thesis by auto
    qed
    with Some rv i(1-3) show ?thesis by (simp add: seq_def ret_def add_conns)
  qed
  then obtain cs2 where i: "(case selected t of None \<Rightarrow> ret cs1
       | Some (r, w) \<Rightarrow> seq (io_conns e t (filter (\<lambda>s. s \<in> set rs) r, filter (\<lambda>s. s \<in> set ws) w) cs1)
           (\<lambda>(new, cs). ret (foldr ns_add_conn new cs))) n = (Return cs2, n)" "list_all (at_work jobs t n) cs2"
    and adv: "\<And>b c. b \<in> set cs1 \<Longrightarrow> fed jobs c b \<Longrightarrow> waits t ws c b \<Longrightarrow> \<exists>c' \<in> set cs2. advanced jobs t c c'" by blast
  obtain cs3 gone3 where c: "close_conns e (afterwards t) cs2 n = (Return (cs3, gone3), n)"
    "list_all (carrying jobs n) cs3" "list_all (ended jobs t) gone3" "set cs2 = set cs3 \<union> set gone3"
    using close_conns_run [OF i(2)] by blast
  have "ns_mgr_poll e t cs n = (Return (length cs2, cs3, gone1 @ gone3), n)"
    using i(1) unfolding ns_mgr_poll_def by (cases "selected t") (simp_all add: seq_def p(1) c(1) ret_def)
  moreover have each: "\<exists>c' \<in> set cs3 \<union> set (gone1 @ gone3). advanced jobs t c c'" if "c \<in> set cs" for c
  proof -
    from p(4) that obtain b where b: "fed jobs c b"
      "b \<in> set cs1 \<and> waits t ws c b \<or> b \<in> set gone1 \<and> spent t c b" by (auto simp: list_all_iff)
    from b(2) show ?thesis
    proof
      assume "b \<in> set cs1 \<and> waits t ws c b"
      with adv [OF _ b(1)] c(4) show ?thesis by auto
    next
      assume "b \<in> set gone1 \<and> spent t c b"
      with spent_advanced [OF b(1)] show ?thesis by auto
    qed
  qed
  moreover have "list_all (ended jobs t) (gone1 @ gone3)" using p(3) c(3) by simp
  moreover have "list_all (\<lambda>c. \<exists>c' \<in> set cs3 \<union> set (gone1 @ gone3). advanced jobs t c c') cs"
    unfolding list_all_iff using each by blast
  ultimately show ?thesis using c(2) by blast
qed

text \<open>
  How a connection gets there: the request arrives on the socket of a connection that was accepted, and from then
  on the connection carries the segment. The other connections carry what they carried.
\<close>

lemma looked_at_carrying: "carrying jobs (looked_at jid j n) c \<longleftrightarrow> carrying jobs n c"
  by (simp add: carrying_def carries_def delivering_def looked_at_def)

lemma request_starts_carrying:
  assumes "fetches m vars version hs jid a si" "has_segment jid j a path bytes n" "checkStorageInfo (storage j) si"
    and c: "nc c = new_connection" "nc_linked c" "\<not> nc_listening c" "\<not> nc_udp c" "nc_sock c < 1024"
    and t: "incoming t (nc_sock c) = [Received (fetch_text m vars version hs)]" "length (fetch_text m vars version hs) \<le> 2048"
  shows "\<exists>c' i h. readable e t c n = (Return (c', []), looked_at jid j n) \<and> nc_sock c' = nc_sock c \<and>
    carrying (jobs(nc_sock c := (i, bytes, h))) (looked_at jid j n) c'"
proof -
  let ?ck = "afterwards t"
  let ?r = "fetch_text m vars version hs"
  obtain i x c' where r: "mg_ev_handler e ?ck (NS_RECV ?r) (n, new_connection) = (Return (), (looked_at jid j n, x))"
    "delivering i bytes (file_headers ?ck path (length bytes) ''OK'' [] c') 0 (looked_at jid j n, x)"
    "\<not> finished_sending x" "\<not> close_immediately x" "\<not> mc_is_websocket (mg_conn x)"
    using receive_fetch [OF assms(1-3), of e ?ck] by blast
  have ne: "?r \<noteq> []" by (simp add: fetch_text_def request_text_def)
  have u: "unhurried x" using r(3-5) by (simp add: unhurried_def)
  have "readable e t c n = (Return ((touch ?ck c)\<lparr>nc := x\<rparr>, []), looked_at jid j n)"
    using c t ne r(1) by (simp add: readable_def Let_def seq_def ev_recv_def with_conn_def touch_def ret_def)
  moreover have "carrying (jobs(nc_sock c := (i, bytes, file_headers ?ck path (length bytes) ''OK'' [] c'))) (looked_at jid j n)
      ((touch ?ck c)\<lparr>nc := x\<rparr>)"
    using c r(2) u by (auto simp: carrying_def carries_def touch_def)
  ultimately show ?thesis by (intro exI conjI) (assumption | simp add: touch_def)+
qed

text \<open>Two downloads of the same file, one just started and one that is almost done.\<close>

definition ex_jobs :: "nat \<Rightarrow> job" where "ex_jobs s = (0, ex_bytes, if s = 6 then ''A'' else ''B'')"

definition ex_started_download :: ns_connection where
  "ex_started_download = ex_accepted\<lparr>nc := new_connection\<lparr>endpoint_type := EP_FILE, endpoint := (0, 0),
     cl := int (length ex_bytes), send_iobuf := ''A''\<rparr>\<rparr>"

definition ex_late_download :: ns_connection where
  "ex_late_download = ex_accepted\<lparr>nc_sock := 7, nc := new_connection\<lparr>finished_sending := True,
     wire := ''B'' @ take 9 ex_bytes, send_iobuf := drop 9 ex_bytes\<rparr>\<rparr>"

definition ex_busy_turn :: turn where
  "ex_busy_turn = ex_turn\<lparr>selected := Some ([5], [6, 7]), outgoing := (\<lambda>_. Count 3)\<rparr>"

theorem downloads_do_not_mix_witness:
  "\<exists>k cs' gone. ns_mgr_poll no_env ex_busy_turn [ex_started_download, ex_late_download, ex_listener] ex_node
      = (Return (k, cs', gone), ex_node) \<and>
    list_all (carrying ex_jobs ex_node) cs' \<and> list_all (ended ex_jobs ex_busy_turn) gone \<and>
    list_all (\<lambda>c. \<exists>c' \<in> set cs' \<union> set gone. advanced ex_jobs ex_busy_turn c c')
      [ex_started_download, ex_late_download, ex_listener]"
proof (rule downloads_do_not_mix)
  have d: "data (n_fs ex_node) 0 = ex_bytes" "faults (n_fs ex_node) = []"
    by (simp_all add: ex_node_def mk_JournalNode_def Let_def ex_fs_def)
  have f: "nc_sock ex_accepted = 6" "\<not> nc_listening ex_accepted" "\<not> nc_udp ex_accepted"
    using ex_accepted_fields by blast+
  have "delivering 0 ex_bytes ''A'' 0 (ex_node, nc ex_started_download)"
    by (simp add: delivering_def d ex_started_download_def)
  moreover have "delivering 0 ex_bytes ''B'' (length ex_bytes) (ex_node, nc ex_late_download)"
    by (simp add: delivering_def d ex_late_download_def)
  ultimately have "carries (ex_jobs 6) ex_node (nc ex_started_download)" "carries (ex_jobs 7) ex_node (nc ex_late_download)"
    by (auto simp: carries_def ex_jobs_def)
  moreover have "unhurried (nc ex_started_download)" "unhurried (nc ex_late_download)"
    by (simp_all add: unhurried_def ex_started_download_def ex_late_download_def)
  moreover have "carrying ex_jobs ex_node ex_listener"
    by (simp add: carrying_def ex_listener_def ns_add_sock_def)
  moreover have "nc_sock ex_started_download = 6" "nc_sock ex_late_download = 7" "\<not> nc_listening ex_started_download"
    "\<not> nc_listening ex_late_download" "\<not> nc_udp ex_started_download" "\<not> nc_udp ex_late_download"
    by (simp_all add: ex_started_download_def ex_late_download_def f)
  ultimately show "list_all (carrying ex_jobs ex_node) [ex_started_download, ex_late_download, ex_listener]"
    by (simp add: carrying_def)
  show "silent ex_busy_turn" by (simp add: silent_def ex_busy_turn_def ex_turn_def)
qed

end
