(* ===== verification/Logging.thy ===== *)
theory Logging
  imports Cstring Prelude
begin

text \<open>
  \<^verbatim>\<open>util/Logger.h\<close> and \<^verbatim>\<open>util/Logger.cpp\<close>: the global log. A message is formatted with \<^verbatim>\<open>vfprintf\<close>, of which
  the directives that the program uses are modelled, and goes to a buffered stream.
\<close>

section \<open>Formatting\<close>

text \<open>What is passed behind the format: the address of a string (\<open>None\<close> is NULL), or a number.\<close>

datatype arg = Str "string option" | Num int

text \<open>
  \<^verbatim>\<open>%s\<close> and \<^verbatim>\<open>%d\<close>. A NULL string is printed as the C library does. \<open>None\<close> is undefined behaviour: a number
  where an address is expected, or fewer arguments than directives. \<^verbatim>\<open>%d\<close> takes 32 bits of what is passed.
  Arguments that are left over are ignored.
\<close>

fun vfprintf :: "string \<Rightarrow> arg list \<Rightarrow> string option" where
  "vfprintf [] args = Some []"
| "vfprintf (c # fmt) args =
     (if c \<noteq> CHR ''%'' then map_option ((#) c) (vfprintf fmt args)
      else if take 1 fmt = ''%'' then map_option ((#) CHR ''%'') (vfprintf (drop 1 fmt) args)
      else (case args of [] \<Rightarrow> None
        | a # args' \<Rightarrow>
            if take 1 fmt = ''s''
            then (case a of Num n \<Rightarrow> None
              | Str s \<Rightarrow> map_option ((@) (case s of Some t \<Rightarrow> t | None \<Rightarrow> ''(null)'')) (vfprintf (drop 1 fmt) args'))
            else if take 1 fmt = ''d''
            then (case a of Num n \<Rightarrow> map_option ((@) (show_int (s32 n))) (vfprintf (drop 1 fmt) args') | Str s \<Rightarrow> None)
            else None))"

section \<open>The log\<close>

datatype LogLevel = LOG_DEBUG | LOG_INFO | LOG_WARN | LOG_ERROR

definition level_int :: "LogLevel \<Rightarrow> nat" where
  "level_int l = (case l of LOG_DEBUG \<Rightarrow> 0 | LOG_INFO \<Rightarrow> 1 | LOG_WARN \<Rightarrow> 2 | LOG_ERROR \<Rightarrow> 3)"

text \<open>\<^verbatim>\<open>mFstrm\<close> is what the stream has passed on and what it still holds.\<close>

record logger =
  mFstrm_out :: string
  mFstrm_held :: string
  mLevel :: LogLevel
  mBufMsgCountMax :: int
  mCurBufMsgCount :: int

definition mk_Logger :: logger where
  "mk_Logger = \<lparr>mFstrm_out = [], mFstrm_held = [], mLevel = LOG_DEBUG, mBufMsgCountMax = 10, mCurBufMsgCount = 0\<rparr>"

definition setLogLevel :: "LogLevel \<Rightarrow> (logger, unit) prog" where
  "setLogLevel l = modify (\<lambda>g. g\<lparr>mLevel := l\<rparr>)"

text \<open>The fields of \<^verbatim>\<open>struct tm\<close> and \<^verbatim>\<open>tv_usec\<close>.\<close>

record local_time =
  tm_year :: int
  tm_mon :: int
  tm_mday :: int
  tm_hour :: int
  tm_min :: int
  tm_sec :: int
  tv_usec :: int

text \<open>\<open>None\<close> is a \<^verbatim>\<open>gettimeofday\<close> that fails.\<close>

definition getCurrentTime :: "local_time option \<Rightarrow> string" where
  "getCurrentTime t = (case t of None \<Rightarrow> []
    | Some tm \<Rightarrow> show_int (tm_year tm + 1900) @ ''-'' @ show_int (tm_mon tm + 1) @ ''-'' @ show_int (tm_mday tm) @ ''-'' @
        show_int (tm_hour tm) @ '':'' @ show_int (tm_min tm) @ '':'' @ show_int (tm_sec tm) @ '':'' @ show_int (tv_usec tm) @
        [CHR 0x09])"

definition level_name :: "LogLevel \<Rightarrow> string" where
  "level_name l = (case l of LOG_DEBUG \<Rightarrow> ''DEBUG:'' | LOG_INFO \<Rightarrow> ''INFO:'' | LOG_WARN \<Rightarrow> ''WARN:'' | LOG_ERROR \<Rightarrow> ''ERROR:'')"

definition logger_write :: "local_time option \<Rightarrow> LogLevel \<Rightarrow> string \<Rightarrow> arg list \<Rightarrow> (logger, unit) prog" where
  "logger_write t level strFormat args = seq (gets mLevel) (\<lambda>m.
     if level_int level < level_int m then ret ()
     else (let formatString = getCurrentTime t @ level_name level @ strFormat in
       (case vfprintf formatString args of
          None \<Rightarrow> halt Undefined
        | Some text \<Rightarrow> seq (modify (\<lambda>g. g\<lparr>mFstrm_held := mFstrm_held g @ text @ [newline],
              mCurBufMsgCount := u64 (mCurBufMsgCount g + 1)\<rparr>)) (\<lambda>_.
            modify (\<lambda>g. if level = LOG_ERROR \<or> level = LOG_WARN \<or> level = LOG_INFO \<or> level = LOG_DEBUG \<or>
                mBufMsgCountMax g < mCurBufMsgCount g
              then g\<lparr>mFstrm_out := mFstrm_out g @ mFstrm_held g, mFstrm_held := [], mCurBufMsgCount := 0\<rparr>
              else g)))))"

definition log_debug :: "local_time option \<Rightarrow> string \<Rightarrow> arg list \<Rightarrow> (logger, unit) prog" where
  "log_debug t = logger_write t LOG_DEBUG"

definition log_info :: "local_time option \<Rightarrow> string \<Rightarrow> arg list \<Rightarrow> (logger, unit) prog" where
  "log_info t = logger_write t LOG_INFO"

definition log_warn :: "local_time option \<Rightarrow> string \<Rightarrow> arg list \<Rightarrow> (logger, unit) prog" where
  "log_warn t = logger_write t LOG_WARN"

definition log_error :: "local_time option \<Rightarrow> string \<Rightarrow> arg list \<Rightarrow> (logger, unit) prog" where
  "log_error t = logger_write t LOG_ERROR"

section \<open>What is in the log\<close>

text \<open>The line of a message, when its arguments fit its format.\<close>

definition fits :: "string \<Rightarrow> arg list \<Rightarrow> bool" where
  "fits fmt args \<longleftrightarrow> vfprintf fmt args \<noteq> None"

definition log_line :: "local_time option \<Rightarrow> LogLevel \<Rightarrow> string \<Rightarrow> arg list \<Rightarrow> string" where
  "log_line t level fmt args = getCurrentTime t @ level_name level @ (case vfprintf fmt args of Some s \<Rightarrow> s | None \<Rightarrow> []) @ [newline]"

lemma vfprintf_plain: "CHR ''%'' \<notin> set p \<Longrightarrow> vfprintf (p @ fmt) args = map_option ((@) p) (vfprintf fmt args)"
  by (induction p; cases "vfprintf fmt args") auto

lemma show_int_no_percent: "CHR ''%'' \<notin> set (show_int i)"
  using show_nat_digits [of "nat i"] show_nat_digits [of "nat (- i)"]
  by (auto simp: show_int_def is_digit_def code_def)

lemma prefix_no_percent: "CHR ''%'' \<notin> set (getCurrentTime t @ level_name l)"
  by (auto simp: getCurrentTime_def level_name_def show_int_no_percent split: option.splits LogLevel.splits)

lemma vfprintf_line:
  "vfprintf (getCurrentTime t @ level_name l @ fmt) args = map_option ((@) (getCurrentTime t @ level_name l)) (vfprintf fmt args)"
  using vfprintf_plain [OF prefix_no_percent, of t l fmt args] by simp

lemma logger_write_run:
  assumes "fits fmt args"
  shows "logger_write t l fmt args g = (Return (), if level_int l < level_int (mLevel g) then g
    else g\<lparr>mFstrm_out := mFstrm_out g @ mFstrm_held g @ log_line t l fmt args, mFstrm_held := [], mCurBufMsgCount := 0\<rparr>)"
proof -
  obtain s where s: "vfprintf fmt args = Some s" using assms by (auto simp: fits_def)
  show ?thesis
    by (cases l) (simp_all add: logger_write_def prog_simps vfprintf_line s log_line_def)
qed

type_synonym message = "local_time option \<times> LogLevel \<times> string \<times> arg list"

fun log_all :: "message list \<Rightarrow> (logger, unit) prog" where
  "log_all [] = ret ()"
| "log_all ((t, l, fmt, args) # ms) = seq (logger_write t l fmt args) (\<lambda>_. log_all ms)"

text \<open>The lines of the messages that are not below a level, in their order.\<close>

fun recorded :: "LogLevel \<Rightarrow> message list \<Rightarrow> string" where
  "recorded m [] = []"
| "recorded m ((t, l, fmt, args) # ms) =
     (if level_int m \<le> level_int l then log_line t l fmt args else []) @ recorded m ms"

text \<open>
  The log holds, in order, one line for each message that is not below the level, and nothing of it is held back
  in the stream: every message is flushed before the call returns, so the message count that is to
  save the flushing never gets beyond 0.
\<close>

lemma log_is_complete_and_flushed:
  assumes "list_all (\<lambda>(t, l, fmt, args). fits fmt args) ms" "mFstrm_held g = []" "mCurBufMsgCount g = 0"
  shows "log_all ms g = (Return (), g\<lparr>mFstrm_out := mFstrm_out g @
    recorded (mLevel g) ms\<rparr>)"
  using assms
proof (induction ms arbitrary: g)
  case Nil
  then show ?case by (simp add: prog_simps)
next
  case (Cons m ms)
  obtain t l fmt args where m: "m = (t, l, fmt, args)" by (cases m)
  define g1 where "g1 = (if level_int l < level_int (mLevel g) then g
    else g\<lparr>mFstrm_out := mFstrm_out g @ mFstrm_held g @ log_line t l fmt args, mFstrm_held := [], mCurBufMsgCount := 0\<rparr>)"
  have "mFstrm_held g1 = []" "mCurBufMsgCount g1 = 0" using Cons.prems by (simp_all add: g1_def)
  with Cons.prems(1) have "log_all ms g1 = (Return (), g1\<lparr>mFstrm_out := mFstrm_out g1 @ recorded (mLevel g1) ms\<rparr>)"
    by (intro Cons.IH) simp_all
  moreover have "log_all (m # ms) g = log_all ms g1"
    using Cons.prems(1) logger_write_run [of fmt args t l g] by (simp add: m seq_def g1_def)
  ultimately show ?case using Cons.prems(2,3)
    by (cases "level_int l < level_int (mLevel g)") (simp_all add: m g1_def)
qed

lemma log_example:
  "log_all [(None, LOG_DEBUG, ''quiet'', []), (None, LOG_WARN, ''epoch %d of %s'', [Num 7, Str (Some ''j'')])] (mk_Logger\<lparr>mLevel := LOG_INFO\<rparr>)
    = (Return (), mk_Logger\<lparr>mLevel := LOG_INFO, mFstrm_out := ''WARN:epoch 7 of j'' @ [newline]\<rparr>)"
proof -
  let ?ms = "[(None, LOG_DEBUG, ''quiet'', []), (None, LOG_WARN, ''epoch %d of %s'', [Num 7, Str (Some ''j'')])]"
  let ?g = "mk_Logger\<lparr>mLevel := LOG_INFO\<rparr>"
  have "list_all (\<lambda>(t, l, fmt, args). fits fmt args) ?ms" by code_simp
  moreover have "mFstrm_held ?g = []" "mCurBufMsgCount ?g = 0" by code_simp+
  moreover have out: "mFstrm_out ?g @ recorded (mLevel ?g) ?ms = ''WARN:epoch 7 of j'' @ [newline]" by code_simp
  ultimately show ?thesis using log_is_complete_and_flushed [of ?ms ?g] unfolding out by blast
qed

text \<open>
  The message for a serial number that is too low. \<^verbatim>\<open>checkRequest\<close> passes a number for \<^verbatim>\<open>%s\<close>, at any level that
  lets errors through, and no other level exists.
\<close>

definition serial_message :: string where
  "serial_message = ''IPC serial %s from client was not higher than prior highest IPC serial %d''"

lemma old_serial_is_logged_badly: "log_error t serial_message [Num serial, Num prior] g = (Stop Undefined, g)"
proof -
  have "vfprintf serial_message [Num serial, Num prior] = None" by (simp add: serial_message_def)
  moreover have "\<not> level_int LOG_ERROR < level_int (mLevel g)" by (cases "mLevel g") (simp_all add: level_int_def)
  ultimately show ?thesis by (simp add: log_error_def logger_write_def prog_simps vfprintf_line)
qed

text \<open>Transaction ids have 64 bits; the messages print 32 of them.\<close>

lemma large_ids_are_cut: "vfprintf ''txid %d'' [Num (2 ^ 32 + 5)] = Some ''txid 5''"
  by code_simp

end
