(* ===== verification/Ice_Client.thy ===== *)
theory Ice_Client
  imports Cstring
begin

text \<open>
  The two small parts around the Ice runtime: \<^verbatim>\<open>ice-qjournal-protocol/src/StreamProtobuf.h\<close>, which writes a
  protobuf message into an Ice stream and reads it back, and the menu of
  \<^verbatim>\<open>ice-qjournal-protocol/Client.cpp\<close>. The message classes and the stream are parameters.
\<close>

section \<open>Messages in a stream\<close>

text \<open>
  What \<^verbatim>\<open>google::protobuf::MessageLite\<close> provides, and \<^verbatim>\<open>sequence<byte>\<close> in the stream: how it is written, and how
  one is read from the front of what is left (\<open>None\<close>: the stream throws).
\<close>

record 'm message_lite =
  IsInitialized :: "'m \<Rightarrow> bool"
  InitializationErrorString :: "'m \<Rightarrow> string"
  ByteSize :: "'m \<Rightarrow> nat"
  SerializeToArray :: "'m \<Rightarrow> string"
  ParseFromArray :: "string \<Rightarrow> 'm option"

record ice_stream =
  write_bytes :: "string \<Rightarrow> string"
  read_bytes :: "string \<Rightarrow> (string \<times> string) option"

datatype 'a marshalled = Thrown string | Overrun | Marshalled 'a

text \<open>\<open>Overrun\<close>: more is written than the array has room for.\<close>

definition stream_write :: "'m message_lite \<Rightarrow> ice_stream \<Rightarrow> 'm \<Rightarrow> string \<Rightarrow> string marshalled" where
  "stream_write pb ice v stream = (let sz = ByteSize pb v in
     if \<not> IsInitialized pb v then Thrown (''message not fully initialized: '' @ InitializationErrorString pb v)
     else (let bytes = SerializeToArray pb v in
       if sz < length bytes then Overrun
       else if length bytes \<noteq> sz then Thrown ''message modified during marshaling''
       else Marshalled (stream @ write_bytes ice bytes)))"

definition stream_read :: "'m message_lite \<Rightarrow> ice_stream \<Rightarrow> string \<Rightarrow> ('m \<times> string) marshalled" where
  "stream_read pb ice stream = (case read_bytes ice stream of
      None \<Rightarrow> Thrown []
    | Some (bytes, rest) \<Rightarrow> (case ParseFromArray pb bytes of
        None \<Rightarrow> Thrown ''ParseFromArray failed''
      | Some v \<Rightarrow> Marshalled (v, rest)))"

fun write_all :: "'m message_lite \<Rightarrow> ice_stream \<Rightarrow> 'm list \<Rightarrow> string \<Rightarrow> string marshalled" where
  "write_all pb ice [] stream = Marshalled stream"
| "write_all pb ice (v # vs) stream = (case stream_write pb ice v stream of
      Marshalled stream' \<Rightarrow> write_all pb ice vs stream' | Thrown t \<Rightarrow> Thrown t | Overrun \<Rightarrow> Overrun)"

fun read_all :: "'m message_lite \<Rightarrow> ice_stream \<Rightarrow> nat \<Rightarrow> string \<Rightarrow> ('m list \<times> string) marshalled" where
  "read_all pb ice 0 stream = Marshalled ([], stream)"
| "read_all pb ice (Suc k) stream = (case stream_read pb ice stream of
      Marshalled (v, rest) \<Rightarrow> (case read_all pb ice k rest of
          Marshalled (vs, rest') \<Rightarrow> Marshalled (v # vs, rest') | Thrown t \<Rightarrow> Thrown t | Overrun \<Rightarrow> Overrun)
    | Thrown t \<Rightarrow> Thrown t | Overrun \<Rightarrow> Overrun)"

text \<open>
  C40. Messages that are written into a stream one behind the other are read back in the same order, with what stands behind
  them left in the stream. The laws are those of the two libraries: a sequence of bytes is read back from the front
  of a stream, a message is parsed back from its own bytes, and its size is their number.
\<close>

theorem messages_read_back:
  assumes "\<And>b rest. read_bytes ice (write_bytes ice b @ rest) = Some (b, rest)"
    and "\<And>v. v \<in> set vs \<Longrightarrow> IsInitialized pb v \<and> ParseFromArray pb (SerializeToArray pb v) = Some v \<and>
      ByteSize pb v = length (SerializeToArray pb v)"
  shows "\<exists>bytes. write_all pb ice vs stream = Marshalled (stream @ bytes) \<and>
    read_all pb ice (length vs) (bytes @ rest) = Marshalled (vs, rest)"
  using assms(2)
proof (induction vs arbitrary: stream)
  case Nil
  then show ?case by simp
next
  case (Cons v vs)
  let ?b = "write_bytes ice (SerializeToArray pb v)"
  from Cons.IH [of "stream @ ?b"] Cons.prems obtain bytes where
    "write_all pb ice vs ((stream @ ?b)) = Marshalled ((stream @ ?b) @ bytes)"
    "read_all pb ice (length vs) (bytes @ rest) = Marshalled (vs, rest)" by auto
  then show ?case
    using Cons.prems [of v] by (intro exI [of _ "?b @ bytes"]) (simp add: stream_write_def stream_read_def assms(1))
qed

definition ex_ice :: ice_stream where
  "ex_ice = \<lparr>write_bytes = (\<lambda>b. map (\<lambda>_. CHR ''1'') b @ CHR ''0'' # b),
     read_bytes = (\<lambda>s. let n = length (takeWhile (\<lambda>c. c = CHR ''1'') s) in
       if n < length s \<and> n \<le> length (drop (Suc n) s) then Some (take n (drop (Suc n) s), drop n (drop (Suc n) s)) else None)\<rparr>"

definition ex_pb :: "nat message_lite" where
  "ex_pb = \<lparr>IsInitialized = (\<lambda>_. True), InitializationErrorString = (\<lambda>_. []), ByteSize = (\<lambda>v. v),
     SerializeToArray = (\<lambda>v. replicate v CHR ''x''), ParseFromArray = (\<lambda>b. Some (length b))\<rparr>"

theorem messages_read_back_witness:
  "\<exists>bytes. write_all ex_pb ex_ice [2, 0, 3] ''s'' = Marshalled (''s'' @ bytes) \<and>
    read_all ex_pb ex_ice (length [2 :: nat, 0, 3]) (bytes @ ''rest'') = Marshalled ([2, 0, 3], ''rest'')"
proof (rule messages_read_back)
  fix b rest
  have "takeWhile (\<lambda>c. c = CHR ''1'') (map (\<lambda>_. CHR ''1'') b @ CHR ''0'' # (b @ rest)) = map (\<lambda>_. CHR ''1'') b" for b rest
    by (rule takeWhile_prefix) (simp_all add: list_all_iff)
  then show "read_bytes ex_ice (write_bytes ex_ice b @ rest) = Some (b, rest)"
    by (simp add: ex_ice_def Let_def)
qed (auto simp: ex_pb_def)

section \<open>The menu\<close>

text \<open>The answer of the server, or the text of the exception; what the client prints, and where.\<close>

datatype answer = Raised string | JournalState int string int

datatype printed = Out string | Err string

definition menu :: printed where
  "menu = Out (''usage:'' @ [newline] @ ''f: is formatted'' @ [newline] @ ''s: get jorunal state'' @ [newline] @ ''?: help'' @ [newline])"

definition shown :: "answer \<Rightarrow> printed list" where
  "shown a = (case a of
      JournalState epoch url http_port \<Rightarrow> [Out (''lastpromisedepoch : '' @ show_int epoch @ [newline]),
        Out (''fromurl : '' @ url @ [newline]), Out (''httpport : '' @ show_int http_port @ [newline])]
    | Raised t \<Rightarrow> [Err (t @ [newline])])"

text \<open>The body of the loop for a command; \<open>k\<close> counts the calls of the server.\<close>

definition command :: "(nat \<Rightarrow> answer) \<Rightarrow> nat \<Rightarrow> char \<Rightarrow> printed list \<times> nat" where
  "command srv k c = (if c = CHR ''f'' then ([], k)
     else if c = CHR ''s'' then (shown (srv k), Suc k)
     else if c = CHR ''?'' then ([menu], k)
     else ([Out (''unknown command `'' @ [c] @ [CHR 0x27, newline]), menu], k))"

text \<open>
  \<^verbatim>\<open>cin >> c\<close> skips white space. At the end of the input it fails, leaves \<open>c\<close> as it was and \<^verbatim>\<open>good()\<close> false, but the
  body runs all the same. \<open>None\<close> in front of the first command is a variable that is not initialized; the
  result is then undefined.
\<close>

function client_loop :: "(nat \<Rightarrow> answer) \<Rightarrow> nat \<Rightarrow> char option \<Rightarrow> string \<Rightarrow> printed list option" where
  "client_loop srv k c input = (case dropWhile is_space input of
      [] \<Rightarrow> (case c of None \<Rightarrow> None | Some d \<Rightarrow> Some (Out ''==> '' # fst (command srv k d)))
    | d # rest \<Rightarrow> (case command srv k d of (out, k') \<Rightarrow>
        if d = CHR ''x'' then Some (Out ''==> '' # out)
        else map_option (\<lambda>more. Out ''==> '' # out @ more) (client_loop srv k' (Some d) rest)))"
  by pat_completeness auto
termination
proof (relation "measure (\<lambda>(srv, k, c, input). length input)", goal_cases)
  case (2 srv k c input d rest)
  then show ?case using length_dropWhile_le [of is_space input] by simp
qed simp

declare client_loop.simps [simp del]

definition client_run :: "(nat \<Rightarrow> answer) \<Rightarrow> string \<Rightarrow> nat \<Rightarrow> bool \<Rightarrow> string \<Rightarrow> (int \<times> printed list) option" where
  "client_run srv appName argc proxy_ok input =
     (if 1 < argc then Some (1, [Err (appName @ '': too many arguments'' @ [newline])])
      else if \<not> proxy_ok then Some (1, [Err (appName @ '': invalid proxy'' @ [newline])])
      else map_option (\<lambda>out. (0, menu # out)) (client_loop srv 0 None input))"

lemma client_loop_end: "client_loop srv k c [] = map_option (\<lambda>d. Out ''==> '' # fst (command srv k d)) c"
  by (subst client_loop.simps) (simp split: option.split)

lemma client_loop_space: "is_space d \<Longrightarrow> client_loop srv k c (d # rest) = client_loop srv k c rest"
  by (subst (1 2) client_loop.simps) simp

lemma client_loop_command: "\<not> is_space d \<Longrightarrow> client_loop srv k c (d # rest) =
    (if d = CHR ''x'' then Some (Out ''==> '' # fst (command srv k d))
     else map_option (\<lambda>more. Out ''==> '' # fst (command srv k d) @ more) (client_loop srv (snd (command srv k d)) (Some d) rest))"
  by (subst client_loop.simps) (simp add: case_prod_unfold)

lemmas client_loop_steps = client_loop_end client_loop_space client_loop_command

lemma client_loop_started: "\<exists>out. client_loop srv k (Some c) input = Some out"
proof (induction input arbitrary: k c)
  case (Cons d rest)
  then show ?case by (cases "is_space d") (auto simp: client_loop_steps)
qed (simp add: client_loop_steps)

text \<open>The client comes to its end on every input with a command in it, and on no other is its behaviour defined.\<close>

lemma client_run_defined: "client_run srv app 1 True input \<noteq> None \<longleftrightarrow> list_ex (\<lambda>c. \<not> is_space c) input"
proof -
  have "client_loop srv 0 None input \<noteq> None \<longleftrightarrow> list_ex (\<lambda>c. \<not> is_space c) input"
  proof (induction input)
    case (Cons d rest)
    then show ?case using client_loop_started by (cases "is_space d") (auto simp: client_loop_steps)
  qed (simp add: client_loop_steps)
  then show ?thesis by (simp add: client_run_def)
qed

text \<open>At the end of the input the last command is carried out once more.\<close>

lemma last_command_runs_twice:
  "client_run srv app 1 True (''s'' @ [newline]) =
    Some (0, menu # Out ''==> '' # shown (srv 0) @ Out ''==> '' # shown (srv 1))"
  by (simp add: client_run_def client_loop_steps command_def is_space_def newline_def code_def)

text \<open>The command that ends the loop is not known to it.\<close>

lemma exit_is_unknown:
  "client_run srv app 1 True ''x'' = Some (0, [menu, Out ''==> '', Out (''unknown command `x'' @ [CHR 0x27, newline]), menu])"
  by (simp add: client_run_def client_loop_steps command_def is_space_def newline_def code_def)

end
