(* ===== verification/Protocol.thy ===== *)
theory Protocol
  imports Journal_Node Examples
begin



section \<open>Requests against a node\<close>
















end
