(* ===== verification/Node_Start.thy ===== *)
theory Node_Start
  imports Protocol Event_Loop
begin

text \<open>
  The process of the journal node from \<^verbatim>\<open>main\<close> to its exit: \<^verbatim>\<open>JournalNode::start\<close>, which makes the directory and
  starts the two servers, \<^verbatim>\<open>JournalNodeRpcServer::start\<close>, and \<^verbatim>\<open>icerpc::Server\<close>, which writes a file for the
  Ice runtime, serves requests until it is told to stop, and ends the process. The thread of the
  HTTP server runs beside it (theory \<open>Event_Loop\<close>).
\<close>

section \<open>The process\<close>






section \<open>icerpc::Server\<close>




section \<open>JournalNode::start and main\<close>





section \<open>What a failed start leaves behind\<close>




















section \<open>The port of the HTTP server\<close>







end
