(* ===== verification/Spec2Isabelle.thy ===== *)
theory Spec2Isabelle
  imports Acceptance Cell_Safety Formatting Http_Download Formats Number_Files Http_Websocket
    Http_Access Http_Documents Http_Gateway Loop_Download Logging Ice_Client Node_Start
begin

text \<open>
  A model of the journal node of this repository, a C++ port of the quorum journal service of
  HDFS, with proofs of what it promises to its writers.

  \<^bold>\<open>The program.\<close> A writer (the name node of HDFS) sends its edits to several journal nodes.
  Each node keeps a directory per journal with the segments of the log and three small
  files: the highest epoch it has promised to, the epoch of the last writer, and the last
  committed transaction id. \<^verbatim>\<open>icerpc::Server\<close> receives requests, the translator
  (\<^verbatim>\<open>ice-qjournal-protocol/\<close>) unpacks them, \<^verbatim>\<open>JournalNodeRpcServer\<close> finds the \<^verbatim>\<open>Journal\<close> in the
  registry of \<^verbatim>\<open>JournalNode\<close> and calls its method. \<^verbatim>\<open>Journal\<close> checks the credentials of the request
  against the files (\<^verbatim>\<open>PersistentLongFile\<close>, \<^verbatim>\<open>BestEffortLongFile\<close>) and writes, finalizes or
  recovers segments through \<^verbatim>\<open>FileJournalManager\<close>, \<^verbatim>\<open>JNStorage\<close> and the two stream classes. The
  HTTP server (\<^verbatim>\<open>util/mongoose.c\<close> and \<^verbatim>\<open>JournalNodeHttpServer\<close>) hands segments to other nodes.

  \<^bold>\<open>The model.\<close> A method is a program (\<open>prog\<close>, theory \<open>Prelude\<close>): a function from the state of
  its object to a result and the state it leaves. \<open>Return\<close>, \<open>Error\<close> and \<open>Stop\<close> are a return of
  0, a return of -1, and the end of the process. The file system (theory \<open>Filesystem\<close>) maps
  names to inodes and inodes to bytes, and carries a list of faults: each system call takes
  the next one and succeeds, fails after part of its effect, or ends the process after part
  of its effect. So every theorem over all states covers every failure and crash.

  \<^item> \<open>Prelude\<close>, \<open>Cstring\<close>: programs, their rules, and the C library's numbers and lines.
  \<^item> \<open>Filesystem\<close>, \<open>Names\<close>: \<^verbatim>\<open>util/JNServiceMiscUtils.cpp\<close> over the file system, the names of
    segments, \<^verbatim>\<open>util/Constants.h\<close>, \<^verbatim>\<open>util/JournalNodeConfigKeys.h\<close>.
  \<^item> \<open>Long_Files\<close>: \<^verbatim>\<open>util/PersistentLongFile.h\<close>, \<^verbatim>\<open>util/BestEffortLongFile.h\<close>, with the interface
    \<open>long_cell\<close> that both implement.
  \<^item> \<open>Storage\<close>: \<^verbatim>\<open>util/StorageInfo.h\<close>, \<^verbatim>\<open>util/NamespaceInfo.h\<close>, \<^verbatim>\<open>util/RequestInfo.h\<close>,
    \<^verbatim>\<open>src/JNStorage.cpp\<close>.
  \<^item> \<open>Edit_Stream\<close>: \<^verbatim>\<open>src/JNClientOutputStream.cpp\<close>, \<^verbatim>\<open>src/JNClientInputStream.cpp\<close>,
    \<^verbatim>\<open>src/TestJNClientOutputStream.cpp\<close>, with the round trip of encoder and scanner.
  \<^item> \<open>Edit_Logs\<close>: \<^verbatim>\<open>src/EditLogFile.cpp\<close>, \<^verbatim>\<open>src/FileJournalManager.cpp\<close>.
  \<^item> \<open>Journal\<close>: \<^verbatim>\<open>src/Journal.cpp\<close>, every method.
  \<^item> \<open>Journal_Node\<close>, \<open>Protocol\<close>, \<open>Node_Start\<close>: \<^verbatim>\<open>src/JournalNode.cpp\<close>, \<^verbatim>\<open>src/JournalNodeRpcServer.cpp\<close>,
    \<^verbatim>\<open>src/JournalNodeHttpServer.cpp\<close>, \<^verbatim>\<open>src/QjournalProtocol.h\<close>, the translator, \<^verbatim>\<open>ice-rpc-cc/src/Server.cc\<close>, and the
    process from \<^verbatim>\<open>main\<close> to its exit status.
  \<^item> \<open>Logging\<close>: \<^verbatim>\<open>util/Logger.cpp\<close>. \<open>Ice_Client\<close>: \<^verbatim>\<open>ice-qjournal-protocol/src/StreamProtobuf.h\<close> and the menu of
    \<^verbatim>\<open>ice-qjournal-protocol/Client.cpp\<close>.
  \<^item> \<open>Quiet_Files\<close>, \<open>Journal_Order\<close>, \<open>Journal_Steps\<close>, \<open>Journal_Disk\<close>, \<open>Journal_Fence\<close>,
    \<open>Journal_Life\<close>: which files each operation can touch; the locale \<open>journal_order\<close>, which turns a
    few facts about the cells and the disk into a fact about every request, and its
    interpretations (the promise only goes up, finalized segments are left alone, the fence on
    disk); and the life of a journal, an inductive relation over requests, crashes and restarts.
  \<^item> \<open>Fencing\<close>: the properties of fencing. \<open>Journal_Cells\<close>, \<open>Segments\<close>, \<open>Writing\<close>: the invariant
    of the three small files and the refinement of a segment to a list of transactions.
    \<open>Durability\<close>: finalized segments are never lost. \<open>Recovery\<close>, \<open>Acceptance\<close>, \<open>Manifest\<close>: what a new
    epoch and a recovery report, that a segment is accepted in one step at every crash point, and the
    list of segments. \<open>Formatting\<close>, \<open>Cell_Safety\<close>: a journal that was formatted opens, and an open one
    never meets a null cell. \<open>Formats\<close>, \<open>Number_Files\<close>: what is written is read back, and what is not.
  \<^item> \<open>Examples\<close>: a formatted journal through one segment, evaluated; the witnesses use it.

  \<^bold>\<open>The web server.\<close> \<^verbatim>\<open>util/mongoose.c\<close> in layers, from the bytes up:

  \<^item> \<open>Net_Address\<close>, \<open>Event_Loop\<close>: socket addresses; the list of connections and one turn of \<^verbatim>\<open>ns_mgr_poll\<close>
    over it, with accepting, idle time-outs, pings, closing, and the thread that turns it.
  \<^item> \<open>Query_Vars\<close>, \<open>Http_Message\<close>, \<open>Http_Tables\<close>, \<open>Http_Dates\<close>, \<open>Http_Parts\<close>: the variables of a request, its
    parser, the tables, dates and ranges, values in headers and multipart bodies. \<open>Http_Facts\<close>: what
    is printed is parsed; a cleaned path cannot climb.
  \<^item> \<open>Http_Digest\<close>, \<open>Digest_Spec\<close>: SHA-1 and MD5 as the code has them, the standards, and that they agree.
    \<open>Http_Auth\<close>: digest authentication on top of them. \<open>Http_Access\<close>: the access list and the options.
  \<^item> \<open>Http_Frames\<close>, \<open>Http_Websocket\<close>: websockets, their formats and their loop over the buffer.
  \<^item> \<open>Http_Server\<close>: one connection, from the bytes that arrive to the bytes that leave, with the handler
    of \<^verbatim>\<open>src/JournalNodeHttpServer.cpp\<close> behind it and the default options. Where those lead to a part
    that the node has turned off, \<open>c_elsewhere\<close> records it. \<open>Http_Download\<close>, \<open>Loop_Download\<close>: a download is exact and
    complete, alone and among others under the event loop.
  \<^item> \<open>Http_Pages\<close>, \<open>Http_Files\<close>, \<open>Http_Documents\<close>: what the same server does with a document root, which the
    node does not set, for any options: templates, included pages, listings and WebDAV; only an admitted
    DAV request changes a file, and PUT stores the body.
  \<^item> \<open>Http_Gateway\<close>: CGI, the proxy, replies to requests of the program, the access log and the traffic
    dump, with the system's part (starting a program, connecting) as arguments.

  \<^bold>\<open>Bounds.\<close> \<^verbatim>\<open>long\<close> and \<^verbatim>\<open>int\<close> are integers with the conversions \<open>s64\<close>, \<open>u64\<close>, \<open>s32\<close>, \<open>u32\<close> where the
  code converts; hashes, addresses and frames use words. The scan loop may run forever and is a partial
  function; \<open>replace_loop\<close> has the five attempts of the code. \<^verbatim>\<open>on_recv_data\<close> and \<^verbatim>\<open>close_local_endpoint\<close> call each
  other; \<open>on_recv_data\<close> runs two turns, and theory \<open>Http_Download\<close> shows that more change nothing.
  Included pages have the eleven levels of the code; \<open>remove_directory\<close> has as many levels as there are
  directories, and one.

  \<^bold>\<open>Arguments of the model.\<close> Record \<open>env\<close>: the generated protocol buffer code, the Ice property reader and the HTTP
  client. \<open>clock\<close>: the time and the times of files. \<open>turn\<close>, \<open>listen_calls\<close>, \<open>ice_runtime\<close>, \<open>system_calls\<close>: what
  sockets, the Ice run time and processes answer.

  \<^bold>\<open>Not modelled.\<close> Threads running at the same time (a turn of the loop, a request and a system call are steps), the inside
  of the Ice run time, UDP and SSL, connecting and forking themselves, the messages that wake the loop, code for
  other systems, and the two test programs but for the stream class that one of them defines. Files have no
  permissions or links, and an open descriptor is its inode and position.
\<close>

end
